(* ===== verification/Prelude.thy ===== *)
theory Prelude
  imports Main "HOL-Library.Word" "HOL-Library.Monad_Syntax"
begin

text \<open>
  Shared vocabulary of the development: bytes, the integer types of the target
  (x86-64, LP64: \<open>int\<close> is 32 bits, \<open>long\<close>, \<open>long long\<close>, \<open>size_t\<close> are 64 bits,
  \<open>char\<close> is signed), the wrap-around of each conversion, and the generic lemmas on
  lists and bytes that the component theories share.
\<close>

section \<open>Lemma collections\<close>

named_theorems c_int \<open>conversions between the C integer types\<close>
named_theorems format_simps \<open>the text of a printf format\<close>
named_theorems mem_simps \<open>reading memory after a write\<close>

section \<open>Bytes and machine integers\<close>

type_synonym byte = char

abbreviation NUL :: byte where
  "NUL \<equiv> CHR 0x00"

abbreviation newline :: byte where
  "newline \<equiv> CHR 0x0A"

definition int32 :: "int \<Rightarrow> int" where
  "int32 x = signed_take_bit 31 x"

definition int64 :: "int \<Rightarrow> int" where
  "int64 x = signed_take_bit 63 x"

definition uint8 :: "int \<Rightarrow> int" where
  "uint8 x = take_bit 8 x"

definition uint32 :: "int \<Rightarrow> int" where
  "uint32 x = take_bit 32 x"

definition uint64 :: "int \<Rightarrow> int" where
  "uint64 x = take_bit 64 x"

text \<open>A \<open>char\<close> used in an expression is promoted to \<open>int\<close> with its sign; the cast
  \<open>(unsigned char)\<close> reads the same byte without it.\<close>

definition schar :: "byte \<Rightarrow> int" where
  "schar c = signed_take_bit 7 (of_char c)"

definition uchar :: "byte \<Rightarrow> int" where
  "uchar c = of_char c"

definition to_char :: "int \<Rightarrow> byte" where
  "to_char x = char_of x"

definition EOF :: int where
  "EOF = -1"

lemma uchar_bounds: "0 \<le> uchar c" "uchar c < 256"
proof -
  have "uchar c = int (of_char c)" by (simp add: uchar_def of_nat_of_char)
  moreover have "(of_char c :: nat) < 256" by simp
  ultimately show "0 \<le> uchar c" "uchar c < 256" by simp_all
qed

lemma uchar_inj [simp]: "uchar c = uchar d \<longleftrightarrow> c = d"
  by (simp add: uchar_def)

lemma to_char_uchar [simp]: "to_char (uchar c) = c"
  by (simp add: to_char_def uchar_def)

lemma to_char_0 [simp]: "to_char 0 = NUL"
  using to_char_uchar [of NUL] by (simp add: uchar_def del: to_char_uchar)

lemma uchar_to_char: "uchar (to_char x) = x mod 256"
  by (simp add: to_char_def uchar_def)

lemma uchar_not_EOF [simp]: "uchar c \<noteq> EOF" "EOF \<noteq> uchar c"
  using uchar_bounds [of c] by (auto simp: EOF_def)

lemma int32_id [c_int]: "- (2 ^ 31) \<le> x \<Longrightarrow> x < 2 ^ 31 \<Longrightarrow> int32 x = x"
  by (simp add: int32_def signed_take_bit_int_eq_self)

lemma int64_id [c_int]: "- (2 ^ 63) \<le> x \<Longrightarrow> x < 2 ^ 63 \<Longrightarrow> int64 x = x"
  by (simp add: int64_def signed_take_bit_int_eq_self)

lemma uint32_id [c_int]: "0 \<le> x \<Longrightarrow> x < 2 ^ 32 \<Longrightarrow> uint32 x = x"
  by (simp add: uint32_def take_bit_int_eq_self)

lemma uint64_id [c_int]: "0 \<le> x \<Longrightarrow> x < 2 ^ 64 \<Longrightarrow> uint64 x = x"
  by (simp add: uint64_def take_bit_int_eq_self)

lemma uint64_bounds: "0 \<le> uint64 x" "uint64 x < 2 ^ 64"
  using take_bit_int_less_exp [of 64 x] by (simp_all add: uint64_def)

lemma uint64_mod: "uint64 x = x mod 2 ^ 64"
  by (simp add: uint64_def take_bit_eq_mod)

lemma int64_bounds: "- (2 ^ 63) \<le> int64 x" "int64 x < 2 ^ 63"
  using signed_take_bit_int_greater_eq_minus_exp [of 63 x]
    signed_take_bit_int_less_exp [of 63 x]
  by (simp_all add: int64_def)

lemma int32_bounds: "- (2 ^ 31) \<le> int32 x" "int32 x < 2 ^ 31"
  using signed_take_bit_int_greater_eq_minus_exp [of 31 x]
    signed_take_bit_int_less_exp [of 31 x]
  by (simp_all add: int32_def)

section \<open>C strings as lists\<close>

text \<open>
  A \<open>const char *\<close> that points into a NUL-terminated string is a \<open>string\<close> without its
  terminator and an index; \<open>peek s i\<close> is the byte \<open>s[i]\<close>, the terminator included.
  The code never reads behind the terminator, so the value of \<open>peek\<close> there does not matter.
\<close>

definition peek :: "string \<Rightarrow> nat \<Rightarrow> byte" where
  "peek s i = (if i < length s then s ! i else NUL)"

lemma peek_simps [simp]:
  "peek [] i = NUL"
  "peek (c # s) 0 = c"
  "peek (c # s) (Suc i) = peek s i"
  "peek s (length s) = NUL"
  by (simp_all add: peek_def)

lemma peek_drop: "peek (drop n s) i = peek s (n + i)"
  by (auto simp: peek_def)

lemma peek_append_left: "i < length s \<Longrightarrow> peek (s @ t) i = s ! i"
  by (simp add: peek_def nth_append)

lemma peek_append_right: "peek (s @ t) (length s + i) = peek t i"
  by (auto simp: peek_def nth_append)

lemma peek_eq_NUL_iff: "NUL \<notin> set s \<Longrightarrow> peek s i = NUL \<longleftrightarrow> length s \<le> i"
  by (auto simp: peek_def in_set_conv_nth)

lemma drop_peek: "i < length s \<Longrightarrow> drop i s = peek s i # drop (Suc i) s"
  by (simp add: peek_def Cons_nth_drop_Suc)

section \<open>Function updates and words\<close>

lemma fold_fun_upd [simp]: "(\<lambda>a. if a = d then c else m a) = m(d := c)"
  by (auto simp: fun_upd_def)

lemma unat_pred: "n \<noteq> 0 \<Longrightarrow> unat (n - 1 :: 'a::len word) = unat n - 1"
  by (rule unat_minus_one)

lemma unat_pos: "n \<noteq> (0 :: 'a::len word) \<Longrightarrow> unat n = Suc (unat (n - 1))"
  by (simp add: unat_pred unat_gt_0)

lemma unat_of_nat_le: "k \<le> unat (n :: 'a::len word) \<Longrightarrow> unat (of_nat k :: 'a word) = k"
proof -
  assume "k \<le> unat n"
  then have "k < 2 ^ LENGTH('a)" by (rule le_less_trans [OF _ unsigned_less])
  then show ?thesis by (simp add: unat_of_nat)
qed

lemma unat_diff_of_nat:
  "k \<le> unat (n :: 'a::len word) \<Longrightarrow> unat (n - of_nat k) = unat n - k"
  by (simp add: unat_sub word_le_nat_alt unat_of_nat_le)

section \<open>Splitting a text\<close>

text \<open>The parts of a text between the occurrences of a separator.\<close>

fun split_on :: "char \<Rightarrow> string \<Rightarrow> string list" where
  "split_on d [] = [[]]"
| "split_on d (c # cs) = (if c = d then [] # split_on d cs
     else (c # hd (split_on d cs)) # tl (split_on d cs))"

lemma split_on_step:
  "split_on d p = takeWhile (\<lambda>c. c \<noteq> d) p # (case dropWhile (\<lambda>c. c \<noteq> d) p of [] \<Rightarrow> [] | _ # rest \<Rightarrow> split_on d rest)"
  by (induction p) simp_all

lemma split_on_not_Nil [simp]: "split_on d p \<noteq> []"
  by (cases p) simp_all

lemma split_on_plain: "d \<notin> set p \<Longrightarrow> split_on d p = [p]"
  by (induction p) auto

lemma split_on_append: "d \<notin> set p \<Longrightarrow> split_on d (p @ d # q) = p # split_on d q"
  by (induction p) auto

lemma split_on_parts: "x \<in> set (split_on d p) \<Longrightarrow> d \<notin> set x"
proof (induction p arbitrary: x)
  case (Cons c p)
  have "set (split_on d p) = insert (hd (split_on d p)) (set (tl (split_on d p)))" by (cases "split_on d p") auto
  then show ?case using Cons by (auto split: if_splits)
qed simp

end
