(* ===== verification/Ctype.thy ===== *)
theory Ctype
  imports Prelude
begin

text \<open>
  \<open>userspace/libc/ctype.c\<close>: classification and case conversion of an \<open>int\<close> argument,
  one definition per function, written with the code's own comparisons of character codes.
\<close>

definition isdigit :: "int \<Rightarrow> bool" where
  "isdigit c \<longleftrightarrow> c \<ge> 48 \<and> c \<le> 57"

definition isupper :: "int \<Rightarrow> bool" where
  "isupper c \<longleftrightarrow> c \<ge> 65 \<and> c \<le> 90"

definition islower :: "int \<Rightarrow> bool" where
  "islower c \<longleftrightarrow> c \<ge> 97 \<and> c \<le> 122"

definition isalpha :: "int \<Rightarrow> bool" where
  "isalpha c \<longleftrightarrow> isupper c \<or> islower c"

definition isalnum :: "int \<Rightarrow> bool" where
  "isalnum c \<longleftrightarrow> isalpha c \<or> isdigit c"

definition isxdigit :: "int \<Rightarrow> bool" where
  "isxdigit c \<longleftrightarrow> isdigit c \<or> (c \<ge> 97 \<and> c \<le> 102) \<or> (c \<ge> 65 \<and> c \<le> 70)"

definition isspace :: "int \<Rightarrow> bool" where
  "isspace c \<longleftrightarrow> c = 32 \<or> c = 9 \<or> c = 10 \<or> c = 13 \<or> c = 12 \<or> c = 11"

definition isblank :: "int \<Rightarrow> bool" where
  "isblank c \<longleftrightarrow> c = 32 \<or> c = 9"

definition iscntrl :: "int \<Rightarrow> bool" where
  "iscntrl c \<longleftrightarrow> (c \<ge> 0 \<and> c \<le> 31) \<or> c = 127"

definition isprint :: "int \<Rightarrow> bool" where
  "isprint c \<longleftrightarrow> c \<ge> 32 \<and> c \<le> 126"

definition isgraph :: "int \<Rightarrow> bool" where
  "isgraph c \<longleftrightarrow> c > 32 \<and> c \<le> 126"

definition ispunct :: "int \<Rightarrow> bool" where
  "ispunct c \<longleftrightarrow> isgraph c \<and> \<not> isalnum c"

definition toupper :: "int \<Rightarrow> int" where
  "toupper c = (if islower c then c - (97 - 65) else c)"

definition tolower :: "int \<Rightarrow> int" where
  "tolower c = (if isupper c then c + (97 - 65) else c)"

lemmas ctype_defs =
  isdigit_def isupper_def islower_def isalpha_def isalnum_def isxdigit_def isspace_def
  isblank_def iscntrl_def isprint_def isgraph_def ispunct_def toupper_def tolower_def

text \<open>The classes partition the 7-bit range the way the C locale requires.\<close>

lemma ctype_partition:
  "0 \<le> c \<Longrightarrow> c \<le> 127 \<Longrightarrow> iscntrl c \<or> isprint c"
  "\<not> (iscntrl c \<and> isprint c)"
  "isprint c \<longleftrightarrow> c = 32 \<or> isalnum c \<or> ispunct c"
  "\<not> (isalnum c \<and> ispunct c)"
  "\<not> (isupper c \<and> islower c)"
  by (auto simp: ctype_defs)

lemma case_conversion:
  "isupper (toupper c) \<longleftrightarrow> isalpha c"
  "islower (tolower c) \<longleftrightarrow> isalpha c"
  "islower c \<Longrightarrow> tolower (toupper c) = c"
  "isupper c \<Longrightarrow> toupper (tolower c) = c"
  "\<not> isalpha c \<Longrightarrow> toupper c = c \<and> tolower c = c"
  by (auto simp: ctype_defs)

end
