(* ===== verification/CString.thy ===== *)
theory CString
  imports Prelude
begin

text \<open>
  \<open>userspace/libc/string.c\<close> and \<open>userspace/libc/memory.c\<close> on a byte-addressed memory.
  A pointer is a natural number (pointer arithmetic that leaves its object is undefined in
  C, so addresses do not wrap), a \<open>size_t\<close> is a 64-bit word that does wrap: \<open>strncmp\<close>
  relies on it. Loops that stop at a terminator are partial functions; loops that count a
  \<open>size_t\<close> down are total. The lemmas relate each routine to an operation on lists, which
  is how the callers of the library use it.
\<close>

section \<open>Memory\<close>

type_synonym mem = "nat \<Rightarrow> byte"
type_synonym size_t = "64 word"

definition bytes :: "mem \<Rightarrow> nat \<Rightarrow> nat \<Rightarrow> byte list" where
  "bytes m p n = map (\<lambda>i. m (p + i)) [0..<n]"

definition mem_write :: "mem \<Rightarrow> nat \<Rightarrow> byte list \<Rightarrow> mem" where
  "mem_write m p bs = (\<lambda>a. if p \<le> a \<and> a < p + length bs then bs ! (a - p) else m a)"

definition cstr :: "mem \<Rightarrow> nat \<Rightarrow> string \<Rightarrow> bool" where
  "cstr m p s \<longleftrightarrow> NUL \<notin> set s \<and> bytes m p (Suc (length s)) = s @ [NUL]"

section \<open>string.c\<close>

partial_function (option) strlen_loop :: "mem \<Rightarrow> nat \<Rightarrow> nat option" where
  "strlen_loop m p = (if m p \<noteq> NUL then strlen_loop m (p + 1) else Some p)"

definition strlen :: "mem \<Rightarrow> nat \<Rightarrow> nat option" where
  "strlen m s = do { p \<leftarrow> strlen_loop m s; Some (p - s) }"

partial_function (option) strcpy_loop :: "mem \<Rightarrow> nat \<Rightarrow> nat \<Rightarrow> mem option" where
  "strcpy_loop m d src =
     (let c = m src; m' = m(d := c)
      in if c \<noteq> NUL then strcpy_loop m' (d + 1) (src + 1) else Some m')"

definition strcpy :: "mem \<Rightarrow> nat \<Rightarrow> nat \<Rightarrow> (nat \<times> mem) option" where
  "strcpy m dest src = do { m' \<leftarrow> strcpy_loop m dest src; Some (dest, m') }"

text \<open>The first loop of \<open>strncpy\<close> leaves \<open>n\<close> as it was when it copies the terminator.\<close>

function strncpy_copy :: "mem \<Rightarrow> nat \<Rightarrow> nat \<Rightarrow> size_t \<Rightarrow> nat \<times> size_t \<times> mem" where
  "strncpy_copy m d src n =
     (if n = 0 then (d, n, m)
      else let c = m src; m' = m(d := c)
           in if c \<noteq> NUL then strncpy_copy m' (d + 1) (src + 1) (n - 1)
              else (d + 1, n, m'))"
  by pat_completeness auto
termination
  by (relation "measure (\<lambda>(m, d, src, n). unat n)") (auto simp: measure_unat)

function strncpy_pad :: "mem \<Rightarrow> nat \<Rightarrow> size_t \<Rightarrow> mem" where
  "strncpy_pad m d n = (if n = 0 then m else strncpy_pad (m(d := NUL)) (d + 1) (n - 1))"
  by pat_completeness auto
termination
  by (relation "measure (\<lambda>(m, d, n). unat n)") (auto simp: measure_unat)

definition strncpy :: "mem \<Rightarrow> nat \<Rightarrow> nat \<Rightarrow> size_t \<Rightarrow> nat \<times> mem" where
  "strncpy m dest src n =
     (let (d, n', m') = strncpy_copy m dest src n in (dest, strncpy_pad m' d n'))"

definition strcat :: "mem \<Rightarrow> nat \<Rightarrow> nat \<Rightarrow> (nat \<times> mem) option" where
  "strcat m dest src =
     do { d \<leftarrow> strlen_loop m dest; m' \<leftarrow> strcpy_loop m d src; Some (dest, m') }"

function strncat_copy :: "mem \<Rightarrow> nat \<Rightarrow> nat \<Rightarrow> size_t \<Rightarrow> nat \<times> mem" where
  "strncat_copy m d src n =
     (if n = 0 then (d, m)
      else let c = m src; m' = m(d := c)
           in if c \<noteq> NUL then strncat_copy m' (d + 1) (src + 1) (n - 1)
              else (d + 1, m'))"
  by pat_completeness auto
termination
  by (relation "measure (\<lambda>(m, d, src, n). unat n)") (auto simp: measure_unat)

definition strncat :: "mem \<Rightarrow> nat \<Rightarrow> nat \<Rightarrow> size_t \<Rightarrow> (nat \<times> mem) option" where
  "strncat m dest src n =
     do { d \<leftarrow> strlen_loop m dest;
          let (d', m') = strncat_copy m d src n;
          Some (dest, m'(d' := NUL)) }"

partial_function (option) strcmp :: "mem \<Rightarrow> nat \<Rightarrow> nat \<Rightarrow> int option" where
  "strcmp m s1 s2 =
     (if m s1 \<noteq> NUL \<and> m s1 = m s2 then strcmp m (s1 + 1) (s2 + 1)
      else Some (uchar (m s1) - uchar (m s2)))"

text \<open>The loop condition \<open>n-- && *s1 && *s1 == *s2\<close> decrements \<open>n\<close> even when it fails.\<close>

function strncmp_loop :: "mem \<Rightarrow> nat \<Rightarrow> nat \<Rightarrow> size_t \<Rightarrow> nat \<times> nat \<times> size_t" where
  "strncmp_loop m s1 s2 n =
     (if n \<noteq> 0 \<and> m s1 \<noteq> NUL \<and> m s1 = m s2
      then strncmp_loop m (s1 + 1) (s2 + 1) (n - 1)
      else (s1, s2, n - 1))"
  by pat_completeness auto
termination
  by (relation "measure (\<lambda>(m, s1, s2, n). unat n)") (auto simp: measure_unat)

definition strncmp :: "mem \<Rightarrow> nat \<Rightarrow> nat \<Rightarrow> size_t \<Rightarrow> int" where
  "strncmp m s1 s2 n =
     (let (p1, p2, n') = strncmp_loop m s1 s2 n
      in if n' = -1 then 0 else uchar (m p1) - uchar (m p2))"

text \<open>A \<open>char *\<close> result that may be null is an \<open>option\<close> inside the loop's own option.\<close>

partial_function (option) strchr_loop :: "mem \<Rightarrow> byte \<Rightarrow> nat \<Rightarrow> nat option option" where
  "strchr_loop m ch s =
     (if m s \<noteq> NUL then if m s = ch then Some (Some s) else strchr_loop m ch (s + 1)
      else Some (if ch = NUL then Some s else None))"

definition strchr :: "mem \<Rightarrow> nat \<Rightarrow> int \<Rightarrow> nat option option" where
  "strchr m s c = strchr_loop m (to_char c) s"

partial_function (option) strrchr_loop ::
    "mem \<Rightarrow> byte \<Rightarrow> nat option \<Rightarrow> nat \<Rightarrow> nat option option" where
  "strrchr_loop m ch found s =
     (if m s \<noteq> NUL then strrchr_loop m ch (if m s = ch then Some s else found) (s + 1)
      else Some (if ch = NUL then Some s else found))"

definition strrchr :: "mem \<Rightarrow> nat \<Rightarrow> int \<Rightarrow> nat option option" where
  "strrchr m s c = strrchr_loop m (to_char c) None s"

partial_function (option) strstr_match :: "mem \<Rightarrow> nat \<Rightarrow> nat \<Rightarrow> nat option" where
  "strstr_match m h n =
     (if m h \<noteq> NUL \<and> m n \<noteq> NUL \<and> m h = m n then strstr_match m (h + 1) (n + 1) else Some n)"

partial_function (option) strstr_loop :: "mem \<Rightarrow> nat \<Rightarrow> nat \<Rightarrow> nat option option" where
  "strstr_loop m haystack needle =
     (if m haystack \<noteq> NUL then
        do { n \<leftarrow> strstr_match m haystack needle;
             if m n = NUL then Some (Some haystack) else strstr_loop m (haystack + 1) needle }
      else Some None)"

definition strstr :: "mem \<Rightarrow> nat \<Rightarrow> nat \<Rightarrow> nat option option" where
  "strstr m haystack needle =
     (if m needle = NUL then Some (Some haystack) else strstr_loop m haystack needle)"

section \<open>memory.c\<close>

function memset_loop :: "mem \<Rightarrow> nat \<Rightarrow> byte \<Rightarrow> size_t \<Rightarrow> mem" where
  "memset_loop m p c n = (if n = 0 then m else memset_loop (m(p := c)) (p + 1) c (n - 1))"
  by pat_completeness auto
termination
  by (relation "measure (\<lambda>(m, p, c, n). unat n)") (auto simp: measure_unat)

definition memset :: "mem \<Rightarrow> nat \<Rightarrow> int \<Rightarrow> size_t \<Rightarrow> nat \<times> mem" where
  "memset m s c n = (s, memset_loop m s (to_char c) n)"

function copy_up :: "mem \<Rightarrow> nat \<Rightarrow> nat \<Rightarrow> size_t \<Rightarrow> mem" where
  "copy_up m d s n = (if n = 0 then m else copy_up (m(d := m s)) (d + 1) (s + 1) (n - 1))"
  by pat_completeness auto
termination
  by (relation "measure (\<lambda>(m, d, s, n). unat n)") (auto simp: measure_unat)

definition memcpy :: "mem \<Rightarrow> nat \<Rightarrow> nat \<Rightarrow> size_t \<Rightarrow> nat \<times> mem" where
  "memcpy m dest src n = (dest, copy_up m dest src n)"

function copy_down :: "mem \<Rightarrow> nat \<Rightarrow> nat \<Rightarrow> size_t \<Rightarrow> mem" where
  "copy_down m d s n =
     (if n = 0 then m
      else copy_down (m(d - 1 := m (s - 1))) (d - 1) (s - 1) (n - 1))"
  by pat_completeness auto
termination
  by (relation "measure (\<lambda>(m, d, s, n). unat n)") (auto simp: measure_unat)

definition memmove :: "mem \<Rightarrow> nat \<Rightarrow> nat \<Rightarrow> size_t \<Rightarrow> nat \<times> mem" where
  "memmove m dest src n =
     (if dest < src then (dest, copy_up m dest src n)
      else if dest > src then (dest, copy_down m (dest + unat n) (src + unat n) n)
      else (dest, m))"

function memcmp :: "mem \<Rightarrow> nat \<Rightarrow> nat \<Rightarrow> size_t \<Rightarrow> int" where
  "memcmp m a b n =
     (if n = 0 then 0
      else if m a \<noteq> m b then uchar (m a) - uchar (m b)
      else memcmp m (a + 1) (b + 1) (n - 1))"
  by pat_completeness auto
termination
  by (relation "measure (\<lambda>(m, a, b, n). unat n)") (auto simp: measure_unat)

function memchr_loop :: "mem \<Rightarrow> nat \<Rightarrow> byte \<Rightarrow> size_t \<Rightarrow> nat option" where
  "memchr_loop m p ch n =
     (if n = 0 then None
      else if m p = ch then Some p
      else memchr_loop m (p + 1) ch (n - 1))"
  by pat_completeness auto
termination
  by (relation "measure (\<lambda>(m, p, ch, n). unat n)") (auto simp: measure_unat)

definition memchr :: "mem \<Rightarrow> nat \<Rightarrow> int \<Rightarrow> size_t \<Rightarrow> nat option" where
  "memchr m s c n = memchr_loop m s (to_char c) n"

text \<open>The partial functions evaluate by their equation; those of the counting loops unfold
  without end as rewrite rules.\<close>

declare strlen_loop.simps [code] strcpy_loop.simps [code] strcmp.simps [code]
  strchr_loop.simps [code] strrchr_loop.simps [code] strstr_match.simps [code]
  strstr_loop.simps [code]

declare strncpy_copy.simps [simp del] strncpy_pad.simps [simp del] strncat_copy.simps [simp del]
  strncmp_loop.simps [simp del] memset_loop.simps [simp del] copy_up.simps [simp del]
  copy_down.simps [simp del] memcmp.simps [simp del] memchr_loop.simps [simp del]

section \<open>Memory lemmas\<close>

lemma length_bytes [simp]: "length (bytes m p n) = n"
  by (simp add: bytes_def)

lemma nth_bytes [simp]: "i < n \<Longrightarrow> bytes m p n ! i = m (p + i)"
  by (simp add: bytes_def)

lemma bytes_0 [simp]: "bytes m p 0 = []"
  by (simp add: bytes_def)

lemma bytes_Suc: "bytes m p (Suc n) = m p # bytes m (Suc p) n"
  by (rule nth_equalityI) (auto simp: nth_Cons split: nat.split)

lemma bytes_Suc_snoc: "bytes m p (Suc n) = bytes m p n @ [m (p + n)]"
  by (simp add: bytes_def)

lemma bytes_cong: "(\<And>i. i < n \<Longrightarrow> m (p + i) = m' (p + i)) \<Longrightarrow> bytes m p n = bytes m' p n"
  by (simp add: bytes_def)

lemma bytes_upd [mem_simps]: "a < p \<or> p + n \<le> a \<Longrightarrow> bytes (m(a := c)) p n = bytes m p n"
  by (rule bytes_cong) auto

lemma take_bytes: "take k (bytes m p n) = bytes m p (min k n)"
  by (rule nth_equalityI) auto

lemma mem_write_Nil [simp]: "mem_write m p [] = m"
  by (rule ext) (auto simp: mem_write_def)

lemma mem_write_Cons: "mem_write m p (b # bs) = mem_write (m(p := b)) (Suc p) bs"
  by (rule ext) (auto simp: mem_write_def nth_Cons')

lemma mem_write_snoc: "mem_write m p (bs @ [b]) = (mem_write m p bs)(p + length bs := b)"
  by (rule ext) (auto simp: mem_write_def nth_append)

lemma mem_write_snoc_first:
  "mem_write m p (bs @ [b]) = mem_write (m(p + length bs := b)) p bs"
  by (rule ext) (auto simp: mem_write_def nth_append)

lemma mem_write_append: "mem_write m p (xs @ ys) = mem_write (mem_write m p xs) (p + length xs) ys"
  by (rule ext) (auto simp: mem_write_def nth_append)

lemma mem_write_out [mem_simps]: "a < p \<or> p + length bs \<le> a \<Longrightarrow> mem_write m p bs a = m a"
  by (auto simp: mem_write_def)

lemma mem_write_in [mem_simps]: "i < length bs \<Longrightarrow> mem_write m p bs (p + i) = bs ! i"
  by (simp add: mem_write_def)

lemma bytes_mem_write [mem_simps]: "bytes (mem_write m p bs) p (length bs) = bs"
  by (rule nth_equalityI) (auto simp: mem_write_def)

lemma bytes_mem_write_disjoint [mem_simps]:
  "q + n \<le> p \<or> p + length bs \<le> q \<Longrightarrow> bytes (mem_write m p bs) q n = bytes m q n"
  by (rule bytes_cong) (auto simp: mem_write_def)

lemma mem_write_bytes_self: "mem_write m p (bytes m p n) = m"
  by (rule ext) (auto simp: mem_write_def)

lemma cstr_Nil [simp]: "cstr m p [] \<longleftrightarrow> m p = NUL"
  by (simp add: cstr_def bytes_Suc)

lemma cstr_Cons [simp]: "cstr m p (c # s) \<longleftrightarrow> c \<noteq> NUL \<and> m p = c \<and> cstr m (Suc p) s"
  by (auto simp: cstr_def bytes_Suc)

lemma cstr_no_NUL: "cstr m p s \<Longrightarrow> NUL \<notin> set s"
  by (simp add: cstr_def)

lemma cstr_peek: "cstr m p s \<Longrightarrow> i \<le> length s \<Longrightarrow> m (p + i) = peek s i"
proof (induction s arbitrary: p i)
  case (Cons c s)
  then show ?case by (cases i) force+
qed simp

lemma cstr_upd [mem_simps]: "a < p \<or> p + length s < a \<Longrightarrow> cstr (m(a := c)) p s = cstr m p s"
  by (auto simp: cstr_def bytes_upd)

lemma cstr_mem_write_self: "NUL \<notin> set s \<Longrightarrow> cstr (mem_write m p (s @ [NUL])) p s"
  using bytes_mem_write [of m p "s @ [NUL]"] by (simp add: cstr_def)

lemma cstr_mem_write [mem_simps]:
  "p + length s < q \<or> q + length bs \<le> p \<Longrightarrow> cstr (mem_write m q bs) p s = cstr m p s"
  by (auto simp: cstr_def bytes_mem_write_disjoint)

section \<open>Strings: the routines against lists\<close>

lemma strlen_loop_cstr: "cstr m p s \<Longrightarrow> strlen_loop m p = Some (p + length s)"
proof (induction s arbitrary: p)
  case Nil
  then show ?case by (simp add: strlen_loop.simps)
next
  case (Cons c s)
  then show ?case by (subst strlen_loop.simps) auto
qed

lemma strlen_cstr: "cstr m p s \<Longrightarrow> strlen m p = Some (length s)"
  by (simp add: strlen_def strlen_loop_cstr)

text \<open>
  \<open>strcpy\<close> reads and writes the same memory: the source must not be hit by the bytes
  already copied. Moving a string down onto itself is allowed.
\<close>

lemma strcpy_loop_cstr:
  "cstr m src s \<Longrightarrow> d \<le> src \<or> src + length s < d
   \<Longrightarrow> strcpy_loop m d src = Some (mem_write m d (s @ [NUL]))"
proof (induction s arbitrary: m d src)
  case Nil
  then show ?case by (simp add: strcpy_loop.simps mem_write_Cons fun_upd_idem_iff Let_def)
next
  case (Cons c s)
  then have "cstr (m(d := c)) (Suc src) s" by (auto simp: mem_simps)
  with Cons have "strcpy_loop (m(d := c)) (Suc d) (Suc src)
      = Some (mem_write (m(d := c)) (Suc d) (s @ [NUL]))"
    by auto
  with Cons.prems show ?case by (subst strcpy_loop.simps) (simp add: Let_def mem_write_Cons)
qed

lemma strcpy_cstr:
  "cstr m src s \<Longrightarrow> dest \<le> src \<or> src + length s < dest
   \<Longrightarrow> strcpy m dest src = Some (dest, mem_write m dest (s @ [NUL]))"
  by (simp add: strcpy_def strcpy_loop_cstr)

lemma strcat_cstr:
  assumes "cstr m dest t" and "cstr m src s"
    and "dest + length t \<le> src \<or> src + length s < dest + length t"
  shows "strcat m dest src = Some (dest, mem_write m (dest + length t) (s @ [NUL]))"
  using strlen_loop_cstr [OF assms(1)] strcpy_loop_cstr [OF assms(2,3)]
  by (simp add: strcat_def)

lemma strncpy_pad_eq: "strncpy_pad m d n = mem_write m d (replicate (unat n) NUL)"
proof (induction m d n rule: strncpy_pad.induct)
  case (1 m d n)
  then show ?case
    using unat_pos [of n] by (subst strncpy_pad.simps) (auto simp: mem_write_Cons)
qed

lemma strncpy_copy_short:
  "cstr m src s \<Longrightarrow> length s < unat n \<Longrightarrow> d \<le> src \<or> src + length s < d
   \<Longrightarrow> strncpy_copy m d src n
       = (d + length s + 1, n - of_nat (length s), mem_write m d (s @ [NUL]))"
proof (induction s arbitrary: m d src n)
  case Nil
  then have "n \<noteq> 0" by auto
  with Nil show ?case by (subst strncpy_copy.simps) (auto simp: mem_write_Cons Let_def)
next
  case (Cons c s)
  then have n: "n \<noteq> 0" by auto
  have "cstr (m(d := c)) (Suc src) s" using Cons.prems by (auto simp: mem_simps)
  with Cons n have "strncpy_copy (m(d := c)) (Suc d) (Suc src) (n - 1)
      = (Suc d + length s + 1, n - 1 - of_nat (length s), mem_write (m(d := c)) (Suc d) (s @ [NUL]))"
    by (intro Cons.IH) (auto simp: unat_pred)
  with Cons.prems n show ?case
    by (subst strncpy_copy.simps) (auto simp: Let_def mem_write_Cons)
qed

lemma strncpy_copy_long:
  "cstr m src s \<Longrightarrow> unat n \<le> length s \<Longrightarrow> d \<le> src \<or> src + length s < d
   \<Longrightarrow> strncpy_copy m d src n = (d + unat n, 0, mem_write m d (take (unat n) s))"
proof (induction s arbitrary: m d src n)
  case Nil
  then show ?case by (subst strncpy_copy.simps) (auto simp: unat_eq_0)
next
  case (Cons c s)
  show ?case
  proof (cases "n = 0")
    case True
    then show ?thesis by (subst strncpy_copy.simps) simp
  next
    case n: False
    have "cstr (m(d := c)) (Suc src) s" using Cons.prems by (auto simp: mem_simps)
    with Cons n have "strncpy_copy (m(d := c)) (Suc d) (Suc src) (n - 1)
        = (Suc d + unat (n - 1), 0, mem_write (m(d := c)) (Suc d) (take (unat (n - 1)) s))"
      by (intro Cons.IH) (auto simp: unat_pred)
    with Cons.prems n show ?thesis
      by (subst strncpy_copy.simps) (auto simp: Let_def mem_write_Cons unat_pos [OF n])
  qed
qed

text \<open>
  What \<open>strncpy\<close> writes: the first \<open>n\<close> bytes of a source at least that long, and for a
  shorter source the string and padding of \<open>n + 1\<close> bytes in all, one more than it may.
\<close>

lemma strncpy_long:
  "cstr m src s \<Longrightarrow> unat n \<le> length s \<Longrightarrow> dest \<le> src \<or> src + length s < dest
   \<Longrightarrow> strncpy m dest src n = (dest, mem_write m dest (take (unat n) s))"
  by (simp add: strncpy_def strncpy_copy_long strncpy_pad_eq)

lemma strncpy_short:
  assumes "cstr m src s" and "length s < unat n" and "dest \<le> src \<or> src + length s < dest"
  shows "strncpy m dest src n
           = (dest, mem_write m dest (s @ replicate (Suc (unat n - length s)) NUL))"
proof -
  have "unat (n - of_nat (length s)) = unat n - length s"
    using assms(2) by (simp add: unat_diff_of_nat)
  moreover have "s @ replicate (Suc k) NUL = (s @ [NUL]) @ replicate k NUL" for k by simp
  ultimately show ?thesis
    using strncpy_copy_short [OF assms]
    by (simp only: strncpy_def strncpy_pad_eq mem_write_append) simp
qed

subsection \<open>Bounded append\<close>

lemma strncat_copy_short:
  "cstr m src s \<Longrightarrow> length s < unat n \<Longrightarrow> d \<le> src \<or> src + length s < d
   \<Longrightarrow> strncat_copy m d src n = (d + length s + 1, mem_write m d (s @ [NUL]))"
proof (induction s arbitrary: m d src n)
  case Nil
  then have "n \<noteq> 0" by auto
  with Nil show ?case by (subst strncat_copy.simps) (auto simp: mem_write_Cons Let_def)
next
  case (Cons c s)
  then have n: "n \<noteq> 0" by auto
  have "cstr (m(d := c)) (Suc src) s" using Cons.prems by (auto simp: mem_simps)
  with Cons n have "strncat_copy (m(d := c)) (Suc d) (Suc src) (n - 1)
      = (Suc d + length s + 1, mem_write (m(d := c)) (Suc d) (s @ [NUL]))"
    by (intro Cons.IH) (auto simp: unat_pred)
  with Cons.prems n show ?case
    by (subst strncat_copy.simps) (auto simp: Let_def mem_write_Cons)
qed

lemma strncat_copy_long:
  "cstr m src s \<Longrightarrow> unat n \<le> length s \<Longrightarrow> d \<le> src \<or> src + length s < d
   \<Longrightarrow> strncat_copy m d src n = (d + unat n, mem_write m d (take (unat n) s))"
proof (induction s arbitrary: m d src n)
  case Nil
  then show ?case by (subst strncat_copy.simps) (auto simp: unat_eq_0)
next
  case (Cons c s)
  show ?case
  proof (cases "n = 0")
    case True
    then show ?thesis by (subst strncat_copy.simps) simp
  next
    case n: False
    have "cstr (m(d := c)) (Suc src) s" using Cons.prems by (auto simp: mem_simps)
    with Cons n have "strncat_copy (m(d := c)) (Suc d) (Suc src) (n - 1)
        = (Suc d + unat (n - 1), mem_write (m(d := c)) (Suc d) (take (unat (n - 1)) s))"
      by (intro Cons.IH) (auto simp: unat_pred)
    with Cons.prems n show ?thesis
      by (subst strncat_copy.simps) (auto simp: Let_def mem_write_Cons unat_pos [OF n])
  qed
qed

lemma strncat_cstr:
  assumes "cstr m dest t" and "cstr m src s"
    and "dest + length t \<le> src \<or> src + length s < dest + length t"
  shows "strncat m dest src n =
    Some (dest, mem_write m (dest + length t)
      (if unat n \<le> length s then take (unat n) s @ [NUL] else s @ [NUL, NUL]))"
proof (cases "unat n \<le> length s")
  case True
  then show ?thesis
    using strlen_loop_cstr [OF assms(1)] strncat_copy_long [OF assms(2) True assms(3)]
    by (simp add: strncat_def mem_write_snoc)
next
  case False
  then have "length s < unat n" by simp
  then have "strncat_copy m (dest + length t) src n
      = (dest + length t + length s + 1, mem_write m (dest + length t) (s @ [NUL]))"
    using strncat_copy_short [OF assms(2) _ assms(3)] by simp
  moreover have "mem_write m d (s @ [NUL, NUL])
      = (mem_write m d (s @ [NUL]))(d + length s + 1 := NUL)" for d
    using mem_write_snoc [of m d "s @ [NUL]" NUL] by simp
  ultimately show ?thesis
    using strlen_loop_cstr [OF assms(1)] False by (simp add: strncat_def)
qed

subsection \<open>Comparison\<close>

text \<open>The reference comparison: the difference of the first two bytes that differ, where the
  terminator counts as byte 0.\<close>

fun cmp_str :: "string \<Rightarrow> string \<Rightarrow> int" where
  "cmp_str [] [] = 0"
| "cmp_str [] (b # t) = - uchar b"
| "cmp_str (a # s) [] = uchar a"
| "cmp_str (a # s) (b # t) = (if a = b then cmp_str s t else uchar a - uchar b)"

lemma uchar_NUL [simp]: "uchar NUL = 0"
  by (simp add: uchar_def)

lemma uchar_eq_0_iff [simp]: "uchar c = 0 \<longleftrightarrow> c = NUL"
  using uchar_inj [of c NUL] by (simp del: uchar_inj)

lemma cmp_str_eq_0_iff: "NUL \<notin> set s \<Longrightarrow> NUL \<notin> set t \<Longrightarrow> cmp_str s t = 0 \<longleftrightarrow> s = t"
  by (induction s t rule: cmp_str.induct) auto

lemma cmp_str_antisym: "cmp_str t s = - cmp_str s t"
  by (induction s t rule: cmp_str.induct) auto

lemma cmp_str_less_iff:
  "NUL \<notin> set s \<Longrightarrow> NUL \<notin> set t \<Longrightarrow> cmp_str s t < 0 \<longleftrightarrow> ord.lexordp (\<lambda>a b. uchar a < uchar b) s t"
proof (induction s t rule: cmp_str.induct)
  case (2 b t)
  then have "uchar b \<noteq> 0" by auto
  with uchar_bounds [of b] show ?case by (simp add: ord.lexordp_simps del: uchar_eq_0_iff)
next
  case (3 a s)
  then show ?case using uchar_bounds [of a] by (simp add: ord.lexordp_simps)
next
  case (4 a s b t)
  then show ?case by (auto simp: ord.lexordp_simps not_less_iff_gr_or_eq)
qed (simp add: ord.lexordp_simps)

lemma strcmp_cstr: "cstr m p s \<Longrightarrow> cstr m q t \<Longrightarrow> strcmp m p q = Some (cmp_str s t)"
proof (induction s t arbitrary: p q rule: cmp_str.induct)
  case (4 a s b t)
  then show ?case by (subst strcmp.simps) auto
qed (subst strcmp.simps, auto)+

text \<open>\<open>strncmp\<close> compares the first \<open>n\<close> bytes, and its wrapped counter tells a string that
  ran out from a count that did.\<close>

lemma strncmp_loop_cstr:
  assumes "cstr m p s" and "cstr m q t"
  shows "case strncmp_loop m p q n of (p', q', n') \<Rightarrow>
    (if n' = -1 then 0 else uchar (m p') - uchar (m q')) = cmp_str (take (unat n) s) (take (unat n) t)"
  using assms
proof (induction m p q n arbitrary: s t rule: strncmp_loop.induct)
  case (1 m p q n)
  show ?case
  proof (cases "n = 0")
    case True
    then show ?thesis by (subst strncmp_loop.simps) simp
  next
    case n: False
    then have last: "n - 1 \<noteq> -1" using diff_add_cancel [of n 1] by force
    show ?thesis
    proof (cases "m p \<noteq> NUL \<and> m p = m q")
      case True
      then have c: "m p \<noteq> NUL" "m q = m p" by auto
      obtain s' where s': "s = m p # s'" "cstr m (p + 1) s'"
        using "1.prems"(1) c by (cases s) auto
      obtain t' where t': "t = m p # t'" "cstr m (q + 1) t'"
        using "1.prems"(2) c by (cases t) auto
      obtain k where k: "unat n = Suc k" "unat (n - 1) = k" using unat_pos [OF n] by blast
      have "strncmp_loop m p q n = strncmp_loop m (p + 1) (q + 1) (n - 1)"
        using n c by (subst strncmp_loop.simps) simp
      then show ?thesis
        using "1.IH" [OF _ s'(2) t'(2)] n c k by (simp add: s'(1) t'(1) split: prod.splits)
    next
      case False
      moreover obtain k where "unat n = Suc k" using unat_pos [OF n] by blast
      ultimately show ?thesis using "1.prems" n last
        by (subst strncmp_loop.simps) (cases s; cases t; auto)
    qed
  qed
qed

lemma strncmp_cstr:
  "cstr m p s \<Longrightarrow> cstr m q t \<Longrightarrow> strncmp m p q n = cmp_str (take (unat n) s) (take (unat n) t)"
  using strncmp_loop_cstr [of m p s q t n] by (auto simp: strncmp_def split: prod.splits)

subsection \<open>Searching\<close>

text \<open>The callers use the position found, relative to the start of the string.\<close>

fun find_char :: "byte \<Rightarrow> string \<Rightarrow> nat option" where
  "find_char c [] = None"
| "find_char c (a # s) = (if a = c then Some 0 else map_option Suc (find_char c s))"

fun find_last_char :: "byte \<Rightarrow> string \<Rightarrow> nat option" where
  "find_last_char c [] = None"
| "find_last_char c (a # s) =
     (case find_last_char c s of
        Some i \<Rightarrow> Some (Suc i)
      | None \<Rightarrow> if a = c then Some 0 else None)"

fun find_sub :: "string \<Rightarrow> string \<Rightarrow> nat option" where
  "find_sub needle [] = None"
| "find_sub needle (a # s) =
     (if take (length needle) (a # s) = needle then Some 0
      else map_option Suc (find_sub needle s))"

lemma find_char_None_iff [simp]: "find_char c s = None \<longleftrightarrow> c \<notin> set s"
  by (induction s) auto

lemma find_char_SomeD:
  "find_char c s = Some i \<Longrightarrow> i < length s \<and> s ! i = c \<and> c \<notin> set (take i s)"
  by (induction s arbitrary: i) (auto split: if_splits)

lemma find_char_append: "c \<notin> set s \<Longrightarrow> find_char c (s @ c # t) = Some (length s)"
  by (induction s) auto

lemma find_last_char_None_iff [simp]: "find_last_char c s = None \<longleftrightarrow> c \<notin> set s"
  by (induction s) (auto split: option.splits)

lemma find_last_char_SomeD:
  "find_last_char c s = Some i \<Longrightarrow> i < length s \<and> s ! i = c \<and> c \<notin> set (drop (Suc i) s)"
  by (induction s arbitrary: i) (auto split: option.splits if_splits)

lemma find_sub_SomeD:
  "find_sub n h = Some i \<Longrightarrow> i < length h \<and> take (length n) (drop i h) = n"
  by (induction h arbitrary: i) (auto split: if_splits)

lemma find_sub_least:
  "find_sub n h = Some i \<Longrightarrow> j < i \<Longrightarrow> take (length n) (drop j h) \<noteq> n"
proof (induction h arbitrary: i j)
  case (Cons a h)
  then show ?case by (cases j) (auto split: if_splits)
qed simp

lemma find_sub_None:
  "find_sub n h = None \<Longrightarrow> j < length h \<Longrightarrow> take (length n) (drop j h) \<noteq> n"
proof (induction h arbitrary: j)
  case (Cons a h)
  then show ?case by (cases j) (auto split: if_splits)
qed simp

lemma strchr_loop_cstr:
  "cstr m p s \<Longrightarrow> c \<noteq> NUL \<Longrightarrow>
   strchr_loop m c p = Some (map_option (\<lambda>i. p + i) (find_char c s))"
proof (induction s arbitrary: p)
  case Nil
  then show ?case by (simp add: strchr_loop.simps)
next
  case (Cons a s)
  then show ?case
    by (subst strchr_loop.simps) (cases "find_char c s"; auto simp del: find_char_None_iff)
qed

lemma strchr_loop_NUL: "cstr m p s \<Longrightarrow> strchr_loop m NUL p = Some (Some (p + length s))"
proof (induction s arbitrary: p)
  case Nil
  then show ?case by (simp add: strchr_loop.simps)
next
  case (Cons a s)
  then show ?case by (subst strchr_loop.simps) auto
qed

lemma strchr_cstr:
  assumes "cstr m p s"
  shows "strchr m p c = Some (if to_char c = NUL then Some (p + length s)
    else map_option (\<lambda>i. p + i) (find_char (to_char c) s))"
  using strchr_loop_cstr [OF assms] strchr_loop_NUL [OF assms] by (simp add: strchr_def)

lemma strrchr_loop_cstr:
  "cstr m p s \<Longrightarrow> strrchr_loop m c found p =
   Some (if c = NUL then Some (p + length s)
     else case find_last_char c s of Some i \<Rightarrow> Some (p + i) | None \<Rightarrow> found)"
proof (induction s arbitrary: p found)
  case Nil
  then show ?case by (simp add: strrchr_loop.simps)
next
  case (Cons a s)
  then show ?case
    by (subst strrchr_loop.simps)
      (cases "find_last_char c s"; auto simp del: find_last_char_None_iff)
qed

lemma strrchr_cstr:
  "cstr m p s \<Longrightarrow> strrchr m p c =
   Some (if to_char c = NUL then Some (p + length s)
     else map_option (\<lambda>i. p + i) (find_last_char (to_char c) s))"
  by (simp add: strrchr_def strrchr_loop_cstr split: option.splits)

lemma strstr_match_cstr:
  "cstr m h s \<Longrightarrow> cstr m q t \<Longrightarrow>
   \<exists>n. strstr_match m h q = Some n \<and> (m n = NUL \<longleftrightarrow> take (length t) s = t)"
proof (induction t arbitrary: h s q)
  case Nil
  then show ?case by (subst strstr_match.simps) auto
next
  case (Cons b t)
  then show ?case
    by (subst strstr_match.simps) (cases s; auto)
qed

lemma strstr_loop_cstr:
  "cstr m h s \<Longrightarrow> cstr m q t \<Longrightarrow>
   strstr_loop m h q = Some (map_option (\<lambda>i. h + i) (find_sub t s))"
proof (induction s arbitrary: h)
  case Nil
  then show ?case by (simp add: strstr_loop.simps)
next
  case (Cons a s)
  obtain n where "strstr_match m h q = Some n" "m n = NUL \<longleftrightarrow> take (length t) (a # s) = t"
    using strstr_match_cstr [OF Cons.prems] by blast
  with Cons show ?case
    by (subst strstr_loop.simps) (auto simp: map_option_case split: option.splits)
qed

lemma strstr_cstr:
  "cstr m h s \<Longrightarrow> cstr m q t \<Longrightarrow>
   strstr m h q = Some (if t = [] then Some h else map_option (\<lambda>i. h + i) (find_sub t s))"
  by (cases t) (auto simp: strstr_def strstr_loop_cstr)

section \<open>Memory blocks: the routines against lists\<close>

lemma memset_loop_eq: "memset_loop m p c n = mem_write m p (replicate (unat n) c)"
proof (induction m p c n rule: memset_loop.induct)
  case (1 m p c n)
  then show ?case
    using unat_pos [of n] by (subst memset_loop.simps) (auto simp: mem_write_Cons)
qed

lemma memset_eq: "memset m s c n = (s, mem_write m s (replicate (unat n) (to_char c)))"
  by (simp add: memset_def memset_loop_eq)

lemma copy_up_eq:
  "d \<le> s \<or> s + unat n \<le> d \<Longrightarrow> copy_up m d s n = mem_write m d (bytes m s (unat n))"
proof (induction m d s n rule: copy_up.induct)
  case (1 m d s n)
  show ?case
  proof (cases "n = 0")
    case True
    then show ?thesis by (subst copy_up.simps) simp
  next
    case n: False
    obtain k where k: "unat n = Suc k" "unat (n - 1) = k" using unat_pos [OF n] by blast
    have "copy_up (m(d := m s)) (d + 1) (s + 1) (n - 1)
        = mem_write (m(d := m s)) (d + 1) (bytes (m(d := m s)) (s + 1) k)"
      using "1.IH" [OF n] "1.prems" k by auto
    moreover have "bytes (m(d := m s)) (s + 1) k = bytes m (s + 1) k"
      using "1.prems" k by (intro bytes_upd) auto
    ultimately show ?thesis
      using n k by (subst copy_up.simps) (simp add: bytes_Suc mem_write_Cons)
  qed
qed

lemma copy_down_eq:
  "s \<le> d \<or> d + unat n \<le> s
   \<Longrightarrow> copy_down m (d + unat n) (s + unat n) n = mem_write m d (bytes m s (unat n))"
proof (induction k \<equiv> "unat n" arbitrary: n m)
  case 0
  then show ?case by (subst copy_down.simps) (simp add: unat_eq_0)
next
  case (Suc k)
  then have n: "n \<noteq> 0" by auto
  have k: "unat n = Suc k" "unat (n - 1) = k"
    using Suc.hyps(2) unat_pred [OF n] by simp_all
  let ?m = "m(d + k := m (s + k))"
  have "copy_down ?m (d + unat (n - 1)) (s + unat (n - 1)) (n - 1)
      = mem_write ?m d (bytes ?m s (unat (n - 1)))"
    using Suc.prems k by (intro Suc.hyps(1)) auto
  then have "copy_down ?m (d + k) (s + k) (n - 1) = mem_write ?m d (bytes ?m s k)"
    by (simp only: k)
  moreover have "bytes ?m s k = bytes m s k"
    using Suc.prems k by (intro bytes_upd) auto
  moreover have "mem_write m d (bytes m s (Suc k)) = mem_write ?m d (bytes m s k)"
    using mem_write_snoc_first [of m d "bytes m s k"] by (simp add: bytes_Suc_snoc)
  ultimately show ?case
    using n k by (subst copy_down.simps) simp
qed

lemma memcpy_disjoint:
  "dest + unat n \<le> src \<or> src + unat n \<le> dest
   \<Longrightarrow> memcpy m dest src n = (dest, mem_write m dest (bytes m src (unat n)))"
  by (auto simp: memcpy_def copy_up_eq)

lemma memcmp_eq_0_iff: "memcmp m a b n = 0 \<longleftrightarrow> bytes m a (unat n) = bytes m b (unat n)"
proof (induction m a b n rule: memcmp.induct)
  case (1 m a b n)
  then show ?case
    using unat_pos [of n] by (subst memcmp.simps) (auto simp: bytes_Suc)
qed

lemma memchr_loop_eq:
  "memchr_loop m p c n = map_option (\<lambda>i. p + i) (find_char c (bytes m p (unat n)))"
proof (induction m p c n rule: memchr_loop.induct)
  case (1 m p c n)
  then show ?case
    using unat_pos [of n]
    by (subst memchr_loop.simps) (auto simp: bytes_Suc option.map_comp o_def)
qed

lemma memchr_eq:
  "memchr m s c n = map_option (\<lambda>i. s + i) (find_char (to_char c) (bytes m s (unat n)))"
  by (simp add: memchr_def memchr_loop_eq)

section \<open>Properties\<close>

text \<open>C17. \<open>memmove\<close> is correct for every overlap of source and destination: the destination
  receives the bytes the source held before the call, every other byte keeps its value,
  and the destination pointer is returned.\<close>

theorem memmove_correct:
  "memmove m dest src n = (dest, mem_write m dest (bytes m src (unat n)))"
proof (cases "dest = src")
  case True
  then show ?thesis by (simp add: memmove_def mem_write_bytes_self)
next
  case False
  then show ?thesis by (auto simp: memmove_def copy_up_eq copy_down_eq)
qed

end
