(* ===== verification/Malloc.thy ===== *)
theory Malloc
  imports CString
begin

text \<open>
  \<open>userspace/libc/malloc.c\<close>: the address-ordered, first-fit free-list allocator. The heap
  state is the byte memory with the allocator's three globals; block and chunk headers live
  in that memory (two little-endian 64-bit fields each), so that an operation that reads a
  stale or user-written header reads what is really there. The kernel call
  \<open>sys_allocate_memory\<close> is a parameter over an abstract kernel state: it returns a status,
  a pointer, and the memory it leaves (it may clear the pages it hands out).
\<close>

unbundle bit_operations_syntax

section \<open>Header fields in memory\<close>

fun le_bytes :: "nat \<Rightarrow> int \<Rightarrow> byte list" where
  "le_bytes 0 v = []"
| "le_bytes (Suc n) v = char_of (v mod 256) # le_bytes n (v div 256)"

fun le_val :: "byte list \<Rightarrow> int" where
  "le_val [] = 0"
| "le_val (c # cs) = of_char c + 256 * le_val cs"

definition load :: "mem \<Rightarrow> nat \<Rightarrow> size_t" where
  "load m a = word_of_int (le_val (bytes m a 8))"

definition store :: "mem \<Rightarrow> nat \<Rightarrow> size_t \<Rightarrow> mem" where
  "store m a v = mem_write m a (le_bytes 8 (uint v))"

definition as_size :: "nat \<Rightarrow> size_t" where
  "as_size n = word_of_int (int n)"

abbreviation load_ptr :: "mem \<Rightarrow> nat \<Rightarrow> nat" where
  "load_ptr m a \<equiv> unat (load m a)"

abbreviation store_ptr :: "mem \<Rightarrow> nat \<Rightarrow> nat \<Rightarrow> mem" where
  "store_ptr m a p \<equiv> store m a (as_size p)"

section \<open>State\<close>

definition ALIGN :: size_t where "ALIGN = 16"
definition PAGE_SZ :: size_t where "PAGE_SZ = 4096"
definition CHUNK_SZ :: size_t where "CHUNK_SZ = 64 * 1024"
definition MIN_SPLIT :: size_t where "MIN_SPLIT = 32"
definition BLK_HDR_SZ :: nat where "BLK_HDR_SZ = 16"
definition CHUNK_HDR_SZ :: nat where "CHUNK_HDR_SZ = 16"

record 'k heap =
  hmem :: mem
  g_chunks :: nat
  g_free_list :: nat
  g_lock :: bool
  kern :: 'k

type_synonym 'k sys_alloc = "'k \<Rightarrow> size_t \<Rightarrow> mem \<Rightarrow> int \<times> nat \<times> mem \<times> 'k"

text \<open>\<open>block_hdr_t\<close>: \<open>size_flags\<close> at offset 0, \<open>next\<close> at offset 8.\<close>

definition size_flags :: "'k heap \<Rightarrow> nat \<Rightarrow> size_t" where
  "size_flags h b = load (hmem h) b"

definition set_size_flags :: "'k heap \<Rightarrow> nat \<Rightarrow> size_t \<Rightarrow> 'k heap" where
  "set_size_flags h b v = h\<lparr>hmem := store (hmem h) b v\<rparr>"

definition blk_next :: "'k heap \<Rightarrow> nat \<Rightarrow> nat" where
  "blk_next h b = load_ptr (hmem h) (b + 8)"

definition set_blk_next :: "'k heap \<Rightarrow> nat \<Rightarrow> nat \<Rightarrow> 'k heap" where
  "set_blk_next h b p = h\<lparr>hmem := store_ptr (hmem h) (b + 8) p\<rparr>"

definition BLK_SIZE :: "'k heap \<Rightarrow> nat \<Rightarrow> size_t" where
  "BLK_SIZE h b = size_flags h b AND NOT 1"

definition BLK_FREE :: "'k heap \<Rightarrow> nat \<Rightarrow> bool" where
  "BLK_FREE h b \<longleftrightarrow> size_flags h b AND 1 \<noteq> 0"

definition BLK_DATA :: "nat \<Rightarrow> nat" where
  "BLK_DATA b = b + BLK_HDR_SZ"

definition DATA_BLK :: "nat \<Rightarrow> nat" where
  "DATA_BLK p = p - BLK_HDR_SZ"

text \<open>The lock is not recursive: a thread that takes it twice waits for itself, so the call
  has no result.\<close>

definition lock_acquire :: "'k heap \<Rightarrow> 'k heap option" where
  "lock_acquire h = (if g_lock h then None else Some (h\<lparr>g_lock := True\<rparr>))"

definition lock_release :: "'k heap \<Rightarrow> 'k heap" where
  "lock_release h = h\<lparr>g_lock := False\<rparr>"

definition round_up :: "size_t \<Rightarrow> size_t \<Rightarrow> size_t" where
  "round_up n align = (n + align - 1) AND NOT (align - 1)"

text \<open>\<open>block_hdr_t **pp\<close> points at the list head or at the \<open>next\<close> field of a block.\<close>

datatype slot = Head | Next nat

definition read_slot :: "'k heap \<Rightarrow> slot \<Rightarrow> nat" where
  "read_slot h pp = (case pp of Head \<Rightarrow> g_free_list h | Next a \<Rightarrow> blk_next h a)"

definition write_slot :: "'k heap \<Rightarrow> slot \<Rightarrow> nat \<Rightarrow> 'k heap" where
  "write_slot h pp p =
     (case pp of Head \<Rightarrow> h\<lparr>g_free_list := p\<rparr> | Next a \<Rightarrow> set_blk_next h a p)"

section \<open>The free list\<close>

partial_function (option) insert_loop :: "'k heap \<Rightarrow> nat \<Rightarrow> slot \<Rightarrow> slot option" where
  "insert_loop h b pp =
     (let cur = read_slot h pp
      in if cur \<noteq> 0 \<and> cur < b then insert_loop h b (Next cur) else Some pp)"

definition free_list_insert :: "'k heap \<Rightarrow> nat \<Rightarrow> 'k heap option" where
  "free_list_insert h b =
     do { pp \<leftarrow> insert_loop h b Head;
          Some (write_slot (set_blk_next h b (read_slot h pp)) pp b) }"

partial_function (option) remove_loop :: "'k heap \<Rightarrow> nat \<Rightarrow> slot \<Rightarrow> slot option" where
  "remove_loop h b pp =
     (let cur = read_slot h pp
      in if cur \<noteq> 0 \<and> cur \<noteq> b then remove_loop h b (Next cur) else Some pp)"

definition free_list_remove :: "'k heap \<Rightarrow> nat \<Rightarrow> 'k heap option" where
  "free_list_remove h b =
     do { pp \<leftarrow> remove_loop h b Head;
          Some (if read_slot h pp \<noteq> 0 then write_slot h pp (blk_next h b) else h) }"

definition split_block :: "'k heap \<Rightarrow> nat \<Rightarrow> size_t \<Rightarrow> 'k heap option" where
  "split_block h b sz =
     (let old = BLK_SIZE h b
      in if old - sz < MIN_SPLIT then Some h
         else let rest = BLK_DATA b + unat sz;
                  h1 = set_size_flags h rest ((old - sz - as_size BLK_HDR_SZ) OR 1);
                  h2 = set_blk_next h1 rest 0
              in do { h3 \<leftarrow> free_list_insert h2 rest;
                      Some (set_size_flags h3 b sz) })"

section \<open>Chunks\<close>

definition new_chunk :: "'k sys_alloc \<Rightarrow> 'k heap \<Rightarrow> size_t \<Rightarrow> (nat \<times> 'k heap) option" where
  "new_chunk sysalloc h min_data =
     (let total0 = as_size CHUNK_HDR_SZ + as_size BLK_HDR_SZ + min_data;
          total1 = (if total0 < CHUNK_SZ then CHUNK_SZ else total0);
          total = round_up total1 PAGE_SZ;
          (st, ptr, m', k') = sysalloc (kern h) total (hmem h);
          h0 = h\<lparr>hmem := m', kern := k'\<rparr>
      in if st \<noteq> 0 \<or> ptr = 0 then Some (0, h0)
         else let c_size = total - as_size CHUNK_HDR_SZ;
                  h1 = h0\<lparr>hmem := store_ptr (hmem h0) ptr (g_chunks h0)\<rparr>;
                  h2 = h1\<lparr>hmem := store (hmem h1) (ptr + 8) c_size\<rparr>;
                  h3 = h2\<lparr>g_chunks := ptr\<rparr>;
                  b = ptr + CHUNK_HDR_SZ;
                  h4 = set_size_flags h3 b ((c_size - as_size BLK_HDR_SZ) OR 1);
                  h5 = set_blk_next h4 b 0
              in do { h6 \<leftarrow> free_list_insert h5 b; Some (ptr, h6) })"

partial_function (option) find_chunk_loop :: "'k heap \<Rightarrow> nat \<Rightarrow> nat \<Rightarrow> nat option" where
  "find_chunk_loop h b c =
     (if c = 0 then Some 0
      else let start = c + CHUNK_HDR_SZ; end_c = start + load_ptr (hmem h) (c + 8)
           in if b \<ge> start \<and> b < end_c then Some c
              else find_chunk_loop h b (load_ptr (hmem h) c))"

definition find_chunk :: "'k heap \<Rightarrow> nat \<Rightarrow> nat option" where
  "find_chunk h b = find_chunk_loop h b (g_chunks h)"

section \<open>malloc, free, calloc\<close>

text \<open>The scan of \<open>malloc\<close> (both copies of it): first fit, unlink, split, clear the free bit.
  Result 0 when no block is large enough.\<close>

partial_function (option) malloc_scan ::
    "'k heap \<Rightarrow> size_t \<Rightarrow> slot \<Rightarrow> (nat \<times> 'k heap) option" where
  "malloc_scan h sz pp =
     (let b = read_slot h pp
      in if b = 0 then Some (0, h)
         else if BLK_SIZE h b \<ge> sz then
           do { let h1 = write_slot h pp (blk_next h b);
                h2 \<leftarrow> split_block h1 b sz;
                Some (b, set_size_flags h2 b (BLK_SIZE h2 b)) }
         else malloc_scan h sz (Next b))"

definition malloc :: "'k sys_alloc \<Rightarrow> 'k heap \<Rightarrow> size_t \<Rightarrow> (nat \<times> 'k heap) option" where
  "malloc sysalloc h size0 =
     (if size0 = 0 then Some (0, h)
      else do {
        h1 \<leftarrow> lock_acquire h;
        let sz = round_up size0 ALIGN;
        (b, h2) \<leftarrow> malloc_scan h1 sz Head;
        if b \<noteq> 0 then Some (BLK_DATA b, lock_release h2)
        else do {
          (c, h3) \<leftarrow> new_chunk sysalloc h2 sz;
          if c = 0 then Some (0, lock_release h3)
          else do {
            (b', h4) \<leftarrow> malloc_scan h3 sz Head;
            Some (if b' \<noteq> 0 then BLK_DATA b' else 0, lock_release h4) } } })"

partial_function (option) find_prev ::
    "'k heap \<Rightarrow> nat \<Rightarrow> nat \<Rightarrow> nat \<Rightarrow> nat option" where
  "find_prev h b prev cur =
     (if cur \<noteq> 0 \<and> cur \<noteq> b then find_prev h b cur (blk_next h cur) else Some prev)"

definition coalesce_forward :: "'k heap \<Rightarrow> nat \<Rightarrow> 'k heap" where
  "coalesce_forward h b =
     (let end_b = BLK_DATA b + unat (BLK_SIZE h b); n = blk_next h b
      in if n \<noteq> 0 \<and> n = end_b then
           let h1 = set_size_flags h b ((BLK_SIZE h b + as_size BLK_HDR_SZ + BLK_SIZE h n) OR 1)
           in set_blk_next h1 b (blk_next h1 (blk_next h1 b))
         else h)"

definition coalesce_backward :: "'k heap \<Rightarrow> nat \<Rightarrow> 'k heap option" where
  "coalesce_backward h b =
     do { prev \<leftarrow> find_prev h b 0 (g_free_list h);
          Some (if prev \<noteq> 0 then
                  let prev_end = BLK_DATA prev + unat (BLK_SIZE h prev)
                  in if prev_end = b then
                       let h1 = set_size_flags h prev
                             ((BLK_SIZE h prev + as_size BLK_HDR_SZ + BLK_SIZE h b) OR 1)
                       in set_blk_next h1 prev (blk_next h1 b)
                     else h
                else h) }"

definition free :: "'k heap \<Rightarrow> nat \<Rightarrow> 'k heap option" where
  "free h ptr =
     (if ptr = 0 then Some h
      else do {
        h1 \<leftarrow> lock_acquire h;
        let b = DATA_BLK ptr;
        let h2 = set_size_flags h1 b (size_flags h1 b OR 1);
        let h3 = set_blk_next h2 b 0;
        h4 \<leftarrow> free_list_insert h3 b;
        h5 \<leftarrow> coalesce_backward (coalesce_forward h4 b) b;
        Some (lock_release h5) })"

definition calloc :: "'k sys_alloc \<Rightarrow> 'k heap \<Rightarrow> size_t \<Rightarrow> size_t \<Rightarrow> (nat \<times> 'k heap) option" where
  "calloc sysalloc h nmemb sz =
     (if nmemb \<noteq> 0 \<and> sz > (-1) div nmemb then Some (0, h)
      else do {
        let total = nmemb * sz;
        (p, h1) \<leftarrow> malloc sysalloc h total;
        Some (p, if p \<noteq> 0 then h1\<lparr>hmem := snd (memset (hmem h1) p 0 total)\<rparr> else h1) })"

section \<open>realloc and aligned_alloc\<close>

definition realloc :: "'k sys_alloc \<Rightarrow> 'k heap \<Rightarrow> nat \<Rightarrow> size_t \<Rightarrow> (nat \<times> 'k heap) option" where
  "realloc sysalloc h ptr sz =
     (if ptr = 0 then malloc sysalloc h sz
      else if sz = 0 then do { h' \<leftarrow> free h ptr; Some (0, h') }
      else do {
        h1 \<leftarrow> lock_acquire h;
        let b = DATA_BLK ptr;
        let old_size = BLK_SIZE h1 b;
        let new_size = round_up sz ALIGN;
        if old_size \<ge> new_size then
          if old_size - new_size \<ge> MIN_SPLIT then
            do { h2 \<leftarrow> split_block (set_size_flags h1 b new_size) b new_size;
                 Some (ptr, lock_release h2) }
          else Some (ptr, lock_release h1)
        else do {
          chunk \<leftarrow> find_chunk h1 b;
          let chunk_end =
            (if chunk \<noteq> 0 then chunk + CHUNK_HDR_SZ + load_ptr (hmem h1) (chunk + 8) else 0);
          let nxt = BLK_DATA b + unat old_size;
          if chunk_end \<noteq> 0 \<and> nxt + BLK_HDR_SZ \<le> chunk_end \<and> BLK_FREE h1 nxt \<and>
             old_size + as_size BLK_HDR_SZ + BLK_SIZE h1 nxt \<ge> new_size then
            do { h2 \<leftarrow> free_list_remove h1 nxt;
                 let h3 = set_size_flags h2 b (old_size + as_size BLK_HDR_SZ + BLK_SIZE h2 nxt);
                 h4 \<leftarrow> (if BLK_SIZE h3 b - new_size \<ge> MIN_SPLIT then split_block h3 b new_size
                        else Some h3);
                 Some (ptr, lock_release h4) }
          else do {
            (new_ptr, h2) \<leftarrow> malloc sysalloc (lock_release h1) new_size;
            if new_ptr = 0 then Some (0, h2)
            else do {
              let h3 = h2\<lparr>hmem := snd (memcpy (hmem h2) new_ptr ptr old_size)\<rparr>;
              h4 \<leftarrow> free h3 ptr;
              Some (new_ptr, h4) } } } })"

text \<open>The scan of \<open>aligned_alloc\<close>: the first block with room for an aligned data area that
  has its own header before it.\<close>

partial_function (option) aligned_scan ::
    "'k heap \<Rightarrow> size_t \<Rightarrow> size_t \<Rightarrow> slot \<Rightarrow> (nat \<times> 'k heap) option" where
  "aligned_scan h alignment sz pp =
     (let b = read_slot h pp
      in if b = 0 then Some (0, h)
         else
           let block_data = BLK_DATA b;
               block_end = block_data + unat (BLK_SIZE h b);
               raw = as_size block_data + as_size BLK_HDR_SZ;
               aligned_data = unat ((raw + alignment - 1) AND NOT (alignment - 1))
           in if aligned_data + unat sz > block_end then aligned_scan h alignment sz (Next b)
              else do {
                let h1 = write_slot h pp (blk_next h b);
                let lead = aligned_data - BLK_HDR_SZ - block_data;
                h2 \<leftarrow> (if lead \<ge> unat MIN_SPLIT then
                          free_list_insert
                            (set_blk_next
                              (set_size_flags h1 b (as_size (lead - BLK_HDR_SZ) OR 1)) b 0) b
                        else Some h1);
                let ab = aligned_data - BLK_HDR_SZ;
                let trail = block_end - aligned_data - unat sz;
                h3 \<leftarrow> (if trail \<ge> unat MIN_SPLIT then
                          let h21 = set_size_flags h2 ab sz;
                              tb = aligned_data + unat sz;
                              h22 = set_size_flags h21 tb (as_size (trail - BLK_HDR_SZ) OR 1);
                              h23 = set_blk_next h22 tb 0
                          in free_list_insert h23 tb
                        else Some (set_size_flags h2 ab (as_size (block_end - aligned_data))));
                Some (aligned_data, set_blk_next h3 ab 0) })"

text \<open>The function calls itself after it has obtained a chunk; nothing in the code bounds
  that recursion.\<close>

partial_function (option) aligned_alloc ::
    "'k sys_alloc \<Rightarrow> 'k heap \<Rightarrow> size_t \<Rightarrow> size_t \<Rightarrow> (nat \<times> 'k heap) option" where
  "aligned_alloc sysalloc h alignment size0 =
     (if alignment = 0 \<or> alignment AND (alignment - 1) \<noteq> 0 then Some (0, h)
      else if alignment \<le> ALIGN then malloc sysalloc h size0
      else do {
        h1 \<leftarrow> lock_acquire h;
        let sz = round_up size0 ALIGN;
        (p, h2) \<leftarrow> aligned_scan h1 alignment sz Head;
        if p \<noteq> 0 then Some (p, lock_release h2)
        else do {
          (c, h3) \<leftarrow> new_chunk sysalloc h2 (sz + alignment);
          if c = 0 then Some (0, lock_release h3)
          else aligned_alloc sysalloc (lock_release h3) alignment sz } })"

declare insert_loop.simps [code] remove_loop.simps [code] find_chunk_loop.simps [code]
  malloc_scan.simps [code] find_prev.simps [code] aligned_scan.simps [code]
  aligned_alloc.simps [code]

end
