(* ===== verification/Malloc_Rep.thy ===== *)
theory Malloc_Rep
  imports Malloc
begin

text \<open>
  The free list of \<open>malloc.c\<close> as a list of blocks: how header fields are read back from
  memory, the segment predicate that links a list of blocks through their \<open>next\<close> fields,
  and what the primitive operations on \<open>pp\<close> slots do to that list. Everything above this
  theory talks about lists of blocks \<open>(address, size)\<close> and about the bytes an operation may
  change.
\<close>

section \<open>Header fields\<close>

lemma length_le_bytes [simp]: "length (le_bytes n v) = n"
  by (induction n arbitrary: v) auto

lemma le_val_le_bytes: "le_val (le_bytes n v) = v mod 256 ^ n"
  by (induction n arbitrary: v) (auto simp: zmod_zmult2_eq)

lemma as_size_eq [simp]: "as_size n = of_nat n"
  by (simp add: as_size_def)

lemma load_store_same [mem_simps]: "load (store m a v) a = v"
proof -
  have "bytes (store m a v) a 8 = le_bytes 8 (uint v)"
    using bytes_mem_write [of m a "le_bytes 8 (uint v)"] by (simp add: store_def)
  moreover have "uint v mod 256 ^ 8 = uint v"
    using uint_bounded [of v] by simp
  ultimately show ?thesis by (simp add: load_def le_val_le_bytes)
qed

lemma load_store_apart [mem_simps]: "a + 8 \<le> b \<or> b + 8 \<le> a \<Longrightarrow> load (store m a v) b = load m b"
  by (auto simp: load_def store_def bytes_mem_write_disjoint)

lemma store_out [mem_simps]: "x < a \<or> a + 8 \<le> x \<Longrightarrow> store m a v x = m x"
  by (auto simp: store_def mem_write_def)

lemma bytes_store [mem_simps]: "a + 8 \<le> p \<or> p + n \<le> a \<Longrightarrow> bytes (store m a v) p n = bytes m p n"
  by (auto simp: store_def bytes_mem_write_disjoint)

lemma load_cong: "(\<And>i. i < 8 \<Longrightarrow> m' (a + i) = m (a + i)) \<Longrightarrow> load m' a = load m a"
  by (simp add: load_def bytes_cong [of 8 m' a m])

section \<open>Sizes and the free bit\<close>

lemma hdr_bits:
  assumes "s mod 16 = 0"
  shows "(of_nat s OR 1) AND NOT 1 = (of_nat s :: size_t)"
    and "of_nat s AND NOT 1 = (of_nat s :: size_t)"
    and "(of_nat s OR 1) AND 1 = (1 :: size_t)"
    and "of_nat s AND 1 = (0 :: size_t)"
proof -
  have "even s" using assms by presburger
  then have "\<not> bit (of_nat s :: size_t) 0" by (simp add: bit_0 even_of_nat_iff)
  then show "(of_nat s OR 1) AND NOT 1 = (of_nat s :: size_t)"
    and "of_nat s AND NOT 1 = (of_nat s :: size_t)"
    and "(of_nat s OR 1) AND 1 = (1 :: size_t)"
    and "of_nat s AND 1 = (0 :: size_t)"
    by (auto intro!: bit_eqI simp: bit_simps) (metis gr0I)+
qed

lemmas hdr_bits_simps = hdr_bits [simplified]

lemma and_not_mask_eq: "x AND NOT (mask k) = x - take_bit k (x :: 'a::len word)"
proof -
  have "x = (x AND mask k) + (x AND NOT (mask k))"
    by (subst disjunctive_add) (auto simp: bit_simps intro!: bit_eqI)
  then show ?thesis by (simp add: take_bit_eq_mask algebra_simps)
qed

lemma unat_and_not_mask: "unat (x AND NOT (mask k)) = unat (x :: 'a::len word) div 2 ^ k * 2 ^ k"
proof -
  have "unat (take_bit k x) = take_bit k (unat x)" by (rule unsigned_take_bit_eq)
  also have "\<dots> = unat x mod 2 ^ k" by (rule take_bit_eq_mod)
  finally have "unat (take_bit k x) = unat x mod 2 ^ k" .
  moreover from this have "take_bit k x \<le> x"
    by (simp add: word_le_nat_alt)
  ultimately show ?thesis
    by (simp add: and_not_mask_eq unat_sub minus_mod_eq_div_mult)
qed

lemma unat_round_up:
  assumes "unat n + 2 ^ k - 1 < 2 ^ 64" and "k < 64"
  shows "unat (round_up n (2 ^ k)) = (unat n + 2 ^ k - 1) div 2 ^ k * 2 ^ k"
proof -
  have "(2 ^ k - 1 :: size_t) = mask k" by (simp add: mask_eq_exp_minus_1)
  moreover have "unat (n + 2 ^ k - 1) = unat n + 2 ^ k - 1"
  proof -
    have "1 \<le> unat n + 2 ^ k" by (simp add: Suc_leI)
    then have "of_nat (unat n + 2 ^ k - 1) = (of_nat (unat n + 2 ^ k) - of_nat 1 :: size_t)"
      by (rule of_nat_diff)
    then have "n + 2 ^ k - 1 = of_nat (unat n + 2 ^ k - 1)" by simp
    with assms(1) show ?thesis by (simp add: unat_of_nat)
  qed
  ultimately show ?thesis by (simp add: round_up_def unat_and_not_mask)
qed

section \<open>Linked segments of free blocks\<close>

type_synonym block = "nat \<times> nat"

definition blk_end :: "block \<Rightarrow> nat" where
  "blk_end x = fst x + 16 + snd x"

definition blk_ok :: "block \<Rightarrow> bool" where
  "blk_ok x \<longleftrightarrow> 0 < fst x \<and> fst x mod 16 = 0 \<and> snd x mod 16 = 0 \<and> blk_end x < 2 ^ 64"

text \<open>\<open>fseg m p fs q\<close>: from pointer \<open>p\<close> the \<open>next\<close> fields lead through exactly the blocks
  \<open>fs\<close>, each marked free, to pointer \<open>q\<close>.\<close>

fun fseg :: "mem \<Rightarrow> nat \<Rightarrow> block list \<Rightarrow> nat \<Rightarrow> bool" where
  "fseg m p [] q \<longleftrightarrow> p = q"
| "fseg m p (x # fs) q \<longleftrightarrow>
     p = fst x \<and> load m (fst x) = of_nat (snd x) OR 1 \<and> fseg m (load_ptr m (fst x + 8)) fs q"

definition fl_rep :: "'k heap \<Rightarrow> block list \<Rightarrow> bool" where
  "fl_rep h fl \<longleftrightarrow> fseg (hmem h) (g_free_list h) fl 0"

definition fl_sep :: "block list \<Rightarrow> bool" where
  "fl_sep fl \<longleftrightarrow> sorted_wrt (\<lambda>x y. blk_end x \<le> fst y) fl \<and> (\<forall>x\<in>set fl. blk_ok x)"

definition fl_head :: "block list \<Rightarrow> nat" where
  "fl_head fs = (case fs of [] \<Rightarrow> 0 | x # _ \<Rightarrow> fst x)"

definition fl_last :: "block list \<Rightarrow> nat" where
  "fl_last fs = (if fs = [] then 0 else fst (last fs))"

definition slot_of :: "block list \<Rightarrow> slot" where
  "slot_of ws = (if ws = [] then Head else Next (fst (last ws)))"

definition eq_outside :: "mem \<Rightarrow> mem \<Rightarrow> nat set \<Rightarrow> bool" where
  "eq_outside m m' S \<longleftrightarrow> (\<forall>a. a \<notin> S \<longrightarrow> m' a = m a)"

definition span :: "block \<Rightarrow> nat set" where
  "span x = {fst x ..< blk_end x}"

definition header :: "block \<Rightarrow> nat set" where
  "header x = {fst x ..< fst x + 16}"

abbreviation spans :: "block set \<Rightarrow> nat set" where
  "spans B \<equiv> (\<Union>x\<in>B. span x)"

lemma header_subset_span: "header x \<subseteq> span x"
  by (auto simp: header_def span_def blk_end_def)

lemma fl_head_simps [simp]: "fl_head [] = 0" "fl_head (x # fs) = fst x"
  by (simp_all add: fl_head_def)

lemma fl_last_simps [simp]: "fl_last [] = 0" "fl_last (ws @ [x]) = fst x"
  by (simp_all add: fl_last_def)

lemma slot_of_simps [simp]: "slot_of [] = Head" "slot_of (ws @ [x]) = Next (fst x)"
  by (simp_all add: slot_of_def)

lemma fseg_append: "fseg m p (xs @ ys) q \<longleftrightarrow> (\<exists>r. fseg m p xs r \<and> fseg m r ys q)"
  by (induction xs arbitrary: p) auto

lemma fseg_start: "fseg m p ys 0 \<Longrightarrow> p = fl_head ys"
  by (cases ys) auto

lemma fseg_cong:
  "(\<And>x a. x \<in> set fs \<Longrightarrow> a \<in> header x \<Longrightarrow> m' a = m a) \<Longrightarrow> fseg m' p fs q = fseg m p fs q"
proof (induction fs arbitrary: p)
  case (Cons x fs)
  have "load m' (fst x) = load m (fst x)" "load m' (fst x + 8) = load m (fst x + 8)"
    using Cons.prems [of x] by (auto intro!: load_cong simp: header_def)
  moreover have "fseg m' p' fs q = fseg m p' fs q" for p'
    by (rule Cons.IH) (use Cons.prems in auto)
  ultimately show ?case by simp
qed simp

lemma fl_sep_append:
  "fl_sep (xs @ ys) \<longleftrightarrow> fl_sep xs \<and> fl_sep ys \<and> (\<forall>x\<in>set xs. \<forall>y\<in>set ys. blk_end x \<le> fst y)"
  by (auto simp: fl_sep_def sorted_wrt_append)

lemma fl_sep_Cons:
  "fl_sep (x # ys) \<longleftrightarrow> blk_ok x \<and> fl_sep ys \<and> (\<forall>y\<in>set ys. blk_end x \<le> fst y)"
  by (auto simp: fl_sep_def)

lemma fl_sep_Nil [simp]: "fl_sep []"
  by (simp add: fl_sep_def)

lemma header_apart:
  assumes "blk_end x \<le> fst y" and "a \<in> header x"
  shows "a \<notin> header y" and "a < fst y"
  using assms by (auto simp: header_def blk_end_def)

lemma headers_apart:
  assumes "\<And>x. x \<in> X \<Longrightarrow> blk_end x \<le> fst y" and "a \<in> header y"
  shows "a \<notin> (\<Union>x\<in>X. header x)"
  using assms header_apart(1) by blast

lemma eq_outsideD: "eq_outside m m' S \<Longrightarrow> a \<notin> S \<Longrightarrow> m' a = m a"
  by (simp add: eq_outside_def)

lemma eq_outside_trans:
  "eq_outside m m1 S \<Longrightarrow> eq_outside m1 m2 T \<Longrightarrow> S \<union> T \<subseteq> U \<Longrightarrow> eq_outside m m2 U"
  unfolding eq_outside_def by (metis UnCI subset_eq)

lemma fseg_head: "fseg m p ys 0 \<Longrightarrow> fseg m (fl_head ys) ys 0"
  using fseg_start by blast

lemma fl_sep_mid:
  assumes "fl_sep (xs @ b # ys)"
  shows "fl_sep xs" "fl_sep ys" "blk_ok b" "fl_sep (xs @ ys)"
    and "x \<in> set xs \<Longrightarrow> blk_end x \<le> fst b" and "y \<in> set ys \<Longrightarrow> blk_end b \<le> fst y"
    and "x \<in> set xs \<Longrightarrow> y \<in> set ys \<Longrightarrow> blk_end x \<le> fst y"
  using assms by (simp_all add: fl_sep_append fl_sep_Cons)

lemma fl_sep_shrink:
  assumes "fl_sep (xs @ x # ys)" and "blk_ok z" and "fst x \<le> fst z" and "blk_end z \<le> blk_end x"
  shows "fl_sep (xs @ z # ys)"
  using assms by (fastforce simp: fl_sep_append fl_sep_Cons)

lemma fl_sep_ok: "fl_sep fl \<Longrightarrow> x \<in> set fl \<Longrightarrow> blk_ok x"
  by (simp add: fl_sep_def)

lemma blk_ok_bounds: "blk_ok x \<Longrightarrow> 0 < fst x \<and> fst x < 2 ^ 64"
  by (simp add: blk_ok_def blk_end_def)

lemma fl_head_less: "fl_sep ys \<Longrightarrow> fl_head ys < 2 ^ 64"
  by (cases ys) (auto simp: fl_sep_Cons dest: blk_ok_bounds)

lemma fl_rep_frame:
  assumes "fl_rep h fl" and "eq_outside (hmem h) (hmem h') S"
    and "\<And>x. x \<in> set fl \<Longrightarrow> header x \<inter> S = {}" and "g_free_list h' = g_free_list h"
  shows "fl_rep h' fl"
proof -
  have "fseg (hmem h') (g_free_list h) fl 0 = fseg (hmem h) (g_free_list h) fl 0"
    using assms(3) by (intro fseg_cong eq_outsideD [OF assms(2)]) blast
  with assms show ?thesis by (simp add: fl_rep_def)
qed

text \<open>Reading and writing through a slot: \<open>slot_of ws\<close> is the cell that links the prefix
  \<open>ws\<close> of the list to the rest.\<close>

lemma read_slot_rep:
  assumes "fl_rep h (ws @ ys)"
  shows "read_slot h (slot_of ws) = fl_head ys"
proof (cases ws rule: rev_cases)
  case Nil
  with assms show ?thesis by (simp add: fl_rep_def read_slot_def fseg_start)
next
  case (snoc vs x)
  with assms show ?thesis
    by (auto simp: fl_rep_def read_slot_def blk_next_def fseg_append dest: fseg_start)
qed

lemma write_slot_fields [simp]:
  "g_chunks (write_slot h pp v) = g_chunks h" "g_lock (write_slot h pp v) = g_lock h"
  "kern (write_slot h pp v) = kern h"
  by (simp_all add: write_slot_def set_blk_next_def split: slot.split)

lemma write_slot_outside:
  "eq_outside (hmem h) (hmem (write_slot h (slot_of ws) v)) (\<Union>x\<in>set ws. header x)"
proof (cases ws rule: rev_cases)
  case Nil
  then show ?thesis by (simp add: eq_outside_def write_slot_def)
next
  case (snoc vs x)
  then show ?thesis
    by (auto simp: eq_outside_def write_slot_def set_blk_next_def header_def mem_simps)
qed

lemma write_slot_rep:
  assumes rep: "fl_rep h (ws @ ys)" and sep: "fl_sep ws"
    and tail: "fseg (hmem (write_slot h (slot_of ws) v)) v zs 0" and v: "v < 2 ^ 64"
  shows "fl_rep (write_slot h (slot_of ws) v) (ws @ zs)"
proof (cases ws rule: rev_cases)
  case Nil
  with tail show ?thesis by (simp add: fl_rep_def write_slot_def)
next
  case (snoc vs x)
  let ?m = "store_ptr (hmem h) (fst x + 8) v"
  have "fseg ?m (g_free_list h) vs (fst x) = fseg (hmem h) (g_free_list h) vs (fst x)"
    using sep snoc
    by (intro fseg_cong) (fastforce simp: fl_sep_append header_def blk_end_def mem_simps)
  moreover have "load_ptr ?m (fst x + 8) = v"
    using v by (simp add: mem_simps unat_of_nat)
  ultimately show ?thesis
    using rep tail snoc
    by (auto simp: fl_rep_def write_slot_def set_blk_next_def fseg_append mem_simps)
qed

section \<open>Inserting and removing\<close>

lemma slot_of_next: "Next (fst x) = slot_of (ws @ [x])"
  by simp

lemma insert_loop_rep:
  assumes "fl_rep h (ws @ xs @ ys)" and "\<forall>x\<in>set xs. fst x < b" and "\<forall>x\<in>set xs. fst x \<noteq> 0"
    and "ys = [] \<or> b \<le> fst (hd ys)"
  shows "insert_loop h b (slot_of ws) = Some (slot_of (ws @ xs))"
  using assms
proof (induction xs arbitrary: ws)
  case Nil
  then have "read_slot h (slot_of ws) = fl_head ys" using read_slot_rep [of h ws ys] by simp
  with Nil show ?case
    by (subst insert_loop.simps) (cases ys; auto simp: Let_def)
next
  case (Cons x xs)
  then have "read_slot h (slot_of ws) = fst x" using read_slot_rep [of h ws] by force
  moreover have "insert_loop h b (slot_of (ws @ [x])) = Some (slot_of ((ws @ [x]) @ xs))"
    using Cons by (intro Cons.IH) auto
  ultimately show ?case
    using Cons.prems by (subst insert_loop.simps) (simp add: Let_def)
qed

lemma free_list_insert_slot:
  assumes rep: "fl_rep h (xs @ ys)" and sep: "fl_sep (xs @ (b, s) # ys)"
  shows "free_list_insert h b = Some (write_slot (set_blk_next h b (fl_head ys)) (slot_of xs) b)"
proof -
  have "fst x < b \<and> fst x \<noteq> 0" if "x \<in> set xs" for x
    using fl_sep_mid(5) [OF sep that] fl_sep_ok [OF fl_sep_mid(1) [OF sep] that]
    by (simp add: blk_end_def blk_ok_def)
  moreover have "ys = [] \<or> b \<le> fst (hd ys)"
    using fl_sep_mid(6) [OF sep, of "hd ys"] by (cases ys) (auto simp: blk_end_def)
  ultimately have "insert_loop h b (slot_of []) = Some (slot_of ([] @ xs))"
    using rep by (intro insert_loop_rep [of h "[]" xs ys]) auto
  then show ?thesis
    using read_slot_rep [OF rep] by (simp add: free_list_insert_def)
qed

lemma free_list_insert_rep:
  assumes rep: "fl_rep h (xs @ ys)" and sep: "fl_sep (xs @ (b, s) # ys)"
    and hdr: "load (hmem h) b = of_nat s OR 1"
  obtains h' where "free_list_insert h b = Some h'"
    and "fl_rep h' (xs @ (b, s) # ys)"
    and "eq_outside (hmem h) (hmem h') ((\<Union>x\<in>set xs. header x) \<union> {b + 8 ..< b + 16})"
    and "g_chunks h' = g_chunks h" "g_lock h' = g_lock h" "kern h' = kern h"
proof -
  note mid = fl_sep_mid [OF sep, simplified]
  define h1 where "h1 = set_blk_next h b (fl_head ys)"
  define h' where "h' = write_slot h1 (slot_of xs) b"
  have m1: "eq_outside (hmem h) (hmem h1) {b + 8 ..< b + 16}"
    by (auto simp: h1_def set_blk_next_def eq_outside_def mem_simps)
  have m2: "eq_outside (hmem h1) (hmem h') (\<Union>x\<in>set xs. header x)"
    unfolding h'_def by (rule write_slot_outside)
  have "hmem h1 a = hmem h a" if "x \<in> set (xs @ ys)" "a \<in> header x" for x a
  proof -
    have "a \<notin> {b + 8 ..< b + 16}"
      using that mid(5,6) [of x] by (auto simp: header_def blk_end_def)
    with m1 show ?thesis by (simp add: eq_outside_def)
  qed
  then have "fseg (hmem h1) (g_free_list h) (xs @ ys) 0 = fseg (hmem h) (g_free_list h) (xs @ ys) 0"
    by (intro fseg_cong)
  with rep have rep1: "fl_rep h1 (xs @ ys)" by (simp add: fl_rep_def h1_def set_blk_next_def)
  have "hmem h' a = hmem h1 a" if "y \<in> set ((b, s) # ys)" "a \<in> header y" for y a
  proof -
    have "blk_end x \<le> fst y" if "x \<in> set xs" for x
      using \<open>y \<in> set ((b, s) # ys)\<close> that mid(5) [of x] mid(7) [of x y] by (cases "y = (b, s)") simp_all
    then show ?thesis
      by (intro eq_outsideD [OF m2] headers_apart [OF _ that(2)])
  qed
  then have "fseg (hmem h') b ((b, s) # ys) 0 = fseg (hmem h1) b ((b, s) # ys) 0"
    by (intro fseg_cong)
  moreover have "fseg (hmem h1) (fl_head ys) ys 0"
    using rep1 by (auto simp: fl_rep_def fseg_append dest: fseg_start)
  then have "fseg (hmem h1) b ((b, s) # ys) 0"
    using hdr fl_head_less [OF mid(2)]
    by (simp add: h1_def set_blk_next_def mem_simps unat_of_nat)
  ultimately have "fl_rep h' (xs @ (b, s) # ys)"
    unfolding h'_def using blk_ok_bounds [OF mid(3)]
    by (intro write_slot_rep [OF rep1 mid(1)]) simp_all
  moreover have "eq_outside (hmem h) (hmem h') ((\<Union>x\<in>set xs. header x) \<union> {b + 8 ..< b + 16})"
    using m1 m2 by (simp add: eq_outside_def)
  ultimately show ?thesis
    using that free_list_insert_slot [OF rep sep] by (simp add: h'_def h1_def set_blk_next_def)
qed

lemma unlink_rep:
  assumes rep: "fl_rep h (xs @ x # ys)" and sep: "fl_sep (xs @ x # ys)"
  shows "fl_rep (write_slot h (slot_of xs) (blk_next h (fst x))) (xs @ ys)"
    and "blk_next h (fst x) = fl_head ys"
proof -
  note mid = fl_sep_mid [OF sep]
  show next_x: "blk_next h (fst x) = fl_head ys"
    using rep by (auto simp: fl_rep_def fseg_append blk_next_def dest: fseg_start)
  let ?h = "write_slot h (slot_of xs) (blk_next h (fst x))"
  have "hmem ?h a = hmem h a" if "y \<in> set ys" "a \<in> header y" for y a
    by (intro eq_outsideD [OF write_slot_outside] headers_apart [OF _ that(2)] mid(7) that(1))
  then have "fseg (hmem ?h) (fl_head ys) ys 0 = fseg (hmem h) (fl_head ys) ys 0"
    by (intro fseg_cong)
  moreover have "fseg (hmem h) (fl_head ys) ys 0"
    using rep by (auto simp: fl_rep_def fseg_append intro: fseg_head)
  ultimately show "fl_rep ?h (xs @ ys)"
    using next_x fl_head_less [OF mid(2)]
    by (intro write_slot_rep [OF rep mid(1)]) simp_all
qed

lemma remove_loop_rep:
  assumes "fl_rep h (ws @ xs @ ys)" and "\<forall>x\<in>set xs. fst x \<noteq> b \<and> fst x \<noteq> 0"
    and "ys = [] \<or> fst (hd ys) = b"
  shows "remove_loop h b (slot_of ws) = Some (slot_of (ws @ xs))"
  using assms
proof (induction xs arbitrary: ws)
  case Nil
  then have "read_slot h (slot_of ws) = fl_head ys" using read_slot_rep [of h ws ys] by simp
  with Nil show ?case
    by (subst remove_loop.simps) (cases ys; auto simp: Let_def)
next
  case (Cons x xs)
  then have "read_slot h (slot_of ws) = fst x" using read_slot_rep [of h ws] by force
  moreover have "remove_loop h b (slot_of (ws @ [x])) = Some (slot_of ((ws @ [x]) @ xs))"
    using Cons by (intro Cons.IH) auto
  ultimately show ?case
    using Cons.prems by (subst remove_loop.simps) (simp add: Let_def)
qed

lemma free_list_remove_rep:
  assumes rep: "fl_rep h (xs @ x # ys)" and sep: "fl_sep (xs @ x # ys)"
  shows "free_list_remove h (fst x) = Some (write_slot h (slot_of xs) (blk_next h (fst x)))"
proof -
  have "fst y \<noteq> fst x \<and> fst y \<noteq> 0" if "y \<in> set xs" for y
    using fl_sep_mid(5) [OF sep that] fl_sep_ok [OF fl_sep_mid(1) [OF sep] that]
    by (auto simp: blk_end_def blk_ok_def)
  moreover have "fst x \<noteq> 0" using fl_sep_mid(3) [OF sep] by (simp add: blk_ok_def)
  ultimately show ?thesis
    using remove_loop_rep [of h "[]" xs "x # ys" "fst x"] read_slot_rep [OF rep] rep
    by (simp add: free_list_remove_def)
qed

section \<open>Placing a block: the scan of malloc\<close>

text \<open>First fit on the list of free blocks: the block that is handed out and the free list
  that is left. A remainder of 32 bytes or more becomes a free block of its own.\<close>

fun split_spec :: "nat \<Rightarrow> block \<Rightarrow> block \<times> block list" where
  "split_spec n (b, old) =
     (if old - n < 32 then ((b, old), []) else ((b, n), [(b + 16 + n, old - n - 16)]))"

fun place :: "nat \<Rightarrow> block list \<Rightarrow> (block \<times> block list) option" where
  "place n [] = None"
| "place n (x # fl) =
     (if n \<le> snd x then (let (y, r) = split_spec n x in Some (y, r @ fl))
      else map_option (\<lambda>(y, fl'). (y, x # fl')) (place n fl))"

lemma fl_rep_hdr:
  assumes "fl_rep h (xs @ (b, s) # ys)"
  shows "load (hmem h) b = of_nat s OR 1"
  using assms by (auto simp: fl_rep_def fseg_append)

lemma blk_size_free:
  assumes "load (hmem h) b = of_nat s OR 1" and "blk_ok (b, s)"
  shows "BLK_SIZE h b = of_nat s"
  using assms by (simp add: BLK_SIZE_def size_flags_def blk_ok_def hdr_bits_simps)

lemma unat_blk_size: "blk_ok (b, s) \<Longrightarrow> unat (of_nat s :: size_t) = s"
  by (simp add: blk_ok_def blk_end_def unat_of_nat)

lemma split_off_rep:
  assumes rep: "fl_rep h (xs @ ys)" and sep: "fl_sep (xs @ (b, old) # ys)"
    and sub: "b + 16 \<le> rest" "rest + 16 + rs = b + 16 + old" and ok: "blk_ok (rest, rs)"
  obtains h3 where
    "free_list_insert (set_blk_next (set_size_flags h rest (of_nat rs OR 1)) rest 0) rest = Some h3"
    and "fl_rep (set_size_flags h3 b v) (xs @ (rest, rs) # ys)"
    and "eq_outside (hmem h) (hmem h3) ((\<Union>x\<in>set xs. header x) \<union> {b + 16 ..< b + 16 + old})"
    and "g_chunks h3 = g_chunks h" "g_lock h3 = g_lock h" "kern h3 = kern h"
proof -
  note mid = fl_sep_mid [OF sep, unfolded fst_conv]
  define h2 where "h2 = set_blk_next (set_size_flags h rest (of_nat rs OR 1)) rest 0"
  have m2: "eq_outside (hmem h) (hmem h2) {rest ..< rest + 16}"
    by (auto simp: h2_def set_blk_next_def set_size_flags_def eq_outside_def mem_simps)
  have sep2: "fl_sep (xs @ (rest, rs) # ys)"
    by (rule fl_sep_shrink [OF sep ok]) (use sub in \<open>simp_all add: blk_end_def\<close>)
  have apart: "header x \<inter> {b ..< b + 16 + old} = {}" if "x \<in> set (xs @ ys)" for x
    using that mid(5,6) [of x] by (auto simp: header_def blk_end_def)
  have rep2: "fl_rep h2 (xs @ ys)"
  proof (rule fl_rep_frame [OF rep m2])
    show "header x \<inter> {rest ..< rest + 16} = {}" if "x \<in> set (xs @ ys)" for x
      using apart [OF that] sub by auto
  qed (simp add: h2_def set_blk_next_def set_size_flags_def)
  have hdr2: "load (hmem h2) rest = of_nat rs OR 1"
    by (simp add: h2_def set_blk_next_def set_size_flags_def mem_simps)
  obtain h3 where h3: "free_list_insert h2 rest = Some h3" "fl_rep h3 (xs @ (rest, rs) # ys)"
    "eq_outside (hmem h2) (hmem h3) ((\<Union>x\<in>set xs. header x) \<union> {rest + 8 ..< rest + 16})"
    "g_chunks h3 = g_chunks h2" "g_lock h3 = g_lock h2" "kern h3 = kern h2"
    by (rule free_list_insert_rep [OF rep2 sep2 hdr2])
  have "fl_rep (set_size_flags h3 b v) (xs @ (rest, rs) # ys)"
  proof (rule fl_rep_frame [OF h3(2)])
    show "eq_outside (hmem h3) (hmem (set_size_flags h3 b v)) {b ..< b + 8}"
      by (auto simp: set_size_flags_def eq_outside_def mem_simps)
    show "header x \<inter> {b ..< b + 8} = {}" if "x \<in> set (xs @ (rest, rs) # ys)" for x
    proof (cases "x = (rest, rs)")
      case True
      with sub show ?thesis by (auto simp: header_def)
    next
      case False
      with that have "x \<in> set (xs @ ys)" by auto
      from apart [OF this] sub show ?thesis by auto
    qed
  qed (simp add: set_size_flags_def)
  moreover have "eq_outside (hmem h) (hmem h3) ((\<Union>x\<in>set xs. header x) \<union> {b + 16 ..< b + 16 + old})"
    using sub by (intro eq_outside_trans [OF m2 h3(3)]) auto
  ultimately show ?thesis
    using that [of h3] h3(1,4-6) by (simp add: h2_def set_size_flags_def set_blk_next_def)
qed

lemma split_block_rep:
  assumes rep: "fl_rep h (xs @ ys)" and sep: "fl_sep (xs @ (b, old) # ys)"
    and size: "BLK_SIZE h b = of_nat old" and n: "unat sz \<le> old" "unat sz mod 16 = 0"
    and spec: "split_spec (unat sz) (b, old) = ((b, s), r)"
  obtains h' where "split_block h b sz = Some h'"
    and "fl_rep h' (xs @ r @ ys)" and "BLK_SIZE h' b = of_nat s"
    and "eq_outside (hmem h) (hmem h')
           ((\<Union>x\<in>set xs. header x) \<union> {b ..< b + 8} \<union> {b + 16 ..< b + 16 + old})"
    and "g_chunks h' = g_chunks h" "g_lock h' = g_lock h" "kern h' = kern h"
proof -
  have ok: "blk_ok (b, old)" by (fact fl_sep_mid(3) [OF sep])
  have diff: "of_nat old - sz = of_nat (old - unat sz)"
    using n(1) by (simp add: of_nat_diff)
  have small: "of_nat old - sz < MIN_SPLIT \<longleftrightarrow> old - unat sz < 32"
    using ok unfolding diff
    by (simp add: word_less_nat_alt MIN_SPLIT_def unat_of_nat blk_ok_def blk_end_def less_imp_diff_less)
  show ?thesis
  proof (cases "old - unat sz < 32")
    case True
    then have "split_block h b sz = Some h" "s = old" "r = []"
      using size spec small by (simp_all add: split_block_def Let_def)
    with that [of h] rep size show ?thesis by (simp add: eq_outside_def)
  next
    case False
    define rest where "rest = b + 16 + unat sz"
    define rs where "rs = old - unat sz - 16"
    have r: "s = unat sz" "r = [(rest, rs)]" using spec False by (auto simp: rest_def rs_def)
    have sub: "b + 16 \<le> rest" "rest + 16 + rs = b + 16 + old"
      using False n(1) by (simp_all add: rest_def rs_def)
    have "rest mod 16 = 0" "rs mod 16 = 0"
      using ok n False unfolding blk_ok_def rest_def rs_def fst_conv snd_conv by presburger+
    then have "blk_ok (rest, rs)" using ok sub by (simp add: blk_ok_def blk_end_def)
    from split_off_rep [OF rep sep sub this, where v = sz] obtain h3 where h3:
      "free_list_insert (set_blk_next (set_size_flags h rest (of_nat rs OR 1)) rest 0) rest = Some h3"
      "fl_rep (set_size_flags h3 b sz) (xs @ (rest, rs) # ys)"
      "eq_outside (hmem h) (hmem h3) ((\<Union>x\<in>set xs. header x) \<union> {b + 16 ..< b + 16 + old})"
      "g_chunks h3 = g_chunks h" "g_lock h3 = g_lock h" "kern h3 = kern h" by blast
    have "old - unat sz = rs + 16" using False by (simp add: rs_def)
    then have "of_nat old - sz - as_size BLK_HDR_SZ = of_nat rs"
      unfolding diff by (simp add: BLK_HDR_SZ_def)
    then have "split_block h b sz = Some (set_size_flags h3 b sz)"
      using False small size h3(1)
      by (simp add: split_block_def Let_def BLK_DATA_def BLK_HDR_SZ_def rest_def)
    moreover have "BLK_SIZE (set_size_flags h3 b sz) b = of_nat s"
      using hdr_bits(2) [OF n(2)]
      by (simp add: BLK_SIZE_def size_flags_def set_size_flags_def mem_simps r)
    moreover have "eq_outside (hmem h) (hmem (set_size_flags h3 b sz))
        ((\<Union>x\<in>set xs. header x) \<union> {b ..< b + 8} \<union> {b + 16 ..< b + 16 + old})"
      by (rule eq_outside_trans [OF h3(3), where T = "{b ..< b + 8}"])
        (auto simp: eq_outside_def set_size_flags_def mem_simps)
    ultimately show ?thesis
      using that [of "set_size_flags h3 b sz"] h3(2,4-6) by (simp add: set_size_flags_def r)
  qed
qed

lemma malloc_scan_skip:
  assumes "fl_rep h (ws @ xs @ ys)" and "\<And>x. x \<in> set xs \<Longrightarrow> blk_ok x \<and> snd x < unat sz"
  shows "malloc_scan h sz (slot_of ws) = malloc_scan h sz (slot_of (ws @ xs))"
  using assms
proof (induction xs arbitrary: ws)
  case (Cons x xs)
  obtain b s where x: "x = (b, s)" by (cases x)
  have ok: "blk_ok (b, s)" "s < unat sz" using Cons.prems(2) [of x] by (simp_all add: x)
  have cur: "read_slot h (slot_of ws) = b"
    using read_slot_rep [OF Cons.prems(1)] by (simp add: x)
  have "BLK_SIZE h b = of_nat s"
    using Cons.prems(1) by (intro blk_size_free [OF fl_rep_hdr ok(1)]) (simp add: x)
  then have "\<not> sz \<le> BLK_SIZE h b"
    using ok by (simp add: word_le_nat_alt unat_blk_size)
  then have "malloc_scan h sz (slot_of ws) = malloc_scan h sz (slot_of (ws @ [x]))"
    using cur blk_ok_bounds [OF ok(1)] by (subst malloc_scan.simps) (simp add: x)
  also have "\<dots> = malloc_scan h sz (slot_of ((ws @ [x]) @ xs))"
    using Cons.prems by (intro Cons.IH) simp_all
  finally show ?case by simp
qed simp

lemma place_NoneD: "place n fl = None \<Longrightarrow> x \<in> set fl \<Longrightarrow> snd x < n"
  by (induction fl) (auto split: if_splits prod.splits)

lemma place_SomeD:
  assumes "place n fl = Some (y, fl')"
  obtains xs b old ys s r where "fl = xs @ (b, old) # ys" "\<And>x. x \<in> set xs \<Longrightarrow> snd x < n"
    "n \<le> old" "y = (b, s)" "split_spec n (b, old) = ((b, s), r)" "fl' = xs @ r @ ys"
proof -
  have "\<exists>xs b old ys s r. fl = xs @ (b, old) # ys \<and> (\<forall>x\<in>set xs. snd x < n) \<and> n \<le> old \<and>
      y = (b, s) \<and> split_spec n (b, old) = ((b, s), r) \<and> fl' = xs @ r @ ys"
    using assms
  proof (induction fl arbitrary: fl')
    case (Cons x fl)
    obtain b old where x: "x = (b, old)" by (cases x)
    show ?case
    proof (cases "n \<le> old")
      case True
      obtain s r where sr: "split_spec n (b, old) = ((b, s), r)"
        by (cases "old - n < 32") auto
      with True Cons.prems x show ?thesis
        by (intro exI [of _ "[]"] exI [of _ b] exI [of _ old] exI [of _ fl] exI [of _ s] exI [of _ r]) simp
    next
      case False
      with Cons.prems x obtain fl1 where fl1: "place n fl = Some (y, fl1)" "fl' = x # fl1"
        by auto
      from Cons.IH [OF fl1(1)] obtain xs b' old' ys s r where
        "fl = xs @ (b', old') # ys" "\<forall>x\<in>set xs. snd x < n" "n \<le> old'" "y = (b', s)"
        "split_spec n (b', old') = ((b', s), r)" "fl1 = xs @ r @ ys" by blast
      with False x fl1(2) show ?thesis
        by (intro exI [of _ "x # xs"] exI [of _ b'] exI [of _ old'] exI [of _ ys] exI [of _ s]
            exI [of _ r]) auto
    qed
  qed simp
  then show ?thesis using that by blast
qed

text \<open>The scan refines \<^const>\<open>place\<close>. It changes the headers of free blocks and bytes of the
  block it carves, nothing else.\<close>

lemma malloc_scan_None:
  assumes "fl_rep h fl" and "fl_sep fl" and "place (unat sz) fl = None"
  shows "malloc_scan h sz Head = Some (0, h)"
proof -
  have "malloc_scan h sz (slot_of []) = malloc_scan h sz (slot_of ([] @ fl))"
    using assms place_NoneD fl_sep_ok by (intro malloc_scan_skip [of h "[]" fl "[]"]) auto
  moreover have "read_slot h (slot_of fl) = 0" using read_slot_rep [of h fl "[]"] assms(1) by simp
  ultimately show ?thesis by (subst (asm) (2) malloc_scan.simps) simp
qed

lemma malloc_scan_Some:
  assumes rep: "fl_rep h fl" and sep: "fl_sep fl" and n: "unat sz mod 16 = 0"
    and place: "place (unat sz) fl = Some ((b, s), fl')"
  obtains h' where "malloc_scan h sz Head = Some (b, h')"
    and "fl_rep h' fl'" and "load (hmem h') b = of_nat s"
    and "eq_outside (hmem h) (hmem h') (\<Union>x\<in>set fl. span x)"
    and "g_chunks h' = g_chunks h" "g_lock h' = g_lock h" "kern h' = kern h"
proof -
  from place obtain xs old ys r where fl: "fl = xs @ (b, old) # ys"
    "\<And>x. x \<in> set xs \<Longrightarrow> snd x < unat sz" "unat sz \<le> old"
    "split_spec (unat sz) (b, old) = ((b, s), r)" "fl' = xs @ r @ ys"
    by (elim place_SomeD) auto
  note rep' = rep [unfolded fl(1)] and sep' = sep [unfolded fl(1)]
  have ok: "blk_ok (b, old)" by (fact fl_sep_mid(3) [OF sep'])
  have size: "BLK_SIZE h b = of_nat old"
    by (rule blk_size_free [OF fl_rep_hdr [OF rep'] ok])
  define h1 where "h1 = write_slot h (slot_of xs) (blk_next h b)"
  have rep1: "fl_rep h1 (xs @ ys)" using unlink_rep(1) [OF rep' sep'] by (simp add: h1_def)
  have m1: "eq_outside (hmem h) (hmem h1) (\<Union>x\<in>set xs. header x)"
    unfolding h1_def by (rule write_slot_outside)
  have "load (hmem h1) b = load (hmem h) b"
    by (intro load_cong eq_outsideD [OF m1] headers_apart [where y = "(b, old)"])
      (use fl_sep_mid(5) [OF sep'] in \<open>simp_all add: header_def\<close>)
  then have size1: "BLK_SIZE h1 b = of_nat old"
    using size by (simp add: BLK_SIZE_def size_flags_def)
  from split_block_rep [OF rep1 sep' size1 fl(3) n fl(4)] obtain h2 where h2:
    "split_block h1 b sz = Some h2" "fl_rep h2 (xs @ r @ ys)" "BLK_SIZE h2 b = of_nat s"
    "eq_outside (hmem h1) (hmem h2)
       ((\<Union>x\<in>set xs. header x) \<union> {b ..< b + 8} \<union> {b + 16 ..< b + 16 + old})"
    "g_chunks h2 = g_chunks h1" "g_lock h2 = g_lock h1" "kern h2 = kern h1" by blast
  define h' where "h' = set_size_flags h2 b (BLK_SIZE h2 b)"
  have "malloc_scan h sz Head = malloc_scan h sz (slot_of xs)"
    using malloc_scan_skip [of h "[]" xs "(b, old) # ys" sz] rep' fl(2) fl_sep_ok [OF sep'] by simp
  also have "\<dots> = Some (b, h')"
    using read_slot_rep [OF rep'] size fl(3) ok h2(1) blk_ok_bounds [OF ok]
    by (subst malloc_scan.simps) (simp add: word_le_nat_alt unat_blk_size h1_def h'_def)
  finally have "malloc_scan h sz Head = Some (b, h')" .
  moreover have m': "eq_outside (hmem h2) (hmem h') {b ..< b + 8}"
    by (auto simp: h'_def set_size_flags_def eq_outside_def mem_simps)
  have "fl_rep h' fl'"
  proof (rule fl_rep_frame [OF h2(2) [folded fl(5)] m'])
    show "header x \<inter> {b ..< b + 8} = {}" if "x \<in> set fl'" for x
      using that fl(4,5) fl_sep_mid(5,6) [OF sep', of x]
      by (auto simp: header_def blk_end_def split: if_splits)
  qed (simp add: h'_def set_size_flags_def)
  moreover have "eq_outside (hmem h) (hmem h') (\<Union>x\<in>set fl. span x)"
    by (rule eq_outside_trans [OF m1 eq_outside_trans [OF h2(4) m' subset_refl]])
      (auto simp: fl(1) header_def span_def blk_end_def)
  ultimately show ?thesis
    using that h2(3,5-7) by (simp add: h'_def h1_def set_size_flags_def mem_simps)
qed

section \<open>Releasing a block: insertion and coalescing\<close>

text \<open>The list that \<open>free\<close> leaves: the block goes to its place in address order, absorbs a
  successor that starts where it ends, and is absorbed by a predecessor that ends where it
  starts.\<close>

fun join :: "block \<Rightarrow> block list \<Rightarrow> block list" where
  "join x [] = [x]"
| "join x (y # ys) =
     (if blk_end x = fst y then (fst x, snd x + 16 + snd y) # ys else x # y # ys)"

fun join_last :: "block list \<Rightarrow> block list \<Rightarrow> block list" where
  "join_last [] zs = zs"
| "join_last [x] zs = join x zs"
| "join_last (x # y # xs) zs = x # join_last (y # xs) zs"

definition release :: "block \<Rightarrow> block list \<Rightarrow> block list" where
  "release x fl =
     join_last (takeWhile (\<lambda>y. fst y < fst x) fl) (join x (dropWhile (\<lambda>y. fst y < fst x) fl))"

lemma join_last_snoc: "join_last (xs @ [x]) zs = xs @ join x zs"
proof (induction xs)
  case (Cons y xs)
  then show ?case by (cases xs) auto
qed simp

lemma merge_rep:
  assumes rep: "fl_rep h (xs @ (b, s) # (c, t) # ys)" and sep: "fl_sep (xs @ (b, s) # (c, t) # ys)"
  defines "h' \<equiv> set_blk_next (set_size_flags h b (of_nat (s + 16 + t) OR 1)) b (fl_head ys)"
  shows "fl_rep h' (xs @ (b, s + 16 + t) # ys)"
    and "eq_outside (hmem h) (hmem h') (header (b, s))"
proof -
  have mid: "fl_sep (xs @ (b, s) # ys)" using sep by (simp add: fl_sep_append fl_sep_Cons)
  show m': "eq_outside (hmem h) (hmem h') (header (b, s))"
    by (auto simp: h'_def set_blk_next_def set_size_flags_def eq_outside_def header_def mem_simps)
  have "header x \<inter> header (b, s) = {}" if "x \<in> set (xs @ ys)" for x
    using that fl_sep_mid(5,6) [OF mid, of x] by (auto simp: header_def blk_end_def)
  then have keep: "hmem h' a = hmem h a" if "x \<in> set (xs @ ys)" "a \<in> header x" for x a
    using that by (intro eq_outsideD [OF m']) blast
  from rep have segs: "fseg (hmem h) (g_free_list h) xs b" "fseg (hmem h) (fl_head ys) ys 0"
    by (auto simp: fl_rep_def fseg_append intro: fseg_head)
  have "fseg (hmem h') (g_free_list h) xs b"
    by (subst fseg_cong [of xs _ "hmem h"], rule keep) (use segs in simp_all)
  moreover have "fseg (hmem h') (fl_head ys) ys 0"
    by (subst fseg_cong [of ys _ "hmem h"], rule keep) (use segs in simp_all)
  moreover have "fl_head ys < 2 ^ 64" by (rule fl_head_less [OF fl_sep_mid(2) [OF mid]])
  ultimately show "fl_rep h' (xs @ (b, s + 16 + t) # ys)"
    by (simp add: fl_rep_def fseg_append h'_def set_blk_next_def set_size_flags_def mem_simps
        unat_of_nat)
qed

lemma blk_next_rep:
  assumes "fl_rep h (xs @ (b, s) # ys)"
  shows "blk_next h b = fl_head ys"
  using assms by (auto simp: fl_rep_def fseg_append blk_next_def dest: fseg_start)

lemma blk_size_rep:
  assumes "fl_rep h (xs @ (b, s) # ys)" and "fl_sep (xs @ (b, s) # ys)"
  shows "BLK_SIZE h b = of_nat s" and "unat (BLK_SIZE h b) = s"
  using blk_size_free [OF fl_rep_hdr [OF assms(1)] fl_sep_mid(3) [OF assms(2)]]
    unat_blk_size [OF fl_sep_mid(3) [OF assms(2)]] by simp_all

lemma blk_next_set_size:
  "b \<le> a \<or> a + 16 \<le> b \<Longrightarrow> blk_next (set_size_flags h b v) a = blk_next h a"
  by (auto simp: blk_next_def set_size_flags_def mem_simps)

lemma coalesce_forward_rep:
  assumes rep: "fl_rep h (xs @ (b, s) # ys)" and sep: "fl_sep (xs @ (b, s) # ys)"
  shows "fl_rep (coalesce_forward h b) (xs @ join (b, s) ys)"
    and "eq_outside (hmem h) (hmem (coalesce_forward h b)) (header (b, s))"
    and "g_chunks (coalesce_forward h b) = g_chunks h" "g_lock (coalesce_forward h b) = g_lock h"
        "kern (coalesce_forward h b) = kern h"
proof -
  note here = blk_size_rep [OF rep sep] blk_next_rep [OF rep]
  have ends: "BLK_DATA b + unat (BLK_SIZE h b) = blk_end (b, s)"
    using here by (simp add: BLK_DATA_def BLK_HDR_SZ_def blk_end_def)
  have "fl_rep (coalesce_forward h b) (xs @ join (b, s) ys) \<and>
    eq_outside (hmem h) (hmem (coalesce_forward h b)) (header (b, s))"
  proof (cases "ys \<noteq> [] \<and> fst (hd ys) = blk_end (b, s)")
    case True
    then obtain t zs where ys: "ys = (blk_end (b, s), t) # zs" by (cases ys) auto
    let ?c = "blk_end (b, s)"
    note rep' = rep [unfolded ys] and sep' = sep [unfolded ys]
    have c: "BLK_SIZE h ?c = of_nat t" "blk_next h ?c = fl_head zs"
      using blk_size_rep(1) [of h "xs @ [(b, s)]" ?c t zs] blk_next_rep [of h "xs @ [(b, s)]" ?c t zs]
        rep' sep' by simp_all
    have "coalesce_forward h b =
        set_blk_next (set_size_flags h b (of_nat (s + 16 + t) OR 1)) b (fl_head zs)"
      using here ends c ys
      by (simp add: coalesce_forward_def Let_def BLK_HDR_SZ_def blk_end_def blk_next_set_size)
    with merge_rep [OF rep' sep'] ys show ?thesis by simp
  next
    case False
    then have "coalesce_forward h b = h"
      using here ends by (cases ys) (auto simp: coalesce_forward_def Let_def)
    with False rep show ?thesis by (cases ys) (auto simp: eq_outside_def)
  qed
  then show "fl_rep (coalesce_forward h b) (xs @ join (b, s) ys)"
    and "eq_outside (hmem h) (hmem (coalesce_forward h b)) (header (b, s))" by blast+
  show "g_chunks (coalesce_forward h b) = g_chunks h" "g_lock (coalesce_forward h b) = g_lock h"
    "kern (coalesce_forward h b) = kern h"
    by (simp_all add: coalesce_forward_def Let_def set_blk_next_def set_size_flags_def)
qed

lemma find_prev_rep:
  assumes "fl_rep h (ws @ xs @ (b, s) # ys)" and "fl_sep (ws @ xs @ (b, s) # ys)"
  shows "find_prev h b (fl_last ws) (fl_head (xs @ (b, s) # ys)) = Some (fl_last (ws @ xs))"
  using assms
proof (induction xs arbitrary: ws)
  case Nil
  then show ?case by (subst find_prev.simps) simp
next
  case (Cons x xs)
  have "fst x \<noteq> b" "fst x \<noteq> 0"
    using fl_sep_mid(5) [of "ws @ x # xs" "(b, s)" ys x] fl_sep_ok [OF Cons.prems(2), of x] Cons.prems(2)
    by (auto simp: blk_end_def blk_ok_def)
  moreover have "blk_next h (fst x) = fl_head (xs @ (b, s) # ys)"
    using blk_next_rep [of h ws "fst x" "snd x"] Cons.prems(1) by simp
  moreover have "find_prev h b (fl_last (ws @ [x])) (fl_head (xs @ (b, s) # ys))
      = Some (fl_last ((ws @ [x]) @ xs))"
    using Cons.prems by (intro Cons.IH) simp_all
  ultimately show ?case by (subst find_prev.simps) simp
qed

lemma coalesce_backward_rep:
  assumes rep: "fl_rep h (xs @ (b, s) # ys)" and sep: "fl_sep (xs @ (b, s) # ys)"
  obtains h' where "coalesce_backward h b = Some h'" and "fl_rep h' (join_last xs ((b, s) # ys))"
    and "eq_outside (hmem h) (hmem h') (\<Union>x\<in>set xs. header x)"
    and "g_chunks h' = g_chunks h" "g_lock h' = g_lock h" "kern h' = kern h"
proof (cases xs rule: rev_cases)
  case Nil
  then have "coalesce_backward h b = Some h"
    using find_prev_rep [of h "[]" "[]" b s ys] rep sep
    by (simp add: coalesce_backward_def fl_rep_def)
  with that [of h] rep Nil show ?thesis by (simp add: eq_outside_def)
next
  case (snoc vs x)
  obtain p t where x: "x = (p, t)" by (cases x)
  note rep' = rep [unfolded snoc x, simplified] and sep' = sep [unfolded snoc x, simplified]
  have prev: "find_prev h b 0 (g_free_list h) = Some p"
    using find_prev_rep [of h "[]" xs] rep sep fseg_start [of "hmem h" "g_free_list h" "xs @ (b, s) # ys"]
    by (simp add: fl_rep_def snoc x)
  have pt: "BLK_SIZE h p = of_nat t" "unat (BLK_SIZE h p) = t" "0 < p"
    using blk_size_rep [OF rep' sep'] blk_ok_bounds [OF fl_sep_mid(3) [OF sep']] by simp_all
  have bs: "BLK_SIZE h b = of_nat s" "blk_next h b = fl_head ys"
    using blk_size_rep(1) [OF rep sep] blk_next_rep [OF rep] by simp_all
  show ?thesis
  proof (cases "blk_end (p, t) = b")
    case True
    let ?h' = "set_blk_next (set_size_flags h p (of_nat (t + 16 + s) OR 1)) p (fl_head ys)"
    have "coalesce_backward h b = Some ?h'"
      using prev pt bs True
      by (simp add: coalesce_backward_def Let_def BLK_DATA_def BLK_HDR_SZ_def blk_end_def
          blk_next_set_size)
    moreover note merge_rep [OF rep' sep']
    ultimately show ?thesis
      using that [of ?h'] True
      by (simp add: snoc x join_last_snoc set_blk_next_def set_size_flags_def header_def eq_outside_def)
  next
    case False
    then have "coalesce_backward h b = Some h"
      using prev pt bs by (simp add: coalesce_backward_def Let_def BLK_DATA_def BLK_HDR_SZ_def blk_end_def)
    with that [of h] rep False show ?thesis
      by (simp add: eq_outside_def snoc x join_last_snoc)
  qed
qed

lemma fl_sep_join:
  assumes "fl_sep (xs @ (b, s) # ys)"
  shows "fl_sep (xs @ join (b, s) ys)" and "fst (hd (join (b, s) ys)) = b"
    and "\<exists>s' zs. join (b, s) ys = (b, s') # zs"
proof -
  show "\<exists>s' zs. join (b, s) ys = (b, s') # zs" by (cases ys) auto
  then show "fst (hd (join (b, s) ys)) = b" by auto
  show "fl_sep (xs @ join (b, s) ys)"
  proof (cases ys)
    case (Cons y zs)
    with assms show ?thesis
      by (auto simp: fl_sep_append fl_sep_Cons blk_ok_def blk_end_def mod_add_eq)
  qed (use assms in simp)
qed

lemma release_split:
  assumes "fl_sep (xs @ (b, s) # ys)"
  shows "release (b, s) (xs @ ys) = join_last xs (join (b, s) ys)"
proof -
  have less: "fst x < b" if "x \<in> set xs" for x
    using fl_sep_mid(5) [OF assms that] by (simp add: blk_end_def)
  moreover have "ys = [] \<or> \<not> fst (hd ys) < b"
    using fl_sep_mid(6) [OF assms, of "hd ys"] by (cases ys) (auto simp: blk_end_def)
  ultimately have "takeWhile (\<lambda>y. fst y < b) (xs @ ys) = xs \<and> dropWhile (\<lambda>y. fst y < b) (xs @ ys) = ys"
    by (cases ys) (auto simp: takeWhile_append2 dropWhile_append2)
  then show ?thesis by (simp add: release_def)
qed

text \<open>\<open>free\<close> refines \<^const>\<open>release\<close>. It changes headers of free blocks and of the block freed,
  nothing else.\<close>

lemma free_rep:
  assumes rep: "fl_rep h (xs @ ys)" and sep: "fl_sep (xs @ (b, s) # ys)"
    and hdr: "load (hmem h) b = of_nat s" and lock: "\<not> g_lock h"
  obtains h' where "free h (b + 16) = Some h'" and "fl_rep h' (release (b, s) (xs @ ys))"
    and "eq_outside (hmem h) (hmem h') ((\<Union>x\<in>set xs. header x) \<union> header (b, s))"
    and "g_chunks h' = g_chunks h" "\<not> g_lock h'" "kern h' = kern h"
proof -
  define h3 where "h3 = set_blk_next (set_size_flags (h\<lparr>g_lock := True\<rparr>) b (of_nat s OR 1)) b 0"
  have m3: "eq_outside (hmem h) (hmem h3) (header (b, s))"
    by (auto simp: h3_def set_blk_next_def set_size_flags_def eq_outside_def header_def mem_simps)
  have rep3: "fl_rep h3 (xs @ ys)"
  proof (rule fl_rep_frame [OF rep m3])
    show "header x \<inter> header (b, s) = {}" if "x \<in> set (xs @ ys)" for x
      using that fl_sep_mid(5,6) [OF sep, of x] by (auto simp: header_def blk_end_def)
  qed (simp add: h3_def set_blk_next_def set_size_flags_def)
  have hdr3: "load (hmem h3) b = of_nat s OR 1"
    by (simp add: h3_def set_blk_next_def set_size_flags_def mem_simps)
  obtain h4 where h4: "free_list_insert h3 b = Some h4" "fl_rep h4 (xs @ (b, s) # ys)"
    "eq_outside (hmem h3) (hmem h4) ((\<Union>x\<in>set xs. header x) \<union> {b + 8 ..< b + 16})"
    "g_chunks h4 = g_chunks h3" "g_lock h4 = g_lock h3" "kern h4 = kern h3"
    by (rule free_list_insert_rep [OF rep3 sep hdr3])
  note fwd = coalesce_forward_rep [OF h4(2) sep]
  obtain s' zs where j: "join (b, s) ys = (b, s') # zs" using fl_sep_join(3) [OF sep] by blast
  obtain h5 where h5: "coalesce_backward (coalesce_forward h4 b) b = Some h5"
    "fl_rep h5 (join_last xs (join (b, s) ys))"
    "eq_outside (hmem (coalesce_forward h4 b)) (hmem h5) (\<Union>x\<in>set xs. header x)"
    "g_chunks h5 = g_chunks (coalesce_forward h4 b)" "kern h5 = kern (coalesce_forward h4 b)"
    using coalesce_backward_rep [of "coalesce_forward h4 b" xs b s' zs] fwd(1) fl_sep_join(1) [OF sep]
    unfolding j by metis
  have "free h (b + 16) = Some (lock_release h5)"
    using lock hdr h4(1) h5(1)
    by (simp add: free_def lock_acquire_def DATA_BLK_def BLK_HDR_SZ_def size_flags_def
        set_size_flags_def set_blk_next_def h3_def)
  moreover have "fl_rep (lock_release h5) (release (b, s) (xs @ ys))"
    using h5(2) by (simp add: release_split [OF sep] fl_rep_def lock_release_def)
  moreover have "eq_outside (hmem h) (hmem h5) ((\<Union>x\<in>set xs. header x) \<union> header (b, s))"
    by (rule eq_outside_trans [OF eq_outside_trans [OF m3 h4(3) subset_refl]
          eq_outside_trans [OF fwd(2) h5(3) subset_refl]]) (auto simp: header_def)
  ultimately show ?thesis
    using that [of "lock_release h5"] h5(4,5) fwd(3,5) h4(4,6)
    by (simp add: lock_release_def h3_def set_blk_next_def set_size_flags_def)
qed

end
