(* ===== verification/Malloc_Inv.thy ===== *)
theory Malloc_Inv
  imports Malloc_Rep
begin

text \<open>
  The heap invariant of \<open>malloc.c\<close> and its preservation. A heap is described by its free
  list, the set of allocated blocks and the list of chunks obtained from the kernel: the free
  list is sorted and fully coalesced, blocks do not overlap, headers in memory say what the
  description says, and the blocks tile the data areas of the chunks exactly, so no byte of a
  chunk is lost. The kernel is assumed to hand out fresh pages; nothing else is assumed of it.
\<close>

section \<open>Blocks of a list\<close>

definition fl_gap :: "block list \<Rightarrow> bool" where
  "fl_gap fl \<longleftrightarrow> sorted_wrt (\<lambda>x y. blk_end x < fst y) fl"

lemma fl_gap_append:
  "fl_gap (xs @ ys) \<longleftrightarrow> fl_gap xs \<and> fl_gap ys \<and> (\<forall>x\<in>set xs. \<forall>y\<in>set ys. blk_end x < fst y)"
  by (auto simp: fl_gap_def sorted_wrt_append)

lemma fl_gap_Cons: "fl_gap (x # ys) \<longleftrightarrow> fl_gap ys \<and> (\<forall>y\<in>set ys. blk_end x < fst y)"
  by (auto simp: fl_gap_def)

lemma fl_gap_Nil [simp]: "fl_gap []"
  by (simp add: fl_gap_def)

lemma fl_gap_sep: "fl_gap fl \<Longrightarrow> \<forall>x\<in>set fl. blk_ok x \<Longrightarrow> fl_sep fl"
  unfolding fl_gap_def fl_sep_def by (auto elim: sorted_wrt_mono_rel [rotated])

lemma span_disjoint_iff:
  "span x \<inter> span y = {} \<longleftrightarrow> blk_end x \<le> fst y \<or> blk_end y \<le> fst x"
proof
  assume "span x \<inter> span y = {}"
  then have "max (fst x) (fst y) \<notin> span x \<inter> span y" by blast
  then show "blk_end x \<le> fst y \<or> blk_end y \<le> fst x"
    by (auto simp: span_def blk_end_def max_def split: if_splits)
qed (auto simp: span_def)

text \<open>A block apart from all blocks of a sorted list has its place in it.\<close>

lemma fl_sep_insert:
  assumes "fl_sep fl" and "blk_ok z" and "\<And>x. x \<in> set fl \<Longrightarrow> span x \<inter> span z = {}"
  obtains xs ys where "fl = xs @ ys" and "fl_sep (xs @ z # ys)"
  using assms
proof (induction fl arbitrary: thesis)
  case Nil
  then show ?case using Nil.prems(1) [of "[]" "[]"] by (simp add: fl_sep_Cons)
next
  case (Cons x fl)
  have "blk_end x \<le> fst z \<or> blk_end z \<le> fst x"
    using Cons.prems(4) [of x] by (simp add: span_disjoint_iff)
  then show ?case
  proof
    assume le: "blk_end x \<le> fst z"
    obtain xs ys where "fl = xs @ ys" "fl_sep (xs @ z # ys)"
      using Cons.IH [of thesis] Cons.IH Cons.prems by (metis fl_sep_Cons list.set_intros(2))
    then show ?case
      using Cons.prems(1) [of "x # xs" ys] Cons.prems(2) le by (auto simp: fl_sep_Cons)
  next
    assume le: "blk_end z \<le> fst x"
    have "blk_end z \<le> fst y" if "y \<in> set fl" for y
      using Cons.prems(2) that le by (auto simp: fl_sep_Cons blk_end_def)
    then show ?case
      using Cons.prems(1) [of "[]" "x # fl"] Cons.prems(2,3) le by (simp add: fl_sep_Cons)
  qed
qed

section \<open>What placing and releasing do to the set of blocks\<close>

lemma split_spec_span:
  assumes "split_spec n (b, old) = ((b, s), r)" and "n \<le> old"
  shows "span (b, s) \<union> spans (set r) = span (b, old)" and "n \<le> s"
  using assms by (auto simp: span_def blk_end_def split: if_splits)

lemma split_spec_ok:
  assumes "split_spec n (b, old) = ((b, s), r)" "n \<le> old" "n mod 16 = 0" "blk_ok (b, old)"
  shows "\<forall>x\<in>insert (b, s) (set r). blk_ok x \<and> span x \<subseteq> span (b, old)"
proof (cases "old - n < 32")
  case False
  then have "(b + 16 + n) mod 16 = 0" "(old - n - 16) mod 16 = 0"
    using assms(3,4) unfolding blk_ok_def fst_conv snd_conv by presburger+
  with False assms show ?thesis by (auto simp: blk_ok_def blk_end_def span_def)
qed (use assms in auto)

lemma place_blocks:
  assumes "place n fl = Some ((b, s), fl')" and sep: "fl_sep fl" and n: "n mod 16 = 0"
  shows "span (b, s) \<union> spans (set fl') = spans (set fl)" (is ?tile) and "n \<le> s"
    and "\<forall>x\<in>insert (b, s) (set fl'). blk_ok x \<and> (\<exists>y\<in>set fl. span x \<subseteq> span y)" (is ?ok)
    and "\<forall>x\<in>set fl'. span x \<inter> span (b, s) = {}" (is ?apart)
    and "fl_gap fl \<Longrightarrow> fl_gap fl'"
proof -
  from assms(1) obtain xs old ys r where fl: "fl = xs @ (b, old) # ys" "n \<le> old"
    "split_spec n (b, old) = ((b, s), r)" "fl' = xs @ r @ ys"
    by (elim place_SomeD) auto
  note mid = fl_sep_mid [OF sep [unfolded fl(1)]]
  note sp = split_spec_span [OF fl(3,2)] and ok = split_spec_ok [OF fl(3,2) n mid(3)]
  show "n \<le> s" by (fact sp(2))
  show ?tile using sp(1) by (auto simp: fl(1,4))
  show ?ok
  proof
    fix x assume "x \<in> insert (b, s) (set fl')"
    then consider "x \<in> insert (b, s) (set r)" | "x \<in> set (xs @ ys)" by (auto simp: fl(4))
    then show "blk_ok x \<and> (\<exists>y\<in>set fl. span x \<subseteq> span y)"
    proof cases
      case 1
      with ok show ?thesis by (auto simp: fl(1))
    next
      case 2
      with fl_sep_ok [OF sep] show ?thesis by (auto simp: fl(1))
    qed
  qed
  show ?apart
  proof
    fix x assume "x \<in> set fl'"
    then consider "x \<in> set xs" | "x \<in> set r" | "x \<in> set ys" by (auto simp: fl(4))
    then show "span x \<inter> span (b, s) = {}"
      using mid(5,6) [of x] fl(2,3)
      by cases (auto simp: span_disjoint_iff blk_end_def split: if_splits)
  qed
  show "fl_gap fl'" if "fl_gap fl"
    using that fl(3) unfolding fl(1,4) fl_gap_append fl_gap_Cons
    by (auto simp: blk_end_def fl_gap_append fl_gap_Cons split: if_splits)
qed

text \<open>Coalescing keeps every property of blocks that merging two adjacent blocks keeps.\<close>

lemma join_all:
  assumes "\<forall>y\<in>insert x (set ys). P y"
    and "\<And>x y. P x \<Longrightarrow> P y \<Longrightarrow> blk_end x = fst y \<Longrightarrow> P (fst x, snd x + 16 + snd y)"
  shows "\<forall>y\<in>set (join x ys). P y"
  using assms by (cases ys) auto

lemma join_last_all:
  assumes "\<forall>y\<in>set xs \<union> set zs. P y"
    and "\<And>x y. P x \<Longrightarrow> P y \<Longrightarrow> blk_end x = fst y \<Longrightarrow> P (fst x, snd x + 16 + snd y)"
  shows "\<forall>y\<in>set (join_last xs zs). P y"
proof (cases xs rule: rev_cases)
  case (snoc vs x)
  have "\<forall>y\<in>set (join x zs). P y" by (rule join_all) (use assms snoc in auto)
  with assms(1) snoc show ?thesis by (auto simp: join_last_snoc)
qed (use assms in simp)

lemma release_all:
  assumes "\<forall>y\<in>insert x (set fl). P y"
    and "\<And>x y. P x \<Longrightarrow> P y \<Longrightarrow> blk_end x = fst y \<Longrightarrow> P (fst x, snd x + 16 + snd y)"
  shows "\<forall>y\<in>set (release x fl). P y"
proof -
  let ?Q = "\<lambda>y. fst y < fst x"
  have "\<forall>y\<in>set (join x (dropWhile ?Q fl)). P y"
    using assms by (intro join_all) (auto dest: set_dropWhileD)
  then show ?thesis
    unfolding release_def using assms by (intro join_last_all) (auto dest: set_takeWhileD)
qed

lemma join_spans: "spans (set (join x ys)) = spans (insert x (set ys))"
  by (cases ys) (auto simp: span_def blk_end_def)

lemma join_last_spans: "spans (set (join_last xs zs)) = spans (set xs \<union> set zs)"
proof (cases xs rule: rev_cases)
  case (snoc vs x)
  then show ?thesis using join_spans [of x zs] by (auto simp: join_last_snoc)
qed simp

lemma release_spans: "spans (set (release x fl)) = spans (insert x (set fl))"
proof -
  let ?P = "\<lambda>y. fst y < fst x"
  have "set fl = set (takeWhile ?P fl) \<union> set (dropWhile ?P fl)"
    by (metis set_append takeWhile_dropWhile_id)
  then show ?thesis
    using join_spans [of x "dropWhile ?P fl"] by (simp add: release_def join_last_spans) blast
qed

lemma join_gap:
  assumes "fl_gap ys" and "\<forall>y\<in>set ys. blk_end x \<le> fst y"
  shows "fl_gap (join x ys)"
proof (cases ys)
  case (Cons y zs)
  have "blk_end x < fst z" if "z \<in> set zs" for z
  proof -
    have "blk_end x \<le> fst y" "blk_end y < fst z"
      using assms that by (auto simp: Cons fl_gap_Cons)
    then show ?thesis by (simp add: blk_end_def)
  qed
  with assms Cons show ?thesis
    by (auto simp: fl_gap_Cons blk_end_def intro: le_neq_implies_less)
qed (simp add: fl_gap_Cons)

lemma join_starts: "z \<in> set (join x ys) \<Longrightarrow> fst z \<in> insert (fst x) (fst ` set ys)"
  by (cases ys) (auto split: if_splits)

lemma release_gap:
  assumes sep: "fl_sep (xs @ (b, s) # ys)" and gap: "fl_gap (xs @ ys)"
  shows "fl_gap (release (b, s) (xs @ ys))"
proof -
  note mid = fl_sep_mid [OF sep]
  note rel = release_split [OF sep]
  have gz: "fl_gap (join (b, s) ys)"
    using gap mid(6) by (intro join_gap) (auto simp: fl_gap_append)
  have after: "blk_end x \<le> fst z" if "x \<in> set xs" "z \<in> set (join (b, s) ys)" for x z
    using join_starts [OF that(2)] mid(5) [OF that(1)] mid(7) [OF that(1)] by auto
  show ?thesis
  proof (cases xs rule: rev_cases)
    case Nil
    with gz rel show ?thesis by simp
  next
    case (snoc vs x)
    have "fl_gap (join x (join (b, s) ys))"
      by (rule join_gap [OF gz]) (use after snoc in simp)
    moreover have "blk_end v < fst z" if "v \<in> set vs" "z \<in> set (join x (join (b, s) ys))" for v z
    proof -
      have vx: "blk_end v < fst x" using gap that(1) by (auto simp: snoc fl_gap_append fl_gap_Cons)
      have "fst x \<le> fst z" using join_starts [OF that(2)] after [of x] by (force simp: snoc blk_end_def)
      with vx show ?thesis by simp
    qed
    ultimately show ?thesis
      using gap unfolding rel unfolding snoc join_last_snoc by (simp add: fl_gap_append)
  qed
qed

section \<open>The invariant\<close>

lemma sorted_wrt_symD:
  assumes "sorted_wrt R xs" and "\<And>x y. R x y \<Longrightarrow> R y x" and "x \<in> set xs" "y \<in> set xs" "x \<noteq> y"
  shows "R x y"
  using assms(1,3-5) by (induction xs) (simp, metis assms(2) set_ConsD sorted_wrt.simps(2))

type_synonym chunk = "nat \<times> nat"

definition area :: "chunk \<Rightarrow> nat set" where
  "area c = {fst c ..< fst c + snd c}"

definition chunk_data :: "chunk \<Rightarrow> nat set" where
  "chunk_data c = {fst c + 16 ..< fst c + snd c}"

fun cseg :: "mem \<Rightarrow> nat \<Rightarrow> chunk list \<Rightarrow> bool" where
  "cseg m p [] \<longleftrightarrow> p = 0"
| "cseg m p (c # cs) \<longleftrightarrow>
     p = fst c \<and> load m (p + 8) = of_nat (snd c - 16) \<and> cseg m (load_ptr m p) cs"

definition chunk_ok :: "chunk \<Rightarrow> bool" where
  "chunk_ok c \<longleftrightarrow> 0 < fst c \<and> fst c mod 16 = 0 \<and> 32 \<le> snd c \<and> snd c mod 16 = 0 \<and>
     fst c + snd c < 2 ^ 64"

definition chunks_ok :: "nat set \<Rightarrow> 'k heap \<Rightarrow> chunk list \<Rightarrow> bool" where
  "chunks_ok own h ch \<longleftrightarrow> cseg (hmem h) (g_chunks h) ch \<and>
     sorted_wrt (\<lambda>c d. area c \<inter> area d = {}) ch \<and> (\<forall>c\<in>set ch. chunk_ok c \<and> area c \<subseteq> own)"

definition in_chunk :: "chunk list \<Rightarrow> block \<Rightarrow> bool" where
  "in_chunk ch x \<longleftrightarrow> (\<exists>c\<in>set ch. span x \<subseteq> chunk_data c)"

definition blocks_ok :: "'k heap \<Rightarrow> block list \<Rightarrow> block set \<Rightarrow> bool" where
  "blocks_ok h fl al \<longleftrightarrow> fl_rep h fl \<and> fl_gap fl \<and> (\<forall>x\<in>set fl \<union> al. blk_ok x) \<and>
     (\<forall>x\<in>al. load (hmem h) (fst x) = of_nat (snd x)) \<and>
     (\<forall>x\<in>al. \<forall>y\<in>al. x \<noteq> y \<longrightarrow> span x \<inter> span y = {}) \<and>
     (\<forall>x\<in>set fl. \<forall>y\<in>al. span x \<inter> span y = {})"

definition heap_body :: "('k \<Rightarrow> nat set) \<Rightarrow> 'k heap \<Rightarrow> block list \<Rightarrow> block set \<Rightarrow> chunk list \<Rightarrow> bool" where
  "heap_body own h fl al ch \<longleftrightarrow> blocks_ok h fl al \<and> chunks_ok (own (kern h)) h ch \<and>
     (\<forall>x\<in>set fl \<union> al. in_chunk ch x) \<and>
     (\<Union>c\<in>set ch. chunk_data c) = spans (set fl \<union> al)"

definition heap_inv :: "('k \<Rightarrow> nat set) \<Rightarrow> 'k heap \<Rightarrow> block list \<Rightarrow> block set \<Rightarrow> chunk list \<Rightarrow> bool" where
  "heap_inv own h fl al ch \<longleftrightarrow> \<not> g_lock h \<and> heap_body own h fl al ch"

text \<open>What is assumed of \<open>sys_allocate_memory\<close>: a successful call returns page-aligned memory
  that the process did not own, of the size asked for, and touches nothing else; a call that
  fails, or returns no pointer, changes nothing.\<close>

definition kernel_ok :: "('k \<Rightarrow> nat set) \<Rightarrow> 'k sys_alloc \<Rightarrow> bool" where
  "kernel_ok own sysalloc \<longleftrightarrow> (\<forall>k n m st p m' k'. sysalloc k n m = (st, p, m', k') \<longrightarrow>
     (if st = 0 \<and> p \<noteq> 0
      then p mod 4096 = 0 \<and> p + unat n < 2 ^ 64 \<and> {p ..< p + unat n} \<inter> own k = {} \<and>
           own k \<union> {p ..< p + unat n} \<subseteq> own k' \<and> eq_outside m m' {p ..< p + unat n}
      else m' = m \<and> own k' = own k))"

lemma blocks_ok_sep: "blocks_ok h fl al \<Longrightarrow> fl_sep fl"
  by (auto simp: blocks_ok_def intro: fl_gap_sep)

lemma blocks_okD:
  assumes "blocks_ok h fl al"
  shows "fl_rep h fl" "fl_gap fl" "x \<in> set fl \<union> al \<Longrightarrow> blk_ok x"
    "x \<in> al \<Longrightarrow> load (hmem h) (fst x) = of_nat (snd x)"
    "x \<in> al \<Longrightarrow> y \<in> al \<Longrightarrow> x \<noteq> y \<Longrightarrow> span x \<inter> span y = {}"
    "x \<in> set fl \<Longrightarrow> y \<in> al \<Longrightarrow> span x \<inter> span y = {}"
  using assms by (simp_all add: blocks_ok_def)

lemma chunk_data_area: "chunk_data c \<subseteq> area c"
  by (auto simp: chunk_data_def area_def)

lemma chunk_ok_fst [simp]: "chunk_ok c \<Longrightarrow> fst c < 2 ^ 64"
  by (simp add: chunk_ok_def)

lemma cseg_cong:
  "(\<And>c a. c \<in> set ch \<Longrightarrow> a \<in> {fst c ..< fst c + 16} \<Longrightarrow> m' a = m a) \<Longrightarrow> cseg m' p ch = cseg m p ch"
proof (induction ch arbitrary: p)
  case (Cons c ch)
  have "load m' (fst c) = load m (fst c)" "load m' (fst c + 8) = load m (fst c + 8)"
    using Cons.prems [of c] by (auto intro!: load_cong)
  moreover have "cseg m' p' ch = cseg m p' ch" for p'
    by (rule Cons.IH) (use Cons.prems in auto)
  ultimately show ?case by (cases "p = fst c") simp_all
qed simp

lemma chunks_apart:
  assumes "chunks_ok own h ch" and "c \<in> set ch" "d \<in> set ch" "c \<noteq> d"
  shows "area c \<inter> area d = {}"
proof -
  have "sorted_wrt (\<lambda>c d. area c \<inter> area d = {}) ch" using assms(1) by (simp add: chunks_ok_def)
  then show ?thesis
    by (rule sorted_wrt_symD) (use assms in \<open>simp_all add: Int_commute\<close>)
qed

text \<open>Changes inside data areas do not disturb the chunk list.\<close>

lemma chunks_ok_frame:
  assumes ch: "chunks_ok own h ch" and "eq_outside (hmem h) (hmem h') S"
    and "S \<inter> own \<subseteq> (\<Union>c\<in>set ch. chunk_data c)" and "g_chunks h' = g_chunks h" and "own \<subseteq> own'"
  shows "chunks_ok own' h' ch"
proof -
  have "cseg (hmem h') (g_chunks h) ch = cseg (hmem h) (g_chunks h) ch"
  proof (rule cseg_cong)
    fix c a assume c: "c \<in> set ch" "a \<in> {fst c ..< fst c + 16}"
    have ac: "a \<in> area c" using ch c by (auto simp: chunks_ok_def chunk_ok_def area_def)
    moreover have "a \<in> own" using ch c(1) ac by (auto simp: chunks_ok_def)
    moreover have "a \<notin> chunk_data c" using c by (auto simp: chunk_data_def)
    moreover have "area c \<inter> area d = {}" if "d \<in> set ch" "d \<noteq> c" for d
      by (rule chunks_apart [OF ch c(1)]) (use that in simp_all)
    ultimately have "a \<notin> S" using assms(3) chunk_data_area by blast
    then show "hmem h' a = hmem h a" by (rule eq_outsideD [OF assms(2)])
  qed
  with assms show ?thesis by (auto simp: chunks_ok_def)
qed

end
