(* ===== verification/Malloc_Correct.thy ===== *)
theory Malloc_Correct
  imports Malloc_Inv
begin

text \<open>
  Correctness of \<open>malloc\<close>, \<open>free\<close> and \<open>calloc\<close> against the heap invariant of
  \<open>Malloc_Inv\<close>.
\<close>

section \<open>Steps under the lock\<close>

lemma heap_body_lock [simp]: "heap_body own (h\<lparr>g_lock := v\<rparr>) fl al ch = heap_body own h fl al ch"
  by (simp add: heap_body_def blocks_ok_def chunks_ok_def fl_rep_def)

lemma heap_bodyD:
  assumes "heap_body own h fl al ch"
  shows "blocks_ok h fl al" "chunks_ok (own (kern h)) h ch"
    "x \<in> set fl \<union> al \<Longrightarrow> in_chunk ch x" "(\<Union>c\<in>set ch. chunk_data c) = spans (set fl \<union> al)"
  using assms by (simp_all add: heap_body_def)

text \<open>Bytes of allocated blocks, headers included, that an operation leaves alone.\<close>

definition keeps :: "'k heap \<Rightarrow> 'k heap \<Rightarrow> block set \<Rightarrow> bool" where
  "keeps h h' al \<longleftrightarrow> (\<forall>a\<in>spans al. hmem h' a = hmem h a)"

lemma keeps_trans: "keeps h h1 al \<Longrightarrow> keeps h1 h2 al \<Longrightarrow> keeps h h2 al"
  by (simp add: keeps_def)

lemma keepsI: "eq_outside (hmem h) (hmem h') S \<Longrightarrow> S \<inter> spans al = {} \<Longrightarrow> keeps h h' al"
  unfolding keeps_def eq_outside_def by blast

lemma keeps_hdr:
  assumes "keeps h h' al" and "x \<in> al"
  shows "load (hmem h') (fst x) = load (hmem h) (fst x)"
proof (rule load_cong)
  fix i :: nat assume "i < 8"
  then have "fst x + i \<in> span x" by (simp add: span_def blk_end_def)
  with assms show "hmem h' (fst x + i) = hmem h (fst x + i)" by (auto simp: keeps_def)
qed

lemma keeps_bytes:
  assumes "keeps h h' al" and "x \<in> al"
  shows "bytes (hmem h') (fst x + 16) (snd x) = bytes (hmem h) (fst x + 16) (snd x)"
proof (rule bytes_cong)
  fix i assume "i < snd x"
  then have "fst x + 16 + i \<in> span x" by (simp add: span_def blk_end_def)
  with assms show "hmem h' (fst x + 16 + i) = hmem h (fst x + 16 + i)" by (auto simp: keeps_def)
qed

lemma in_chunk_sub: "in_chunk ch y \<Longrightarrow> span x \<subseteq> span y \<Longrightarrow> in_chunk ch x"
  by (auto simp: in_chunk_def)

lemma scan_inv:
  assumes inv: "heap_body own h fl al ch" and n: "unat sz mod 16 = 0"
    and place: "place (unat sz) fl = Some ((b, s), fl')"
  obtains h' where "malloc_scan h sz Head = Some (b, h')"
    and "heap_body own h' fl' (insert (b, s) al) ch" and "unat sz \<le> s" and "(b, s) \<notin> al"
    and "keeps h h' al" and "g_lock h' = g_lock h" and "kern h' = kern h"
proof -
  note body = heap_bodyD [OF inv] and blk = blocks_okD [OF heap_bodyD(1) [OF inv]]
  have sep: "fl_sep fl" by (rule blocks_ok_sep [OF body(1)])
  note pl = place_blocks [OF place sep n]
  obtain h' where h': "malloc_scan h sz Head = Some (b, h')" "fl_rep h' fl'"
    "load (hmem h') b = of_nat s" "eq_outside (hmem h) (hmem h') (spans (set fl))"
    "g_chunks h' = g_chunks h" "g_lock h' = g_lock h" "kern h' = kern h"
    by (rule malloc_scan_Some [OF blk(1) sep n place])
  have keeps: "keeps h h' al"
    by (rule keepsI [OF h'(4)]) (use blk(6) in blast)
  have apart: "span x \<inter> span (b, s) = {}" if "x \<in> al" for x
    using pl(3) blk(6) [OF _ that] by blast
  have fresh: "(b, s) \<notin> al"
    using apart [of "(b, s)"] by (auto simp: span_def blk_end_def)
  have "blocks_ok h' fl' (insert (b, s) al)"
    unfolding blocks_ok_def
  proof (intro conjI ballI impI)
    show "fl_rep h' fl'" "fl_gap fl'" using h'(2) pl(5) [OF blk(2)] by simp_all
    show "blk_ok x" if "x \<in> set fl' \<union> insert (b, s) al" for x using pl(3) blk(3) that by blast
    show "load (hmem h') (fst x) = of_nat (snd x)" if "x \<in> insert (b, s) al" for x
      using that h'(3) blk(4) keeps_hdr [OF keeps] by auto
    show "span x \<inter> span y = {}" if "x \<in> insert (b, s) al" "y \<in> insert (b, s) al" "x \<noteq> y" for x y
      using that apart [of x] apart [of y] blk(5) [of x y] by blast
    show "span x \<inter> span y = {}" if "x \<in> set fl'" "y \<in> insert (b, s) al" for x y
      using that pl(3,4) blk(6) by blast
  qed
  moreover have "chunks_ok (own (kern h')) h' ch"
    by (rule chunks_ok_frame [OF body(2) h'(4)]) (use h' body(4) in auto)
  moreover have "\<forall>x\<in>set fl' \<union> insert (b, s) al. in_chunk ch x"
    using pl(3) body(3) in_chunk_sub by blast
  moreover have "(\<Union>c\<in>set ch. chunk_data c) = spans (set fl' \<union> insert (b, s) al)"
    using body(4) pl(1) by auto
  ultimately show ?thesis
    using that h' keeps fresh pl(2) by (simp add: heap_body_def)
qed

lemma fl_sep_inserted:
  assumes "blocks_ok h fl al" and "blk_ok z" and "\<And>x. x \<in> set fl \<Longrightarrow> span x \<inter> span z = {}"
  obtains xs ys where "fl = xs @ ys" and "fl_sep (xs @ z # ys)"
  using fl_sep_insert [OF blocks_ok_sep [OF assms(1)] assms(2)] assms(3) by blast

text \<open>Adjacent blocks lie in the same chunk: a chunk header separates the data areas.\<close>

lemma merge_in_chunk:
  assumes ch: "chunks_ok own h ch" and "in_chunk ch x" "in_chunk ch y" and adj: "blk_end x = fst y"
  shows "in_chunk ch (fst x, snd x + 16 + snd y)"
proof -
  from assms obtain c d where c: "c \<in> set ch" "span x \<subseteq> chunk_data c"
    and d: "d \<in> set ch" "span y \<subseteq> chunk_data d" by (auto simp: in_chunk_def)
  have "blk_end x - 1 \<in> span x" "fst y \<in> span y" by (auto simp: span_def blk_end_def)
  with c d have ends: "blk_end x - 1 \<in> chunk_data c" "fst y \<in> chunk_data d" by auto
  then have "blk_end x - 1 \<in> area c" "fst y - 1 \<in> area d"
    by (auto simp: chunk_data_def area_def)
  with adj have "\<not> area c \<inter> area d = {}" by auto
  with chunks_apart [OF ch c(1) d(1)] have "c = d" by blast
  moreover have "span (fst x, snd x + 16 + snd y) = span x \<union> span y"
    using adj by (auto simp: span_def blk_end_def)
  ultimately show ?thesis using c d by (auto simp: in_chunk_def)
qed

lemma merge_ok:
  "blk_ok x \<Longrightarrow> blk_ok y \<Longrightarrow> blk_end x = fst y \<Longrightarrow> blk_ok (fst x, snd x + 16 + snd y)"
  unfolding blk_ok_def blk_end_def fst_conv snd_conv by (intro conjI; presburger)

lemma free_inv:
  assumes inv: "heap_inv own h fl al ch" and x: "(b, s) \<in> al"
  obtains h' where "free h (b + 16) = Some h'"
    and "heap_inv own h' (release (b, s) fl) (al - {(b, s)}) ch"
    and "keeps h h' (al - {(b, s)})" and "kern h' = kern h"
proof -
  have lock: "\<not> g_lock h" and body: "heap_body own h fl al ch" using inv by (simp_all add: heap_inv_def)
  note bd = heap_bodyD [OF body] and blk = blocks_okD [OF heap_bodyD(1) [OF body]]
  obtain xs ys where fl: "fl = xs @ ys" and sep: "fl_sep (xs @ (b, s) # ys)"
    using fl_sep_inserted [OF bd(1), of "(b, s)"] blk(3,6) x by blast
  have hdr: "load (hmem h) b = of_nat s" using blk(4) [OF x] by simp
  obtain h' where h': "free h (b + 16) = Some h'" "fl_rep h' (release (b, s) fl)"
    "eq_outside (hmem h) (hmem h') ((\<Union>x\<in>set xs. header x) \<union> header (b, s))"
    "g_chunks h' = g_chunks h" "\<not> g_lock h'" "kern h' = kern h"
    using free_rep [OF blk(1) [unfolded fl] sep hdr lock] unfolding fl by blast
  let ?S = "(\<Union>x\<in>set xs. header x) \<union> header (b, s)"
  have S: "?S \<subseteq> spans (set fl \<union> {(b, s)})" using header_subset_span by (auto simp: fl)
  have alone: "spans (insert (b, s) (set fl)) \<inter> spans (al - {(b, s)}) = {}"
    using blk(5,6) x by blast
  have keeps: "keeps h h' (al - {(b, s)})"
    by (rule keepsI [OF h'(3)]) (use S alone in blast)
  have rel: "\<forall>y\<in>set (release (b, s) fl). blk_ok y \<and> in_chunk ch y"
    using blk(3) bd(3) x by (intro release_all conjI ballI merge_ok merge_in_chunk [OF bd(2)]) auto
  have "blocks_ok h' (release (b, s) fl) (al - {(b, s)})"
    unfolding blocks_ok_def
  proof (intro conjI ballI impI)
    show "fl_rep h' (release (b, s) fl)" by (fact h'(2))
    show "fl_gap (release (b, s) fl)" using release_gap [OF sep] blk(2) by (simp add: fl)
    show "blk_ok y" if "y \<in> set (release (b, s) fl) \<union> (al - {(b, s)})" for y
      using rel blk(3) that by blast
    show "load (hmem h') (fst y) = of_nat (snd y)" if "y \<in> al - {(b, s)}" for y
      using keeps_hdr [OF keeps that] blk(4) that by simp
    show "span y \<inter> span z = {}" if "y \<in> al - {(b, s)}" "z \<in> al - {(b, s)}" "y \<noteq> z" for y z
      using that blk(5) by blast
    show "span y \<inter> span z = {}" if "y \<in> set (release (b, s) fl)" "z \<in> al - {(b, s)}" for y z
      using alone that release_spans [of "(b, s)" fl] by blast
  qed
  moreover have "chunks_ok (own (kern h')) h' ch"
    by (rule chunks_ok_frame [OF bd(2) h'(3)]) (use S x h' bd(4) in auto)
  moreover have "(\<Union>c\<in>set ch. chunk_data c) = spans (set (release (b, s) fl) \<union> (al - {(b, s)}))"
    using bd(4) x release_spans [of "(b, s)" fl] by auto
  moreover have "\<forall>y\<in>set (release (b, s) fl) \<union> (al - {(b, s)}). in_chunk ch y"
    using rel bd(3) by blast
  ultimately show ?thesis
    using that h' keeps by (simp add: heap_body_def heap_inv_def)
qed

section \<open>A chunk from the kernel\<close>

definition chunk_total :: "size_t \<Rightarrow> size_t" where
  "chunk_total min_data =
     (let t = as_size CHUNK_HDR_SZ + as_size BLK_HDR_SZ + min_data
      in round_up (if t < CHUNK_SZ then CHUNK_SZ else t) PAGE_SZ)"

lemma chunk_total_bounds:
  assumes "unat n \<le> 2 ^ 63"
  shows "unat n + 32 \<le> unat (chunk_total n)" "65536 \<le> unat (chunk_total n)"
    "unat (chunk_total n) mod 4096 = 0"
proof -
  define t where "t = (if 32 + n < CHUNK_SZ then CHUNK_SZ else 32 + n)"
  have t32: "unat (32 + n) = 32 + unat n"
    using assms by (subst unat_add_lem [THEN iffD1]) simp_all
  have "65536 \<le> unat t" "32 + unat n \<le> unat t" "unat t \<le> 2 ^ 63 + 65536"
    using t32 assms by (auto simp: t_def CHUNK_SZ_def word_less_nat_alt)
  moreover have "unat (chunk_total n) = (unat t + 4095) div 4096 * 4096"
    using unat_round_up [of t 12] calculation
    by (simp add: chunk_total_def t_def Let_def CHUNK_HDR_SZ_def BLK_HDR_SZ_def PAGE_SZ_def)
  ultimately show "unat n + 32 \<le> unat (chunk_total n)" "65536 \<le> unat (chunk_total n)"
    "unat (chunk_total n) mod 4096 = 0" by simp_all
qed

text \<open>The state after the kernel call and the header writes, before the new block is linked.\<close>

definition chunk_init :: "'k heap \<Rightarrow> nat \<Rightarrow> size_t \<Rightarrow> 'k heap" where
  "chunk_init h0 p tot =
     (let h2 = h0\<lparr>hmem := store (store_ptr (hmem h0) p (g_chunks h0)) (p + 8) (tot - 16)\<rparr>;
          h4 = set_size_flags (h2\<lparr>g_chunks := p\<rparr>) (p + 16) ((tot - 32) OR 1)
      in set_blk_next h4 (p + 16) 0)"

lemma new_chunk_eq:
  assumes "sysalloc (kern h) (chunk_total n) (hmem h) = (st, p, m', k')"
  shows "new_chunk sysalloc h n =
    (if st \<noteq> 0 \<or> p = 0 then Some (0, h\<lparr>hmem := m', kern := k'\<rparr>)
     else do { h6 \<leftarrow> free_list_insert (chunk_init (h\<lparr>hmem := m', kern := k'\<rparr>) p (chunk_total n)) (p + 16);
               Some (p, h6) })"
  using assms unfolding chunk_total_def
  by (simp add: new_chunk_def Let_def chunk_init_def CHUNK_HDR_SZ_def BLK_HDR_SZ_def
      set_size_flags_def set_blk_next_def)

lemma chunk_init_fields [simp]:
  "g_free_list (chunk_init h p t) = g_free_list h" "g_chunks (chunk_init h p t) = p"
  "g_lock (chunk_init h p t) = g_lock h" "kern (chunk_init h p t) = kern h"
  by (simp_all add: chunk_init_def Let_def set_size_flags_def set_blk_next_def)

lemma chunk_init_mem:
  "eq_outside (hmem h) (hmem (chunk_init h p t)) {p ..< p + 32}"
  "load (hmem (chunk_init h p t)) p = of_nat (g_chunks h)"
  "load (hmem (chunk_init h p t)) (p + 8) = t - 16"
  "load (hmem (chunk_init h p t)) (p + 16) = (t - 32) OR 1"
  by (auto simp: chunk_init_def Let_def set_size_flags_def set_blk_next_def eq_outside_def mem_simps)

text \<open>Blocks of the heap lie in memory the process owns, hence apart from fresh pages; a free
  block above the new chunk does not start where the chunk ends, because its own chunk header
  is in between.\<close>

lemma fresh_apart:
  assumes inv: "heap_body own h fl al ch" and x: "x \<in> set fl \<union> al"
    and fresh: "area (p, t) \<inter> own (kern h) = {}" and t: "0 < t"
  shows "span x \<inter> area (p, t) = {}" and "fst x \<noteq> p + t"
proof -
  obtain c where c: "c \<in> set ch" "span x \<subseteq> chunk_data c"
    using heap_bodyD(3) [OF inv x] by (auto simp: in_chunk_def)
  have apart: "area c \<inter> area (p, t) = {}"
    using heap_bodyD(2) [OF inv] c(1) fresh by (auto simp: chunks_ok_def)
  with c(2) chunk_data_area show "span x \<inter> area (p, t) = {}" by blast
  have "fst x \<in> span x" by (simp add: span_def blk_end_def)
  with c(2) have "fst x \<in> chunk_data c" by blast
  then have "fst x - 1 \<in> area c" "0 < fst x" by (auto simp: chunk_data_def area_def)
  moreover have "p + t - 1 \<in> area (p, t)" using t by (simp add: area_def)
  ultimately show "fst x \<noteq> p + t" using apart by (metis disjoint_iff)
qed

lemma fl_gap_insert:
  assumes "fl_gap (xs @ ys)" and sep: "fl_sep (xs @ z # ys)"
    and "\<And>x. x \<in> set xs \<Longrightarrow> blk_end x \<noteq> fst z" and "\<And>y. y \<in> set ys \<Longrightarrow> fst y \<noteq> blk_end z"
  shows "fl_gap (xs @ z # ys)"
proof -
  have "blk_end x < fst z" if "x \<in> set xs" for x
    using assms(3) [OF that] fl_sep_mid(5) [OF sep that] by simp
  moreover have "blk_end z < fst y" if "y \<in> set ys" for y
    using assms(4) [OF that] fl_sep_mid(6) [OF sep that] by simp
  ultimately show ?thesis using assms(1) by (simp add: fl_gap_append fl_gap_Cons)
qed

lemma add_chunk_chunks:
  assumes ch: "chunks_ok (own (kern h)) h ch" and ok: "chunk_ok (p, t)"
    and fresh: "area (p, t) \<inter> own (kern h) = {}" and own': "own (kern h) \<union> area (p, t) \<subseteq> own (kern h')"
    and m': "eq_outside (hmem h) (hmem h') (S \<union> area (p, t))" and S: "S \<subseteq> (\<Union>c\<in>set ch. chunk_data c)"
    and hdr: "load (hmem h') p = of_nat (g_chunks h)" "load (hmem h') (p + 8) = of_nat t - 16"
    and g: "g_chunks h' = p"
  shows "chunks_ok (own (kern h')) h' ((p, t) # ch)"
proof -
  have "chunks_ok (own (kern h')) (h'\<lparr>g_chunks := g_chunks h\<rparr>) ch"
    by (rule chunks_ok_frame [OF ch, where S = "S \<union> area (p, t)"]) (use m' S fresh own' in auto)
  moreover have "\<forall>c\<in>set ch. area (p, t) \<inter> area c = {}"
    using ch fresh by (auto simp: chunks_ok_def)
  moreover have "g_chunks h < 2 ^ 64"
    using ch by (cases ch) (auto simp: chunks_ok_def dest: chunk_ok_fst)
  moreover have "of_nat (t - 16) = (of_nat t - 16 :: size_t)"
    using ok by (simp add: of_nat_diff chunk_ok_def)
  ultimately show ?thesis
    using ok own' hdr g by (simp add: chunks_ok_def unat_of_nat)
qed

lemma add_chunk_gap:
  assumes inv: "heap_body own h (xs @ ys) al ch" and t: "32 \<le> t"
    and fresh: "area (p, t) \<inter> own (kern h) = {}" and sep: "fl_sep (xs @ (p + 16, t - 32) # ys)"
  shows "fl_gap (xs @ (p + 16, t - 32) # ys)"
proof (rule fl_gap_insert [OF _ sep])
  have "0 < t" using t by simp
  note far = fresh_apart [OF inv _ fresh this]
  show "fl_gap (xs @ ys)" using blocks_okD(2) [OF heap_bodyD(1) [OF inv]] .
  show "blk_end x \<noteq> fst (p + 16, t - 32)" if "x \<in> set xs" for x
  proof
    assume "blk_end x = fst (p + 16, t - 32)"
    then have "p + 15 \<in> span x \<inter> area (p, t)" using t by (auto simp: span_def area_def blk_end_def)
    with far(1) [of x] that show False by auto
  qed
  show "fst y \<noteq> blk_end (p + 16, t - 32)" if "y \<in> set ys" for y
    using far(2) [of y] that t by (simp add: blk_end_def)
qed

lemma add_chunk_inv:
  assumes inv: "heap_body own h fl al ch" and ok: "chunk_ok (p, t)"
    and fresh: "area (p, t) \<inter> own (kern h) = {}" and own': "own (kern h) \<union> area (p, t) \<subseteq> own (kern h0)"
    and m0: "eq_outside (hmem h) (hmem h0) (area (p, t))"
    and g: "g_free_list h0 = g_free_list h" "g_chunks h0 = g_chunks h"
  obtains xs ys h' where "free_list_insert (chunk_init h0 p (of_nat t)) (p + 16) = Some h'"
    and "fl = xs @ ys" and "heap_body own h' (xs @ (p + 16, t - 32) # ys) al ((p, t) # ch)"
    and "keeps h h' al" and "g_lock h' = g_lock h0"
proof -
  note bd = heap_bodyD [OF inv] and blk = blocks_okD [OF heap_bodyD(1) [OF inv]]
  let ?z = "(p + 16, t - 32)" and ?c = "(p, t)"
  have t: "32 \<le> t" "0 < t" using ok by (auto simp: chunk_ok_def)
  have z: "blk_ok ?z" "span ?z = chunk_data ?c" "blk_end ?z = p + t"
    using ok by (auto simp: chunk_ok_def blk_ok_def blk_end_def span_def chunk_data_def mod_diff_eq)
  note far = fresh_apart [OF inv _ fresh t(2)]
  define h5 where "h5 = chunk_init h0 p (of_nat t)"
  note init = chunk_init_mem [of h0 p "of_nat t", folded h5_def]
  have m5: "eq_outside (hmem h) (hmem h5) (area ?c)"
    by (rule eq_outside_trans [OF m0 init(1)]) (use t in \<open>auto simp: area_def\<close>)
  have z_apart: "span x \<inter> span ?z = {}" if "x \<in> set fl \<union> al" for x
    using far(1) [OF that] chunk_data_area [of ?c] unfolding z(2) by blast
  obtain xs ys where fl: "fl = xs @ ys" and sep: "fl_sep (xs @ ?z # ys)"
    by (rule fl_sep_inserted [OF bd(1) z(1)]) (use z_apart in simp_all)
  have hd_apart: "header x \<inter> area ?c = {}" if "x \<in> set (xs @ ys)" for x
    using far(1) [of x] that header_subset_span [of x] unfolding fl by blast
  have rep5: "fl_rep h5 (xs @ ys)"
    by (rule fl_rep_frame [OF blk(1) [unfolded fl] m5 hd_apart]) (simp_all add: h5_def g)
  have "of_nat t - 32 = (of_nat (t - 32) :: size_t)" using t(1) by (simp add: of_nat_diff)
  then have hdr5: "load (hmem h5) (p + 16) = of_nat (t - 32) OR 1" using init(4) by simp
  obtain h' where h': "free_list_insert h5 (p + 16) = Some h'" "fl_rep h' (xs @ ?z # ys)"
    "eq_outside (hmem h5) (hmem h') ((\<Union>x\<in>set xs. header x) \<union> {p + 16 + 8 ..< p + 16 + 16})"
    "g_chunks h' = g_chunks h5" "g_lock h' = g_lock h5" "kern h' = kern h5"
    by (rule free_list_insert_rep [OF rep5 sep hdr5])
  have m': "eq_outside (hmem h) (hmem h') (spans (set fl) \<union> area ?c)"
    by (rule eq_outside_trans [OF m5 h'(3)])
      (use header_subset_span t in \<open>auto simp: area_def fl\<close>)
  have keeps: "keeps h h' al"
    by (rule keepsI [OF m']) (use blk(6) far(1) in blast)
  have "hmem h' a = hmem h5 a" if "a \<in> {p ..< p + 16}" for a
  proof (rule eq_outsideD [OF h'(3)])
    have "a \<in> area ?c" using that t by (simp add: area_def)
    with that hd_apart show "a \<notin> (\<Union>x\<in>set xs. header x) \<union> {p + 16 + 8 ..< p + 16 + 16}" by fastforce
  qed
  then have hdrs: "load (hmem h') p = of_nat (g_chunks h)" "load (hmem h') (p + 8) = of_nat t - 16"
    using init(2,3) g load_cong [of "hmem h'" p "hmem h5"] load_cong [of "hmem h'" "p + 8" "hmem h5"]
    by simp_all
  have "chunks_ok (own (kern h')) h' (?c # ch)"
    using h'(4,6) own' bd(4)
    by (intro add_chunk_chunks [where own = own, OF bd(2) ok fresh _ m' _ hdrs]) (auto simp: h5_def)
  moreover have "blocks_ok h' (xs @ ?z # ys) al"
    unfolding blocks_ok_def
  proof (intro conjI ballI impI)
    show "fl_gap (xs @ ?z # ys)" by (rule add_chunk_gap [OF inv [unfolded fl] t(1) fresh sep])
    show "blk_ok x" if "x \<in> set (xs @ ?z # ys) \<union> al" for x
      using that blk(3) [of x] z(1) by (auto simp: fl)
    show "load (hmem h') (fst x) = of_nat (snd x)" if "x \<in> al" for x
      using keeps_hdr [OF keeps that] blk(4) [OF that] by simp
    show "span x \<inter> span y = {}" if "x \<in> set (xs @ ?z # ys)" "y \<in> al" for x y
      using that z_apart [of y] blk(6) [of x y] by (cases "x = ?z") (auto simp: fl)
  qed (use h'(2) blk(5) in simp_all)
  moreover have "\<forall>x\<in>set (xs @ ?z # ys) \<union> al. in_chunk (?c # ch) x"
    using bd(3) z(2) by (auto simp: in_chunk_def fl)
  moreover have "(\<Union>d\<in>set (?c # ch). chunk_data d) = spans (set (xs @ ?z # ys) \<union> al)"
    using bd(4) z(2) by (auto simp: fl)
  ultimately show ?thesis
    using that [of h' xs ys] h'(1,5) fl keeps by (simp add: h5_def heap_body_def)
qed

lemma place_fits:
  assumes "x \<in> set fl" and "n \<le> snd x"
  obtains b s fl' where "place n fl = Some ((b, s), fl')"
proof (cases "place n fl")
  case None
  with place_NoneD [OF None assms(1)] assms(2) show ?thesis by simp
next
  case (Some r)
  with that show ?thesis by (cases r) auto
qed

lemma heap_body_cong:
  assumes "hmem h' = hmem h" "g_free_list h' = g_free_list h" "g_chunks h' = g_chunks h"
    "own (kern h') = own (kern h)"
  shows "heap_body own h' fl al ch = heap_body own h fl al ch"
  using assms by (simp add: heap_body_def blocks_ok_def chunks_ok_def fl_rep_def)

definition kernel_refuses :: "'k sys_alloc \<Rightarrow> 'k \<Rightarrow> size_t \<Rightarrow> mem \<Rightarrow> bool" where
  "kernel_refuses sysalloc k n m = (case sysalloc k n m of (st, p, _, _) \<Rightarrow> st \<noteq> 0 \<or> p = 0)"

lemma page_align: "x mod 4096 = 0 \<Longrightarrow> x mod 16 = (0 :: nat)"
  using mod_mod_cancel [of 16 4096 x] by simp

lemma new_chunk_inv:
  assumes inv: "heap_body own h fl al ch" and kern: "kernel_ok own sysalloc" and n: "unat n \<le> 2 ^ 63"
  obtains h' where "new_chunk sysalloc h n = Some (0, h')" "heap_body own h' fl al ch"
      "hmem h' = hmem h" "g_lock h' = g_lock h"
      "kernel_refuses sysalloc (kern h) (chunk_total n) (hmem h)"
  | c h' fl' ch' b s fl'' where "new_chunk sysalloc h n = Some (c, h')" "c \<noteq> 0"
      "heap_body own h' fl' al ch'" "keeps h h' al" "g_lock h' = g_lock h"
      "place (unat n) fl' = Some ((b, s), fl'')"
proof -
  obtain st p m' k' where call: "sysalloc (kern h) (chunk_total n) (hmem h) = (st, p, m', k')"
    by (metis prod_cases4)
  note eq = new_chunk_eq [of sysalloc h n, OF call]
  let ?h0 = "h\<lparr>hmem := m', kern := k'\<rparr>" and ?t = "unat (chunk_total n)"
  note tot = chunk_total_bounds [OF n]
  have k: "if st = 0 \<and> p \<noteq> 0
      then p mod 4096 = 0 \<and> p + ?t < 2 ^ 64 \<and> {p ..< p + ?t} \<inter> own (kern h) = {} \<and>
           own (kern h) \<union> {p ..< p + ?t} \<subseteq> own k' \<and> eq_outside (hmem h) m' {p ..< p + ?t}
      else m' = hmem h \<and> own k' = own (kern h)"
    using kern call unfolding kernel_ok_def by blast
  show ?thesis
  proof (cases "st = 0 \<and> p \<noteq> 0")
    case False
    then have "new_chunk sysalloc h n = Some (0, ?h0)" using eq by auto
    moreover have "heap_body own ?h0 fl al ch"
      using inv False k by (subst heap_body_cong [of _ h]) auto
    ultimately show ?thesis using that(1) False k call by (auto simp: kernel_refuses_def)
  next
    case True
    have "p mod 4096 = 0" using k True by simp
    then have "p mod 16 = 0" "?t mod 16 = 0" using tot(3) by (simp_all add: page_align)
    then have ok: "chunk_ok (p, ?t)" using True k tot by (simp add: chunk_ok_def)
    obtain xs ys h' where h': "free_list_insert (chunk_init ?h0 p (of_nat ?t)) (p + 16) = Some h'"
      "fl = xs @ ys" "heap_body own h' (xs @ (p + 16, ?t - 32) # ys) al ((p, ?t) # ch)"
      "keeps h h' al" "g_lock h' = g_lock ?h0"
      by (rule add_chunk_inv [OF inv ok, of ?h0]) (use True k in \<open>simp_all add: area_def\<close>)
    obtain b s fl'' where "place (unat n) (xs @ (p + 16, ?t - 32) # ys) = Some ((b, s), fl'')"
      by (rule place_fits [of "(p + 16, ?t - 32)" "xs @ (p + 16, ?t - 32) # ys" "unat n"])
        (use tot(1) in simp_all)
    then show ?thesis using that(2) h' True eq by simp
  qed
qed

section \<open>malloc\<close>

lemma round_up_align:
  assumes "unat n \<le> 2 ^ 63"
  shows "unat (round_up n ALIGN) mod 16 = 0" "unat n \<le> unat (round_up n ALIGN)"
    "unat (round_up n ALIGN) \<le> 2 ^ 63"
proof -
  have "unat (round_up n ALIGN) = (unat n + 15) div 16 * 16"
    using unat_round_up [of n 4] assms by (simp add: ALIGN_def)
  with assms show "unat (round_up n ALIGN) mod 16 = 0" "unat n \<le> unat (round_up n ALIGN)"
    "unat (round_up n ALIGN) \<le> 2 ^ 63" by auto
qed

lemma malloc_inv:
  assumes inv: "heap_inv own h fl al ch" and kern: "kernel_ok own sysalloc"
    and n: "n \<noteq> 0" "unat n \<le> 2 ^ 63"
  obtains h' where "malloc sysalloc h n = Some (0, h')" "heap_inv own h' fl al ch" "keeps h h' al"
      "place (unat (round_up n ALIGN)) fl = None"
      "kernel_refuses sysalloc (kern h) (chunk_total (round_up n ALIGN)) (hmem h)"
  | h' b s fl' ch' where "malloc sysalloc h n = Some (b + 16, h')"
      "heap_inv own h' fl' (insert (b, s) al) ch'" "keeps h h' al" "(b, s) \<notin> al" "unat n \<le> s"
proof -
  let ?n = "round_up n ALIGN" and ?h = "h\<lparr>g_lock := True\<rparr>"
  note r = round_up_align [OF n(2)]
  have lock: "\<not> g_lock h" and body: "heap_body own ?h fl al ch"
    using inv by (simp_all add: heap_inv_def)
  note sep = blocks_ok_sep [OF heap_bodyD(1) [OF body]] and rep = blocks_okD(1) [OF heap_bodyD(1) [OF body]]
  have keeps_h: "keeps ?h h' al = keeps h h' al" for h' :: "'a heap" by (simp add: keeps_def)
  show ?thesis
  proof (cases "place (unat ?n) fl")
    case (Some x)
    then obtain b s fl' where pl: "place (unat ?n) fl = Some ((b, s), fl')" by (cases x) auto
    obtain h' where h': "malloc_scan ?h ?n Head = Some (b, h')"
      "heap_body own h' fl' (insert (b, s) al) ch" "unat ?n \<le> s" "(b, s) \<notin> al" "keeps ?h h' al"
      by (rule scan_inv [OF body r(1) pl])
    have "blk_ok (b, s)" using blocks_okD(3) [OF heap_bodyD(1) [OF h'(2)]] by simp
    then have "malloc sysalloc h n = Some (b + 16, lock_release h')"
      using n(1) lock h'(1)
      by (simp add: malloc_def lock_acquire_def BLK_DATA_def BLK_HDR_SZ_def blk_ok_def)
    with that(2) [of b "lock_release h'" fl' s ch] h' r(2) show ?thesis
      by (simp add: lock_release_def heap_inv_def keeps_def)
  next
    case None
    have scan: "malloc_scan ?h ?n Head = Some (0, ?h)" by (rule malloc_scan_None [OF rep sep None])
    from body kern r(3) show ?thesis
    proof (cases rule: new_chunk_inv)
      case (1 h')
      then have "malloc sysalloc h n = Some (0, lock_release h')"
        using n(1) lock scan by (simp add: malloc_def lock_acquire_def)
      with that(1) [of "lock_release h'"] 1 None show ?thesis
        by (simp add: lock_release_def heap_inv_def keeps_def)
    next
      case (2 c h2 fl2 ch2 b s fl')
      obtain h' where h': "malloc_scan h2 ?n Head = Some (b, h')"
        "heap_body own h' fl' (insert (b, s) al) ch2" "unat ?n \<le> s" "(b, s) \<notin> al" "keeps h2 h' al"
        by (rule scan_inv [OF 2(3) r(1) 2(6)])
      have "blk_ok (b, s)" using blocks_okD(3) [OF heap_bodyD(1) [OF h'(2)]] by simp
      then have "malloc sysalloc h n = Some (b + 16, lock_release h')"
        using n(1) lock scan 2(1,2) h'(1)
        by (simp add: malloc_def lock_acquire_def BLK_DATA_def BLK_HDR_SZ_def blk_ok_def)
      with that(2) [of b "lock_release h'" fl' s ch2] h' r(2) 2(4) show ?thesis
        by (simp add: lock_release_def heap_inv_def keeps_def)
    qed
  qed
qed

end
