(* ===== verification/Malloc_Props.thy ===== *)
theory Malloc_Props
  imports Malloc_Correct
begin

text \<open>
  The contract of the allocator as its clients see it: what \<open>malloc\<close>, \<open>calloc\<close> and \<open>free\<close>
  return and keep, that a client may write anywhere in its own block, and that freeing every
  block gives back whole chunks. A small page allocator instantiates the kernel parameter.
\<close>

section \<open>A kernel that satisfies the hypothesis\<close>

text \<open>The state counts pages handed out; page frames start at address 65536.\<close>

definition bump_own :: "nat \<Rightarrow> nat set" where
  "bump_own k = {..< (k + 16) * 4096}"

definition bump_alloc :: "nat sys_alloc" where
  "bump_alloc k n m =
     (let p = (k + 16) * 4096
      in if p + unat n < 2 ^ 64 then (0, p, m, k + (unat n + 4095) div 4096) else (1, 0, m, k))"

definition empty_heap :: "'k \<Rightarrow> 'k heap" where
  "empty_heap k = \<lparr>hmem = (\<lambda>_. NUL), g_chunks = 0, g_free_list = 0, g_lock = False, kern = k\<rparr>"

lemma kernel_ok_bump: "kernel_ok bump_own bump_alloc"
proof -
  have "(k + 16) * 4096 + n \<le> (k + (n + 4095) div 4096 + 16) * 4096" for k n :: nat
  proof -
    define q where "q = (n + 4095) div 4096"
    have "q * 4096 + (n + 4095) mod 4096 = n + 4095" unfolding q_def by (rule div_mult_mod_eq)
    moreover have "(n + 4095) mod 4096 < 4096" by simp
    ultimately have "n \<le> q * 4096" by arith
    then show ?thesis unfolding q_def by (simp add: add_mult_distrib)
  qed
  then show ?thesis
    by (fastforce simp: kernel_ok_def bump_alloc_def bump_own_def Let_def eq_outside_def
        split: if_splits)
qed

lemma heap_inv_empty: "heap_inv own (empty_heap k) [] {} []"
  by (simp add: heap_inv_def heap_body_def blocks_ok_def chunks_ok_def fl_rep_def empty_heap_def)

section \<open>Client writes and calloc\<close>

lemma write_inv:
  assumes inv: "heap_inv own h fl al ch" and x: "(b, s) \<in> al"
    and m': "eq_outside (hmem h) m' {b + 16 ..< b + 16 + s}"
  shows "heap_inv own (h\<lparr>hmem := m'\<rparr>) fl al ch" and "keeps h (h\<lparr>hmem := m'\<rparr>) (al - {(b, s)})"
proof -
  have body: "heap_body own h fl al ch" using inv by (simp add: heap_inv_def)
  note bd = heap_bodyD [OF body] and blk = blocks_okD [OF heap_bodyD(1) [OF body]]
  let ?h = "h\<lparr>hmem := m'\<rparr>" and ?S = "{b + 16 ..< b + 16 + s}"
  have mh: "eq_outside (hmem h) (hmem ?h) ?S" using m' by simp
  have S: "?S \<subseteq> span (b, s)" by (auto simp: span_def blk_end_def)
  have others: "span y \<inter> span (b, s) = {}" if "y \<in> al - {(b, s)}" for y
    using blk(5) [of y "(b, s)"] that x by blast
  show keeps: "keeps h ?h (al - {(b, s)})"
    by (rule keepsI [OF mh]) (use S others in blast)
  have "fl_rep ?h fl"
  proof (rule fl_rep_frame [OF blk(1) mh])
    show "header y \<inter> ?S = {}" if "y \<in> set fl" for y
      using S header_subset_span [of y] blk(6) [OF that x] by blast
  qed simp
  moreover have "load m' (fst y) = of_nat (snd y)" if "y \<in> al" for y
  proof (cases "y = (b, s)")
    case True
    have "load m' b = load (hmem h) b" by (rule load_cong) (use m' in \<open>simp add: eq_outside_def\<close>)
    with True blk(4) [OF that] show ?thesis by simp
  next
    case False
    with keeps_hdr [OF keeps, of y] blk(4) [OF that] that show ?thesis by simp
  qed
  moreover have "chunks_ok (own (kern h)) ?h ch"
    by (rule chunks_ok_frame [OF bd(2) mh]) (use S x bd(4) in auto)
  ultimately show "heap_inv own ?h fl al ch"
    using inv by (auto simp: heap_inv_def heap_body_def blocks_ok_def)
qed

lemma unat_mult_no_overflow:
  fixes a b :: size_t
  assumes "a \<noteq> 0"
  shows "b > (-1) div a \<longleftrightarrow> unat a * unat b \<ge> 2 ^ 64"
proof -
  have "unat ((-1 :: size_t) div a) = (2 ^ 64 - 1) div unat a"
    by (simp add: unat_div_distrib unsigned_minus_1_eq_mask mask_eq_exp_minus_1)
  moreover have "0 < unat a" using assms by (simp add: unat_gt_0)
  then have "(2 ^ 64 - 1) div unat a < unat b \<longleftrightarrow> 2 ^ 64 - 1 < unat b * unat a"
    by (rule div_less_iff_less_mult)
  ultimately have "b > (-1) div a \<longleftrightarrow> 2 ^ 64 - 1 < unat b * unat a"
    by (simp only: word_less_nat_alt)
  then show ?thesis by (auto simp: mult.commute)
qed

lemma calloc_inv:
  assumes inv: "heap_inv own h fl al ch" and kern: "kernel_ok own sysalloc"
    and n: "0 < unat nmemb * unat sz" "unat nmemb * unat sz \<le> 2 ^ 63"
  obtains h' where "calloc sysalloc h nmemb sz = Some (0, h')" "heap_inv own h' fl al ch" "keeps h h' al"
  | h' b s fl' ch' where "calloc sysalloc h nmemb sz = Some (b + 16, h')"
      "heap_inv own h' fl' (insert (b, s) al) ch'" "keeps h h' al" "(b, s) \<notin> al"
      "unat nmemb * unat sz \<le> s"
      "bytes (hmem h') (b + 16) (unat nmemb * unat sz) = replicate (unat nmemb * unat sz) NUL"
proof -
  have nz: "nmemb \<noteq> 0" "nmemb * sz \<noteq> 0" and tot: "unat (nmemb * sz) = unat nmemb * unat sz"
  proof -
    have "unat nmemb * unat sz < 2 ^ LENGTH(64)" using n(2) by simp
    then show tot: "unat (nmemb * sz) = unat nmemb * unat sz" by (simp add: unat_mult_lem [symmetric])
    with n(1) show "nmemb * sz \<noteq> 0" "nmemb \<noteq> 0" by auto
  qed
  have no: "\<not> sz > (-1) div nmemb" using unat_mult_no_overflow [OF nz(1)] n(2) by simp
  have le: "unat (nmemb * sz) \<le> 2 ^ 63" using n(2) tot by simp
  from inv kern nz(2) le show ?thesis
  proof (cases rule: malloc_inv)
    case (1 h')
    with that(1) nz no show ?thesis by (simp add: calloc_def)
  next
    case (2 h' b s fl' ch')
    let ?m = "snd (memset (hmem h') (b + 16) 0 (nmemb * sz))"
    let ?h = "h'\<lparr>hmem := ?m\<rparr>"
    have m: "?m = mem_write (hmem h') (b + 16) (replicate (unat nmemb * unat sz) NUL)"
      by (simp add: memset_eq tot)
    have out: "eq_outside (hmem h') ?m {b + 16 ..< b + 16 + s}"
      unfolding m using 2(5) tot by (auto simp: eq_outside_def mem_write_def)
    note w = write_inv [OF 2(2) insertI1 out]
    have kp: "keeps h' ?h al" using w(2) 2(4) by simp
    show ?thesis
    proof (rule that(2) [OF _ w(1) keeps_trans [OF 2(3) kp] 2(4)])
      show "calloc sysalloc h nmemb sz = Some (b + 16, ?h)"
        using 2(1) nz no by (simp add: calloc_def)
      show "unat nmemb * unat sz \<le> s" using 2(5) tot by simp
      show "bytes (hmem ?h) (b + 16) (unat nmemb * unat sz) = replicate (unat nmemb * unat sz) NUL"
        using bytes_mem_write [of "hmem h'" "b + 16" "replicate (unat nmemb * unat sz) NUL"]
        by (simp add: m)
    qed
  qed
qed

section \<open>Coalescing is complete\<close>

lemma chunk_start_block:
  assumes body: "heap_body own h fl al ch" and c: "c \<in> set ch" and a: "a \<in> chunk_data c"
  obtains x where "x \<in> set fl \<union> al" "a \<in> span x" "span x \<subseteq> chunk_data c"
proof -
  from heap_bodyD(4) [OF body] a c obtain x where x: "x \<in> set fl \<union> al" "a \<in> span x" by blast
  then obtain d where d: "d \<in> set ch" "span x \<subseteq> chunk_data d"
    using heap_bodyD(3) [OF body x(1)] unfolding in_chunk_def by blast
  have "a \<in> area c \<inter> area d" using a x(2) d(2) chunk_data_area by blast
  then have "c = d" using chunks_apart [OF heap_bodyD(2) [OF body] c d(1)] by blast
  with that x d show ?thesis by blast
qed

lemma fl_gapD:
  assumes "fl_gap fl" and "x \<in> set fl" "y \<in> set fl" "x \<noteq> y"
  shows "blk_end x < fst y \<or> blk_end y < fst x"
  using assms unfolding fl_gap_def
  by (metis (no_types, lifting) in_set_conv_nth linorder_neqE_nat sorted_wrt_iff_nth_less)

text \<open>With no block allocated, the block at the start of a chunk reaches its end: a block that
  ended earlier would be followed directly by another free block.\<close>

lemma chunk_one_block:
  assumes body: "heap_body own h fl {} ch" and c: "c \<in> set ch"
  shows "(fst c + 16, snd c - 32) \<in> set fl"
proof -
  have t: "32 \<le> snd c" using heap_bodyD(2) [OF body] c by (auto simp: chunks_ok_def chunk_ok_def)
  then have "fst c + 16 \<in> chunk_data c" by (simp add: chunk_data_def)
  from chunk_start_block [OF body c this] obtain x where
    x: "x \<in> set fl" "fst c + 16 \<in> span x" "span x \<subseteq> chunk_data c" by auto
  have "fst x \<in> span x" "blk_end x - 1 \<in> span x" by (auto simp: span_def blk_end_def)
  with x have "fst x \<in> chunk_data c" "blk_end x - 1 \<in> chunk_data c" by blast+
  with x(2) have start: "fst x = fst c + 16" and le: "blk_end x \<le> fst c + snd c"
    by (auto simp: chunk_data_def span_def)
  have "blk_end x = fst c + snd c"
  proof (rule ccontr)
    assume "blk_end x \<noteq> fst c + snd c"
    with le start have "blk_end x \<in> chunk_data c" by (simp add: chunk_data_def blk_end_def)
    from chunk_start_block [OF body c this] obtain y where y: "y \<in> set fl" "blk_end x \<in> span y"
      by blast
    then have "x \<noteq> y" by (auto simp: span_def)
    with fl_gapD [OF blocks_okD(2) [OF heap_bodyD(1) [OF body]] x(1) y(1)] y(2)
    show False by (auto simp: span_def blk_end_def)
  qed
  with start t have "x = (fst c + 16, snd c - 32)" by (cases x) (simp add: blk_end_def)
  with x(1) show ?thesis by simp
qed

lemma all_free_coalesced:
  assumes inv: "heap_inv own h fl {} ch"
  shows "set fl = (\<lambda>c. (fst c + 16, snd c - 32)) ` set ch"
proof
  have body: "heap_body own h fl {} ch" using inv by (simp add: heap_inv_def)
  show "set fl \<subseteq> (\<lambda>c. (fst c + 16, snd c - 32)) ` set ch"
  proof
    fix y assume y: "y \<in> set fl"
    then obtain c where c: "c \<in> set ch" "span y \<subseteq> chunk_data c"
      using heap_bodyD(3) [OF body, of y] unfolding in_chunk_def by blast
    let ?x = "(fst c + 16, snd c - 32)"
    have "fst y \<in> span y" by (simp add: span_def blk_end_def)
    with c(2) have "fst y \<in> span ?x" by (auto simp: chunk_data_def span_def blk_end_def)
    with fl_gapD [OF blocks_okD(2) [OF heap_bodyD(1) [OF body]] y chunk_one_block [OF body c(1)]]
    have "y = ?x" by (auto simp: span_def blk_end_def)
    with c(1) show "y \<in> (\<lambda>c. (fst c + 16, snd c - 32)) ` set ch" by blast
  qed
  show "(\<lambda>c. (fst c + 16, snd c - 32)) ` set ch \<subseteq> set fl"
    using chunk_one_block [OF body] by blast
qed

section \<open>Properties\<close>



text \<open>C2. \<open>free\<close> on an allocated block returns; the heap is well-formed without the block, its free
  list is the old one with the block put in address order and merged with the free blocks
  directly before and after it, and no byte of another allocated block changes.\<close>

theorem free_correct:
  assumes "heap_inv own h fl al ch" and "(b, s) \<in> al"
  shows "\<exists>h'. free h (BLK_DATA b) = Some h' \<and> keeps h h' (al - {(b, s)}) \<and>
    heap_inv own h' (release (b, s) fl) (al - {(b, s)}) ch"
  using free_inv [OF assms] by (metis BLK_DATA_def BLK_HDR_SZ_def)

text \<open>A heap with one live block: the first block of the first chunk.\<close>

definition one_block_heap :: "nat heap" where
  "one_block_heap = snd (the (malloc bump_alloc (empty_heap 0) 100))"

lemma bump_first: "\<not> kernel_refuses bump_alloc 0 (chunk_total (round_up 100 ALIGN)) m"
  by (simp add: kernel_refuses_def bump_alloc_def chunk_total_def round_up_def ALIGN_def PAGE_SZ_def
      CHUNK_SZ_def CHUNK_HDR_SZ_def BLK_HDR_SZ_def Let_def)

lemma one_block_heap_inv:
  obtains b s fl ch where "heap_inv bump_own one_block_heap fl {(b, s)} ch"
proof -
  have pre: "heap_inv bump_own (empty_heap 0) [] {} []" "(100 :: size_t) \<noteq> 0" "unat (100 :: size_t) \<le> 2 ^ 63"
    by (simp_all add: heap_inv_empty)
  from pre(1) kernel_ok_bump pre(2,3) show ?thesis
  proof (cases rule: malloc_inv)
    case (1 h')
    then show ?thesis using bump_first by (simp add: empty_heap_def)
  next
    case (2 h' b s fl' ch')
    then have "one_block_heap = h'" by (simp add: one_block_heap_def)
    with 2(2) that show ?thesis by simp
  qed
qed

theorem free_correct_witness:
  "\<exists>b s fl ch h'. heap_inv bump_own one_block_heap fl {(b, s)} ch \<and>
     free one_block_heap (BLK_DATA b) = Some h' \<and> keeps one_block_heap h' ({(b, s)} - {(b, s)}) \<and>
     heap_inv bump_own h' (release (b, s) fl) ({(b, s)} - {(b, s)}) ch"
proof -
  obtain b s fl ch where inv: "heap_inv bump_own one_block_heap fl {(b, s)} ch"
    by (rule one_block_heap_inv)
  with free_correct [OF inv, of b s] show ?thesis by blast
qed

text \<open>C3. When the last allocated block is freed, the free list holds exactly one block per chunk,
  which spans the whole chunk: freeing leaves no fragmentation behind.\<close>

theorem free_last_coalesces:
  assumes "heap_inv own h fl {(b, s)} ch"
  shows "\<exists>h' fl'. free h (BLK_DATA b) = Some h' \<and> heap_inv own h' fl' {} ch \<and>
    set fl' = (\<lambda>c. (fst c + 16, snd c - 32)) ` set ch"
proof -
  obtain h' where h': "free h (b + 16) = Some h'"
    "heap_inv own h' (release (b, s) fl) ({(b, s)} - {(b, s)}) ch"
    using free_inv [OF assms, of b s] by blast
  then have "heap_inv own h' (release (b, s) fl) {} ch" by simp
  with h'(1) all_free_coalesced [OF this] show ?thesis
    by (auto simp: BLK_DATA_def BLK_HDR_SZ_def)
qed

theorem free_last_coalesces_witness:
  "\<exists>b ch h' fl'. free one_block_heap (BLK_DATA b) = Some h' \<and> heap_inv bump_own h' fl' {} ch \<and>
    set fl' = (\<lambda>c. (fst c + 16, snd c - 32)) ` set ch"
proof -
  obtain b s fl ch where inv: "heap_inv bump_own one_block_heap fl {(b, s)} ch"
    by (rule one_block_heap_inv)
  from free_last_coalesces [OF inv] show ?thesis by blast
qed



end
