(* ===== verification/Stdlib.thy ===== *)
theory Stdlib
  imports Ctype
begin

text \<open>
  \<open>userspace/libc/stdlib.c\<close>: number parsing and printing. A \<open>const char *\<close> argument is a
  string; the \<open>end\<close> pointer is the index it points at. Unsigned arithmetic wraps at 64 bits.
  Printing returns the text left in the buffer, or no result when the code divides by zero,
  indexes past its digit table or does not leave its loop.
\<close>

section \<open>Parsing\<close>

definition is_space :: "byte \<Rightarrow> bool" where
  "is_space c \<longleftrightarrow> c = CHR '' '' \<or> c = CHR 0x09 \<or> c = newline \<or> c = CHR 0x0D \<or> c = CHR 0x0C \<or>
     c = CHR 0x0B"

definition digit_val :: "byte \<Rightarrow> int \<Rightarrow> int" where
  "digit_val c base =
     (let v = (if schar c \<ge> 48 \<and> schar c \<le> 57 then schar c - 48
               else if schar c \<ge> 97 \<and> schar c \<le> 122 then schar c - 97 + 10
               else if schar c \<ge> 65 \<and> schar c \<le> 90 then schar c - 65 + 10
               else -1)
      in if v = -1 then -1 else if v < base then v else -1)"

fun skip_space :: "string \<Rightarrow> nat" where
  "skip_space [] = 0"
| "skip_space (c # s) = (if is_space c then Suc (skip_space s) else 0)"

text \<open>The digit loop on the text that is left: value, number of digits.\<close>

fun digits_loop :: "int \<Rightarrow> int \<Rightarrow> string \<Rightarrow> int \<times> nat" where
  "digits_loop base result [] = (result, 0)"
| "digits_loop base result (c # s) =
     (let d = digit_val c base
      in if d \<ge> 0 then
           (let (r, n) = digits_loop base (uint64 (result * uint64 base + d)) s in (r, Suc n))
         else (result, 0))"

definition has_0x :: "string \<Rightarrow> nat \<Rightarrow> bool" where
  "has_0x s i \<longleftrightarrow> peek s i = CHR ''0'' \<and> (peek s (i + 1) = CHR ''x'' \<or> peek s (i + 1) = CHR ''X'')"

definition parse_ull :: "string \<Rightarrow> int \<Rightarrow> int \<times> nat \<times> bool" where
  "parse_ull s base0 =
     (let i0 = skip_space s;
          neg = (peek s i0 = CHR ''-'');
          i1 = (if neg then i0 + 1 else if peek s i0 = CHR ''+'' then i0 + 1 else i0);
          base = (if base0 = 0
                  then (if has_0x s i1 then 16 else if peek s i1 = CHR ''0'' then 8 else 10)
                  else base0);
          i2 = (if base = 16 \<and> has_0x s i1 then i1 + 2 else i1);
          (result, n) = digits_loop base 0 (drop i2 s);
          i3 = i2 + n
      in (result,
          (if n > 0 then i3 else i3 - (if neg \<or> peek s i3 = CHR ''+'' then 1 else 0)),
          neg))"

definition strtol :: "string \<Rightarrow> int \<Rightarrow> int \<times> nat" where
  "strtol s base = (let (val, e, neg) = parse_ull s base
                    in (if neg then int64 (- int64 val) else int64 val, e))"

definition strtoul :: "string \<Rightarrow> int \<Rightarrow> int \<times> nat" where
  "strtoul s base = (let (val, e, neg) = parse_ull s base in (if neg then uint64 (- val) else val, e))"

definition strtoll :: "string \<Rightarrow> int \<Rightarrow> int \<times> nat" where
  "strtoll s base = (let (val, e, neg) = parse_ull s base
                     in (if neg then int64 (- int64 val) else int64 val, e))"

definition strtoull :: "string \<Rightarrow> int \<Rightarrow> int \<times> nat" where
  "strtoull s base = (let (val, e, neg) = parse_ull s base in (if neg then uint64 (- val) else val, e))"

definition atoi :: "string \<Rightarrow> int" where
  "atoi s = int32 (fst (strtol s 10))"

definition atol :: "string \<Rightarrow> int" where
  "atol s = fst (strtol s 10)"

definition atoll :: "string \<Rightarrow> int" where
  "atoll s = fst (strtoll s 10)"

section \<open>Printing\<close>

definition digit_table :: "bool \<Rightarrow> string" where
  "digit_table upper = (if upper then ''0123456789ABCDEF'' else ''0123456789abcdef'')"

partial_function (option) emit_digits :: "bool \<Rightarrow> int \<Rightarrow> int \<Rightarrow> string \<Rightarrow> string option" where
  "emit_digits upper base val buf =
     (if val = 0 then Some buf
      else if uint64 base = 0 \<or> val mod uint64 base \<ge> 16 then None
      else emit_digits upper base (val div uint64 base)
             (buf @ [digit_table upper ! nat (val mod uint64 base)]))"

declare emit_digits.simps [code]

function reverse_loop :: "string \<Rightarrow> int \<Rightarrow> int \<Rightarrow> string" where
  "reverse_loop buf l r =
     (if l < r then reverse_loop (buf[nat l := buf ! nat r, nat r := buf ! nat l]) (l + 1) (r - 1)
      else buf)"
  by auto
termination by (relation "measure (\<lambda>(_, l, r). nat (r - l))") auto

declare reverse_loop.simps [simp del]

definition ull_to_str :: "int \<Rightarrow> int \<Rightarrow> bool \<Rightarrow> string option" where
  "ull_to_str val base upper =
     do { buf \<leftarrow> emit_digits upper base val (if val = 0 then [CHR ''0''] else []);
          Some (reverse_loop buf 0 (int (length buf) - 1)) }"

definition itoa :: "int \<Rightarrow> int \<Rightarrow> string option" where
  "itoa n base =
     (if n < 0 \<and> base = 10
      then map_option ((#) (CHR ''-'')) (ull_to_str (uint32 (uint32 (- (n + 1)) + 1)) base False)
      else ull_to_str (uint32 n) base False)"

definition ltoa :: "int \<Rightarrow> int \<Rightarrow> string option" where
  "ltoa n base =
     (if n < 0 \<and> base = 10
      then map_option ((#) (CHR ''-'')) (ull_to_str (uint64 (uint64 (- (n + 1)) + 1)) base False)
      else ull_to_str (uint64 n) base False)"

definition ultoa :: "int \<Rightarrow> int \<Rightarrow> string option" where
  "ultoa n base = ull_to_str n base False"

section \<open>The digit loop\<close>

lemma uint64_mult_add: "uint64 (uint64 a * uint64 b + d) = uint64 (a * b + d)"
  unfolding uint64_mod by (metis mod_add_left_eq mod_mult_eq)

lemma uint64_idem [simp]: "uint64 (uint64 x) = uint64 x"
  by (simp add: uint64_mod)

definition is_digit :: "int \<Rightarrow> byte \<Rightarrow> bool" where
  "is_digit base c \<longleftrightarrow> digit_val c base \<ge> 0"

definition digits_num :: "int \<Rightarrow> string \<Rightarrow> int" where
  "digits_num base s = foldl (\<lambda>a c. a * base + digit_val c base) 0 s"

lemma digits_loop_foldl:
  "digits_loop base (uint64 a) s =
     (uint64 (foldl (\<lambda>a c. a * base + digit_val c base) a (takeWhile (is_digit base) s)),
      length (takeWhile (is_digit base) s))"
proof (induction s arbitrary: a)
  case (Cons c s)
  then show ?case by (simp add: is_digit_def Let_def uint64_mult_add)
qed simp

lemma digits_loop_eq:
  "digits_loop base 0 s =
     (uint64 (digits_num base (takeWhile (is_digit base) s)), length (takeWhile (is_digit base) s))"
  using digits_loop_foldl [of base 0 s] by (simp add: digits_num_def uint64_mod)

section \<open>Printing and reversing\<close>

lemma length_reverse_loop [simp]: "length (reverse_loop buf l r) = length buf"
  by (induction buf l r rule: reverse_loop.induct) (subst reverse_loop.simps, simp)

lemma reverse_loop_nth:
  "0 \<le> l \<Longrightarrow> r < int (length buf) \<Longrightarrow> i < length buf \<Longrightarrow>
   reverse_loop buf l r ! i = (if l \<le> int i \<and> int i \<le> r then buf ! nat (l + r - int i) else buf ! i)"
proof (induction buf l r rule: reverse_loop.induct)
  case (1 buf l r)
  show ?case
  proof (cases "l < r")
    case True
    let ?b = "buf[nat l := buf ! nat r, nat r := buf ! nat l]"
    have "reverse_loop buf l r ! i = reverse_loop ?b (l + 1) (r - 1) ! i"
      using True by (subst reverse_loop.simps) simp
    also have "\<dots> = (if l + 1 \<le> int i \<and> int i \<le> r - 1 then ?b ! nat (l + r - int i) else ?b ! i)"
      using "1.IH" [OF True] "1.prems" True by simp
    also have "\<dots> = (if l \<le> int i \<and> int i \<le> r then buf ! nat (l + r - int i) else buf ! i)"
      using "1.prems" True by (auto simp: nth_list_update nat_eq_iff)
    finally show ?thesis .
  next
    case False
    have "nat (l + r - int i) = i" if "l \<le> int i" "int i \<le> r" using that False by linarith
    with False show ?thesis by (subst reverse_loop.simps) simp
  qed
qed

lemma reverse_loop_rev: "reverse_loop buf 0 (int (length buf) - 1) = rev buf"
proof (rule nth_equalityI)
  fix i assume "i < length (reverse_loop buf 0 (int (length buf) - 1))"
  then show "reverse_loop buf 0 (int (length buf) - 1) ! i = rev buf ! i"
    by (subst reverse_loop_nth) (auto simp: rev_nth nat_diff_distrib)
qed simp

text \<open>The digits of a number, most significant last, as the first loop emits them.\<close>

function digits_le :: "int \<Rightarrow> int \<Rightarrow> int list" where
  "digits_le base v = (if v \<le> 0 \<or> base < 2 then [] else v mod base # digits_le base (v div base))"
  by auto
termination by (relation "measure (\<lambda>(b, v). nat v)") (auto intro: int_div_less_self)

declare digits_le.simps [simp del]

definition digit_char :: "bool \<Rightarrow> int \<Rightarrow> byte" where
  "digit_char upper d = digit_table upper ! nat d"

lemma emit_digits_eq:
  assumes "2 \<le> base" "base \<le> 16" "0 \<le> v"
  shows "emit_digits upper base v buf = Some (buf @ map (digit_char upper) (digits_le base v))"
  using assms
proof (induction base v arbitrary: buf rule: digits_le.induct)
  case (1 base v)
  have base: "uint64 base = base" using "1.prems" by (simp add: uint64_id)
  show ?case
  proof (cases "v = 0")
    case True
    then show ?thesis by (subst emit_digits.simps) (simp add: digits_le.simps)
  next
    case False
    have "v mod base < 16" using "1.prems" pos_mod_bound [of base v] by linarith
    then show ?thesis
      using False "1.prems" base "1.IH" [of "buf @ [digit_char upper (v mod base)]"]
      by (subst emit_digits.simps, subst digits_le.simps)
        (simp add: digit_char_def pos_imp_zdiv_nonneg_iff)
  qed
qed

lemma ull_to_str_eq:
  assumes "2 \<le> base" "base \<le> 16" "0 \<le> v"
  shows "ull_to_str v base upper =
    Some (if v = 0 then [CHR ''0''] else rev (map (digit_char upper) (digits_le base v)))"
proof (cases "v = 0")
  case True
  then show ?thesis
    using reverse_loop_rev [of "[CHR ''0'']"]
    by (subst ull_to_str_def, subst emit_digits.simps) simp
next
  case False
  then show ?thesis
    using assms reverse_loop_rev [of "map (digit_char upper) (digits_le base v)"]
    by (simp add: ull_to_str_def emit_digits_eq)
qed

section \<open>Reading back what was printed\<close>

lemma digit_val_36: "base \<le> 36 \<Longrightarrow> digit_val c base = (if digit_val c 36 < base then digit_val c 36 else -1)"
  by (simp add: digit_val_def Let_def)

lemma digit_table_vals:
  "\<forall>d\<in>set [0, 1, 2, 3, 4, 5, 6, 7, 8, 9, 10, 11, 12, 13, 14, 15].
     digit_val (digit_char True d) 36 = d \<and> digit_val (digit_char False d) 36 = d"
  by code_simp

lemma digit_val_char:
  assumes "0 \<le> d" "d < base" "base \<le> 16"
  shows "digit_val (digit_char upper d) base = d"
proof -
  have "d < 16" using assms by simp
  then have "d = 0 \<or> d = 1 \<or> d = 2 \<or> d = 3 \<or> d = 4 \<or> d = 5 \<or> d = 6 \<or> d = 7 \<or> d = 8 \<or> d = 9 \<or>
      d = 10 \<or> d = 11 \<or> d = 12 \<or> d = 13 \<or> d = 14 \<or> d = 15"
    using assms(1) by presburger
  then have "d \<in> set [0, 1, 2, 3, 4, 5, 6, 7, 8, 9, 10, 11, 12, 13, 14, 15]" by auto
  then have "digit_val (digit_char upper d) 36 = d"
    using bspec [OF digit_table_vals] by (cases upper) simp_all
  then show ?thesis using assms by (simp add: digit_val_36 [of base])
qed

lemma digits_le_Cons:
  "0 < v \<Longrightarrow> 2 \<le> base \<Longrightarrow> digits_le base v = v mod base # digits_le base (v div base)"
  by (subst digits_le.simps) simp

lemma digits_le_0 [simp]: "digits_le base 0 = []"
  by (subst digits_le.simps) simp

lemma digits_le_pos_induct [consumes 2, case_names zero step]:
  assumes "2 \<le> base" "0 \<le> v" and "P 0"
    and "\<And>v. 0 < v \<Longrightarrow> P (v div base) \<Longrightarrow> P v"
  shows "P (v :: int)"
  using assms(2)
proof (induction "nat v" arbitrary: v rule: less_induct)
  case less
  show ?case
  proof (cases "v = 0")
    case False
    with less.prems have v: "0 < v" by simp
    have "v div base < v" using v assms(1) by (intro int_div_less_self) simp_all
    moreover have "0 \<le> v div base" using v assms(1) by (simp add: pos_imp_zdiv_nonneg_iff)
    ultimately have "P (v div base)" using less.hyps v by simp
    with v show ?thesis by (rule assms(4))
  qed (simp add: assms(3))
qed

lemma digits_le_bounds:
  assumes "2 \<le> base" "0 \<le> v"
  shows "\<forall>d\<in>set (digits_le base v). 0 \<le> d \<and> d < base"
  using assms
proof (induction v rule: digits_le_pos_induct)
  case (step v)
  have "0 \<le> v mod base \<and> v mod base < base" using assms(1) by simp
  with step.IH show ?case
    unfolding digits_le_Cons [OF step.hyps(1) assms(1)] by (metis set_ConsD)
qed simp

lemma digits_le_value:
  assumes "2 \<le> base" "0 \<le> v"
  shows "foldl (\<lambda>a d. a * base + d) 0 (rev (digits_le base v)) = v"
  using assms
proof (induction v rule: digits_le_pos_induct)
  case (step v)
  show ?case
    unfolding digits_le_Cons [OF step.hyps(1) assms(1)] rev.simps foldl_append step.IH by simp
qed simp

lemma digits_num_chars:
  assumes "\<forall>d\<in>set ds. 0 \<le> d \<and> d < base" "base \<le> 16"
  shows "digits_num base (map (digit_char upper) ds) = foldl (\<lambda>a d. a * base + d) 0 ds"
    and "takeWhile (is_digit base) (map (digit_char upper) ds) = map (digit_char upper) ds"
proof -
  have "foldl (\<lambda>a c. a * base + digit_val c base) a (map (digit_char upper) ds)
      = foldl (\<lambda>a d. a * base + d) a ds" for a
    using assms by (induction ds arbitrary: a) (simp_all add: digit_val_char)
  then show "digits_num base (map (digit_char upper) ds) = foldl (\<lambda>a d. a * base + d) 0 ds"
    by (simp add: digits_num_def)
  show "takeWhile (is_digit base) (map (digit_char upper) ds) = map (digit_char upper) ds"
    using assms by (auto simp: takeWhile_eq_all_conv is_digit_def digit_val_char)
qed

lemma non_digits:
  "\<forall>c\<in>set [CHR '' '', CHR 0x09, newline, CHR 0x0D, CHR 0x0C, CHR 0x0B, CHR ''-'', CHR ''+''].
     digit_val c 36 = -1"
  "digit_val (CHR ''x'') 36 = 33" "digit_val (CHR ''X'') 36 = 33" "digit_val NUL 36 = -1"
  by code_simp+

lemma is_digit_plain:
  assumes "is_digit base c" "0 < base" "base \<le> 36"
  shows "\<not> is_space c" "c \<noteq> CHR ''-''" "c \<noteq> CHR ''+''" "base \<le> 16 \<Longrightarrow> c \<noteq> CHR ''x'' \<and> c \<noteq> CHR ''X''"
proof -
  have d: "0 \<le> digit_val c 36 \<and> digit_val c 36 < base"
    using assms by (auto simp: is_digit_def digit_val_36 [of base] split: if_splits)
  then have "c \<notin> set [CHR '' '', CHR 0x09, newline, CHR 0x0D, CHR 0x0C, CHR 0x0B, CHR ''-'', CHR ''+'']"
    using non_digits(1) by fastforce
  then show "\<not> is_space c" "c \<noteq> CHR ''-''" "c \<noteq> CHR ''+''" by (auto simp: is_space_def)
  show "c \<noteq> CHR ''x'' \<and> c \<noteq> CHR ''X''" if "base \<le> 16"
    using d non_digits(2,3) that by auto
qed

lemma all_digits_no_0x:
  assumes "\<forall>c\<in>set s. is_digit 16 c"
  shows "\<not> has_0x s 0"
  using assms is_digit_plain(4) [of 16 "s ! 1"] by (auto simp: has_0x_def peek_def split: if_splits)

lemma parse_digits:
  assumes "s \<noteq> []" "\<forall>c\<in>set s. is_digit base c" "2 \<le> base" "base \<le> 36"
  shows "parse_ull s base = (uint64 (digits_num base s), length s, False)"
    and "parse_ull (CHR ''-'' # s) base = (uint64 (digits_num base s), Suc (length s), True)"
proof -
  have plain: "\<not> is_space c" "c \<noteq> CHR ''-''" "c \<noteq> CHR ''+''" if "c \<in> set s" for c
    using that assms is_digit_plain [of base c] by auto
  have no0x: "base = 16 \<Longrightarrow> \<not> has_0x s 0" using all_digits_no_0x assms(2) by blast
  have loop: "digits_loop base 0 s = (uint64 (digits_num base s), length s)"
    using assms(2) by (simp add: digits_loop_eq takeWhile_eq_all_conv [THEN iffD2])
  obtain c t where s: "s = c # t" using assms(1) by (cases s) auto
  have skip: "skip_space s = 0" "peek s 0 \<noteq> CHR ''-''" "peek s 0 \<noteq> CHR ''+''"
    using plain [of c] by (simp_all add: s)
  show "parse_ull s base = (uint64 (digits_num base s), length s, False)"
    using skip loop no0x assms(1,3) by (auto simp: parse_ull_def Let_def)
  have "skip_space (CHR ''-'' # s) = 0" by (simp add: is_space_def)
  moreover have "base = 16 \<Longrightarrow> \<not> has_0x (CHR ''-'' # s) 1" using no0x by (simp add: has_0x_def)
  ultimately show "parse_ull (CHR ''-'' # s) base = (uint64 (digits_num base s), Suc (length s), True)"
    using loop assms(1,3) by (auto simp: parse_ull_def Let_def)
qed

lemma printed_digits:
  assumes "2 \<le> base" "base \<le> 16" "0 \<le> v"
  obtains s where "ull_to_str v base upper = Some s" "s \<noteq> []" "\<forall>c\<in>set s. is_digit base c"
    "digits_num base s = v"
proof (cases "v = 0")
  case True
  have "digit_val (CHR ''0'') base = 0" using digit_val_char [of 0 base False] assms
    by (simp add: digit_char_def digit_table_def)
  with True assms that [of "''0''"] show ?thesis
    by (simp add: ull_to_str_eq is_digit_def digits_num_def)
next
  case False
  let ?s = "map (digit_char upper) (rev (digits_le base v))"
  have b: "\<forall>d\<in>set (rev (digits_le base v)). 0 \<le> d \<and> d < base" using digits_le_bounds assms by simp
  have "ull_to_str v base upper = Some ?s" using False assms by (simp add: ull_to_str_eq rev_map)
  moreover have "?s \<noteq> []" using False assms by (subst digits_le_Cons) simp_all
  moreover have "\<forall>c\<in>set ?s. is_digit base c"
    using digits_num_chars(2) [OF b assms(2), of upper] by (metis set_takeWhileD)
  moreover have "digits_num base ?s = v"
    using digits_num_chars(1) [OF b assms(2)] digits_le_value [OF assms(1,3)] by simp
  ultimately show ?thesis using that by blast
qed

section \<open>Properties\<close>

text \<open>C15. Printing an unsigned 64-bit number in any base from 2 to 16 and parsing the text in that
  base gives the number back, and the parser consumes the whole text.\<close>

theorem strtoul_ultoa:
  assumes "2 \<le> base" "base \<le> 16" "0 \<le> n" "n < 2 ^ 64"
  shows "\<exists>s. ultoa n base = Some s \<and> strtoul s base = (n, length s)"
proof -
  obtain s where s: "ull_to_str n base False = Some s" "s \<noteq> []" "\<forall>c\<in>set s. is_digit base c"
    "digits_num base s = n" by (rule printed_digits [OF assms(1-3)])
  with assms parse_digits(1) [OF s(2,3)] show ?thesis
    by (simp add: ultoa_def strtoul_def uint64_id)
qed

theorem strtoul_ultoa_witness:
  "\<exists>s. ultoa 48879 16 = Some s \<and> strtoul s 16 = (48879, length s)"
  by (rule strtoul_ultoa) simp_all

text \<open>C16. \<open>itoa\<close> in base 10 and \<open>atoi\<close> are inverse on every \<open>int\<close>, the smallest one included.\<close>

theorem atoi_itoa:
  assumes "- (2 ^ 31) \<le> n" "n < 2 ^ 31"
  shows "\<exists>s. itoa n 10 = Some s \<and> atoi s = n"
proof (cases "n < 0")
  case True
  have u: "uint32 (uint32 (- (n + 1)) + 1) = - n" using True assms by (simp add: uint32_id)
  obtain s where s: "ull_to_str (- n) 10 False = Some s" "s \<noteq> []" "\<forall>c\<in>set s. is_digit 10 c"
    "digits_num 10 s = - n" by (rule printed_digits [of 10 "- n"]) (use True in simp_all)
  then have "atoi (CHR ''-'' # s) = n"
    using parse_digits(2) [OF s(2,3)] assms True
    by (simp add: atoi_def strtol_def uint64_id int64_id int32_id)
  with s(1) u True show ?thesis by (simp add: itoa_def)
next
  case False
  obtain s where s: "ull_to_str n 10 False = Some s" "s \<noteq> []" "\<forall>c\<in>set s. is_digit 10 c"
    "digits_num 10 s = n" by (rule printed_digits [of 10 n]) (use False in simp_all)
  then have "atoi s = n"
    using parse_digits(1) [OF s(2,3)] assms False
    by (simp add: atoi_def strtol_def uint64_id int64_id int32_id)
  with s(1) False assms show ?thesis by (simp add: itoa_def uint32_id)
qed

theorem atoi_itoa_witness: "\<exists>s. itoa (- 2147483648) 10 = Some s \<and> atoi s = - 2147483648"
  by (rule atoi_itoa) simp_all

text \<open>Finding: when no digit follows, the end pointer of the \<open>strto\<close> family is not the start
  of the text, as it is for a failed conversion in C: leading white space and a plus sign are
  counted as consumed, so a caller that tests \<open>end == s\<close> takes the text for a number.\<close>

theorem strtol_no_digits_end:
  "strtol ''+'' 10 = (0, 1) \<and> strtol ''  x'' 10 = (0, 2) \<and> strtol ''0x'' 16 = (0, 2)"
  by code_simp

end
