(* ===== verification/Environ.thy ===== *)
theory Environ
  imports Prelude
begin

text \<open>
  \<open>userspace/libc/environ.c\<close>. The array \<open>environ\<close> is a list of slots, one per pointer the
  array has room for; \<open>None\<close> is a NULL pointer. Stores go through \<open>put_slot\<close>, which has no
  result behind the end of the array, so a result of an operation says that every store was in
  bounds. The allocator is a parameter: it refuses, or returns an array of slots with whatever
  the memory held.
\<close>

section \<open>State\<close>

type_synonym slots = "string option list"

record env =
  environ :: "slots option"
  environ_is_heap :: bool
  environ_capacity :: nat

text \<open>\<open>alloc k n\<close>: the outcome of \<open>malloc\<close> (or \<open>realloc\<close>) for \<open>n\<close> pointers, and of \<open>malloc\<close>
  for a text of \<open>n\<close> bytes, in allocator state \<open>k\<close>.\<close>

record 'k allocator =
  alloc_slots :: "'k \<Rightarrow> nat \<Rightarrow> slots option \<times> 'k"
  alloc_bytes :: "'k \<Rightarrow> nat \<Rightarrow> bool \<times> 'k"

definition env_slots :: "env \<Rightarrow> slots" where
  "env_slots st = (case environ st of None \<Rightarrow> [] | Some xs \<Rightarrow> xs)"

definition put_slot :: "slots \<Rightarrow> nat \<Rightarrow> string option \<Rightarrow> slots option" where
  "put_slot xs i v = (if i < length xs then Some (xs[i := v]) else None)"

section \<open>Operations\<close>

fun count_loop :: "slots \<Rightarrow> nat" where
  "count_loop [] = 0"
| "count_loop (None # xs) = 0"
| "count_loop (Some e # xs) = Suc (count_loop xs)"

definition environ_count :: "env \<Rightarrow> nat" where
  "environ_count st = count_loop (env_slots st)"

definition name_matches :: "string \<Rightarrow> string \<Rightarrow> nat \<Rightarrow> bool" where
  "name_matches entry name name_len \<longleftrightarrow>
     take name_len entry = take name_len name \<and> peek entry name_len = CHR ''=''"

fun getenv_loop :: "slots \<Rightarrow> string \<Rightarrow> string option" where
  "getenv_loop [] name = None"
| "getenv_loop (None # xs) name = None"
| "getenv_loop (Some e # xs) name =
     (if name_matches e name (length name) then Some (drop (length name + 1) e)
      else getenv_loop xs name)"

definition getenv :: "env \<Rightarrow> string \<Rightarrow> string option" where
  "getenv st name = getenv_loop (env_slots st) name"

text \<open>The copy of the first mutation: \<open>count\<close> pointers, then NULL.\<close>

fun copy_slots :: "slots \<Rightarrow> slots \<Rightarrow> nat \<Rightarrow> nat \<Rightarrow> slots option" where
  "copy_slots src dst i 0 = Some dst"
| "copy_slots src dst i (Suc n) =
     (if i < length src then do { dst' \<leftarrow> put_slot dst i (src ! i); copy_slots src dst' (Suc i) n }
      else None)"

text \<open>Result \<open>None\<close>: a store out of bounds. Otherwise whether the reservation succeeded.\<close>

definition environ_reserve ::
    "'k allocator \<Rightarrow> 'k \<Rightarrow> env \<Rightarrow> nat \<Rightarrow> (bool \<times> env \<times> 'k) option" where
  "environ_reserve A k st min_capacity =
     (let count = environ_count st
      in if \<not> environ_is_heap st then
           let new_capacity = (if min_capacity > count + 1 then min_capacity else count + 1)
           in case alloc_slots A k new_capacity of
                (None, k') \<Rightarrow> Some (False, st, k')
              | (Some new, k') \<Rightarrow>
                  do { new1 \<leftarrow> copy_slots (env_slots st) new 0 count;
                       new2 \<leftarrow> put_slot new1 count None;
                       Some (True, st\<lparr>environ := Some new2, environ_is_heap := True,
                                      environ_capacity := new_capacity\<rparr>, k') }
         else if min_capacity > environ_capacity st then
           case alloc_slots A k min_capacity of
             (None, k') \<Rightarrow> Some (False, st, k')
           | (Some new, k') \<Rightarrow>
               let old = env_slots st
               in Some (True, st\<lparr>environ := Some (old @ drop (length old) new),
                                 environ_capacity := min_capacity\<rparr>, k')
         else Some (True, st, k))"

definition store_slot :: "env \<Rightarrow> nat \<Rightarrow> string option \<Rightarrow> env option" where
  "store_slot st i v =
     (case environ st of None \<Rightarrow> None
      | Some xs \<Rightarrow> map_option (\<lambda>xs'. st\<lparr>environ := Some xs'\<rparr>) (put_slot xs i v))"

fun find_entry :: "slots \<Rightarrow> string \<Rightarrow> nat \<Rightarrow> nat option" where
  "find_entry [] name n = None"
| "find_entry (None # xs) name n = None"
| "find_entry (Some e # xs) name n =
     (if name_matches e name n then Some 0 else map_option Suc (find_entry xs name n))"

text \<open>The loop that \<open>environ_set_entry\<close> and \<open>putenv\<close> share: the first entry with that name is
  replaced; without one the new entry goes to the end. Results: 0 or -1, as the C functions
  return.\<close>

definition put_entry ::
    "'k allocator \<Rightarrow> 'k \<Rightarrow> env \<Rightarrow> string \<Rightarrow> nat \<Rightarrow> string \<Rightarrow> (int \<times> env \<times> 'k) option" where
  "put_entry A k st name name_len entry =
     (let count = environ_count st
      in case find_entry (env_slots st) name name_len of
           Some i \<Rightarrow>
             do { (ok, st1, k1) \<leftarrow> environ_reserve A k st (count + 1);
                  if \<not> ok then Some (-1, st1, k1)
                  else do { st2 \<leftarrow> store_slot st1 i (Some entry); Some (0, st2, k1) } }
         | None \<Rightarrow>
             do { (ok, st1, k1) \<leftarrow> environ_reserve A k st (count + 2);
                  if \<not> ok then Some (-1, st1, k1)
                  else do { st2 \<leftarrow> store_slot st1 count (Some entry);
                            st3 \<leftarrow> store_slot st2 (count + 1) None;
                            Some (0, st3, k1) } })"

definition environ_set_entry ::
    "'k allocator \<Rightarrow> 'k \<Rightarrow> env \<Rightarrow> string \<Rightarrow> string \<Rightarrow> bool \<Rightarrow> (int \<times> env \<times> 'k) option" where
  "environ_set_entry A k st name entry overwrite =
     (if find_entry (env_slots st) name (length name) \<noteq> None \<and> \<not> overwrite then Some (0, st, k)
      else put_entry A k st name (length name) entry)"

definition valid_name :: "string \<Rightarrow> bool" where
  "valid_name name \<longleftrightarrow> name \<noteq> [] \<and> CHR ''='' \<notin> set name"

definition setenv ::
    "'k allocator \<Rightarrow> 'k \<Rightarrow> env \<Rightarrow> string \<Rightarrow> string \<Rightarrow> bool \<Rightarrow> (int \<times> env \<times> 'k) option" where
  "setenv A k st name v overwrite =
     (if \<not> valid_name name then Some (-1, st, k)
      else case alloc_bytes A k (length name + 1 + length v + 1) of
             (False, k') \<Rightarrow> Some (-1, st, k')
           | (True, k') \<Rightarrow> environ_set_entry A k' st name (name @ ''='' @ v) overwrite)"

definition putenv :: "'k allocator \<Rightarrow> 'k \<Rightarrow> env \<Rightarrow> string \<Rightarrow> (int \<times> env \<times> 'k) option" where
  "putenv A k st text =
     (if CHR ''='' \<notin> set text then Some (-1, st, k)
      else put_entry A k st text (length (takeWhile (\<lambda>c. c \<noteq> CHR ''='') text)) text)"

text \<open>\<open>for (j = i; j < count; j++) environ[j] = environ[j + 1]\<close>.\<close>

function shift_loop :: "env \<Rightarrow> nat \<Rightarrow> nat \<Rightarrow> env option" where
  "shift_loop st j count =
     (if j < count then
        do { v \<leftarrow> (if j + 1 < length (env_slots st) then Some (env_slots st ! (j + 1)) else None);
             st' \<leftarrow> store_slot st j v;
             shift_loop st' (j + 1) count }
      else Some st)"
  by auto
termination by (relation "measure (\<lambda>(_, j, count). count - j)") auto

declare shift_loop.simps [simp del]

definition unsetenv :: "'k allocator \<Rightarrow> 'k \<Rightarrow> env \<Rightarrow> string \<Rightarrow> (int \<times> env \<times> 'k) option" where
  "unsetenv A k st name =
     (if \<not> valid_name name then Some (-1, st, k)
      else
        let count = environ_count st
        in case find_entry (env_slots st) name (length name) of
             Some i \<Rightarrow>
               do { (ok, st1, k1) \<leftarrow> environ_reserve A k st (count + 1);
                    if \<not> ok then Some (-1, st1, k1)
                    else do { st2 \<leftarrow> shift_loop st1 i count; Some (0, st2, k1) } }
           | None \<Rightarrow> Some (0, st, k))"

section \<open>The entries of the array\<close>

fun entries :: "slots \<Rightarrow> string list" where
  "entries (Some e # xs) = e # entries xs"
| "entries _ = []"

abbreviation env_entries :: "env \<Rightarrow> string list" where
  "env_entries st \<equiv> entries (env_slots st)"

definition env_inv :: "env \<Rightarrow> bool" where
  "env_inv st \<longleftrightarrow> (environ st \<noteq> None \<longrightarrow> None \<in> set (env_slots st)) \<and>
     (environ_is_heap st \<longrightarrow> environ st \<noteq> None \<and> environ_capacity st = length (env_slots st))"

definition allocator_ok :: "'k allocator \<Rightarrow> bool" where
  "allocator_ok A \<longleftrightarrow> (\<forall>k n xs k'. alloc_slots A k n = (Some xs, k') \<longrightarrow> length xs = n)"

definition find_index :: "string \<Rightarrow> nat \<Rightarrow> string list \<Rightarrow> nat option" where
  "find_index name n es = find (\<lambda>i. name_matches (es ! i) name n) [0 ..< length es]"

lemma count_loop_eq: "count_loop xs = length (entries xs)"
  by (induction xs rule: count_loop.induct) auto

lemma entries_split: "None \<in> set xs \<Longrightarrow> \<exists>ys. xs = map Some (entries xs) @ None # ys"
  by (induction xs rule: entries.induct) auto

lemma entries_append [simp]: "entries (map Some es @ xs) = es @ entries xs"
  by (induction es) auto

lemma entries_map: "entries (map Some es @ None # ys) = es"
  by (induction es) auto

lemma entries_take: "i \<le> length (entries xs) \<Longrightarrow> take i xs = map Some (take i (entries xs))"
  by (induction xs arbitrary: i rule: entries.induct) (auto simp: take_Cons split: nat.splits)

lemma find_entry_entries: "find_entry xs name n = find_entry (map Some (entries xs)) name n"
  by (induction xs rule: entries.induct) auto

lemma find_entry_Some:
  "find_entry (map Some es) name n = Some i \<Longrightarrow>
   i < length es \<and> name_matches (es ! i) name n \<and> (\<forall>j<i. \<not> name_matches (es ! j) name n)"
proof (induction es arbitrary: i)
  case (Cons e es)
  then show ?case by (auto split: if_splits simp: nth_Cons less_Suc_eq_0_disj split: nat.splits)
qed simp

lemma find_entry_None:
  "find_entry (map Some es) name n = None \<longleftrightarrow> (\<forall>e\<in>set es. \<not> name_matches e name n)"
  by (induction es) auto

section \<open>Reserving space\<close>

lemma copy_slots_eq:
  assumes "i + n \<le> length src" "i + n \<le> length dst"
  shows "copy_slots src dst i n = Some (take i dst @ take n (drop i src) @ drop (i + n) dst)"
  using assms
proof (induction n arbitrary: i dst)
  case (Suc n)
  let ?d = "dst[i := src ! i]"
  have "take (Suc i) ?d = take i dst @ [src ! i]"
    using Suc.prems by (simp add: take_Suc_conv_app_nth)
  moreover have "take (Suc n) (drop i src) = src ! i # take n (drop (Suc i) src)"
    using Suc.prems by (simp add: Cons_nth_drop_Suc [symmetric])
  ultimately show ?case
    using Suc by (simp add: put_slot_def)
qed simp

lemma allocator_okD: "allocator_ok A \<Longrightarrow> alloc_slots A k n = (Some xs, k') \<Longrightarrow> length xs = n"
  unfolding allocator_ok_def by blast

lemma entries_length: "env_inv st \<Longrightarrow> length (env_entries st) \<le> length (env_slots st)"
  by (cases "environ st")
    (auto simp: env_inv_def env_slots_def dest!: entries_split arg_cong [where f = length])

lemma environ_reserve_first:
  assumes inv: "env_inv st" and stack: "\<not> environ_is_heap st"
    and new: "alloc_slots A k n = (Some new, k')" "length new = n"
    and n: "n = (if m > length (env_entries st) + 1 then m else length (env_entries st) + 1)"
  shows "environ_reserve A k st m = Some (True,
    st\<lparr>environ := Some (map Some (env_entries st) @ None # drop (length (env_entries st) + 1) new),
       environ_is_heap := True, environ_capacity := n\<rparr>, k')"
proof -
  let ?c = "length (env_entries st)"
  have "copy_slots (env_slots st) new 0 ?c = Some (map Some (env_entries st) @ drop ?c new)"
    using entries_length [OF inv] new(2) n by (simp add: copy_slots_eq entries_take)
  moreover have "put_slot (map Some (env_entries st) @ drop ?c new) ?c None
      = Some (map Some (env_entries st) @ None # drop (?c + 1) new)"
    using new(2) n by (auto simp: put_slot_def list_update_append
        Cons_nth_drop_Suc [symmetric] split: if_splits)
  ultimately show ?thesis
    using stack new(1) n
    by (simp add: environ_reserve_def Let_def environ_count_def count_loop_eq)
qed

lemma environ_reserve_ok:
  assumes inv: "env_inv st" and A: "allocator_ok A"
  obtains k' where "environ_reserve A k st m = Some (False, st, k')"
  | st' k' where "environ_reserve A k st m = Some (True, st', k')" "env_inv st'"
      "env_entries st' = env_entries st" "environ st' \<noteq> None" "m \<le> length (env_slots st')"
proof (cases "environ_is_heap st")
  case False
  define n where "n = (if m > length (env_entries st) + 1 then m else length (env_entries st) + 1)"
  obtain r k' where call: "alloc_slots A k n = (r, k')" by (cases "alloc_slots A k n")
  show ?thesis
  proof (cases r)
    case None
    with that(1) False call show ?thesis
      by (auto simp: environ_reserve_def Let_def environ_count_def count_loop_eq n_def)
  next
    case (Some new)
    with allocator_okD [OF A] call have new: "alloc_slots A k n = (Some new, k')" "length new = n"
      by auto
    from that(2) [OF environ_reserve_first [OF inv False new n_def]] new(2) show ?thesis
      by (auto simp: env_inv_def env_slots_def n_def split: if_splits)
  qed
next
  case True
  then obtain xs where xs: "environ st = Some xs" "environ_capacity st = length xs" "None \<in> set xs"
    using inv by (auto simp: env_inv_def env_slots_def)
  obtain r k' where call: "alloc_slots A k m = (r, k')" by (cases "alloc_slots A k m")
  consider "m \<le> length xs" | "m > length xs" "r = None" | new where "m > length xs" "r = Some new"
    by (cases r) fastforce+
  then show ?thesis
  proof cases
    case 1
    with that(2) [of st k] True xs inv show ?thesis
      by (auto simp: environ_reserve_def Let_def env_slots_def)
  next
    case 2
    with that(1) True xs call show ?thesis by (auto simp: environ_reserve_def Let_def)
  next
    case (3 new)
    then have new: "length new = m" using allocator_okD [OF A] call by blast
    obtain ys where "xs = map Some (entries xs) @ None # ys" using entries_split [OF xs(3)] by blast
    then have "entries (xs @ drop (length xs) new) = entries xs"
      by (metis append_Cons append_assoc entries_map)
    with that(2) True 3 xs call new show ?thesis
      by (force simp: environ_reserve_def Let_def env_inv_def env_slots_def)
  qed
qed

section \<open>Changing the array\<close>

definition with_slots :: "env \<Rightarrow> slots \<Rightarrow> env" where
  "with_slots st xs = st\<lparr>environ := Some xs\<rparr>"

lemma with_slots_simps [simp]:
  "env_slots (with_slots st xs) = xs" "with_slots (with_slots st xs) ys = with_slots st ys"
  "environ (with_slots st xs) = Some xs"
  by (simp_all add: with_slots_def env_slots_def)

lemma store_slot_eq:
  "environ st \<noteq> None \<Longrightarrow> i < length (env_slots st) \<Longrightarrow>
   store_slot st i v = Some (with_slots st ((env_slots st)[i := v]))"
  by (auto simp: store_slot_def put_slot_def with_slots_def env_slots_def)

lemma env_inv_with_slots:
  "env_inv st \<Longrightarrow> length xs = length (env_slots st) \<Longrightarrow> None \<in> set xs \<Longrightarrow> env_inv (with_slots st xs)"
  by (auto simp: env_inv_def with_slots_def env_slots_def)

lemma env_slots_split:
  assumes "env_inv st" "environ st \<noteq> None"
  obtains ys where "env_slots st = map Some (env_entries st) @ None # ys"
  using assms entries_split by (auto simp: env_inv_def)

lemma replace_entry:
  assumes inv: "env_inv st" "environ st \<noteq> None" and i: "i < length (env_entries st)"
  obtains st' where "store_slot st i (Some e) = Some st'" "env_inv st'"
    "env_entries st' = (env_entries st)[i := e]"
proof -
  obtain ys where xs: "env_slots st = map Some (env_entries st) @ None # ys"
    by (rule env_slots_split [OF inv])
  let ?xs = "map Some ((env_entries st)[i := e]) @ None # ys"
  have "(env_slots st)[i := Some e] = ?xs"
    using i by (subst xs) (simp add: list_update_append map_update)
  moreover have "i < length (env_slots st)" using i xs by (metis entries_length inv(1) order_less_le_trans)
  moreover have "env_inv (with_slots st ?xs)"
    using inv(1) by (rule env_inv_with_slots) (subst (2) xs, simp_all)
  ultimately show ?thesis using that store_slot_eq [OF inv(2)] by simp
qed

lemma append_entry:
  assumes inv: "env_inv st" "environ st \<noteq> None"
    and room: "length (env_entries st) + 2 \<le> length (env_slots st)"
  obtains st' where
    "store_slot st (length (env_entries st)) (Some e) \<bind>
       (\<lambda>st2. store_slot st2 (length (env_entries st) + 1) None) = Some st'"
    "env_inv st'" "env_entries st' = env_entries st @ [e]"
proof -
  obtain ys where xs: "env_slots st = map Some (env_entries st) @ None # ys"
    by (rule env_slots_split [OF inv])
  then have "length (env_slots st) = length (env_entries st) + 1 + length ys"
    by (metis One_nat_def add_Suc_right length_Cons length_append length_map nat_arith.rule0 add.assoc plus_1_eq_Suc)
  with room obtain y zs where ys: "ys = y # zs" by (cases ys) auto
  let ?es = "env_entries st"
  let ?xs = "map Some (?es @ [e]) @ None # zs"
  have "(env_slots st)[length ?es := Some e, length ?es + 1 := None] = ?xs"
    by (subst xs) (simp add: ys list_update_append)
  moreover have "env_inv (with_slots st ?xs)"
    using inv(1) by (rule env_inv_with_slots) (subst (2) xs, simp_all add: ys)
  ultimately show ?thesis
    using that room store_slot_eq [OF inv(2)] by (simp add: store_slot_eq)
qed

lemma shift_loop_eq:
  assumes "environ st \<noteq> None" "count < length (env_slots st)" "j \<le> count"
  shows "shift_loop st j count = Some (with_slots st
    (take j (env_slots st) @ take (count - j) (drop (j + 1) (env_slots st)) @ drop count (env_slots st)))"
  using assms
proof (induction st j count rule: shift_loop.induct)
  case (1 st j count)
  let ?xs = "env_slots st"
  show ?case
  proof (cases "j < count")
    case False
    with "1.prems" have "j = count" by simp
    with "1.prems" show ?thesis
      by (subst shift_loop.simps) (auto simp: with_slots_def env_slots_def)
  next
    case True
    let ?ys = "?xs[j := ?xs ! (j + 1)]"
    have st: "store_slot st j (?xs ! (j + 1)) = Some (with_slots st ?ys)"
      using "1.prems" True by (simp add: store_slot_eq)
    have "shift_loop (with_slots st ?ys) (j + 1) count = Some (with_slots st
        (take (j + 1) ?ys @ take (count - (j + 1)) (drop (j + 2) ?ys) @ drop count ?ys))"
      using "1.IH" [OF True _ st] "1.prems" True by simp
    moreover have "take (j + 1) ?ys = take j ?xs @ [?xs ! (j + 1)]"
      using "1.prems" True by (simp add: take_Suc_conv_app_nth)
    moreover have "take (count - j) (drop (j + 1) ?xs) = ?xs ! (j + 1) # take (count - (j + 1)) (drop (j + 2) ?xs)"
      using "1.prems" True
      by (simp add: Cons_nth_drop_Suc [symmetric] Suc_diff_Suc [symmetric])
    ultimately show ?thesis
      using "1.prems" True st by (subst shift_loop.simps) simp
  qed
qed

lemma remove_entry:
  assumes inv: "env_inv st" "environ st \<noteq> None" and i: "i < length (env_entries st)"
  obtains st' where "shift_loop st i (length (env_entries st)) = Some st'" "env_inv st'"
    "env_entries st' = take i (env_entries st) @ drop (i + 1) (env_entries st)"
proof -
  obtain ys where xs: "env_slots st = map Some (env_entries st) @ None # ys"
    by (rule env_slots_split [OF inv])
  let ?es = "env_entries st"
  have len: "length ?es < length (env_slots st)" by (subst (2) xs) simp
  let ?xs = "map Some (take i ?es @ drop (i + 1) ?es) @ None # None # ys"
  have "take i (env_slots st) @ take (length ?es - i) (drop (i + 1) (env_slots st)) @
      drop (length ?es) (env_slots st) = ?xs"
    using i by (subst (1 3 5) xs) (simp add: take_map drop_map Suc_diff_Suc [symmetric])
  moreover have "env_inv (with_slots st ?xs)"
    using inv(1) by (rule env_inv_with_slots) (subst (3) xs, use i in simp_all)
  ultimately show ?thesis
    using that shift_loop_eq [OF inv(2) len, of i] i by simp
qed

section \<open>The environment as a table of names\<close>

text \<open>The operations on the list of entries, and the contract their clients rely on.\<close>

definition set_spec :: "string \<Rightarrow> nat \<Rightarrow> string \<Rightarrow> string list \<Rightarrow> string list" where
  "set_spec name n entry es =
     (case find_entry (map Some es) name n of Some i \<Rightarrow> es[i := entry] | None \<Rightarrow> es @ [entry])"

definition unset_spec :: "string \<Rightarrow> string list \<Rightarrow> string list" where
  "unset_spec name es =
     (case find_entry (map Some es) name (length name) of
        Some i \<Rightarrow> take i es @ drop (i + 1) es | None \<Rightarrow> es)"

definition env_matches :: "string \<Rightarrow> string \<Rightarrow> bool" where
  "env_matches name e \<longleftrightarrow> name_matches e name (length name)"

definition env_lookup :: "string list \<Rightarrow> string \<Rightarrow> string option" where
  "env_lookup es name =
     (case filter (env_matches name) es of [] \<Rightarrow> None | e # _ \<Rightarrow> Some (drop (length name + 1) e))"

definition names_ok :: "string list \<Rightarrow> bool" where
  "names_ok es \<longleftrightarrow> (\<forall>name. valid_name name \<longrightarrow> length (filter (env_matches name) es) \<le> 1)"

datatype env_op = SetEnv string string | UnsetEnv string

fun op_name :: "env_op \<Rightarrow> string" where
  "op_name (SetEnv n v) = n"
| "op_name (UnsetEnv n) = n"

fun op_map :: "env_op \<Rightarrow> (string \<rightharpoonup> string) \<Rightarrow> (string \<rightharpoonup> string)" where
  "op_map (SetEnv n v) m = m(n \<mapsto> v)"
| "op_map (UnsetEnv n) m = m(n := None)"

locale name_table =
  fixes ok :: "'e \<Rightarrow> bool"
    and lookup :: "'e \<Rightarrow> string \<Rightarrow> string option"
    and update :: "string \<Rightarrow> string \<Rightarrow> 'e \<Rightarrow> 'e"
    and delete :: "string \<Rightarrow> 'e \<Rightarrow> 'e"
  assumes ok_update: "ok e \<Longrightarrow> valid_name n \<Longrightarrow> ok (update n v e)"
    and ok_delete: "ok e \<Longrightarrow> valid_name n \<Longrightarrow> ok (delete n e)"
    and lookup_update: "ok e \<Longrightarrow> valid_name n \<Longrightarrow> valid_name m \<Longrightarrow>
      lookup (update n v e) m = (if m = n then Some v else lookup e m)"
    and lookup_delete: "ok e \<Longrightarrow> valid_name n \<Longrightarrow> valid_name m \<Longrightarrow>
      lookup (delete n e) m = (if m = n then None else lookup e m)"
begin

fun apply_op :: "env_op \<Rightarrow> 'e \<Rightarrow> 'e" where
  "apply_op (SetEnv n v) e = update n v e"
| "apply_op (UnsetEnv n) e = delete n e"

lemma apply_op_ok: "ok e \<Longrightarrow> valid_name (op_name p) \<Longrightarrow> ok (apply_op p e)"
  by (cases p) (simp_all add: ok_update ok_delete)

lemma apply_op_lookup:
  "ok e \<Longrightarrow> valid_name (op_name p) \<Longrightarrow> valid_name m \<Longrightarrow>
   lookup (apply_op p e) m = op_map p (lookup e) m"
  by (cases p) (simp_all add: lookup_update lookup_delete)

lemma run_ops:
  assumes "ok e" "\<forall>p\<in>set ps. valid_name (op_name p)"
  shows "ok (fold apply_op ps e)"
    and "valid_name m \<Longrightarrow> lookup (fold apply_op ps e) m = fold op_map ps (lookup e) m"
proof -
  have "ok (fold apply_op ps e) \<and> (valid_name m \<longrightarrow> lookup (fold apply_op ps e) m = fold op_map ps f m)"
    if "\<forall>m. valid_name m \<longrightarrow> lookup e m = f m" for f
    using assms that
  proof (induction ps arbitrary: e f)
    case (Cons p ps)
    have "lookup (apply_op p e) m = op_map p f m" if "valid_name m" for m
    proof -
      have "lookup e m = f m" using Cons.prems(3) that by blast
      then have "op_map p (lookup e) m = op_map p f m" by (cases p) simp_all
      with apply_op_lookup [of e p m] Cons.prems(1,2) that show ?thesis by simp
    qed
    moreover have "ok (apply_op p e)" using Cons.prems by (simp add: apply_op_ok)
    ultimately show ?case using Cons.IH [of "apply_op p e" "op_map p f"] Cons.prems(2) by simp
  qed auto
  from this [of "lookup e"] show "ok (fold apply_op ps e)"
    and "valid_name m \<Longrightarrow> lookup (fold apply_op ps e) m = fold op_map ps (lookup e) m" by auto
qed

end

lemma env_matches_iff: "env_matches name e \<longleftrightarrow> (\<exists>v. e = name @ CHR ''='' # v)"
proof
  assume m: "env_matches name e"
  then have t: "take (length name) e = name" and eq: "peek e (length name) = CHR ''=''"
    by (auto simp: env_matches_def name_matches_def)
  have len: "length name < length e" using eq by (auto simp: peek_def split: if_splits)
  then have "e = take (length name) e @ e ! length name # drop (Suc (length name)) e"
    by (simp add: id_take_nth_drop)
  with t eq len show "\<exists>v. e = name @ CHR ''='' # v" by (auto simp: peek_def)
qed (auto simp: env_matches_def name_matches_def peek_def)

lemma entry_name: "valid_name n \<Longrightarrow> takeWhile (\<lambda>c. c \<noteq> CHR ''='') (n @ CHR ''='' # v) = n"
  by (auto simp: valid_name_def takeWhile_append)

lemma env_matches_entry:
  assumes "valid_name n" "valid_name m"
  shows "env_matches m (n @ CHR ''='' # v) \<longleftrightarrow> m = n"
proof
  assume "env_matches m (n @ CHR ''='' # v)"
  then obtain w where "n @ CHR ''='' # v = m @ CHR ''='' # w" by (auto simp: env_matches_iff)
  then show "m = n" using entry_name [OF assms(1), of v] entry_name [OF assms(2), of w] by simp
qed (auto simp: env_matches_iff)

lemma find_entry_split:
  assumes "find_entry (map Some es) name (length name) = Some i"
  obtains xs e ys where "es = xs @ e # ys" "i = length xs" "env_matches name e"
    "filter (env_matches name) xs = []"
proof -
  from find_entry_Some [OF assms] have i: "i < length es" "env_matches name (es ! i)"
    "\<forall>j<i. \<not> env_matches name (es ! j)" by (auto simp: env_matches_def)
  have "es = take i es @ es ! i # drop (Suc i) es" using i(1) by (rule id_take_nth_drop)
  moreover have "filter (env_matches name) (take i es) = []"
    using i by (auto simp: filter_empty_conv in_set_conv_nth)
  ultimately show ?thesis using that i by force
qed

lemma find_entry_none:
  "find_entry (map Some es) name (length name) = None \<longleftrightarrow> filter (env_matches name) es = []"
  by (simp add: find_entry_None filter_empty_conv env_matches_def)

lemma env_lookup_getenv: "getenv st name = env_lookup (env_entries st) name"
proof -
  have "getenv_loop xs name = env_lookup (entries xs) name" for xs
    by (induction xs rule: entries.induct) (auto simp: env_lookup_def env_matches_def)
  then show ?thesis by (simp add: getenv_def)
qed

lemma set_spec_filter:
  assumes "valid_name n" "valid_name m"
  shows "filter (env_matches m) (set_spec n (length n) (n @ CHR ''='' # v) es) =
    (if m = n then
       (case filter (env_matches n) es of [] \<Rightarrow> [n @ CHR ''='' # v] | _ # r \<Rightarrow> (n @ CHR ''='' # v) # r)
     else filter (env_matches m) es)"
proof (cases "find_entry (map Some es) n (length n)")
  case None
  then have "filter (env_matches n) es = []" by (simp add: find_entry_none)
  with None show ?thesis using assms by (auto simp: set_spec_def env_matches_entry)
next
  case (Some i)
  then obtain xs e ys where es: "es = xs @ e # ys" "i = length xs" "env_matches n e"
    "filter (env_matches n) xs = []" by (rule find_entry_split)
  obtain w where "e = n @ CHR ''='' # w" using es(3) by (auto simp: env_matches_iff)
  then show ?thesis
    using Some es assms by (auto simp: set_spec_def env_matches_entry)
qed

lemma unset_spec_filter:
  assumes "valid_name n" "valid_name m"
  shows "filter (env_matches m) (unset_spec n es) =
    (if m = n then tl (filter (env_matches n) es) else filter (env_matches m) es)"
proof (cases "find_entry (map Some es) n (length n)")
  case None
  then have "filter (env_matches n) es = []" by (simp add: find_entry_none)
  with None show ?thesis by (auto simp: unset_spec_def)
next
  case (Some i)
  then obtain xs e ys where es: "es = xs @ e # ys" "i = length xs" "env_matches n e"
    "filter (env_matches n) xs = []" by (rule find_entry_split)
  obtain w where "e = n @ CHR ''='' # w" using es(3) by (auto simp: env_matches_iff)
  then show ?thesis
    using Some es assms by (auto simp: unset_spec_def env_matches_entry)
qed

interpretation env_table: name_table names_ok env_lookup
  "\<lambda>n v. set_spec n (length n) (n @ CHR ''='' # v)" unset_spec
proof (unfold_locales)
  fix e n v m assume ok: "names_ok e" and n: "valid_name n"
  show "names_ok (set_spec n (length n) (n @ CHR ''='' # v) e)"
    using ok n unfolding names_ok_def by (auto simp: set_spec_filter split: list.splits)
  show "names_ok (unset_spec n e)"
    using ok n unfolding names_ok_def
    by (auto simp: unset_spec_filter intro: le_trans [OF diff_le_self])
  assume m: "valid_name m"
  show "env_lookup (set_spec n (length n) (n @ CHR ''='' # v) e) m = (if m = n then Some v else env_lookup e m)"
    using n m by (auto simp: env_lookup_def set_spec_filter split: list.splits)
  have "length (filter (env_matches n) e) \<le> 1" using ok n by (simp add: names_ok_def)
  then show "env_lookup (unset_spec n e) m = (if m = n then None else env_lookup e m)"
    using n m by (cases "filter (env_matches n) e") (auto simp: env_lookup_def unset_spec_filter)
qed

section \<open>The code implements the table\<close>

lemma put_entry_refines:
  assumes inv: "env_inv st" and A: "allocator_ok A"
  obtains r st' k' where "put_entry A k st name n e = Some (r, st', k')" "env_inv st'"
    "r = 0 \<and> env_entries st' = set_spec name n e (env_entries st) \<or> r = -1 \<and> st' = st"
proof -
  have c: "environ_count st = length (env_entries st)" by (simp add: environ_count_def count_loop_eq)
  note fe = find_entry_entries [of "env_slots st" name n]
  show ?thesis
  proof (cases "find_entry (env_slots st) name n")
    case None
    from inv A show ?thesis
    proof (cases rule: environ_reserve_ok [where k = k and m = "environ_count st + 2"])
      case (1 k')
      with None inv that show ?thesis by (simp add: put_entry_def Let_def)
    next
      case (2 st1 k1)
      obtain st' where st': "store_slot st1 (length (env_entries st1)) (Some e) \<bind>
          (\<lambda>st2. store_slot st2 (length (env_entries st1) + 1) None) = Some st'"
        "env_inv st'" "env_entries st' = env_entries st1 @ [e]"
        by (rule append_entry [OF 2(2,4)]) (use 2 c in auto)
      then obtain st2 where "store_slot st1 (length (env_entries st)) (Some e) = Some st2"
        "store_slot st2 (length (env_entries st) + 1) None = Some st'"
        using 2(3) by (auto simp: bind_eq_Some_conv)
      moreover have "set_spec name n e (env_entries st) = env_entries st'"
        using None fe st'(3) 2(3) by (simp add: set_spec_def)
      ultimately show ?thesis
        using that [of 0 st' k1] None 2(1) c st'(2) by (simp add: put_entry_def Let_def)
    qed
  next
    case (Some i)
    then have i: "i < length (env_entries st)" using fe find_entry_Some by metis
    from inv A show ?thesis
    proof (cases rule: environ_reserve_ok [where k = k and m = "environ_count st + 1"])
      case (1 k')
      with Some inv that show ?thesis by (simp add: put_entry_def Let_def)
    next
      case (2 st1 k1)
      obtain st' where "store_slot st1 i (Some e) = Some st'" "env_inv st'"
        "env_entries st' = (env_entries st1)[i := e]"
        by (rule replace_entry [OF 2(2,4)]) (use 2 i in auto)
      then show ?thesis
        using that [of 0 st' k1] Some 2 fe by (simp add: put_entry_def Let_def set_spec_def)
    qed
  qed
qed

lemma setenv_refines:
  assumes inv: "env_inv st" and A: "allocator_ok A"
  obtains r st' k' where "setenv A k st n v ow = Some (r, st', k')" "env_inv st'"
    "r = -1 \<and> st' = st \<or>
     r = 0 \<and> valid_name n \<and>
       env_entries st' = (if \<not> ow \<and> env_lookup (env_entries st) n \<noteq> None then env_entries st
                          else set_spec n (length n) (n @ CHR ''='' # v) (env_entries st))"
proof -
  obtain ok k1 where call: "alloc_bytes A k (Suc (Suc (length n + length v))) = (ok, k1)"
    by (cases "alloc_bytes A k (Suc (Suc (length n + length v)))")
  have found: "find_entry (env_slots st) n (length n) \<noteq> None \<longleftrightarrow> env_lookup (env_entries st) n \<noteq> None"
    using find_entry_entries [of "env_slots st"] find_entry_none [of "env_entries st" n]
    by (auto simp: env_lookup_def split: list.splits)
  consider "\<not> valid_name n" | "valid_name n" "\<not> ok" | "valid_name n" ok "\<not> ow"
      "find_entry (env_slots st) n (length n) \<noteq> None"
    | "valid_name n" ok "ow \<or> find_entry (env_slots st) n (length n) = None" by blast
  then show ?thesis
  proof cases
    case 1
    with that [of "-1" st k] inv show ?thesis by (simp add: setenv_def)
  next
    case 2
    with that [of "-1" st k1] inv call show ?thesis by (simp add: setenv_def)
  next
    case 3
    with that [of 0 st k1] inv call found show ?thesis by (simp add: setenv_def environ_set_entry_def)
  next
    case 4
    obtain r st' k' where r: "put_entry A k1 st n (length n) (n @ CHR ''='' # v) = Some (r, st', k')"
      "env_inv st'"
      "r = 0 \<and> env_entries st' = set_spec n (length n) (n @ CHR ''='' # v) (env_entries st) \<or> r = -1 \<and> st' = st"
      by (rule put_entry_refines [OF inv A])
    moreover have "setenv A k st n v ow = Some (r, st', k')"
      using 4 call r(1) by (auto simp: setenv_def environ_set_entry_def)
    ultimately show ?thesis using that [of r st' k'] 4 found by auto
  qed
qed

lemma unsetenv_refines:
  assumes inv: "env_inv st" and A: "allocator_ok A"
  obtains r st' k' where "unsetenv A k st n = Some (r, st', k')" "env_inv st'"
    "r = -1 \<and> st' = st \<or> r = 0 \<and> valid_name n \<and> env_entries st' = unset_spec n (env_entries st)"
proof -
  have c: "environ_count st = length (env_entries st)" by (simp add: environ_count_def count_loop_eq)
  note fe = find_entry_entries [of "env_slots st" n "length n"]
  consider "\<not> valid_name n" | "valid_name n" "find_entry (env_slots st) n (length n) = None"
    | i where "valid_name n" "find_entry (env_slots st) n (length n) = Some i" by fastforce
  then show ?thesis
  proof cases
    case 1
    with that inv show ?thesis by (simp add: unsetenv_def)
  next
    case 2
    then have "unset_spec n (env_entries st) = env_entries st" using fe by (simp add: unset_spec_def)
    with 2 that [of 0 st k] inv show ?thesis by (simp add: unsetenv_def Let_def)
  next
    case (3 i)
    then have i: "i < length (env_entries st)" using fe find_entry_Some by metis
    from inv A show ?thesis
    proof (cases rule: environ_reserve_ok [where k = k and m = "environ_count st + 1"])
      case (1 k')
      with 3 inv that show ?thesis by (simp add: unsetenv_def Let_def)
    next
      case (2 st1 k1)
      have i1: "i < length (env_entries st1)" using 2(3) i by simp
      obtain st' where st': "shift_loop st1 i (length (env_entries st1)) = Some st'" "env_inv st'"
        "env_entries st' = take i (env_entries st1) @ drop (i + 1) (env_entries st1)"
        by (rule remove_entry [OF 2(2,4) i1])
      have "unset_spec n (env_entries st) = env_entries st'"
        using 3 fe st'(3) 2(3) by (simp add: unset_spec_def)
      with that [of 0 st' k1] 3 2(1,3) st'(1,2) c show ?thesis by (simp add: unsetenv_def Let_def)
    qed
  qed
qed

section \<open>Properties\<close>

text \<open>C6. \<open>setenv\<close> never stores outside the environment array, whatever array the kernel passed to
  the process and whenever the allocator refuses. It fails with -1 and changes nothing, or
  returns 0 and from then on \<open>getenv\<close> gives the new value for that name (the old one when it
  existed and overwriting was not asked for) and the same value as before for every other name.\<close>

theorem setenv_correct:
  assumes "env_inv st" and "allocator_ok A" and "names_ok (env_entries st)"
  shows "\<exists>r st' k'. setenv A k st n v ow = Some (r, st', k') \<and> env_inv st' \<and>
    names_ok (env_entries st') \<and>
    (r = -1 \<and> st' = st \<or>
     r = 0 \<and> valid_name n \<and> (\<forall>m. valid_name m \<longrightarrow>
       getenv st' m = (if m = n \<and> (ow \<or> getenv st n = None) then Some v else getenv st m)))"
proof -
  obtain r st' k' where s: "setenv A k st n v ow = Some (r, st', k')" "env_inv st'"
    "r = -1 \<and> st' = st \<or> r = 0 \<and> valid_name n \<and>
       env_entries st' = (if \<not> ow \<and> env_lookup (env_entries st) n \<noteq> None then env_entries st
                          else set_spec n (length n) (n @ CHR ''='' # v) (env_entries st))"
    by (rule setenv_refines [OF assms(1,2)])
  moreover have "names_ok (env_entries st')"
    using s(3) assms(3) env_table.ok_update [OF assms(3), of n v] by auto
  ultimately show ?thesis
    using env_table.lookup_update [OF assms(3), of n _ v] by (auto simp: env_lookup_getenv)
qed

text \<open>An environment with the strings the kernel passed, still on the stack, and an allocator that
  always has memory.\<close>

definition stack_env :: "string list \<Rightarrow> env" where
  "stack_env es = \<lparr>environ = Some (map Some es @ [None]), environ_is_heap = False, environ_capacity = 0\<rparr>"

definition rich_allocator :: "unit allocator" where
  "rich_allocator = \<lparr>alloc_slots = (\<lambda>k n. (Some (replicate n (Some ''junk'')), k)),
     alloc_bytes = (\<lambda>k n. (True, k))\<rparr>"

lemma stack_env_inv: "env_inv (stack_env es)"
  by (simp add: env_inv_def stack_env_def env_slots_def)

lemma stack_env_entries [simp]: "env_entries (stack_env es) = es"
  by (simp add: stack_env_def env_slots_def)

lemma rich_allocator_ok: "allocator_ok rich_allocator"
  by (simp add: allocator_ok_def rich_allocator_def)

lemma names_ok_single: "names_ok [e]"
  by (simp add: names_ok_def)

theorem setenv_correct_witness:
  "\<exists>r st' k'. setenv rich_allocator () (stack_env [''PATH=/bin'']) ''HOME'' ''/root'' True = Some (r, st', k') \<and>
    env_inv st' \<and> names_ok (env_entries st') \<and>
    (r = -1 \<and> st' = stack_env [''PATH=/bin''] \<or>
     r = 0 \<and> valid_name ''HOME'' \<and> (\<forall>m. valid_name m \<longrightarrow>
       getenv st' m = (if m = ''HOME'' \<and> (True \<or> getenv (stack_env [''PATH=/bin'']) ''HOME'' = None)
                       then Some ''/root'' else getenv (stack_env [''PATH=/bin'']) m)))"
  using setenv_correct [OF stack_env_inv rich_allocator_ok, of "[''PATH=/bin'']" "()" "''HOME''" "''/root''" True]
  by (simp add: names_ok_single)



text \<open>A program's calls one after the other, with the results they returned.\<close>

fun call_env :: "'k allocator \<Rightarrow> env_op \<Rightarrow> 'k \<Rightarrow> env \<Rightarrow> (int \<times> env \<times> 'k) option" where
  "call_env A (SetEnv n v) k st = setenv A k st n v True"
| "call_env A (UnsetEnv n) k st = unsetenv A k st n"

fun run_calls :: "'k allocator \<Rightarrow> env_op list \<Rightarrow> 'k \<Rightarrow> env \<Rightarrow> (int list \<times> env) option" where
  "run_calls A [] k st = Some ([], st)"
| "run_calls A (p # ps) k st =
     do { (r, st1, k1) \<leftarrow> call_env A p k st;
          (rs, st2) \<leftarrow> run_calls A ps k1 st1;
          Some (r # rs, st2) }"

lemma call_env_refines:
  assumes "env_inv st" and "allocator_ok A"
  obtains r st' k' where "call_env A p k st = Some (r, st', k')" "env_inv st'"
    "r = 0 \<Longrightarrow> valid_name (op_name p) \<and> env_entries st' = env_table.apply_op p (env_entries st)"
proof (cases p)
  case (SetEnv n v)
  from setenv_refines [OF assms, of k n v True] obtain r st' k' where
    "setenv A k st n v True = Some (r, st', k')" "env_inv st'"
    "r = -1 \<and> st' = st \<or> r = 0 \<and> valid_name n \<and>
       env_entries st' = set_spec n (length n) (n @ CHR ''='' # v) (env_entries st)" by auto
  with that SetEnv show ?thesis by auto
next
  case (UnsetEnv n)
  from unsetenv_refines [OF assms, of k n] obtain r st' k' where
    "unsetenv A k st n = Some (r, st', k')" "env_inv st'"
    "r = -1 \<and> st' = st \<or> r = 0 \<and> valid_name n \<and> env_entries st' = unset_spec n (env_entries st)" by blast
  with that UnsetEnv show ?thesis by auto
qed

lemma run_calls_refines:
  assumes "env_inv st" and "allocator_ok A"
  shows "\<exists>rs st'. run_calls A ps k st = Some (rs, st') \<and> env_inv st' \<and>
    (set rs \<subseteq> {0} \<longrightarrow> (\<forall>p\<in>set ps. valid_name (op_name p)) \<and>
       env_entries st' = fold env_table.apply_op ps (env_entries st))"
  using assms(1)
proof (induction ps arbitrary: k st)
  case (Cons p ps)
  obtain r st1 k1 where c: "call_env A p k st = Some (r, st1, k1)" "env_inv st1"
    "r = 0 \<Longrightarrow> valid_name (op_name p) \<and> env_entries st1 = env_table.apply_op p (env_entries st)"
    by (rule call_env_refines [OF Cons.prems assms(2), of p k]) blast
  from Cons.IH [OF c(2), of k1] obtain rs st' where r: "run_calls A ps k1 st1 = Some (rs, st')" "env_inv st'"
    "set rs \<subseteq> {0} \<longrightarrow> (\<forall>p\<in>set ps. valid_name (op_name p)) \<and>
       env_entries st' = fold env_table.apply_op ps (env_entries st1)" by blast
  show ?case
    by (intro exI [of _ "r # rs"] exI [of _ st']) (use c r in auto)
qed simp



end
