(* ===== verification/Printf.thy ===== *)
theory Printf
  imports CString Stdlib
begin

text \<open>
  The formatter of \<open>userspace/libc/stdio.c\<close> (\<open>out_char\<close> to \<open>snprintf\<close>). The buffer is
  memory at an address; the format and string arguments are strings. A \<open>va_list\<close> is the list of
  the arguments left, each with the type it was passed with: reading an argument of another
  type, or one that was not passed, has no result.
\<close>

section \<open>Emitting\<close>

type_synonym sink = "mem \<times> nat"

definition out_char :: "nat \<Rightarrow> nat \<Rightarrow> sink \<Rightarrow> byte \<Rightarrow> sink" where
  "out_char buf sz s c =
     (case s of (m, pos) \<Rightarrow> (if pos < sz then m(buf + pos := c) else m, pos + 1))"

fun out_str_raw :: "nat \<Rightarrow> nat \<Rightarrow> sink \<Rightarrow> string \<Rightarrow> sink" where
  "out_str_raw buf sz s [] = s"
| "out_str_raw buf sz s (c # cs) = out_str_raw buf sz (out_char buf sz s c) cs"

text \<open>\<open>while (pad-- > 0) out_char(buf, size, pos, c)\<close> with \<open>n\<close> rounds left.\<close>

fun out_pad :: "nat \<Rightarrow> nat \<Rightarrow> sink \<Rightarrow> byte \<Rightarrow> nat \<Rightarrow> sink" where
  "out_pad buf sz s c 0 = s"
| "out_pad buf sz s c (Suc n) = out_pad buf sz (out_char buf sz s c) c n"

definition out_str :: "nat \<Rightarrow> nat \<Rightarrow> sink \<Rightarrow> string \<Rightarrow> int \<Rightarrow> bool \<Rightarrow> sink" where
  "out_str buf sz s text width left_justify =
     (let len = int32 (int (length text));
          pad = int32 (width - len);
          s1 = (if pad > 0 \<and> \<not> left_justify then out_pad buf sz s (CHR '' '') (nat pad) else s);
          s2 = out_str_raw buf sz s1 text
      in if pad > 0 \<and> left_justify then out_pad buf sz s2 (CHR '' '') (nat pad) else s2)"

text \<open>\<open>while (i--) out_char(buf, size, pos, tmp[i])\<close>.\<close>

fun out_tmp :: "nat \<Rightarrow> nat \<Rightarrow> sink \<Rightarrow> string \<Rightarrow> nat \<Rightarrow> sink" where
  "out_tmp buf sz s tmp 0 = s"
| "out_tmp buf sz s tmp (Suc i) = out_tmp buf sz (out_char buf sz s (tmp ! i)) tmp i"

definition out_uint ::
    "nat \<Rightarrow> nat \<Rightarrow> sink \<Rightarrow> int \<Rightarrow> int \<Rightarrow> bool \<Rightarrow> int \<Rightarrow> bool \<Rightarrow> bool \<Rightarrow> sink option" where
  "out_uint buf sz s val base upper width zero_pad left_justify =
     do { tmp \<leftarrow> emit_digits upper base val (if val = 0 then [CHR ''0''] else []);
          let pad = width - int (length tmp);
          let s1 = (if pad > 0 \<and> \<not> left_justify
                    then out_pad buf sz s (if zero_pad then CHR ''0'' else CHR '' '') (nat pad) else s);
          let s2 = out_tmp buf sz s1 tmp (length tmp);
          Some (if pad > 0 \<and> left_justify then out_pad buf sz s2 (CHR '' '') (nat pad) else s2) }"

definition out_int :: "nat \<Rightarrow> nat \<Rightarrow> sink \<Rightarrow> int \<Rightarrow> int \<Rightarrow> bool \<Rightarrow> bool \<Rightarrow> sink option" where
  "out_int buf sz s val width zero_pad left_justify =
     (if val < 0 then
        out_uint buf sz (out_char buf sz s (CHR ''-'')) (uint64 (- val)) 10 False
          (if width > 0 then width - 1 else 0) zero_pad left_justify
      else out_uint buf sz s (uint64 val) 10 False width zero_pad left_justify)"

section \<open>Conversion specifications\<close>

fun parse_flags :: "string \<Rightarrow> bool \<Rightarrow> bool \<Rightarrow> bool \<times> bool \<times> string" where
  "parse_flags [] z l = (z, l, [])"
| "parse_flags (c # fmt) z l =
     (if c = CHR ''0'' then parse_flags fmt True l
      else if c = CHR ''-'' then parse_flags fmt z True
      else (z, l, c # fmt))"

fun parse_width :: "string \<Rightarrow> int \<Rightarrow> int \<times> string" where
  "parse_width [] w = (w, [])"
| "parse_width (c # fmt) w =
     (if schar c \<ge> 48 \<and> schar c \<le> 57 then parse_width fmt (int32 (w * 10 + (schar c - 48)))
      else (w, c # fmt))"

definition parse_length :: "string \<Rightarrow> bool \<times> string" where
  "parse_length fmt =
     (if peek fmt 0 = CHR ''l'' then
        (True, if peek fmt 1 = CHR ''l'' then drop 2 fmt else drop 1 fmt)
      else if peek fmt 0 = CHR ''z'' then (True, drop 1 fmt)
      else (False, fmt))"

datatype va = VInt int | VLong int | VStr "string option" | VPtr int

fun va_int :: "bool \<Rightarrow> va list \<Rightarrow> (int \<times> va list) option" where
  "va_int True (VLong v # ap) = Some (int64 v, ap)"
| "va_int False (VInt v # ap) = Some (int32 v, ap)"
| "va_int _ _ = None"

fun va_uint :: "bool \<Rightarrow> va list \<Rightarrow> (int \<times> va list) option" where
  "va_uint True (VLong v # ap) = Some (uint64 v, ap)"
| "va_uint False (VInt v # ap) = Some (uint32 v, ap)"
| "va_uint _ _ = None"

fun va_ptr :: "va list \<Rightarrow> (int \<times> va list) option" where
  "va_ptr (VPtr v # ap) = Some (uint64 v, ap)"
| "va_ptr _ = None"

fun va_str :: "va list \<Rightarrow> (string option \<times> va list) option" where
  "va_str (VStr v # ap) = Some (v, ap)"
| "va_str _ = None"

text \<open>One conversion: the \<open>switch\<close> on the character at the front of the format.\<close>

definition convert :: "nat \<Rightarrow> nat \<Rightarrow> sink \<Rightarrow> byte \<Rightarrow> bool \<Rightarrow> bool \<Rightarrow> int \<Rightarrow> bool \<Rightarrow> va list \<Rightarrow>
    (sink \<times> va list) option" where
  "convert buf sz s c zero_pad left_justify width is_long ap =
     (if c = CHR ''d'' \<or> c = CHR ''i'' then
        do { (v, ap') \<leftarrow> va_int is_long ap;
             s' \<leftarrow> out_int buf sz s v width zero_pad left_justify; Some (s', ap') }
      else if c = CHR ''u'' then
        do { (v, ap') \<leftarrow> va_uint is_long ap;
             s' \<leftarrow> out_uint buf sz s v 10 False width zero_pad left_justify; Some (s', ap') }
      else if c = CHR ''x'' \<or> c = CHR ''X'' then
        do { (v, ap') \<leftarrow> va_uint is_long ap;
             s' \<leftarrow> out_uint buf sz s v 16 (c = CHR ''X'') width zero_pad left_justify; Some (s', ap') }
      else if c = CHR ''p'' then
        do { (v, ap') \<leftarrow> va_ptr ap;
             s' \<leftarrow> out_uint buf sz (out_str_raw buf sz s ''0x'') v 16 False 16 True False; Some (s', ap') }
      else if c = CHR ''c'' then
        do { (v, ap') \<leftarrow> va_int False ap; Some (out_char buf sz s (to_char v), ap') }
      else if c = CHR ''s'' then
        do { (v, ap') \<leftarrow> va_str ap;
             Some (out_str buf sz s (case v of None \<Rightarrow> ''(null)'' | Some t \<Rightarrow> t) width left_justify, ap') }
      else if c = CHR ''%'' then Some (out_char buf sz s (CHR ''%''), ap)
      else
        let s1 = out_char buf sz s (CHR ''%'')
        in Some (if c \<noteq> NUL then out_char buf sz s1 c else s1, ap))"

lemma length_parse_flags: "length (snd (snd (parse_flags fmt z l))) \<le> length fmt"
  by (induction fmt z l rule: parse_flags.induct) auto

lemma length_parse_width: "length (snd (parse_width fmt w)) \<le> length fmt"
  by (induction fmt w rule: parse_width.induct) auto

lemma length_parse_length: "length (snd (parse_length fmt)) \<le> length fmt"
  by (simp add: parse_length_def)

text \<open>Flags, width and length modifier of the conversion at the front of the format.\<close>

definition parse_spec :: "string \<Rightarrow> bool \<times> bool \<times> int \<times> bool \<times> string" where
  "parse_spec fmt =
     (let (z, left_justify, fmt1) = parse_flags fmt False False;
          zero_pad = (if left_justify then False else z);
          (width, fmt2) = parse_width fmt1 0;
          (is_long, fmt3) = parse_length fmt2
      in (zero_pad, left_justify, width, is_long, fmt3))"

lemma parse_spec_length:
  assumes "parse_spec fmt = (z, l, w, g, fmt3)"
  shows "length fmt3 \<le> length fmt"
proof -
  obtain z0 l0 fmt1 where f: "parse_flags fmt False False = (z0, l0, fmt1)" by (metis prod_cases3)
  obtain w0 fmt2 where w: "parse_width fmt1 0 = (w0, fmt2)" by (metis surj_pair)
  have "fmt3 = snd (parse_length fmt2)"
    using assms f w by (auto simp: parse_spec_def Let_def split: prod.splits)
  moreover have "length fmt1 \<le> length fmt" "length fmt2 \<le> length fmt1"
    using length_parse_flags [of fmt False False] length_parse_width [of fmt1 0] f w by simp_all
  ultimately show ?thesis using length_parse_length [of fmt2] by simp
qed

function vsnprintf_loop :: "nat \<Rightarrow> nat \<Rightarrow> sink \<Rightarrow> string \<Rightarrow> va list \<Rightarrow> (sink \<times> va list) option" where
  "vsnprintf_loop buf sz s [] ap = Some (s, ap)"
| "vsnprintf_loop buf sz s (c # fmt) ap =
     (if c \<noteq> CHR ''%'' then vsnprintf_loop buf sz (out_char buf sz s c) fmt ap
      else case parse_spec fmt of (zero_pad, left_justify, width, is_long, fmt3) \<Rightarrow>
        (case convert buf sz s (peek fmt3 0) zero_pad left_justify width is_long ap of
           None \<Rightarrow> None
         | Some (s', ap') \<Rightarrow> vsnprintf_loop buf sz s' (drop 1 fmt3) ap'))"
  by pat_completeness auto
termination
  by (relation "measure (\<lambda>(_, _, _, fmt, _). length fmt)")
    (auto dest!: parse_spec_length [OF sym])

definition vsnprintf :: "mem \<Rightarrow> nat \<Rightarrow> nat \<Rightarrow> string \<Rightarrow> va list \<Rightarrow> (int \<times> mem) option" where
  "vsnprintf m buf sz fmt ap =
     (case vsnprintf_loop buf sz (m, 0) fmt ap of
        None \<Rightarrow> None
      | Some ((m', pos), _) \<Rightarrow>
          Some (int32 (int pos),
                if sz > 0 then m'(buf + (if pos < sz then pos else sz - 1) := NUL) else m'))"

definition snprintf :: "mem \<Rightarrow> nat \<Rightarrow> nat \<Rightarrow> string \<Rightarrow> va list \<Rightarrow> (int \<times> mem) option" where
  "snprintf m buf sz fmt args = vsnprintf m buf sz fmt args"

text \<open>A C string formatted into a buffer of its own.\<close>

definition snprintf_str :: "nat \<Rightarrow> string \<Rightarrow> va list \<Rightarrow> string option" where
  "snprintf_str sz fmt args = do {
     (_, m) \<leftarrow> snprintf (\<lambda>_. NUL) 0 sz fmt args;
     Some (takeWhile (\<lambda>c. c \<noteq> NUL) (bytes m 0 sz))
   }"

section \<open>What is printed\<close>

text \<open>The text of a call, without a buffer: the reference the formatter is measured against.\<close>

definition num_text :: "int \<Rightarrow> bool \<Rightarrow> int \<Rightarrow> string" where
  "num_text base upper v =
     (if v = 0 then ''0'' else rev (map (digit_char upper) (digits_le base v)))"

definition pad_text :: "int \<Rightarrow> byte \<Rightarrow> bool \<Rightarrow> string \<Rightarrow> string" where
  "pad_text pad fill left_justify t =
     (if pad \<le> 0 then t
      else if left_justify then t @ replicate (nat pad) (CHR '' '')
      else replicate (nat pad) fill @ t)"

definition uint_text :: "int \<Rightarrow> bool \<Rightarrow> int \<Rightarrow> bool \<Rightarrow> bool \<Rightarrow> int \<Rightarrow> string" where
  "uint_text base upper width zero_pad left_justify v =
     (let t = num_text base upper v
      in pad_text (width - int (length t)) (if zero_pad then CHR ''0'' else CHR '' '') left_justify t)"

definition int_text :: "int \<Rightarrow> bool \<Rightarrow> bool \<Rightarrow> int \<Rightarrow> string" where
  "int_text width zero_pad left_justify v =
     (if v < 0 then CHR ''-'' # uint_text 10 False (if width > 0 then width - 1 else 0) zero_pad left_justify (uint64 (- v))
      else uint_text 10 False width zero_pad left_justify (uint64 v))"

definition str_text :: "int \<Rightarrow> bool \<Rightarrow> string \<Rightarrow> string" where
  "str_text width left_justify t =
     pad_text (int32 (width - int32 (int (length t)))) (CHR '' '') left_justify t"

definition conv_text :: "byte \<Rightarrow> bool \<Rightarrow> bool \<Rightarrow> int \<Rightarrow> bool \<Rightarrow> va list \<Rightarrow> (string \<times> va list) option" where
  "conv_text c zero_pad left_justify width is_long ap =
     (if c = CHR ''d'' \<or> c = CHR ''i'' then
        map_option (\<lambda>(v, ap'). (int_text width zero_pad left_justify v, ap')) (va_int is_long ap)
      else if c = CHR ''u'' then
        map_option (\<lambda>(v, ap'). (uint_text 10 False width zero_pad left_justify v, ap')) (va_uint is_long ap)
      else if c = CHR ''x'' \<or> c = CHR ''X'' then
        map_option (\<lambda>(v, ap'). (uint_text 16 (c = CHR ''X'') width zero_pad left_justify v, ap'))
          (va_uint is_long ap)
      else if c = CHR ''p'' then
        map_option (\<lambda>(v, ap'). (''0x'' @ uint_text 16 False 16 True False v, ap')) (va_ptr ap)
      else if c = CHR ''c'' then map_option (\<lambda>(v, ap'). ([to_char v], ap')) (va_int False ap)
      else if c = CHR ''s'' then
        map_option (\<lambda>(v, ap'). (str_text width left_justify (case v of None \<Rightarrow> ''(null)'' | Some t \<Rightarrow> t), ap'))
          (va_str ap)
      else if c = CHR ''%'' then Some (''%'', ap)
      else Some (if c \<noteq> NUL then [CHR ''%'', c] else ''%'', ap))"

function format_text :: "string \<Rightarrow> va list \<Rightarrow> string option" where
  "format_text [] ap = Some []"
| "format_text (c # fmt) ap =
     (if c \<noteq> CHR ''%'' then map_option ((#) c) (format_text fmt ap)
      else case parse_spec fmt of (zero_pad, left_justify, width, is_long, fmt3) \<Rightarrow>
        (case conv_text (peek fmt3 0) zero_pad left_justify width is_long ap of
           None \<Rightarrow> None
         | Some (t, ap') \<Rightarrow> map_option ((@) t) (format_text (drop 1 fmt3) ap')))"
  by pat_completeness auto
termination
  by (relation "measure (\<lambda>(fmt, _). length fmt)") (auto dest!: parse_spec_length [OF sym])

section \<open>Emission\<close>

text \<open>Every \<open>out_\<close> function emits a text: what fits goes to the buffer, all of it is counted.\<close>

definition emit :: "nat \<Rightarrow> nat \<Rightarrow> sink \<Rightarrow> string \<Rightarrow> sink" where
  "emit buf sz s t = (mem_write (fst s) (buf + snd s) (take (sz - snd s) t), snd s + length t)"

lemma emit_Nil [simp]: "emit buf sz s [] = s"
  by (simp add: emit_def)

lemma emit_emit [simp]: "emit buf sz (emit buf sz s t) u = emit buf sz s (t @ u)"
proof (cases "length t \<le> sz - snd s")
  case True
  then show ?thesis
    using mem_write_append [of "fst s" "buf + snd s" t "take (sz - (snd s + length t)) u"]
    by (simp add: emit_def add.assoc)
qed (simp add: emit_def)

lemma emit_comp: "emit buf sz (emit buf sz s t) = (\<lambda>u. emit buf sz s (t @ u))"
  by (rule ext) simp

lemma out_char_emit: "out_char buf sz s c = emit buf sz s [c]"
  by (cases s) (auto simp: out_char_def emit_def mem_write_def fun_eq_iff)

lemma out_str_raw_emit: "out_str_raw buf sz s t = emit buf sz s t"
  by (induction t arbitrary: s) (simp_all add: out_char_emit)

lemma out_pad_emit: "out_pad buf sz s c n = emit buf sz s (replicate n c)"
  by (induction n arbitrary: s) (simp_all add: out_char_emit)

lemma out_tmp_emit: "n \<le> length tmp \<Longrightarrow> out_tmp buf sz s tmp n = emit buf sz s (rev (take n tmp))"
  by (induction n arbitrary: s) (simp_all add: out_char_emit take_Suc_conv_app_nth)

lemma out_str_emit: "out_str buf sz s t width lj = emit buf sz s (str_text width lj t)"
  by (auto simp: out_str_def str_text_def pad_text_def Let_def out_str_raw_emit out_pad_emit)

lemma out_uint_emit:
  assumes "2 \<le> base" "base \<le> 16" "0 \<le> v"
  shows "out_uint buf sz s v base upper width zp lj = Some (emit buf sz s (uint_text base upper width zp lj v))"
proof -
  let ?tmp = "if v = 0 then ''0'' else map (digit_char upper) (digits_le base v)"
  have "emit_digits upper base v (if v = 0 then [CHR ''0''] else []) = Some ?tmp"
    using assms by (simp add: emit_digits_eq)
  moreover have "num_text base upper v = rev ?tmp" by (simp add: num_text_def)
  ultimately show ?thesis
    by (simp add: out_uint_def uint_text_def pad_text_def Let_def out_pad_emit out_tmp_emit)
qed

lemma out_int_emit: "out_int buf sz s v width zp lj = Some (emit buf sz s (int_text width zp lj v))"
  by (simp add: out_int_def int_text_def out_uint_emit uint64_bounds out_char_emit)

lemma va_uint_nonneg: "va_uint g ap = Some (v, ap') \<Longrightarrow> 0 \<le> v"
  by (cases "(g, ap)" rule: va_uint.cases) (auto simp: uint64_def uint32_def)

lemma va_ptr_nonneg: "va_ptr ap = Some (v, ap') \<Longrightarrow> 0 \<le> v"
  by (cases ap rule: va_ptr.cases) (auto simp: uint64_def)

lemma bind_emit:
  assumes "\<And>v ap'. x = Some (v, ap') \<Longrightarrow> f v = Some (emit buf sz s (g v))"
  shows "(x \<bind> (\<lambda>(v, ap'). f v \<bind> (\<lambda>s'. Some (s', ap')))) =
    map_option (\<lambda>(t, ap'). (emit buf sz s t, ap')) (map_option (\<lambda>(v, ap'). (g v, ap')) x)"
  using assms by (cases x) auto

lemma bind_emit_pure:
  "(x \<bind> (\<lambda>(v, ap'). Some (emit buf sz s (g v), ap'))) =
    map_option (\<lambda>(t, ap'). (emit buf sz s t, ap')) (map_option (\<lambda>(v, ap'). (g v, ap')) x)"
  by (cases x) auto

lemma convert_emit:
  "convert buf sz s c zp lj w g ap =
     map_option (\<lambda>(t, ap'). (emit buf sz s t, ap')) (conv_text c zp lj w g ap)"
proof -
  note bi = bind_emit [where x = "va_int g ap" and f = "\<lambda>v. out_int buf sz s v w zp lj"
      and g = "int_text w zp lj", OF out_int_emit]
  have bu: "(va_uint g ap \<bind> (\<lambda>(v, ap'). out_uint buf sz s v base u w zp lj \<bind> (\<lambda>s'. Some (s', ap')))) =
      map_option (\<lambda>(t, ap'). (emit buf sz s t, ap'))
        (map_option (\<lambda>(v, ap'). (uint_text base u w zp lj v, ap')) (va_uint g ap))"
    if "2 \<le> base" "base \<le> 16" for base u
    by (rule bind_emit) (rule out_uint_emit [OF that va_uint_nonneg])
  have bp: "(va_ptr ap \<bind> (\<lambda>(v, ap'). out_uint buf sz (out_str_raw buf sz s ''0x'') v 16 False 16 True False
        \<bind> (\<lambda>s'. Some (s', ap')))) =
      map_option (\<lambda>(t, ap'). (emit buf sz s t, ap'))
        (map_option (\<lambda>(v, ap'). (''0x'' @ uint_text 16 False 16 True False v, ap')) (va_ptr ap))"
    by (rule bind_emit) (simp add: out_uint_emit va_ptr_nonneg out_str_raw_emit)
  show ?thesis
    unfolding convert_def conv_text_def bi bp out_str_emit out_char_emit Let_def
      bind_emit_pure [of _ _ _ _ "\<lambda>v. [to_char v]"]
      bind_emit_pure [of _ _ _ _ "\<lambda>v. str_text w lj (case v of None \<Rightarrow> ''(null)'' | Some t \<Rightarrow> t)"]
    by (simp add: bu)
qed

lemma vsnprintf_loop_emit:
  "map_option fst (vsnprintf_loop buf sz s fmt ap) = map_option (emit buf sz s) (format_text fmt ap)"
proof (induction buf sz s fmt ap rule: vsnprintf_loop.induct)
  case (2 buf sz s c fmt ap)
  show ?case
  proof (cases "c = CHR ''%''")
    case False
    with 2 show ?thesis by (simp add: out_char_emit option.map_comp comp_def)
  next
    case True
    obtain z l w g fmt3 where sp: "parse_spec fmt = (z, l, w, g, fmt3)" by (metis prod_cases5)
    show ?thesis
    proof (cases "conv_text (peek fmt3 0) z l w g ap")
      case None
      with True sp show ?thesis by (simp add: convert_emit)
    next
      case (Some r)
      obtain t ap' where r: "r = (t, ap')" by (cases r)
      have conv: "convert buf sz s (peek fmt3 0) z l w g ap = Some (emit buf sz s t, ap')"
        using Some r by (simp add: convert_emit)
      have "map_option fst (vsnprintf_loop buf sz (emit buf sz s t) (drop 1 fmt3) ap')
          = map_option (emit buf sz (emit buf sz s t)) (format_text (drop 1 fmt3) ap')"
        by (rule 2(2)) (use True sp conv in auto)
      with True sp Some r conv show ?thesis by (simp add: option.map_comp comp_def emit_comp)
    qed
  qed
qed simp

lemma vsnprintf_text:
  "vsnprintf m buf sz fmt ap =
     map_option (\<lambda>t. (int32 (int (length t)),
                      if sz = 0 then m else mem_write m buf (take (sz - 1) t @ [NUL])))
       (format_text fmt ap)"
proof -
  have terminate: "(mem_write m buf (take sz t))(buf + (if length t < sz then length t else sz - 1) := NUL)
      = mem_write m buf (take (sz - 1) t @ [NUL])" if "0 < sz" for t
  proof (cases "length t < sz")
    case False
    then have "take sz t = take (sz - 1) t @ [t ! (sz - 1)]"
      using that take_Suc_conv_app_nth [of "sz - 1" t] by simp
    moreover have "length (take (sz - 1) t) = sz - 1" using False by simp
    ultimately show ?thesis using False by (simp only: mem_write_snoc if_False fun_upd_upd)
  qed (simp add: mem_write_snoc)
  show ?thesis
  proof (cases "format_text fmt ap")
    case None
    with vsnprintf_loop_emit [of buf sz "(m, 0)" fmt ap] show ?thesis
      by (simp add: vsnprintf_def)
  next
    case (Some t)
    with vsnprintf_loop_emit [of buf sz "(m, 0)" fmt ap] obtain ap' where
      "vsnprintf_loop buf sz (m, 0) fmt ap = Some (emit buf sz (m, 0) t, ap')" by auto
    with Some terminate [of t] show ?thesis by (simp add: vsnprintf_def emit_def)
  qed
qed

section \<open>Formats without width\<close>

text \<open>Rules that evaluate the text of a literal format, one character or conversion at a time.\<close>

declare format_text.simps [simp del]

lemma format_text_Nil [format_simps]: "format_text [] ap = Some []"
  by (simp add: format_text.simps)

lemma format_text_plain [format_simps]:
  "c \<noteq> CHR ''%'' \<Longrightarrow> format_text (c # fmt) ap = map_option ((#) c) (format_text fmt ap)"
  by (simp add: format_text.simps)

lemma schar_conversions: "list_all (\<lambda>c. 57 < schar c) ''discuxXlz''"
  by code_simp

lemma parse_spec_letter:
  assumes "c \<in> set ''discuxXlz''"
  shows "parse_spec (c # fmt) = (let (is_long, rest) = parse_length (c # fmt) in (False, False, 0, is_long, rest))"
proof -
  have "57 < schar c" using assms schar_conversions by (simp add: list_all_iff del: set_simps)
  moreover have "c \<noteq> CHR ''0''" "c \<noteq> CHR ''-''" using assms by auto
  ultimately show ?thesis by (simp add: parse_spec_def)
qed

lemma parse_spec_plain:
  assumes "c \<in> set ''discuxX''"
  shows "parse_spec (c # fmt) = (False, False, 0, False, c # fmt)"
proof -
  have "c \<noteq> CHR ''l''" "c \<noteq> CHR ''z''" "c \<in> set ''discuxXlz''" using assms by auto
  then show ?thesis by (simp add: parse_spec_letter parse_length_def del: set_simps)
qed

lemma parse_spec_long:
  assumes "c \<in> set ''diuxX''"
  shows "parse_spec (CHR ''z'' # c # fmt) = (False, False, 0, True, c # fmt)"
    and "parse_spec (CHR ''l'' # c # fmt) = (False, False, 0, True, c # fmt)"
    and "parse_spec (CHR ''l'' # CHR ''l'' # c # fmt) = (False, False, 0, True, c # fmt)"
proof -
  have "c \<noteq> CHR ''l''" using assms by auto
  then show "parse_spec (CHR ''z'' # c # fmt) = (False, False, 0, True, c # fmt)"
    "parse_spec (CHR ''l'' # c # fmt) = (False, False, 0, True, c # fmt)"
    "parse_spec (CHR ''l'' # CHR ''l'' # c # fmt) = (False, False, 0, True, c # fmt)"
    by (simp_all add: parse_spec_letter parse_length_def numeral_2_eq_2)
qed

lemma format_text_s [format_simps]:
  "format_text (CHR ''%'' # CHR ''s'' # fmt) (VStr (Some t) # ap) =
     map_option ((@) (str_text 0 False t)) (format_text fmt ap)"
  "format_text (CHR ''%'' # CHR ''s'' # fmt) (VStr None # ap) =
     map_option ((@) (str_text 0 False ''(null)'')) (format_text fmt ap)"
  by (simp_all add: format_text.simps(2) parse_spec_plain conv_text_def)

lemma format_text_c [format_simps]:
  "format_text (CHR ''%'' # CHR ''c'' # fmt) (VInt v # ap) =
     map_option ((@) [to_char (int32 v)]) (format_text fmt ap)"
  by (simp add: format_text.simps(2) parse_spec_plain conv_text_def)

lemma format_text_d [format_simps]:
  "format_text (CHR ''%'' # CHR ''d'' # fmt) (VInt v # ap) =
     map_option ((@) (int_text 0 False False (int32 v))) (format_text fmt ap)"
  by (simp add: format_text.simps(2) parse_spec_plain conv_text_def)

lemma format_text_ld [format_simps]:
  "format_text (CHR ''%'' # CHR ''l'' # CHR ''d'' # fmt) (VLong v # ap) =
     map_option ((@) (int_text 0 False False (int64 v))) (format_text fmt ap)"
  "format_text (CHR ''%'' # CHR ''l'' # CHR ''l'' # CHR ''d'' # fmt) (VLong v # ap) =
     map_option ((@) (int_text 0 False False (int64 v))) (format_text fmt ap)"
  by (simp_all add: format_text.simps(2) parse_spec_long conv_text_def)

lemma format_text_zu [format_simps]:
  "format_text (CHR ''%'' # CHR ''z'' # CHR ''u'' # fmt) (VLong v # ap) =
     map_option ((@) (uint_text 10 False 0 False False (uint64 v))) (format_text fmt ap)"
  "format_text (CHR ''%'' # CHR ''l'' # CHR ''l'' # CHR ''u'' # fmt) (VLong v # ap) =
     map_option ((@) (uint_text 10 False 0 False False (uint64 v))) (format_text fmt ap)"
  by (simp_all add: format_text.simps(2) parse_spec_long conv_text_def)

lemma format_text_spec:
  "parse_spec fmt = (z, l, wd, g, c # rest) \<Longrightarrow> conv_text c z l wd g ap = Some (t, ap') \<Longrightarrow>
   format_text (CHR ''%'' # fmt) ap = map_option ((@) t) (format_text rest ap')"
  by (simp add: format_text.simps(2))

lemma length_digits_le: "v < base ^ k \<Longrightarrow> 2 \<le> base \<Longrightarrow> length (digits_le base v) \<le> k"
proof (induction k arbitrary: v)
  case 0
  then show ?case by (subst digits_le.simps) simp
next
  case (Suc k)
  show ?case
  proof (cases "0 < v")
    case True
    have "v div base < base ^ k"
      using Suc.prems zmult_zless_mono2 [of "base ^ k" "v div base + 1" base] div_mult_mod_eq [of v base]
        pos_mod_sign [of base v] by (smt (verit) mult_le_cancel_left_pos mult.commute power_Suc)
    with Suc.IH [of "v div base"] Suc.prems True show ?thesis
      unfolding digits_le_Cons [OF True Suc.prems(2)] by simp
  qed (subst digits_le.simps, simp)
qed

lemma length_num_text: "v < 2 ^ 64 \<Longrightarrow> length (num_text 10 upper v) \<le> 20"
  using length_digits_le [of v 10 20] by (simp add: num_text_def)

lemma length_pad_text: "length (pad_text pad fill l t) \<le> length t + nat pad"
  by (simp add: pad_text_def)

lemma length_uint_text: "v < 2 ^ 64 \<Longrightarrow> length (uint_text 10 upper width z l v) \<le> 20 + nat width"
  using length_num_text [of v upper] length_pad_text
    [of "width - int (length (num_text 10 upper v))" "if z then CHR ''0'' else CHR '' ''" l "num_text 10 upper v"]
  by (simp add: uint_text_def Let_def)

lemma length_int_text: "length (int_text width z l v) \<le> 21 + nat width"
  using length_uint_text [OF uint64_bounds(2) [of v], of False width z l]
    length_uint_text [OF uint64_bounds(2) [of "- v"], of False "if width > 0 then width - 1 else 0" z l]
  by (auto simp: int_text_def)

lemma str_text_plain [format_simps]: "length t < 2 ^ 31 \<Longrightarrow> str_text 0 False t = t"
  by (simp add: str_text_def pad_text_def int32_id)

section \<open>Properties\<close>


text \<open>Finding: a negative number in a space-padded field gets its sign before the padding
  (\<open>"%5d"\<close> of -5 prints \<open>-   5\<close> where C prints the padding first), and the padded text has the
  width asked for.\<close>

theorem printf_sign_before_padding:
  "format_text ''%5d'' [VInt (-5)] = Some ''-   5'' \<and> format_text ''%05d'' [VInt (-5)] = Some ''-0005'' \<and>
   format_text ''%-5d|'' [VInt (-5)] = Some ''-5   |''"
  by code_simp

end
