(* ===== verification/Kernel.thy ===== *)
theory Kernel
  imports Prelude
begin

text \<open>
  The system-call interface of \<open>userspace/include/sys/syscall.h\<close> as a parameter of the model:
  a record of functions over an abstract kernel state. A call returns its status or handle,
  what it stores through its out-pointers, and the next kernel state. The constants are those
  of the header. Theory Fs has the calls on files as the kernel implements them; of the others only
  this interface appears.
\<close>

section \<open>Constants\<close>

definition E_SUCCESS :: int where "E_SUCCESS = 0"
definition E_INVALID :: int where "E_INVALID = -1"
definition E_OOM :: int where "E_OOM = -2"
definition E_WAIT_INTERRUPTED :: int where "E_WAIT_INTERRUPTED = -11"
definition E_TIMEOUT :: int where "E_TIMEOUT = -12"
definition E_NOT_FOUND :: int where "E_NOT_FOUND = -13"
definition E_IS_DIR :: int where "E_IS_DIR = -14"
definition E_NOT_DIR :: int where "E_NOT_DIR = -15"
definition E_FILE_EXISTS :: int where "E_FILE_EXISTS = -16"
definition E_NOT_EMPTY :: int where "E_NOT_EMPTY = -19"
definition E_NO_DIR_ENTRIES :: int where "E_NO_DIR_ENTRIES = -21"

definition PROCESS_SUSPEND_FLAG :: int where "PROCESS_SUSPEND_FLAG = 1"
definition CREATE_FILE_EXIST_FLAG :: int where "CREATE_FILE_EXIST_FLAG = 2"
definition OPEN_CREATE_FLAG :: int where "OPEN_CREATE_FLAG = 2"
definition STAT_FOLLOW_FLAG :: int where "STAT_FOLLOW_FLAG = 1"
definition PATH_MAX :: nat where "PATH_MAX = 256"
definition CLOCK_MONOTONIC :: int where "CLOCK_MONOTONIC = 0"
definition FILE_MODE_FILE :: int where "FILE_MODE_FILE = 1"
definition FILE_MODE_DIR :: int where "FILE_MODE_DIR = 2"
definition FILE_MODE_SYMLINK :: int where "FILE_MODE_SYMLINK = 4"
definition SEEK_SET :: int where "SEEK_SET = 0"
definition SEEK_CUR :: int where "SEEK_CUR = 1"
definition SEEK_END :: int where "SEEK_END = 2"
definition EXIT_NORMAL :: int where "EXIT_NORMAL = 0"
definition EXIT_SIGNAL :: int where "EXIT_SIGNAL = 1"
definition SYNC_SEMAPHORE :: int where "SYNC_SEMAPHORE = 0"
definition SYNC_EVENT :: int where "SYNC_EVENT = 1"
definition SET_FOREGROUND_PGRP :: int where "SET_FOREGROUND_PGRP = 8"
definition SET_CTTY :: int where "SET_CTTY = 9"
definition SET_TTY_MODE :: int where "SET_TTY_MODE = 14"
definition TTY_MODE_ECHO :: int where "TTY_MODE_ECHO = 1"
definition TTY_MODE_CANON :: int where "TTY_MODE_CANON = 2"

record file_stat =
  st_size :: int
  st_mode :: int
  st_type :: int

definition is_dir_mode :: "int \<Rightarrow> bool" where
  "is_dir_mode mode \<longleftrightarrow> and mode FILE_MODE_DIR \<noteq> 0"

record exit_info =
  exit_reason :: int
  exit_code :: int

record process_info =
  proc_id :: int
  proc_parent :: int
  proc_session :: int
  proc_exit :: exit_info

record thread_info =
  thread_id :: int
  thread_exit :: exit_info

section \<open>System calls\<close>

text \<open>\<open>heap_ok\<close> is the outcome of a call of \<open>malloc\<close>, \<open>calloc\<close> or \<open>realloc\<close> for that many bytes:
  whether memory was available. It is the only thing the programs below learn from it.\<close>

record 'k kernel =
  sys_read :: "'k \<Rightarrow> int \<Rightarrow> nat \<Rightarrow> int \<times> byte list \<times> 'k"
  sys_write :: "'k \<Rightarrow> int \<Rightarrow> byte list \<Rightarrow> int \<times> nat \<times> 'k"
  sys_open :: "'k \<Rightarrow> string \<Rightarrow> string \<Rightarrow> int \<Rightarrow> int \<times> 'k"
  sys_close :: "'k \<Rightarrow> int \<Rightarrow> int \<times> 'k"
  sys_seek :: "'k \<Rightarrow> int \<Rightarrow> int \<Rightarrow> int \<Rightarrow> int \<times> 'k"
  sys_fstat :: "'k \<Rightarrow> int \<Rightarrow> int \<times> file_stat \<times> 'k"
  sys_stat :: "'k \<Rightarrow> string \<Rightarrow> int \<Rightarrow> int \<times> file_stat \<times> 'k"
  sys_delete :: "'k \<Rightarrow> string \<Rightarrow> int \<times> 'k"
  sys_rename_file :: "'k \<Rightarrow> string \<Rightarrow> string \<Rightarrow> int \<times> 'k"
  sys_mkdir :: "'k \<Rightarrow> string \<Rightarrow> int \<times> 'k"
  sys_create_file :: "'k \<Rightarrow> string \<Rightarrow> int \<Rightarrow> int \<times> 'k"
  sys_create_symlink :: "'k \<Rightarrow> string \<Rightarrow> string \<Rightarrow> int \<times> 'k"
  sys_readlink :: "'k \<Rightarrow> string \<Rightarrow> nat \<Rightarrow> int \<times> byte list \<times> 'k"
  sys_readdir :: "'k \<Rightarrow> int \<Rightarrow> nat \<Rightarrow> nat \<Rightarrow> int \<times> byte list \<times> 'k"
  sys_chdir :: "'k \<Rightarrow> string \<Rightarrow> int \<times> 'k"
  sys_getcwd :: "'k \<Rightarrow> nat \<Rightarrow> int \<times> string \<times> 'k"
  sys_mount :: "'k \<Rightarrow> string \<Rightarrow> string \<Rightarrow> int \<times> 'k"
  sys_unmount :: "'k \<Rightarrow> string \<Rightarrow> int \<times> 'k"
  sys_delay_ms :: "'k \<Rightarrow> int \<Rightarrow> int \<times> 'k"
  sys_get_time_ms :: "'k \<Rightarrow> int \<Rightarrow> int \<times> int option \<times> 'k"
  sys_issue_signal :: "'k \<Rightarrow> int \<Rightarrow> int \<Rightarrow> int \<times> 'k"
  sys_terminate_process :: "'k \<Rightarrow> int \<Rightarrow> int \<Rightarrow> int \<times> 'k"
  sys_create_process :: "'k \<Rightarrow> string list \<Rightarrow> string list \<Rightarrow> int \<Rightarrow> int \<times> 'k"
  sys_resume_process :: "'k \<Rightarrow> int \<Rightarrow> int \<times> 'k"
  sys_duplicate_handle :: "'k \<Rightarrow> int \<Rightarrow> int \<Rightarrow> int \<Rightarrow> bool \<Rightarrow> int \<times> 'k"
  sys_create_pipe :: "'k \<Rightarrow> string option \<Rightarrow> bool \<Rightarrow> int \<times> int \<times> int \<times> 'k"
  sys_wait :: "'k \<Rightarrow> int \<Rightarrow> int \<Rightarrow> int \<times> 'k"
  sys_get_process_info :: "'k \<Rightarrow> int \<Rightarrow> int \<times> process_info \<times> 'k"
  sys_set_pgrp :: "'k \<Rightarrow> int \<Rightarrow> int \<Rightarrow> int \<times> 'k"
  sys_device_control :: "'k \<Rightarrow> int \<Rightarrow> int \<Rightarrow> int \<Rightarrow> int \<times> 'k"
  sys_get_pid :: "'k \<Rightarrow> int \<times> 'k"
  sys_shutdown :: "'k \<Rightarrow> bool \<Rightarrow> int \<times> 'k"
  sys_create_sync_object :: "'k \<Rightarrow> int \<Rightarrow> int \<Rightarrow> int \<Rightarrow> string option \<Rightarrow> int \<times> 'k"
  sys_signal :: "'k \<Rightarrow> int \<Rightarrow> int \<times> 'k"
  sys_create_thread :: "'k \<Rightarrow> int \<Rightarrow> int \<Rightarrow> int \<times> 'k"
  sys_get_thread_info :: "'k \<Rightarrow> int \<Rightarrow> int \<times> thread_info \<times> 'k"
  sys_get_tid :: "'k \<Rightarrow> int \<times> 'k"
  sys_exit_thread :: "'k \<Rightarrow> int \<times> 'k"
  sys_set_session_leader :: "'k \<Rightarrow> int \<Rightarrow> int \<times> 'k"
  sys_set_signal_handler :: "'k \<Rightarrow> int \<Rightarrow> int \<Rightarrow> int \<times> 'k"
  heap_ok :: "'k \<Rightarrow> nat \<Rightarrow> bool \<times> 'k"

end
