(* ===== verification/Stdio.thy ===== *)
theory Stdio
  imports Kernel Printf
begin

text \<open>
  The stream half of \<open>userspace/libc/stdio.c\<close>: \<open>FILE\<close> objects with their read-ahead buffer, the
  three standard streams, and the operations on them. The state of a process is a \<open>world\<close>: its
  \<open>FILE\<close> objects and the kernel. A \<open>FILE *\<close> is an index into the former, \<open>None\<close> the null pointer;
  0, 1 and 2 are \<open>stdin\<close>, \<open>stdout\<close> and \<open>stderr\<close>. The contents of a caller's buffer are passed and
  returned as a list of bytes.
\<close>

section \<open>Streams\<close>

definition BUFSIZ :: nat where "BUFSIZ = 256"

record FILE =
  fd :: int
  rbuf :: "byte list"
  rpos :: nat
  rlen :: nat
  eof :: bool
  error :: bool
  ungetc_ch :: int

record 'k world =
  files :: "nat \<Rightarrow> FILE"
  next_file :: nat
  kern :: 'k

type_synonym fptr = "nat option"

abbreviation stdin :: fptr where "stdin \<equiv> Some 0"
abbreviation stdout :: fptr where "stdout \<equiv> Some 1"
abbreviation stderr :: fptr where "stderr \<equiv> Some 2"

definition put_file :: "nat \<Rightarrow> FILE \<Rightarrow> 'k world \<Rightarrow> 'k world" where
  "put_file i f w = w\<lparr>files := (files w)(i := f)\<rparr>"

text \<open>A system call that stores n bytes at the start of an array leaves the rest of it.\<close>

definition store :: "byte list \<Rightarrow> byte list \<Rightarrow> byte list" where
  "store buf bs = bs @ drop (length bs) buf"

section \<open>Formatted output to a handle\<close>

definition write_out :: "'k kernel \<Rightarrow> int \<Rightarrow> byte list \<Rightarrow> 'k world \<Rightarrow> int \<times> nat \<times> 'k world" where
  "write_out K h bs w = (let (st, n, k) = sys_write K (kern w) h bs in (st, n, w\<lparr>kern := k\<rparr>))"

definition vprintf :: "'k kernel \<Rightarrow> string \<Rightarrow> va list \<Rightarrow> 'k world \<Rightarrow> (int \<times> 'k world) option" where
  "vprintf K fmt ap w = do {
     (ret, buf) \<leftarrow> vsnprintf (\<lambda>_. NUL) 0 512 fmt ap;
     if ret > 0 then
       let len = (if ret < 512 then nat ret else 512 - 1);
           (_, _, w') = write_out K 1 (bytes buf 0 len) w
       in Some (ret, w')
     else Some (ret, w)
   }"

definition printf :: "'k kernel \<Rightarrow> string \<Rightarrow> va list \<Rightarrow> 'k world \<Rightarrow> (int \<times> 'k world) option" where
  "printf K fmt args w = vprintf K fmt args w"

definition vfprintf :: "'k kernel \<Rightarrow> fptr \<Rightarrow> string \<Rightarrow> va list \<Rightarrow> 'k world \<Rightarrow> (int \<times> 'k world) option" where
  "vfprintf K stream fmt ap w = do {
     (ret, buf) \<leftarrow> vsnprintf (\<lambda>_. NUL) 0 512 fmt ap;
     case stream of
       None \<Rightarrow> Some (ret, w)
     | Some i \<Rightarrow>
         if ret > 0 \<and> fd (files w i) \<ge> 0 then
           let len = (if ret < 512 then nat ret else 512 - 1);
               (_, _, w') = write_out K (fd (files w i)) (bytes buf 0 len) w
           in Some (ret, w')
         else Some (ret, w)
   }"

definition fprintf :: "'k kernel \<Rightarrow> fptr \<Rightarrow> string \<Rightarrow> va list \<Rightarrow> 'k world \<Rightarrow> (int \<times> 'k world) option" where
  "fprintf K stream fmt args w = vfprintf K stream fmt args w"

text \<open>\<open>seconds * 1000\<close> is a product of \<open>unsigned int\<close>s; the difference of the two times is of type
  \<open>uint64_t\<close> and is cut to \<open>unsigned int\<close> on return. A failed clock call stores nothing.\<close>

definition sleep :: "'k kernel \<Rightarrow> int \<Rightarrow> 'k world \<Rightarrow> int \<times> 'k world" where
  "sleep K seconds w =
     (let (_, t0, k1) = sys_get_time_ms K (kern w) CLOCK_MONOTONIC;
          old = (case t0 of None \<Rightarrow> 0 | Some t \<Rightarrow> t);
          (res, k2) = sys_delay_ms K k1 (uint32 (seconds * 1000))
      in if res \<noteq> E_SUCCESS then
           let (_, t1, k3) = sys_get_time_ms K k2 CLOCK_MONOTONIC;
               now = (case t1 of None \<Rightarrow> 0 | Some t \<Rightarrow> t)
           in (uint32 (uint64 (now - old) div 1000), w\<lparr>kern := k3\<rparr>)
         else (0, w\<lparr>kern := k2\<rparr>))"

section \<open>The standard streams\<close>

definition unbound_file :: FILE where
  "unbound_file = \<lparr>fd = -1, rbuf = replicate BUFSIZ NUL, rpos = 0, rlen = 0, eof = False,
                   error = False, ungetc_ch = -1\<rparr>"

definition bind_std_handle :: "'k kernel \<Rightarrow> nat \<Rightarrow> int \<Rightarrow> 'k world \<Rightarrow> 'k world" where
  "bind_std_handle K i h w =
     (let f = (files w i)\<lparr>rpos := 0, rlen := 0, eof := False, error := False, ungetc_ch := -1\<rparr>;
          (st, _, k) = sys_fstat K (kern w) h
      in (put_file i (f\<lparr>fd := (if st = E_SUCCESS then h else -1)\<rparr>) w)\<lparr>kern := k\<rparr>)"

definition stdio_init_std_handles :: "'k kernel \<Rightarrow> 'k world \<Rightarrow> 'k world" where
  "stdio_init_std_handles K w = bind_std_handle K 2 2 (bind_std_handle K 1 1 (bind_std_handle K 0 0 w))"

section \<open>Characters\<close>

definition refill :: "'k kernel \<Rightarrow> nat \<Rightarrow> 'k world \<Rightarrow> int \<times> 'k world" where
  "refill K i w =
     (let f = files w i in
      if fd f < 0 then (-1, w)
      else let (st, bs, k) = sys_read K (kern w) (fd f) BUFSIZ;
               f1 = f\<lparr>rbuf := store (rbuf f) bs\<rparr>;
               w1 = w\<lparr>kern := k\<rparr>
           in if st \<noteq> E_SUCCESS then (-1, put_file i (f1\<lparr>error := True\<rparr>) w1)
              else if bs = [] then (-1, put_file i (f1\<lparr>eof := True\<rparr>) w1)
              else (0, put_file i (f1\<lparr>rpos := 0, rlen := length bs\<rparr>) w1))"

definition take_buffered :: "nat \<Rightarrow> 'k world \<Rightarrow> int \<times> 'k world" where
  "take_buffered i w =
     (let f = files w i in (uchar (rbuf f ! rpos f), put_file i (f\<lparr>rpos := rpos f + 1\<rparr>) w))"

definition fgetc :: "'k kernel \<Rightarrow> fptr \<Rightarrow> 'k world \<Rightarrow> int \<times> 'k world" where
  "fgetc K stream w =
     (case stream of
        None \<Rightarrow> (EOF, w)
      | Some i \<Rightarrow>
          let f = files w i in
          if ungetc_ch f \<ge> 0 then (ungetc_ch f, put_file i (f\<lparr>ungetc_ch := -1\<rparr>) w)
          else if rpos f \<ge> rlen f then
            let (r, w') = refill K i w in if r < 0 then (EOF, w') else take_buffered i w'
          else take_buffered i w)"

definition getc :: "'k kernel \<Rightarrow> fptr \<Rightarrow> 'k world \<Rightarrow> int \<times> 'k world" where
  "getc K stream w = fgetc K stream w"

definition ungetc :: "int \<Rightarrow> fptr \<Rightarrow> 'k world \<Rightarrow> int \<times> 'k world" where
  "ungetc c stream w =
     (case stream of
        None \<Rightarrow> (EOF, w)
      | Some i \<Rightarrow>
          if c = EOF then (EOF, w)
          else (uint8 c, put_file i ((files w i)\<lparr>ungetc_ch := uint8 c\<rparr>) w))"

definition fputc :: "'k kernel \<Rightarrow> int \<Rightarrow> fptr \<Rightarrow> 'k world \<Rightarrow> int \<times> 'k world" where
  "fputc K c stream w =
     (case stream of
        None \<Rightarrow> (EOF, w)
      | Some i \<Rightarrow>
          if fd (files w i) < 0 then (EOF, w)
          else let ch = to_char c;
                   (st, written, w') = write_out K (fd (files w i)) [ch] w
               in if st \<noteq> E_SUCCESS \<or> written \<noteq> 1
                  then (EOF, put_file i ((files w' i)\<lparr>error := True\<rparr>) w')
                  else (uchar ch, w'))"

definition putc :: "'k kernel \<Rightarrow> int \<Rightarrow> fptr \<Rightarrow> 'k world \<Rightarrow> int \<times> 'k world" where
  "putc K c stream w = fputc K c stream w"

section \<open>Lines\<close>

text \<open>The loop of \<open>fgets\<close>: \<open>room\<close> is \<open>n - 1 - i\<close> and \<open>acc\<close> the bytes stored so far. The result
  \<open>None\<close> is the null pointer; otherwise it is the text in the buffer, which its terminator follows.\<close>

fun fgets_loop :: "'k kernel \<Rightarrow> fptr \<Rightarrow> nat \<Rightarrow> byte list \<Rightarrow> 'k world \<Rightarrow> byte list option \<times> 'k world" where
  "fgets_loop K stream 0 acc w = (Some acc, w)"
| "fgets_loop K stream (Suc room) acc w =
     (let (c, w') = fgetc K stream w in
      if c = EOF then (if acc = [] then None else Some acc, w')
      else if c = uchar newline then (Some (acc @ [to_char c]), w')
      else fgets_loop K stream room (acc @ [to_char c]) w')"

definition fgets :: "'k kernel \<Rightarrow> int \<Rightarrow> fptr \<Rightarrow> 'k world \<Rightarrow> byte list option \<times> 'k world" where
  "fgets K n stream w =
     (if n \<le> 0 \<or> stream = None then (None, w) else fgets_loop K stream (nat (n - 1)) [] w)"

definition fputs :: "'k kernel \<Rightarrow> string option \<Rightarrow> fptr \<Rightarrow> 'k world \<Rightarrow> int \<times> 'k world" where
  "fputs K s stream w =
     (case (s, stream) of
        (Some t, Some i) \<Rightarrow>
          if fd (files w i) < 0 then (EOF, w)
          else if length t > 0 then
            let (st, written, w') = write_out K (fd (files w i)) t w
            in if st \<noteq> E_SUCCESS \<or> written \<noteq> length t
               then (EOF, put_file i ((files w' i)\<lparr>error := True\<rparr>) w')
               else (0, w')
          else (0, w)
      | _ \<Rightarrow> (EOF, w))"

definition feof :: "fptr \<Rightarrow> 'k world \<Rightarrow> bool" where
  "feof stream w = (case stream of None \<Rightarrow> False | Some i \<Rightarrow> eof (files w i))"

definition ferror :: "fptr \<Rightarrow> 'k world \<Rightarrow> bool" where
  "ferror stream w = (case stream of None \<Rightarrow> False | Some i \<Rightarrow> error (files w i))"

definition clearerr :: "fptr \<Rightarrow> 'k world \<Rightarrow> 'k world" where
  "clearerr stream w =
     (case stream of None \<Rightarrow> w | Some i \<Rightarrow> put_file i ((files w i)\<lparr>eof := False, error := False\<rparr>) w)"

section \<open>Opening and closing\<close>

definition sizeof_FILE :: nat where "sizeof_FILE = 296"

definition fopen_handle :: "'k kernel \<Rightarrow> string \<Rightarrow> bool \<Rightarrow> bool \<Rightarrow> 'k \<Rightarrow> int \<times> 'k" where
  "fopen_handle K path want_append want_truncate k =
     (if want_truncate then sys_open K k ''fs'' path OPEN_CREATE_FLAG
      else if want_append then
        let (h, k1) = sys_open K k ''fs'' path 0
        in if h < 0 then sys_open K k1 ''fs'' path OPEN_CREATE_FLAG else (h, k1)
      else sys_open K k ''fs'' path 0)"

definition fopen_at :: "'k kernel \<Rightarrow> string \<Rightarrow> bool \<Rightarrow> bool \<Rightarrow> 'k world \<Rightarrow> fptr \<times> 'k world" where
  "fopen_at K path want_append want_truncate w =
     (let (h, k1) = fopen_handle K path want_append want_truncate (kern w)
      in if h < 0 then (None, w\<lparr>kern := k1\<rparr>)
         else let k2 = (if want_append then snd (sys_seek K k1 h 0 SEEK_END) else k1);
                  (ok, k3) = heap_ok K k2 sizeof_FILE
              in if \<not> ok then (None, w\<lparr>kern := snd (sys_close K k3 h)\<rparr>)
                 else let i = next_file w
                      in (Some i, (put_file i ((files w i)\<lparr>fd := h, rpos := 0, rlen := 0,
                            eof := False, error := False, ungetc_ch := -1\<rparr>) w)
                            \<lparr>next_file := i + 1, kern := k3\<rparr>))"

definition fopen :: "'k kernel \<Rightarrow> string option \<Rightarrow> string option \<Rightarrow> 'k world \<Rightarrow> fptr \<times> 'k world" where
  "fopen K path mode w =
     (case (path, mode) of
        (Some p, Some m) \<Rightarrow>
          if peek m 0 = CHR ''r'' then fopen_at K p False False w
          else if peek m 0 = CHR ''w'' then fopen_at K p False True w
          else if peek m 0 = CHR ''a'' then fopen_at K p True False w
          else (None, w)
      | _ \<Rightarrow> (None, w))"

text \<open>The object of a closed stream keeps its index, with its handle unbound; no later \<open>fopen\<close>
  returns it.\<close>

definition fclose :: "'k kernel \<Rightarrow> fptr \<Rightarrow> 'k world \<Rightarrow> int \<times> 'k world" where
  "fclose K stream w =
     (case stream of
        None \<Rightarrow> (EOF, w)
      | Some i \<Rightarrow>
          let f = files w i;
              (ret, k) = (if fd f \<ge> 0 then
                            let (st, k) = sys_close K (kern w) (fd f)
                            in (if st \<noteq> E_SUCCESS then EOF else 0, k)
                          else (0, kern w))
          in (ret, (put_file i (f\<lparr>fd := -1\<rparr>) w)\<lparr>kern := k\<rparr>))"

definition fflush :: "fptr \<Rightarrow> 'k world \<Rightarrow> int \<times> 'k world" where
  "fflush stream w = (0, w)"

section \<open>Blocks\<close>

definition size_mul :: "nat \<Rightarrow> nat \<Rightarrow> nat" where
  "size_mul a b = (a * b) mod 2 ^ 64"

function fread_loop :: "'k kernel \<Rightarrow> nat \<Rightarrow> nat \<Rightarrow> byte list \<Rightarrow> 'k world \<Rightarrow> byte list \<times> 'k world" where
  "fread_loop K i tot acc w =
     (if length acc < tot then
        let (st, bs, k) = sys_read K (kern w) (fd (files w i)) (tot - length acc);
            w' = w\<lparr>kern := k\<rparr>
        in if st \<noteq> E_SUCCESS then (acc, put_file i ((files w' i)\<lparr>error := True\<rparr>) w')
           else if bs = [] then (acc, put_file i ((files w' i)\<lparr>eof := True\<rparr>) w')
           else fread_loop K i tot (acc @ bs) w'
      else (acc, w))"
  by pat_completeness auto
termination
  by (relation "measure (\<lambda>(_, _, tot, acc, _). tot - length acc)") (auto intro!: diff_less_mono2)

declare fread_loop.simps [simp del]

text \<open>The result is the number of items and the bytes stored at \<open>ptr\<close>.\<close>

definition fread :: "'k kernel \<Rightarrow> nat \<Rightarrow> nat \<Rightarrow> fptr \<Rightarrow> 'k world \<Rightarrow> nat \<times> byte list \<times> 'k world" where
  "fread K sz nmemb stream w =
     (case stream of
        None \<Rightarrow> (0, [], w)
      | Some i \<Rightarrow>
          if sz = 0 \<or> nmemb = 0 \<or> fd (files w i) < 0 then (0, [], w)
          else let tot = size_mul sz nmemb;
                   f = files w i;
                   (acc, w1) =
                     (if rpos f < rlen f then
                        let avail = rlen f - rpos f;
                            t = (if avail < tot then avail else tot)
                        in (take t (drop (rpos f) (rbuf f)), put_file i (f\<lparr>rpos := rpos f + t\<rparr>) w)
                      else ([], w));
                   (bs, w2) = fread_loop K i tot acc w1
               in (length bs div sz, bs, w2))"

function fwrite_loop :: "'k kernel \<Rightarrow> nat \<Rightarrow> byte list \<Rightarrow> nat \<Rightarrow> nat \<Rightarrow> 'k world \<Rightarrow> nat \<times> 'k world" where
  "fwrite_loop K i src tot written w =
     (if written < tot then
        let (st, n, w') = write_out K (fd (files w i)) (take (tot - written) (drop written src)) w
        in if st \<noteq> E_SUCCESS \<or> n = 0 then (written, put_file i ((files w' i)\<lparr>error := True\<rparr>) w')
           else fwrite_loop K i src tot (written + n) w'
      else (written, w))"
  by pat_completeness auto
termination
  by (relation "measure (\<lambda>(_, _, _, tot, written, _). tot - written)") auto

declare fwrite_loop.simps [simp del]

definition fwrite :: "'k kernel \<Rightarrow> byte list \<Rightarrow> nat \<Rightarrow> nat \<Rightarrow> fptr \<Rightarrow> 'k world \<Rightarrow> nat \<times> 'k world" where
  "fwrite K src sz nmemb stream w =
     (case stream of
        None \<Rightarrow> (0, w)
      | Some i \<Rightarrow>
          if sz = 0 \<or> nmemb = 0 \<or> fd (files w i) < 0 then (0, w)
          else let (written, w') = fwrite_loop K i src (size_mul sz nmemb) 0 w
               in (written div sz, w'))"

section \<open>Positions\<close>

definition ftell :: "'k kernel \<Rightarrow> fptr \<Rightarrow> 'k world \<Rightarrow> int \<times> 'k world" where
  "ftell K stream w =
     (case stream of
        None \<Rightarrow> (-1, w)
      | Some i \<Rightarrow>
          let f = files w i in
          if fd f < 0 then (-1, w)
          else let (pos, k) = sys_seek K (kern w) (fd f) 0 SEEK_CUR
               in if pos < 0 then (-1, w\<lparr>kern := k\<rparr>)
                  else let buffered_unread = uint64 (int (rlen f) - int (rpos f))
                             + (if ungetc_ch f \<ge> 0 then 1 else 0)
                       in (int64 (pos - buffered_unread), w\<lparr>kern := k\<rparr>))"

definition seek_to :: "'k kernel \<Rightarrow> nat \<Rightarrow> int \<Rightarrow> 'k world \<Rightarrow> int \<times> 'k world" where
  "seek_to K i target w =
     (let f = files w i;
          (r, k) = sys_seek K (kern w) (fd f) target SEEK_SET
      in if r < 0 then (-1, w\<lparr>kern := k\<rparr>)
         else (0, (put_file i (f\<lparr>rpos := 0, rlen := 0, ungetc_ch := -1, eof := False\<rparr>) w)\<lparr>kern := k\<rparr>))"

definition fseek :: "'k kernel \<Rightarrow> fptr \<Rightarrow> int \<Rightarrow> int \<Rightarrow> 'k world \<Rightarrow> int \<times> 'k world" where
  "fseek K stream offset whence w =
     (case stream of
        None \<Rightarrow> (-1, w)
      | Some i \<Rightarrow>
          if fd (files w i) < 0 then (-1, w)
          else if whence = SEEK_SET then seek_to K i offset w
          else if whence = SEEK_CUR then
            let (cur, w') = ftell K stream w
            in if cur < 0 then (-1, w') else seek_to K i (int64 (cur + offset)) w'
          else if whence = SEEK_END then
            let (st, s, k) = sys_fstat K (kern w) (fd (files w i));
                w' = w\<lparr>kern := k\<rparr>
            in if st \<noteq> E_SUCCESS then (-1, w') else seek_to K i (int64 (int64 (st_size s) + offset)) w'
          else (-1, w))"

definition rewind :: "'k kernel \<Rightarrow> fptr \<Rightarrow> 'k world \<Rightarrow> 'k world" where
  "rewind K stream w =
     (let (_, w') = fseek K stream 0 SEEK_SET w
      in case stream of None \<Rightarrow> w' | Some i \<Rightarrow> put_file i ((files w' i)\<lparr>error := False\<rparr>) w')"

definition remove :: "'k kernel \<Rightarrow> string \<Rightarrow> 'k world \<Rightarrow> int \<times> 'k world" where
  "remove K path w =
     (let (st, k) = sys_delete K (kern w) path in (if st = E_SUCCESS then 0 else -1, w\<lparr>kern := k\<rparr>))"

end
