(* ===== verification/Streams.thy ===== *)
theory Streams
  imports Stdio
begin

text \<open>
  What reading and writing through a stream means. A \<open>view\<close> says which bytes are still to be read
  from a handle and which have been written to it; \<open>kernel_reads\<close> and \<open>kernel_writes\<close> state the
  documented behaviour of \<open>sys_read\<close> and \<open>sys_write\<close> on live handles in these terms. The locale
  \<open>byte_stream\<close> is the contract of \<open>fgetc\<close> with the loops that are written over it.
\<close>

section \<open>Views of the kernel\<close>

record 'k view =
  live :: "'k \<Rightarrow> int \<Rightarrow> bool"
  inp :: "'k \<Rightarrow> int \<Rightarrow> byte list"
  outp :: "'k \<Rightarrow> int \<Rightarrow> byte list"

definition kernel_reads :: "'k kernel \<Rightarrow> 'k view \<Rightarrow> bool" where
  "kernel_reads K V \<longleftrightarrow> (\<forall>k h n. live V k h \<longrightarrow> 0 < n \<longrightarrow>
     (\<exists>bs k'. sys_read K k h n = (E_SUCCESS, bs, k') \<and> length bs \<le> n \<and>
        inp V k h = bs @ inp V k' h \<and> (bs = [] \<longrightarrow> inp V k h = []) \<and>
        (\<forall>h'. h' \<noteq> h \<longrightarrow> inp V k' h' = inp V k h') \<and> outp V k' = outp V k \<and> live V k' = live V k))"

definition kernel_writes :: "'k kernel \<Rightarrow> 'k view \<Rightarrow> bool" where
  "kernel_writes K V \<longleftrightarrow> (\<forall>k h bs. live V k h \<longrightarrow> bs \<noteq> [] \<longrightarrow>
     (\<exists>k'. sys_write K k h bs = (E_SUCCESS, length bs, k') \<and>
        outp V k' = (outp V k)(h := outp V k h @ bs) \<and> inp V k' = inp V k \<and> live V k' = live V k))"

text \<open>A handle, such as the write end of a pipe, may also take a part of what it is given.\<close>

definition kernel_writes_some :: "'k kernel \<Rightarrow> 'k view \<Rightarrow> bool" where
  "kernel_writes_some K V \<longleftrightarrow> (\<forall>k h bs. live V k h \<longrightarrow> bs \<noteq> [] \<longrightarrow>
     (\<exists>n k'. sys_write K k h bs = (E_SUCCESS, n, k') \<and> 0 < n \<and> n \<le> length bs \<and>
        outp V k' = (outp V k)(h := outp V k h @ take n bs) \<and> inp V k' = inp V k \<and> live V k' = live V k))"

section \<open>The state of a stream\<close>

definition wf_file :: "FILE \<Rightarrow> bool" where
  "wf_file f \<longleftrightarrow> length (rbuf f) = BUFSIZ \<and> rpos f \<le> rlen f \<and> rlen f \<le> BUFSIZ \<and>
     -1 \<le> ungetc_ch f \<and> ungetc_ch f < 256"

definition buffered :: "FILE \<Rightarrow> byte list" where
  "buffered f = take (rlen f - rpos f) (drop (rpos f) (rbuf f))"

definition pushed_back :: "FILE \<Rightarrow> byte list" where
  "pushed_back f = (if ungetc_ch f \<ge> 0 then [to_char (ungetc_ch f)] else [])"

definition remaining :: "'k view \<Rightarrow> nat \<Rightarrow> 'k world \<Rightarrow> byte list" where
  "remaining V i w = pushed_back (files w i) @ buffered (files w i) @ inp V (kern w) (fd (files w i))"

definition stream_ok :: "'k kernel \<Rightarrow> 'k view \<Rightarrow> nat \<Rightarrow> 'k world \<Rightarrow> bool" where
  "stream_ok K V i w \<longleftrightarrow> kernel_reads K V \<and> wf_file (files w i) \<and> 0 \<le> fd (files w i) \<and>
     live V (kern w) (fd (files w i))"

text \<open>What reading stream i leaves as it was.\<close>

definition reads_only :: "'k view \<Rightarrow> nat \<Rightarrow> 'k world \<Rightarrow> 'k world \<Rightarrow> bool" where
  "reads_only V i w w' \<longleftrightarrow> (\<forall>j. j \<noteq> i \<longrightarrow> files w' j = files w j) \<and>
     fd (files w' i) = fd (files w i) \<and> error (files w' i) = error (files w i) \<and>
     next_file w' = next_file w \<and> outp V (kern w') = outp V (kern w) \<and> live V (kern w') = live V (kern w) \<and>
     (\<forall>h. h \<noteq> fd (files w i) \<longrightarrow> inp V (kern w') h = inp V (kern w) h)"

lemma reads_only_refl [simp]: "reads_only V i w w"
  by (simp add: reads_only_def)

lemma reads_only_trans: "reads_only V i w w' \<Longrightarrow> reads_only V i w' w'' \<Longrightarrow> reads_only V i w w''"
  by (simp add: reads_only_def)

lemma put_file_simps [simp]:
  "files (put_file i f w) j = (if j = i then f else files w j)"
  "kern (put_file i f w) = kern w" "next_file (put_file i f w) = next_file w"
  by (simp_all add: put_file_def)

lemma length_store [simp]: "length (store buf bs) = max (length buf) (length bs)"
  by (simp add: store_def)

lemma buffered_store [simp]:
  "buffered (f\<lparr>rbuf := store b bs, rpos := 0, rlen := length bs\<rparr>) = bs"
  by (simp add: buffered_def store_def)

lemma buffered_Cons:
  assumes "rpos f < rlen f" "wf_file f"
  shows "buffered f = rbuf f ! rpos f # buffered (f\<lparr>rpos := Suc (rpos f)\<rparr>)"
proof -
  have "rpos f < length (rbuf f)" using assms by (simp add: wf_file_def)
  moreover have "rlen f - rpos f = Suc (rlen f - Suc (rpos f))" using assms by simp
  ultimately show ?thesis
    by (simp add: buffered_def Cons_nth_drop_Suc [symmetric])
qed

lemma wf_file_updates [simp]:
  "wf_file (f\<lparr>eof := a\<rparr>) = wf_file f" "wf_file (f\<lparr>error := a\<rparr>) = wf_file f" "wf_file (f\<lparr>fd := h\<rparr>) = wf_file f"
  by (simp_all add: wf_file_def)

section \<open>Reading a character\<close>

lemma refill_cases:
  assumes "stream_ok K V i w" "rlen (files w i) \<le> rpos (files w i)"
  obtains (Eof) w' where "refill K i w = (-1, w')" "inp V (kern w) (fd (files w i)) = []"
      "ungetc_ch (files w' i) = ungetc_ch (files w i)" "buffered (files w' i) = []"
      "inp V (kern w') (fd (files w i)) = []" "stream_ok K V i w'" "reads_only V i w w'"
  | (Data) w' where "refill K i w = (0, w')" "buffered (files w' i) \<noteq> []"
      "inp V (kern w) (fd (files w i)) = buffered (files w' i) @ inp V (kern w') (fd (files w i))"
      "ungetc_ch (files w' i) = ungetc_ch (files w i)" "rpos (files w' i) < rlen (files w' i)"
      "stream_ok K V i w'" "reads_only V i w w'"
proof -
  let ?f = "files w i"
  have wf: "wf_file ?f" "0 \<le> fd ?f" and reads: "kernel_reads K V" and "live V (kern w) (fd ?f)"
    using assms(1) by (auto simp: stream_ok_def)
  moreover have "0 < BUFSIZ" by (simp add: BUFSIZ_def)
  ultimately obtain bs k where r: "sys_read K (kern w) (fd ?f) BUFSIZ = (E_SUCCESS, bs, k)" "length bs \<le> BUFSIZ"
      "inp V (kern w) (fd ?f) = bs @ inp V k (fd ?f)" "bs = [] \<longrightarrow> inp V (kern w) (fd ?f) = []"
      "\<forall>h'. h' \<noteq> fd ?f \<longrightarrow> inp V k h' = inp V (kern w) h'" "outp V k = outp V (kern w)" "live V k = live V (kern w)"
    unfolding kernel_reads_def by metis
  show ?thesis
  proof (cases "bs = []")
    case True
    with r wf assms show ?thesis
      by (intro Eof [of "put_file i (?f\<lparr>rbuf := store (rbuf ?f) bs, eof := True\<rparr>) (w\<lparr>kern := k\<rparr>)"])
        (auto simp: refill_def Let_def stream_ok_def reads_only_def buffered_def wf_file_def store_def)
  next
    case False
    note facts = r(1,2,3,6,7) wf reads assms False
    have "\<forall>h. h \<noteq> fd ?f \<longrightarrow> inp V k h = inp V (kern w) h" by (rule r(5))
    with facts show ?thesis
      by (intro Data [of "put_file i (?f\<lparr>rbuf := store (rbuf ?f) bs, rpos := 0, rlen := length bs\<rparr>) (w\<lparr>kern := k\<rparr>)"])
        (auto simp: refill_def Let_def stream_ok_def reads_only_def wf_file_def)
  qed
qed

lemma take_buffered_next:
  assumes "stream_ok K V i w" "rpos (files w i) < rlen (files w i)" "ungetc_ch (files w i) < 0"
  obtains c w' where "take_buffered i w = (uchar c, w')" "remaining V i w = c # remaining V i w'"
    "stream_ok K V i w'" "reads_only V i w w'"
proof
  let ?f = "files w i"
  let ?w' = "put_file i (?f\<lparr>rpos := rpos ?f + 1\<rparr>) w"
  have wf: "wf_file ?f" using assms(1) by (simp add: stream_ok_def)
  show "take_buffered i w = (uchar (rbuf ?f ! rpos ?f), ?w')" by (simp add: take_buffered_def Let_def)
  show "remaining V i w = rbuf ?f ! rpos ?f # remaining V i ?w'"
    using assms(3) buffered_Cons [OF assms(2) wf] by (simp add: remaining_def pushed_back_def)
  show "stream_ok K V i ?w'" using assms by (auto simp: stream_ok_def wf_file_def)
  show "reads_only V i w ?w'" by (simp add: reads_only_def)
qed

lemma fgetc_cases:
  assumes ok: "stream_ok K V i w"
  obtains (EOF) w' where "remaining V i w = []" "fgetc K (Some i) w = (EOF, w')" "remaining V i w' = []"
      "stream_ok K V i w'" "reads_only V i w w'"
  | (Char) c w' where "fgetc K (Some i) w = (uchar c, w')" "remaining V i w = c # remaining V i w'"
      "stream_ok K V i w'" "reads_only V i w w'"
proof -
  let ?f = "files w i"
  have wf: "wf_file ?f" using ok by (simp add: stream_ok_def)
  consider (Back) "0 \<le> ungetc_ch ?f" | (Empty) "ungetc_ch ?f < 0" "rlen ?f \<le> rpos ?f"
    | (Buf) "ungetc_ch ?f < 0" "rpos ?f < rlen ?f" by linarith
  then show ?thesis
  proof cases
    case Back
    let ?w' = "put_file i (?f\<lparr>ungetc_ch := -1\<rparr>) w"
    have "ungetc_ch ?f < 256" using wf by (simp add: wf_file_def)
    with Back have "uchar (to_char (ungetc_ch ?f)) = ungetc_ch ?f" by (simp add: uchar_to_char)
    with Back ok show ?thesis
      by (intro Char [of "to_char (ungetc_ch ?f)" ?w'])
        (auto simp: fgetc_def Let_def remaining_def pushed_back_def buffered_def stream_ok_def reads_only_def
          wf_file_def)
  next
    case Empty
    then have none: "buffered ?f = []" by (simp add: buffered_def)
    show ?thesis
    proof (rule refill_cases [OF ok Empty(2)], goal_cases)
      case (1 w')
      with Empty none show ?case
        by (intro EOF [of w']) (auto simp: fgetc_def remaining_def pushed_back_def reads_only_def)
    next
      case (2 w')
      with Empty obtain c w'' where t: "take_buffered i w' = (uchar c, w'')"
          "remaining V i w' = c # remaining V i w''" "stream_ok K V i w''" "reads_only V i w' w''"
        by (metis take_buffered_next)
      have "remaining V i w = remaining V i w'"
        using 2 Empty none by (simp add: remaining_def pushed_back_def reads_only_def)
      with 2 t Empty show ?case
        by (intro Char [of c w'']) (auto simp: fgetc_def intro: reads_only_trans)
    qed
  next
    case Buf
    with take_buffered_next [OF ok Buf(2,1)] Char show ?thesis by (auto simp: fgetc_def)
  qed
qed

section \<open>Loops over a stream\<close>

text \<open>The loop \<open>while ((c = fgetc(f)) != EOF) body\<close>. The body returns whether it leaves the loop by
  \<open>break\<close>, the local variables and the state. A stream that never ends gives no result.\<close>

partial_function (option) while_getc ::
  "('s \<Rightarrow> int \<times> 's) \<Rightarrow> (int \<Rightarrow> 'a \<Rightarrow> 's \<Rightarrow> (bool \<times> 'a \<times> 's) option) \<Rightarrow> 'a \<Rightarrow> 's \<Rightarrow> ('a \<times> 's) option" where
  "while_getc nxt body a s =
     (let (c, s1) = nxt s in
      if c = EOF then Some (a, s1)
      else do {
        (stop, a', s2) \<leftarrow> body c a s1;
        if stop then Some (a', s2) else while_getc nxt body a' s2
      })"

declare while_getc.simps [code]

locale byte_stream =
  fixes nxt :: "'s \<Rightarrow> int \<times> 's"
    and rem :: "'s \<Rightarrow> byte list"
    and ok :: "'s \<Rightarrow> bool"
    and same :: "'s \<Rightarrow> 's \<Rightarrow> bool"
  assumes next_eof: "ok s \<Longrightarrow> rem s = [] \<Longrightarrow> \<exists>s'. nxt s = (EOF, s') \<and> ok s' \<and> rem s' = [] \<and> same s s'"
    and next_char: "ok s \<Longrightarrow> rem s = c # cs \<Longrightarrow> \<exists>s'. nxt s = (uchar c, s') \<and> ok s' \<and> rem s' = cs \<and> same s s'"
    and same_refl: "same s s"
    and same_trans: "same s s' \<Longrightarrow> same s' s'' \<Longrightarrow> same s s''"
begin

lemma while_getc_eof:
  assumes "ok s" "rem s = []"
  obtains s' where "while_getc nxt body a s = Some (a, s')" "ok s'" "rem s' = []" "same s s'"
proof -
  obtain s' where "nxt s = (EOF, s')" "ok s'" "rem s' = []" "same s s'" using next_eof [OF assms] by blast
  moreover from this(1) have "while_getc nxt body a s = Some (a, s')" by (subst while_getc.simps) simp
  ultimately show thesis using that by blast
qed

lemma while_getc_char:
  assumes "ok s" "rem s = c # cs"
  obtains s' where "ok s'" "rem s' = cs" "same s s'"
    "while_getc nxt body a s = do {
       (stop, a', s2) \<leftarrow> body (uchar c) a s';
       if stop then Some (a', s2) else while_getc nxt body a' s2 }"
proof -
  obtain s' where "nxt s = (uchar c, s')" "ok s'" "rem s' = cs" "same s s'" using next_char [OF assms] by blast
  moreover from this(1) have "while_getc nxt body a s = do {
       (stop, a', s2) \<leftarrow> body (uchar c) a s';
       if stop then Some (a', s2) else while_getc nxt body a' s2 }" by (subst while_getc.simps) simp
  ultimately show thesis using that by blast
qed

text \<open>The rule for the loop: \<open>P\<close> holds at its head, with the bytes read so far; the loop is left at the
  end of the stream, with \<open>R\<close>, or by the body, with \<open>Q\<close>.\<close>

lemma while_getc_rule_aux:
  assumes step: "\<And>pre c a s s'. P pre a s \<Longrightarrow> rem s = c # rem s' \<Longrightarrow> ok s' \<Longrightarrow> same s s' \<Longrightarrow>
      \<exists>stop a' s2. body (uchar c) a s' = Some (stop, a', s2) \<and>
        (if stop then Q (pre @ [c]) a' s2 else ok s2 \<and> rem s2 = rem s' \<and> P (pre @ [c]) a' s2)"
    and eof: "\<And>pre a s s'. P pre a s \<Longrightarrow> ok s' \<Longrightarrow> rem s' = [] \<Longrightarrow> same s s' \<Longrightarrow> R pre a s'"
    and "ok s" "P pre a s"
  shows "\<exists>a' s'. while_getc nxt body a s = Some (a', s') \<and>
           (R (pre @ rem s) a' s' \<or> (\<exists>mid post. rem s = mid @ post \<and> Q (pre @ mid) a' s'))"
  using assms(3-)
proof (induction "rem s" arbitrary: pre a s)
  case Nil
  obtain s' where s': "while_getc nxt body a s = Some (a, s')" "ok s'" "rem s' = []" "same s s'"
    by (rule while_getc_eof [OF Nil(2) Nil(1)[symmetric]])
  with eof [OF Nil(3) s'(2-4)] Nil(1)[symmetric] show ?case by simp
next
  case (Cons c cs)
  obtain s' where s': "ok s'" "rem s' = cs" "same s s'" and
    run: "while_getc nxt body a s = do {
       (stop, a', s2) \<leftarrow> body (uchar c) a s';
       if stop then Some (a', s2) else while_getc nxt body a' s2 }"
    by (rule while_getc_char [OF Cons(3) Cons(2)[symmetric]])
  have rem: "rem s = c # rem s'" using Cons(2) s'(2) by simp
  obtain stop a' s2 where b: "body (uchar c) a s' = Some (stop, a', s2)"
      "if stop then Q (pre @ [c]) a' s2 else ok s2 \<and> rem s2 = rem s' \<and> P (pre @ [c]) a' s2"
    using step [OF Cons(4) rem s'(1,3)] by blast
  show ?case
  proof (cases stop)
    case True
    then have "Q (pre @ [c]) a' s2" "rem s = [c] @ rem s'" using b rem by auto
    moreover have "while_getc nxt body a s = Some (a', s2)" using True run b by simp
    ultimately show ?thesis by blast
  next
    case False
    then have s2: "cs = rem s2" "ok s2" "P (pre @ [c]) a' s2" using b s'(2) by auto
    from Cons(1) [OF s2] obtain a3 s3 where
      "while_getc nxt body a' s2 = Some (a3, s3)"
      "R ((pre @ [c]) @ rem s2) a3 s3 \<or> (\<exists>mid post. rem s2 = mid @ post \<and> Q ((pre @ [c]) @ mid) a3 s3)"
      by blast
    moreover have "while_getc nxt body a s = while_getc nxt body a' s2" using False run b by simp
    moreover have "rem s = c # rem s2" using rem s2(1) s'(2) by simp
    ultimately show ?thesis by (metis append.assoc append_Cons append_Nil)
  qed
qed

lemmas while_getc_rule = while_getc_rule_aux [where pre = "[]", unfolded append_Nil]

text \<open>A loop without \<open>break\<close> reads the stream to its end.\<close>

lemma while_getc_all:
  assumes step: "\<And>pre c a s s'. P pre a s \<Longrightarrow> rem s = c # rem s' \<Longrightarrow> ok s' \<Longrightarrow> same s s' \<Longrightarrow>
      \<exists>a' s2. body (uchar c) a s' = Some (False, a', s2) \<and> ok s2 \<and> rem s2 = rem s' \<and> P (pre @ [c]) a' s2"
    and eof: "\<And>pre a s s'. P pre a s \<Longrightarrow> ok s' \<Longrightarrow> rem s' = [] \<Longrightarrow> same s s' \<Longrightarrow> P pre a s'"
    and "ok s" "P [] a s"
  shows "\<exists>a' s'. while_getc nxt body a s = Some (a', s') \<and> P (rem s) a' s' \<and> ok s' \<and> rem s' = []"
proof -
  have "\<exists>a' s'. while_getc nxt body a s = Some (a', s') \<and>
      ((P (rem s) a' s' \<and> ok s' \<and> rem s' = []) \<or> (\<exists>mid post. rem s = mid @ post \<and> False))"
  proof (rule while_getc_rule [where P = P and Q = "\<lambda>_ _ _. False"
        and R = "\<lambda>pre a s. P pre a s \<and> ok s \<and> rem s = []"])
    fix pre c a s s'
    assume "P pre a s" "rem s = c # rem s'" "ok s'" "same s s'"
    from step [OF this] show "\<exists>stop a' s2. body (uchar c) a s' = Some (stop, a', s2) \<and>
        (if stop then False else ok s2 \<and> rem s2 = rem s' \<and> P (pre @ [c]) a' s2)" by (metis (full_types))
  qed (use assms(2-) in blast)+
  then show ?thesis by blast
qed

text \<open>A loop whose body only updates its variables is a fold over what is left to read.\<close>

lemma while_getc_fold:
  assumes "ok s" "\<And>c a s. body c a s = Some (False, g c a, s)"
  obtains s' where "while_getc nxt body a s = Some (fold (\<lambda>c. g (uchar c)) (rem s) a, s')"
    "ok s'" "rem s' = []" "same s s'"
proof -
  have "\<exists>a' s'. while_getc nxt body a s = Some (a', s') \<and>
      (a' = fold (\<lambda>c. g (uchar c)) (rem s) a \<and> same s s') \<and> ok s' \<and> rem s' = []"
    by (rule while_getc_all [where P = "\<lambda>pre a' s'. a' = fold (\<lambda>c. g (uchar c)) pre a \<and> same s s'"])
      (use assms same_refl same_trans in auto)
  with that show thesis by blast
qed

end

interpretation fgetc_stream: byte_stream "fgetc K (Some i)" "remaining V i" "stream_ok K V i" "reads_only V i"
  for K V i
proof
  fix w c cs
  show "\<exists>w'. fgetc K (Some i) w = (EOF, w') \<and> stream_ok K V i w' \<and> remaining V i w' = [] \<and> reads_only V i w w'"
    if "stream_ok K V i w" "remaining V i w = []"
    by (rule fgetc_cases [OF that(1)]) (use that in auto)
  show "\<exists>w'. fgetc K (Some i) w = (uchar c, w') \<and> stream_ok K V i w' \<and> remaining V i w' = cs \<and> reads_only V i w w'"
    if "stream_ok K V i w" "remaining V i w = c # cs"
    by (rule fgetc_cases [OF that(1)]) (use that in auto)
qed (auto intro: reads_only_trans)

section \<open>Writing\<close>

text \<open>A world in which stream i can be read and the standard output be written.\<close>

definition io_ok :: "'k kernel \<Rightarrow> 'k view \<Rightarrow> nat \<Rightarrow> 'k world \<Rightarrow> bool" where
  "io_ok K V i w \<longleftrightarrow> stream_ok K V i w \<and> kernel_writes K V \<and> fd (files w 1) = 1 \<and> live V (kern w) 1"

definition printed :: "'k view \<Rightarrow> 'k world \<Rightarrow> byte list" where
  "printed V w = outp V (kern w) 1"

definition writes_out :: "'k kernel \<Rightarrow> 'k view \<Rightarrow> nat \<Rightarrow> byte list \<Rightarrow> 'k world \<Rightarrow> 'k world \<Rightarrow> bool" where
  "writes_out K V i bs w w' \<longleftrightarrow> io_ok K V i w' \<and> remaining V i w' = remaining V i w \<and>
     printed V w' = printed V w @ bs \<and> files w' = files w \<and> next_file w' = next_file w"

lemma writes_out_refl: "io_ok K V i w \<Longrightarrow> writes_out K V i [] w w"
  by (simp add: writes_out_def)

lemma writes_out_trans:
  "writes_out K V i bs w w' \<Longrightarrow> writes_out K V i cs w' w'' \<Longrightarrow> writes_out K V i (bs @ cs) w w''"
  by (simp add: writes_out_def)

lemma write_out_ok:
  assumes "io_ok K V i w" "bs \<noteq> []"
  obtains w' where "write_out K 1 bs w = (E_SUCCESS, length bs, w')" "writes_out K V i bs w w'"
proof -
  obtain k where "sys_write K (kern w) 1 bs = (E_SUCCESS, length bs, k)"
      "outp V k = (outp V (kern w))(1 := outp V (kern w) 1 @ bs)"
      "inp V k = inp V (kern w)" "live V k = live V (kern w)"
    using assms unfolding io_ok_def kernel_writes_def by metis
  with assms(1) show ?thesis
    by (intro that [of "w\<lparr>kern := k\<rparr>"])
      (auto simp: write_out_def writes_out_def io_ok_def stream_ok_def remaining_def printed_def)
qed

lemma fputc_stdout:
  assumes "io_ok K V i w"
  obtains w' where "fputc K c stdout w = (uchar (to_char c), w')" "writes_out K V i [to_char c] w w'"
proof -
  obtain w' where "write_out K 1 [to_char c] w = (E_SUCCESS, 1, w')"
      "writes_out K V i [to_char c] w w'"
    by (rule write_out_ok [OF assms, of "[to_char c]"]) auto
  moreover have "fd (files w 1) = 1" using assms by (simp add: io_ok_def)
  ultimately show ?thesis by (intro that [of w']) (auto simp: fputc_def)
qed

lemma fputs_stdout:
  assumes "io_ok K V i w"
  obtains w' where "fputs K (Some t) stdout w = (0, w')" "writes_out K V i t w w'"
proof (cases "t = []")
  case True
  with assms show ?thesis
    by (intro that [of w]) (auto simp: fputs_def io_ok_def intro: writes_out_refl [unfolded io_ok_def])
next
  case False
  obtain w' where "write_out K 1 t w = (E_SUCCESS, length t, w')" "writes_out K V i t w w'"
    by (rule write_out_ok [OF assms False])
  moreover have "fd (files w 1) = 1" using assms by (simp add: io_ok_def)
  ultimately show ?thesis using False by (intro that [of w']) (auto simp: fputs_def)
qed

lemma bytes_formatted:
  assumes "len \<le> length t"
  shows "bytes (mem_write m p (t @ [NUL])) p len = take len t"
proof -
  have "t @ [NUL] = take len t @ (drop len t @ [NUL])" by simp
  then have "mem_write m p (t @ [NUL]) = mem_write (mem_write m p (take len t)) (p + len) (drop len t @ [NUL])"
    using mem_write_append [of m p "take len t" "drop len t @ [NUL]"] assms by (metis length_take min.absorb2)
  then show ?thesis using bytes_mem_write [of m p "take len t"] assms by (simp add: mem_simps)
qed

text \<open>Up to 511 bytes are printed by one call; the rest of a longer text is lost.\<close>

lemma printf_text:
  assumes "io_ok K V i w" "format_text fmt args = Some t" "length t < 2 ^ 31"
  obtains w' where "printf K fmt args w = Some (int (length t), w')" "writes_out K V i (take 511 t) w w'"
proof (cases "t = []")
  case True
  with assms show ?thesis
    by (intro that [of w])
      (auto simp: printf_def vprintf_def vsnprintf_text int32_id intro: writes_out_refl)
next
  case False
  then have ne: "take 511 t \<noteq> []" by simp
  obtain w' where w': "write_out K 1 (take 511 t) w = (E_SUCCESS, length (take 511 t), w')"
      "writes_out K V i (take 511 t) w w'"
    by (rule write_out_ok [OF assms(1) ne])
  have len: "bytes (mem_write (\<lambda>_. NUL) 0 (take 511 t @ [NUL])) 0 (if int (length t) < 512 then nat (int (length t)) else 512 - 1)
      = take 511 t"
    by (subst bytes_formatted) auto
  show ?thesis
    using assms(2,3) False w' len
    by (intro that [of w']) (auto simp: printf_def vprintf_def vsnprintf_text int32_id Let_def)
qed

lemma fprintf_total:
  assumes "\<exists>t. format_text fmt args = Some t"
  shows "\<exists>r w'. fprintf K stream fmt args w = Some (r, w')"
  using assms by (auto simp: fprintf_def vfprintf_def vsnprintf_text Let_def split: option.split prod.split)

lemma printf_total:
  assumes "\<exists>t. format_text fmt args = Some t"
  shows "\<exists>r w'. printf K fmt args w = Some (r, w')"
  using assms by (auto simp: printf_def vprintf_def vsnprintf_text Let_def split: option.split prod.split)

end
