(* ===== verification/Ram_Kernel.thy ===== *)
theory Ram_Kernel
  imports Streams
begin

text \<open>
  A concrete kernel, for evaluating the programs on concrete inputs: handles over files in memory,
  which a read serves in pieces of at most four bytes. Every other call fails. It meets the
  hypotheses on reading, writing and seeking that the properties of the programs have.
\<close>

definition null_kernel :: "'k kernel" where
  "null_kernel = \<lparr>
     sys_read = (\<lambda>k _ _. (E_INVALID, [], k)), sys_write = (\<lambda>k _ _. (E_INVALID, 0, k)),
     sys_open = (\<lambda>k _ _ _. (E_INVALID, k)), sys_close = (\<lambda>k _. (E_INVALID, k)),
     sys_seek = (\<lambda>k _ _ _. (E_INVALID, k)),
     sys_fstat = (\<lambda>k _. (E_INVALID, \<lparr>st_size = 0, st_mode = 0, st_type = 0\<rparr>, k)),
     sys_stat = (\<lambda>k _ _. (E_INVALID, \<lparr>st_size = 0, st_mode = 0, st_type = 0\<rparr>, k)),
     sys_delete = (\<lambda>k _. (E_INVALID, k)), sys_rename_file = (\<lambda>k _ _. (E_INVALID, k)),
     sys_mkdir = (\<lambda>k _. (E_INVALID, k)), sys_create_file = (\<lambda>k _ _. (E_INVALID, k)),
     sys_create_symlink = (\<lambda>k _ _. (E_INVALID, k)), sys_readlink = (\<lambda>k _ _. (E_INVALID, [], k)),
     sys_readdir = (\<lambda>k _ _ _. (E_INVALID, [], k)), sys_chdir = (\<lambda>k _. (E_INVALID, k)),
     sys_getcwd = (\<lambda>k _. (E_INVALID, [], k)), sys_mount = (\<lambda>k _ _. (E_INVALID, k)),
     sys_unmount = (\<lambda>k _. (E_INVALID, k)), sys_delay_ms = (\<lambda>k _. (E_INVALID, k)),
     sys_get_time_ms = (\<lambda>k _. (E_INVALID, None, k)), sys_issue_signal = (\<lambda>k _ _. (E_INVALID, k)),
     sys_terminate_process = (\<lambda>k _ _. (E_INVALID, k)),
     sys_create_process = (\<lambda>k _ _ _. (E_INVALID, k)), sys_resume_process = (\<lambda>k _. (E_INVALID, k)),
     sys_duplicate_handle = (\<lambda>k _ _ _ _. (E_INVALID, k)),
     sys_create_pipe = (\<lambda>k _ _. (E_INVALID, 0, 0, k)), sys_wait = (\<lambda>k _ _. (E_INVALID, k)),
     sys_get_process_info = (\<lambda>k _. (E_INVALID, \<lparr>proc_id = 0, proc_parent = 0, proc_session = 0,
        proc_exit = \<lparr>exit_reason = 0, exit_code = 0\<rparr>\<rparr>, k)),
     sys_set_pgrp = (\<lambda>k _ _. (E_INVALID, k)), sys_device_control = (\<lambda>k _ _ _. (E_INVALID, k)),
     sys_get_pid = (\<lambda>k. (E_INVALID, k)), sys_shutdown = (\<lambda>k _. (E_INVALID, k)),
     sys_create_sync_object = (\<lambda>k _ _ _ _. (E_INVALID, k)), sys_signal = (\<lambda>k _. (E_INVALID, k)),
     sys_create_thread = (\<lambda>k _ _. (E_INVALID, k)),
     sys_get_thread_info = (\<lambda>k _. (E_INVALID, \<lparr>thread_id = 0, thread_exit = \<lparr>exit_reason = 0, exit_code = 0\<rparr>\<rparr>, k)),
     sys_get_tid = (\<lambda>k. (E_INVALID, k)), sys_exit_thread = (\<lambda>k. (E_INVALID, k)),
     sys_set_session_leader = (\<lambda>k _. (E_INVALID, k)), sys_set_signal_handler = (\<lambda>k _ _. (E_INVALID, k)),
     heap_ok = (\<lambda>k _. (True, k))\<rparr>"

record ram =
  ram_data :: "int \<Rightarrow> byte list"
  ram_pos :: "int \<Rightarrow> nat"
  ram_out :: "int \<Rightarrow> byte list"

definition ram_read :: "ram \<Rightarrow> int \<Rightarrow> nat \<Rightarrow> int \<times> byte list \<times> ram" where
  "ram_read k h n =
     (let bs = take (min n 4) (drop (ram_pos k h) (ram_data k h))
      in (E_SUCCESS, bs, k\<lparr>ram_pos := (ram_pos k)(h := ram_pos k h + length bs)\<rparr>))"

definition ram_write :: "ram \<Rightarrow> int \<Rightarrow> byte list \<Rightarrow> int \<times> nat \<times> ram" where
  "ram_write k h bs = (E_SUCCESS, length bs, k\<lparr>ram_out := (ram_out k)(h := ram_out k h @ bs)\<rparr>)"

definition ram_seek :: "ram \<Rightarrow> int \<Rightarrow> int \<Rightarrow> int \<Rightarrow> int \<times> ram" where
  "ram_seek k h off whence =
     (if whence = SEEK_CUR \<and> off = 0 then (int (ram_pos k h), k)
      else if whence = SEEK_SET \<and> 0 \<le> off \<and> off \<le> int (length (ram_data k h))
      then (off, k\<lparr>ram_pos := (ram_pos k)(h := nat off)\<rparr>)
      else (E_INVALID, k))"

definition ram_kernel :: "ram kernel" where
  "ram_kernel = null_kernel\<lparr>sys_read := ram_read, sys_write := ram_write, sys_seek := ram_seek\<rparr>"

definition ram_view :: "ram view" where
  "ram_view = \<lparr>live = (\<lambda>_ h. 0 \<le> h), inp = (\<lambda>k h. drop (ram_pos k h) (ram_data k h)), outp = ram_out\<rparr>"

definition ram_world :: "byte list \<Rightarrow> ram world" where
  "ram_world bs = \<lparr>files = (\<lambda>i. unbound_file\<lparr>fd := (if i < 3 then int i else -1)\<rparr>), next_file = 3,
     kern = \<lparr>ram_data = (\<lambda>h. if h = 0 then bs else []), ram_pos = (\<lambda>_. 0), ram_out = (\<lambda>_. [])\<rparr>\<rparr>"

lemma drop_taken: "drop p d = take m (drop p d) @ drop (p + length (take m (drop p d))) d"
proof -
  have "drop (length (take m (drop p d))) (drop p d) = drop m (drop p d)" by (simp add: min_def)
  then show ?thesis by (metis append_take_drop_id drop_drop add.commute)
qed

lemma ram_kernel_reads [simp]: "kernel_reads ram_kernel ram_view"
  unfolding kernel_reads_def
proof (intro allI impI)
  fix k h and n :: nat
  assume "live ram_view k h" "0 < n"
  let ?bs = "take (min n 4) (drop (ram_pos k h) (ram_data k h))"
  let ?k = "k\<lparr>ram_pos := (ram_pos k)(h := ram_pos k h + length ?bs)\<rparr>"
  have "sys_read ram_kernel k h n = (E_SUCCESS, ?bs, ?k)" by (simp add: ram_kernel_def ram_read_def Let_def)
  moreover have "length ?bs \<le> n" "?bs = [] \<longrightarrow> inp ram_view k h = []"
    using \<open>0 < n\<close> by (auto simp: ram_view_def)
  moreover have "inp ram_view k h = ?bs @ inp ram_view ?k h"
    using drop_taken [of "ram_pos k h" "ram_data k h" "min n 4"] by (simp add: ram_view_def)
  ultimately show "\<exists>bs k'. sys_read ram_kernel k h n = (E_SUCCESS, bs, k') \<and> length bs \<le> n \<and>
      inp ram_view k h = bs @ inp ram_view k' h \<and> (bs = [] \<longrightarrow> inp ram_view k h = []) \<and>
      (\<forall>h'. h' \<noteq> h \<longrightarrow> inp ram_view k' h' = inp ram_view k h') \<and>
      outp ram_view k' = outp ram_view k \<and> live ram_view k' = live ram_view k"
    by (intro exI conjI) (assumption | simp add: ram_view_def)+
qed

lemma ram_kernel_writes [simp]: "kernel_writes ram_kernel ram_view"
  by (auto simp: kernel_writes_def ram_kernel_def ram_view_def ram_write_def)

lemma ram_kernel_writes_some [simp]: "kernel_writes_some ram_kernel ram_view"
  by (auto simp: kernel_writes_some_def ram_kernel_def ram_view_def ram_write_def)

lemma wf_unbound_file [simp]: "wf_file unbound_file"
  by (simp add: wf_file_def unbound_file_def BUFSIZ_def)

lemma ram_world_io_ok [simp]: "io_ok ram_kernel ram_view 0 (ram_world bs)"
  by (simp add: io_ok_def stream_ok_def) (simp add: ram_world_def ram_view_def)

lemma ram_world_remaining [simp]: "remaining ram_view 0 (ram_world bs) = bs"
  by (simp add: remaining_def ram_world_def ram_view_def unbound_file_def pushed_back_def buffered_def)

lemma ram_world_printed [simp]: "printed ram_view (ram_world bs) = []"
  by (simp add: printed_def ram_world_def ram_view_def)

text \<open>The same kernel, seen with a standard input that is a file of known contents.\<close>

definition ram_file_view :: "byte list \<Rightarrow> ram view" where
  "ram_file_view data = ram_view\<lparr>live := (\<lambda>k h. 0 \<le> h \<and> ram_data k 0 = data \<and> ram_pos k 0 \<le> length data)\<rparr>"

lemma ram_file_reads [simp]: "kernel_reads ram_kernel (ram_file_view data)"
  unfolding kernel_reads_def
proof (intro allI impI)
  fix k h and n :: nat
  assume l: "live (ram_file_view data) k h" and "0 < n"
  then have "live ram_view k h" by (simp add: ram_file_view_def ram_view_def)
  with \<open>0 < n\<close> obtain bs k' where k': "sys_read ram_kernel k h n = (E_SUCCESS, bs, k')" "length bs \<le> n"
      "inp ram_view k h = bs @ inp ram_view k' h" "bs = [] \<longrightarrow> inp ram_view k h = []"
      "\<forall>h'. h' \<noteq> h \<longrightarrow> inp ram_view k' h' = inp ram_view k h'" "outp ram_view k' = outp ram_view k"
    using ram_kernel_reads unfolding kernel_reads_def by metis
  moreover have "live (ram_file_view data) k' = live (ram_file_view data) k"
    using k'(1) l by (auto simp: ram_kernel_def ram_read_def ram_file_view_def Let_def fun_eq_iff)
  ultimately show "\<exists>bs k'. sys_read ram_kernel k h n = (E_SUCCESS, bs, k') \<and> length bs \<le> n \<and>
      inp (ram_file_view data) k h = bs @ inp (ram_file_view data) k' h \<and>
      (bs = [] \<longrightarrow> inp (ram_file_view data) k h = []) \<and>
      (\<forall>h'. h' \<noteq> h \<longrightarrow> inp (ram_file_view data) k' h' = inp (ram_file_view data) k h') \<and>
      outp (ram_file_view data) k' = outp (ram_file_view data) k \<and>
      live (ram_file_view data) k' = live (ram_file_view data) k"
    by (intro exI [of _ bs] exI [of _ k'] conjI) (simp_all add: ram_file_view_def)
qed

lemma ram_file_world:
  "stream_ok ram_kernel (ram_file_view bs) 0 (ram_world bs)" "remaining (ram_file_view bs) 0 (ram_world bs) = bs"
  "fd (files (ram_world bs) 0) = 0"
  by (simp add: stream_ok_def)
    (simp_all add: ram_world_def ram_view_def ram_file_view_def remaining_def unbound_file_def pushed_back_def buffered_def
      wf_file_def BUFSIZ_def)

end
