(* ===== verification/Stdio_Props.thy ===== *)
theory Stdio_Props
  imports Ram_Kernel
begin

text \<open>
  Properties of the streams of \<open>userspace/libc/stdio.c\<close>: lines, blocks and positions.
\<close>

section \<open>Lines\<close>

fun line_of :: "nat \<Rightarrow> byte list \<Rightarrow> byte list" where
  "line_of 0 bs = []"
| "line_of (Suc n) [] = []"
| "line_of (Suc n) (c # cs) = (if c = newline then [c] else c # line_of n cs)"

lemma fgets_loop_line:
  assumes "stream_ok K V i w"
  shows "\<exists>w'. fgets_loop K (Some i) room acc w =
      (if acc = [] \<and> 0 < room \<and> remaining V i w = [] then None else Some (acc @ line_of room (remaining V i w)), w') \<and>
      stream_ok K V i w' \<and> reads_only V i w w' \<and>
      remaining V i w = line_of room (remaining V i w) @ remaining V i w'"
  using assms
proof (induction room arbitrary: acc w)
  case (Suc room)
  show ?case
  proof (cases rule: fgetc_cases [OF Suc.prems])
    case (1 w')
    then show ?thesis by auto
  next
    case (2 c w')
    show ?thesis
    proof (cases "c = newline")
      case False
      obtain w'' where w'': "fgets_loop K (Some i) room (acc @ [c]) w' =
          (Some ((acc @ [c]) @ line_of room (remaining V i w')), w'')"
          "stream_ok K V i w''" "reads_only V i w' w''"
          "remaining V i w' = line_of room (remaining V i w') @ remaining V i w''"
        using Suc.IH [OF 2(3), of "acc @ [c]"] by auto
      moreover have "reads_only V i w w''" using 2(4) w''(3) by (rule reads_only_trans)
      ultimately show ?thesis using 2 False by auto
    qed (use 2 in auto)
  qed
qed auto

text \<open>C33. \<open>fgets\<close> on a stream that can be read returns the bytes of the stream up to and including
  the next newline, at most \<open>n - 1\<close> of them, and leaves the rest of the stream for the next call;
  at the end of the stream it returns the null pointer. It writes nothing and touches no other
  stream.\<close>

theorem fgets_line:
  assumes "stream_ok K V i w" "1 < n"
  shows "\<exists>w'. fgets K n (Some i) w =
      (if remaining V i w = [] then None else Some (line_of (nat (n - 1)) (remaining V i w)), w') \<and>
      stream_ok K V i w' \<and> reads_only V i w w' \<and>
      remaining V i w = line_of (nat (n - 1)) (remaining V i w) @ remaining V i w'"
  using fgets_loop_line [OF assms(1), of "nat (n - 1)" "[]"] assms(2) by (auto simp: fgets_def)

theorem fgets_line_witness:
  "\<exists>w'. fgets ram_kernel 80 stdin (ram_world (''hello'' @ [newline] @ ''world'')) = (Some (''hello'' @ [newline]), w') \<and>
     remaining ram_view 0 w' = ''world''"
proof -
  have "stream_ok ram_kernel ram_view 0 (ram_world (''hello'' @ [newline] @ ''world''))"
    using ram_world_io_ok [of "''hello'' @ [newline] @ ''world''"] by (simp add: io_ok_def del: ram_world_io_ok)
  moreover have "line_of (nat (80 - 1)) (''hello'' @ [newline] @ ''world'') = ''hello'' @ [newline]" by code_simp
  ultimately show ?thesis
    using fgets_line [of ram_kernel ram_view 0 "ram_world (''hello'' @ [newline] @ ''world'')" 80]
    by (simp only: ram_world_remaining) auto
qed

section \<open>Blocks\<close>

definition write_ok :: "'k kernel \<Rightarrow> 'k view \<Rightarrow> nat \<Rightarrow> 'k world \<Rightarrow> bool" where
  "write_ok K V i w \<longleftrightarrow> kernel_writes_some K V \<and> 0 \<le> fd (files w i) \<and> live V (kern w) (fd (files w i))"

lemma fwrite_loop_all:
  assumes "write_ok K V i w" "length src = tot" "n \<le> tot"
  shows "\<exists>w'. fwrite_loop K i src tot n w = (tot, w') \<and> write_ok K V i w' \<and> files w' = files w \<and>
      outp V (kern w') = (outp V (kern w))(fd (files w i) := outp V (kern w) (fd (files w i)) @ drop n src)"
  using assms
proof (induction "tot - n" arbitrary: n w rule: less_induct)
  case less
  let ?h = "fd (files w i)"
  show ?case
  proof (cases "n < tot")
    case True
    then have "drop n src \<noteq> []" using less.prems by simp
    then obtain m k where wr: "sys_write K (kern w) ?h (drop n src) = (E_SUCCESS, m, k)" "0 < m"
        "m \<le> length (drop n src)" "outp V k = (outp V (kern w))(?h := outp V (kern w) ?h @ take m (drop n src))"
        "inp V k = inp V (kern w)" "live V k = live V (kern w)"
      using less.prems(1) unfolding write_ok_def kernel_writes_some_def by metis
    let ?w = "w\<lparr>kern := k\<rparr>"
    have step: "fwrite_loop K i src tot n w = fwrite_loop K i src tot (n + m) ?w"
      using wr less.prems True by (subst fwrite_loop.simps) (auto simp: write_out_def)
    have le: "n + m \<le> tot" "tot - (n + m) < tot - n" using wr less.prems True by auto
    have ok: "write_ok K V i ?w" using less.prems(1) wr by (simp add: write_ok_def)
    obtain w' where w': "fwrite_loop K i src tot (n + m) ?w = (tot, w')" "write_ok K V i w'" "files w' = files ?w"
        "outp V (kern w') = (outp V (kern ?w))(?h := outp V (kern ?w) ?h @ drop (n + m) src)"
      using less.hyps [OF le(2) ok less.prems(2) le(1)] by auto
    have "take m (drop n src) @ drop (n + m) src = drop n src" by (metis append_take_drop_id drop_drop add.commute)
    with w' step wr(4) show ?thesis by auto
  qed (use less.prems in \<open>auto simp: fwrite_loop.simps\<close>)
qed

text \<open>C35. \<open>fwrite\<close> writes every byte of its buffer, in order and once, and returns the number of
  items, also when the kernel takes only a part of what it is given in each call.\<close>

theorem fwrite_all:
  assumes "write_ok K V i w" "length src = sz * nmemb" "sz * nmemb < 2 ^ 64" "0 < sz"
  shows "\<exists>w'. fwrite K src sz nmemb (Some i) w = (nmemb, w') \<and> files w' = files w \<and>
      outp V (kern w') = (outp V (kern w))(fd (files w i) := outp V (kern w) (fd (files w i)) @ src)"
proof (cases "nmemb = 0")
  case False
  obtain w' where "fwrite_loop K i src (sz * nmemb) 0 w = (sz * nmemb, w')" "files w' = files w"
      "outp V (kern w') = (outp V (kern w))(fd (files w i) := outp V (kern w) (fd (files w i)) @ src)"
    using fwrite_loop_all [OF assms(1,2), of 0] by auto
  with assms False show ?thesis by (auto simp: fwrite_def size_mul_def write_ok_def)
qed (use assms in \<open>auto simp: fwrite_def\<close>)

theorem fwrite_all_witness:
  "\<exists>w'. fwrite ram_kernel ''abcdef'' 2 3 stdout (ram_world []) = (3, w') \<and> ram_out (kern w') 1 = ''abcdef''"
proof -
  have "write_ok ram_kernel ram_view 1 (ram_world [])"
    by (simp add: write_ok_def) (simp add: ram_world_def ram_view_def)
  then show ?thesis
    using fwrite_all [of ram_kernel ram_view 1 "ram_world []" "''abcdef''" 2 3]
    by (auto simp: ram_view_def ram_world_def)
qed

section \<open>Positions\<close>

text \<open>What \<open>sys_seek\<close> does on the handle of a regular file with contents \<open>data\<close>.\<close>

definition kernel_seeks :: "'k kernel \<Rightarrow> 'k view \<Rightarrow> int \<Rightarrow> byte list \<Rightarrow> bool" where
  "kernel_seeks K V h data \<longleftrightarrow> length data < 2 ^ 63 \<and> (\<forall>k. live V k h \<longrightarrow>
     (\<exists>p \<le> length data. inp V k h = drop p data \<and>
        (\<exists>k'. sys_seek K k h 0 SEEK_CUR = (int p, k') \<and> inp V k' h = inp V k h \<and> live V k' = live V k)) \<and>
     (\<forall>p \<le> length data. \<exists>k'. sys_seek K k h (int p) SEEK_SET = (int p, k') \<and>
        inp V k' h = drop p data \<and> live V k' = live V k))"

lemma ftell_position:
  assumes "kernel_seeks K V (fd (files w i)) data" "stream_ok K V i w" "ungetc_ch (files w i) < 0"
    and "buffered (files w i) @ inp V (kern w) (fd (files w i)) = drop p data" "p \<le> length data"
  shows "fst (ftell K (Some i) w) = int p"
proof -
  let ?f = "files w i"
  have wf: "wf_file ?f" "0 \<le> fd ?f" "live V (kern w) (fd ?f)" using assms(2) by (auto simp: stream_ok_def)
  obtain q k' where q: "q \<le> length data" "inp V (kern w) (fd ?f) = drop q data"
      "sys_seek K (kern w) (fd ?f) 0 SEEK_CUR = (int q, k')"
    using assms(1) wf(3) unfolding kernel_seeks_def by metis
  have len: "length data < 2 ^ 63" using assms(1) by (simp add: kernel_seeks_def)
  have b: "length (buffered ?f) = rlen ?f - rpos ?f" "rpos ?f \<le> rlen ?f" "rlen ?f \<le> 256"
    using wf(1) by (auto simp: buffered_def wf_file_def BUFSIZ_def)
  have "length (buffered ?f @ inp V (kern w) (fd ?f)) = length data - p" using assms(4) by simp
  then have "(rlen ?f - rpos ?f) + (length data - q) = length data - p" using b q by simp
  then have pq: "int q - (int (rlen ?f) - int (rpos ?f)) = int p" using b(2) q(1) assms(5) by simp
  have "uint64 (int (rlen ?f) - int (rpos ?f)) = int (rlen ?f) - int (rpos ?f)"
    using b by (intro uint64_id) auto
  moreover have "int64 (int p) = int p" using assms(5) len by (intro int64_id) auto
  ultimately show ?thesis using q wf assms(3) pq by (simp add: ftell_def Let_def)
qed

lemma ram_kernel_seeks: "length data < 2 ^ 63 \<Longrightarrow> kernel_seeks ram_kernel (ram_file_view data) 0 data"
  unfolding kernel_seeks_def
  by (auto simp: ram_kernel_def ram_seek_def ram_file_view_def ram_view_def fun_eq_iff SEEK_CUR_def SEEK_SET_def
      intro!: exI [of _ "ram_pos _ 0"])

lemma fgetc_keeps_ok:
  assumes "stream_ok K V i w"
  shows "stream_ok K V i (snd (fgetc K (Some i) w)) \<and> fd (files (snd (fgetc K (Some i) w)) i) = fd (files w i)"
  by (rule fgetc_cases [OF assms]) (auto simp: reads_only_def)



section \<open>Sleeping\<close>

text \<open>A clock that reads 5000 and then 7000 ms, and a delay that is interrupted.\<close>

definition clock_kernel :: "int kernel" where
  "clock_kernel = null_kernel\<lparr>sys_get_time_ms := (\<lambda>t _. (E_SUCCESS, Some t, t)),
     sys_delay_ms := (\<lambda>t _. (E_WAIT_INTERRUPTED, t + 2000))\<rparr>"


text \<open>Finding: when the delay is interrupted, \<open>sleep\<close> returns the seconds that have passed and not
  those that are left, which is what the return value of \<open>sleep\<close> stands for in C.\<close>

theorem sleep_returns_elapsed:
  assumes "sys_get_time_ms K k CLOCK_MONOTONIC = (E_SUCCESS, Some t0, k1)"
    and "sys_delay_ms K k1 (seconds * 1000) = (E_WAIT_INTERRUPTED, k2)"
    and "sys_get_time_ms K k2 CLOCK_MONOTONIC = (E_SUCCESS, Some t1, k3)"
    and "0 \<le> t0" "t0 \<le> t1" "t1 < 2 ^ 41" "0 \<le> seconds" "seconds * 1000 < 2 ^ 32"
  shows "fst (sleep K seconds (w\<lparr>kern := k\<rparr>)) = (t1 - t0) div 1000"
proof -
  have "(t1 - t0) div 1000 < 2 ^ 32" using assms(4-6) by simp
  then show ?thesis
    using assms by (simp add: sleep_def Let_def uint32_id uint64_id E_SUCCESS_def E_WAIT_INTERRUPTED_def)
qed

theorem sleep_returns_elapsed_witness:
  "fst (sleep clock_kernel 10 \<lparr>files = (\<lambda>_. unbound_file), next_file = 3, kern = 5000\<rparr>) = 2"
  using sleep_returns_elapsed [of clock_kernel 5000 5000 5000 10 7000 7000 7000
      "\<lparr>files = (\<lambda>_. unbound_file), next_file = 3, kern = 5000\<rparr>"]
  by (simp add: clock_kernel_def)

end
