(* ===== verification/Getopt.thy ===== *)
theory Getopt
  imports Ram_Kernel
begin

text \<open>
  Command-line options, \<open>userspace/libc/getopt.c\<close>. The global variables of the file are the record
  \<open>getopt_st\<close>; \<open>nextchar\<close>, a pointer into the argument being scanned, is the rest of that argument.
  The table of long options ends at its entry without a name, so it is a list here.
\<close>

section \<open>Data\<close>

definition no_argument :: int where "no_argument = 0"
definition required_argument :: int where "required_argument = 1"
definition optional_argument :: int where "optional_argument = 2"

record long_option =
  opt_name :: string
  has_arg :: int
  opt_flag :: "nat option"
  opt_val :: int

record getopt_st =
  optarg :: "string option"
  optind :: nat
  opterr :: bool
  optopt :: int
  nextchar :: "string option"
  flag_vars :: "nat \<Rightarrow> int"

definition getopt_init :: getopt_st where
  "getopt_init = \<lparr>optarg = None, optind = 1, opterr = True, optopt = 0, nextchar = None, flag_vars = (\<lambda>_. 0)\<rparr>"

definition arg0 :: "string list \<Rightarrow> va" where
  "arg0 argv = VStr (case argv of [] \<Rightarrow> None | a # _ \<Rightarrow> Some a)"

section \<open>Scanning\<close>

text \<open>\<open>nextchar = 0\<close> when the argument is used up.\<close>

definition rest_or_null :: "string \<Rightarrow> string option" where
  "rest_or_null rest = (if peek rest 0 = NUL then None else Some rest)"

definition handle_short_opt ::
  "'k kernel \<Rightarrow> string list \<Rightarrow> string \<Rightarrow> getopt_st \<Rightarrow> 'k world \<Rightarrow> (int \<times> getopt_st \<times> 'k world) option" where
  "handle_short_opt K argv optstring g w =
     (case nextchar g of
        Some (c # rest) \<Rightarrow>
          (case (if c = CHR '':'' then None else find_char c optstring) of
             None \<Rightarrow>
               let g1 = g\<lparr>optopt := schar c, nextchar := rest_or_null rest\<rparr> in
               if opterr g \<and> peek optstring 0 \<noteq> CHR '':'' then do {
                 (_, w') \<leftarrow> fprintf K stderr ''%s: invalid option -- '%c'\<newline>'' [arg0 argv, VInt (schar c)] w;
                 Some (uchar (CHR ''?''), g1, w')
               } else Some (uchar (CHR ''?''), g1, w)
           | Some spec \<Rightarrow>
               if peek optstring (spec + 1) = CHR '':'' then
                 if peek rest 0 \<noteq> NUL then
                   Some (uchar c, g\<lparr>optarg := Some rest, nextchar := None\<rparr>, w)
                 else if optind g < length argv then
                   Some (uchar c, g\<lparr>optarg := Some (argv ! optind g), optind := optind g + 1, nextchar := None\<rparr>, w)
                 else
                   let g1 = g\<lparr>optopt := schar c, nextchar := None\<rparr>;
                       ret = (if peek optstring 0 = CHR '':'' then uchar (CHR '':'') else uchar (CHR ''?'')) in
                   if opterr g \<and> peek optstring 0 \<noteq> CHR '':'' then do {
                     (_, w') \<leftarrow> fprintf K stderr ''%s: option requires an argument -- '%c'\<newline>''
                       [arg0 argv, VInt (schar c)] w;
                     Some (ret, g1, w')
                   } else Some (ret, g1, w)
               else Some (uchar c, g\<lparr>nextchar := rest_or_null rest\<rparr>, w))
      | _ \<Rightarrow> None)"

text \<open>The search of the table: \<open>strlen\<close> and \<open>strncmp\<close> over the length agree exactly when the name is
  the one searched.\<close>

fun find_long :: "long_option list \<Rightarrow> string \<Rightarrow> nat \<Rightarrow> nat option" where
  "find_long [] nm i = None"
| "find_long (l # ls) nm i = (if opt_name l = nm then Some i else find_long ls nm (i + 1))"

definition long_result :: "long_option \<Rightarrow> getopt_st \<Rightarrow> 'k world \<Rightarrow> (int \<times> getopt_st \<times> 'k world) option" where
  "long_result opt g w =
     (case opt_flag opt of
        Some v \<Rightarrow> Some (0, g\<lparr>flag_vars := (flag_vars g)(v := opt_val opt)\<rparr>, w)
      | None \<Rightarrow> Some (opt_val opt, g, w))"

definition handle_long_opt ::
  "'k kernel \<Rightarrow> string list \<Rightarrow> string \<Rightarrow> long_option list \<Rightarrow> getopt_st \<Rightarrow> 'k world \<Rightarrow>
   (int \<times> getopt_st \<times> 'k world) option" where
  "handle_long_opt K argv optstring longopts g w =
     (let arg = argv ! optind g;
          name = drop 2 arg;
          eq = find_char (CHR ''='') name;
          namelen = (case eq of Some e \<Rightarrow> e | None \<Rightarrow> length name);
          g1 = g\<lparr>optind := optind g + 1\<rparr>
      in case find_long longopts (take namelen name) 0 of
           None \<Rightarrow>
             let g2 = g1\<lparr>optopt := 0\<rparr> in
             if opterr g then do {
               (_, w') \<leftarrow> fprintf K stderr ''%s: unrecognized option '--%s'\<newline>'' [arg0 argv, VStr (Some name)] w;
               Some (uchar (CHR ''?''), g2, w')
             } else Some (uchar (CHR ''?''), g2, w)
         | Some found \<Rightarrow>
             let opt = longopts ! found in
             if has_arg opt = required_argument then
               case eq of
                 Some e \<Rightarrow> long_result opt (g1\<lparr>optarg := Some (drop (e + 1) name)\<rparr>) w
               | None \<Rightarrow>
                   if optind g1 < length argv then
                     long_result opt (g1\<lparr>optarg := Some (argv ! optind g1), optind := optind g1 + 1\<rparr>) w
                   else
                     let ret = (if peek optstring 0 = CHR '':'' then uchar (CHR '':'') else uchar (CHR ''?'')) in
                     if opterr g \<and> peek optstring 0 \<noteq> CHR '':'' then do {
                       (_, w') \<leftarrow> fprintf K stderr ''%s: option '--%s' requires an argument\<newline>''
                         [arg0 argv, VStr (Some (opt_name opt))] w;
                       Some (ret, g1, w')
                     } else Some (ret, g1, w)
             else if has_arg opt = optional_argument then
               long_result opt (g1\<lparr>optarg := map_option (\<lambda>e. drop (e + 1) name) eq\<rparr>) w
             else long_result opt (g1\<lparr>optarg := None\<rparr>) w)"

definition getopt_internal ::
  "'k kernel \<Rightarrow> string list \<Rightarrow> string \<Rightarrow> long_option list option \<Rightarrow> getopt_st \<Rightarrow> 'k world \<Rightarrow>
   (int \<times> getopt_st \<times> 'k world) option" where
  "getopt_internal K argv optstring longopts g0 w =
     (let g = g0\<lparr>optarg := None\<rparr> in
      if (case nextchar g of None \<Rightarrow> False | Some s \<Rightarrow> peek s 0 \<noteq> NUL) then handle_short_opt K argv optstring g w
      else
        let g1 = g\<lparr>nextchar := None\<rparr> in
        if optind g1 \<ge> length argv then Some (-1, g1, w)
        else
          let arg = argv ! optind g1 in
          if peek arg 0 \<noteq> CHR ''-'' \<or> peek arg 1 = NUL then Some (-1, g1, w)
          else if arg = ''--'' then Some (-1, g1\<lparr>optind := optind g1 + 1\<rparr>, w)
          else case longopts of
              Some ls \<Rightarrow>
                if peek arg 1 = CHR ''-'' then handle_long_opt K argv optstring ls g1 w
                else handle_short_opt K argv optstring (g1\<lparr>nextchar := Some (drop 1 arg), optind := optind g1 + 1\<rparr>) w
            | None \<Rightarrow>
                handle_short_opt K argv optstring (g1\<lparr>nextchar := Some (drop 1 arg), optind := optind g1 + 1\<rparr>) w)"

definition getopt ::
  "'k kernel \<Rightarrow> string list \<Rightarrow> string \<Rightarrow> getopt_st \<Rightarrow> 'k world \<Rightarrow> (int \<times> getopt_st \<times> 'k world) option" where
  "getopt K argv optstring g w = getopt_internal K argv optstring None g w"

definition getopt_long ::
  "'k kernel \<Rightarrow> string list \<Rightarrow> string \<Rightarrow> long_option list \<Rightarrow> getopt_st \<Rightarrow> 'k world \<Rightarrow>
   (int \<times> getopt_st \<times> 'k world) option" where
  "getopt_long K argv optstring longopts g w = getopt_internal K argv optstring (Some longopts) g w"

section \<open>The loop of a program over its options\<close>

text \<open>\<open>while ((opt = getopt_long(...)) != -1) switch (opt) ...\<close>: the body returns the value of a
  \<open>return\<close> in it, if it executes one, and the options as set so far.\<close>

partial_function (option) getopt_loop ::
  "(getopt_st \<Rightarrow> 'w \<Rightarrow> (int \<times> getopt_st \<times> 'w) option) \<Rightarrow>
   (int \<Rightarrow> string option \<Rightarrow> 'o \<Rightarrow> 'w \<Rightarrow> (int option \<times> 'o \<times> 'w) option) \<Rightarrow>
   'o \<Rightarrow> getopt_st \<Rightarrow> 'w \<Rightarrow> (int option \<times> 'o \<times> getopt_st \<times> 'w) option" where
  "getopt_loop get body os g w = do {
     (opt, g', w') \<leftarrow> get g w;
     if opt = -1 then Some (None, os, g', w')
     else do {
       (ret, os', w'') \<leftarrow> body opt (optarg g') os w';
       if ret \<noteq> None then Some (ret, os', g', w'') else getopt_loop get body os' g' w''
     }
   }"

declare getopt_loop.simps [code]

section \<open>Progress\<close>

lemma getopt_messages:
  "\<exists>t. format_text ''%s: invalid option -- '%c'\<newline>'' [arg0 argv, VInt c] = Some t"
  "\<exists>t. format_text ''%s: option requires an argument -- '%c'\<newline>'' [arg0 argv, VInt c] = Some t"
  "\<exists>t. format_text ''%s: unrecognized option '--%s'\<newline>'' [arg0 argv, VStr (Some x)] = Some t"
  "\<exists>t. format_text ''%s: option '--%s' requires an argument\<newline>'' [arg0 argv, VStr (Some x)] = Some t"
  by (cases argv; simp add: arg0_def format_simps)+

lemmas getopt_prints = getopt_messages [THEN fprintf_total]

text \<open>The characters that are left to scan, one more for each argument.\<close>

definition scan_left :: "string list \<Rightarrow> getopt_st \<Rightarrow> nat" where
  "scan_left argv g = (case nextchar g of None \<Rightarrow> 0 | Some s \<Rightarrow> length s) +
     (\<Sum>a \<leftarrow> drop (optind g) argv. Suc (length a))"

lemma sum_drop_Suc:
  "i < length argv \<Longrightarrow> (\<Sum>a \<leftarrow> drop i argv. Suc (length a)) = Suc (length (argv ! i)) + (\<Sum>a \<leftarrow> drop (Suc i) argv. Suc (length a))"
  by (simp add: Cons_nth_drop_Suc [symmetric])

lemma sum_drop_mono: "(\<Sum>a \<leftarrow> drop (Suc i) argv. Suc (length a)) \<le> (\<Sum>a \<leftarrow> drop i argv. Suc (length a))"
  by (cases "i < length argv") (simp_all add: sum_drop_Suc)

lemma sum_drop_less:
  assumes "i < j" "i < length argv"
  shows "(\<Sum>a \<leftarrow> drop j argv. Suc (length a)) < (\<Sum>a \<leftarrow> drop i argv. Suc (length a))"
proof -
  have "(\<Sum>a \<leftarrow> drop j argv. Suc (length a)) \<le> (\<Sum>a \<leftarrow> drop (Suc i) argv. Suc (length a))"
    using assms(1)
  proof (induction j)
    case (Suc j)
    then show ?case using sum_drop_mono [of j argv] by (cases "i < j") (auto simp: less_Suc_eq)
  qed simp
  with assms(2) show ?thesis by (simp add: sum_drop_Suc)
qed

text \<open>What one call does with an option character, on each of its branches.\<close>

lemma handle_short_opt_unknown:
  assumes "nextchar g = Some (c # rest)" "(if c = CHR '':'' then None else find_char c optstring) = None"
  shows "\<exists>w'. handle_short_opt K argv optstring g w =
    Some (uchar (CHR ''?''), g\<lparr>optopt := schar c, nextchar := rest_or_null rest\<rparr>, w')"
  using assms getopt_prints(1) [of K stderr argv "schar c" w]
  by (simp only: handle_short_opt_def option.case list.case Let_def) auto

lemma handle_short_opt_flag:
  assumes "nextchar g = Some (c # rest)" "c \<noteq> CHR '':''" "find_char c optstring = Some spec"
    and "peek optstring (spec + 1) \<noteq> CHR '':''"
  shows "handle_short_opt K argv optstring g w = Some (uchar c, g\<lparr>nextchar := rest_or_null rest\<rparr>, w)"
  using assms by (simp add: handle_short_opt_def)

lemma handle_short_opt_attached:
  assumes "nextchar g = Some (c # rest)" "c \<noteq> CHR '':''" "find_char c optstring = Some spec"
    and "peek optstring (spec + 1) = CHR '':''" "peek rest 0 \<noteq> NUL"
  shows "handle_short_opt K argv optstring g w = Some (uchar c, g\<lparr>optarg := Some rest, nextchar := None\<rparr>, w)"
  using assms by (simp add: handle_short_opt_def)

lemma handle_short_opt_separate:
  assumes "nextchar g = Some (c # rest)" "c \<noteq> CHR '':''" "find_char c optstring = Some spec"
    and "peek optstring (spec + 1) = CHR '':''" "peek rest 0 = NUL" "optind g < length argv"
  shows "handle_short_opt K argv optstring g w =
    Some (uchar c, g\<lparr>optarg := Some (argv ! optind g), optind := optind g + 1, nextchar := None\<rparr>, w)"
  using assms by (simp add: handle_short_opt_def)

lemma handle_short_opt_missing:
  assumes "nextchar g = Some (c # rest)" "c \<noteq> CHR '':''" "find_char c optstring = Some spec"
    and "peek optstring (spec + 1) = CHR '':''" "peek rest 0 = NUL" "length argv \<le> optind g"
  shows "\<exists>w'. handle_short_opt K argv optstring g w =
    Some (if peek optstring 0 = CHR '':'' then uchar (CHR '':'') else uchar (CHR ''?''),
          g\<lparr>optopt := schar c, nextchar := None\<rparr>, w')"
  using assms getopt_prints(2) [of K stderr argv "schar c" w]
  by (simp only: handle_short_opt_def option.case list.case Let_def) auto

lemma handle_short_opt_progress:
  assumes "nextchar g = Some (c # rest)"
  shows "\<exists>r g' w'. handle_short_opt K argv optstring g w = Some (r, g', w') \<and> scan_left argv g' < scan_left argv g"
proof (cases "if c = CHR '':'' then None else find_char c optstring")
  case None
  from handle_short_opt_unknown [OF assms this, of K argv w] show ?thesis
    using assms by (fastforce simp: scan_left_def rest_or_null_def)
next
  case (Some spec)
  then have c: "c \<noteq> CHR '':''" "find_char c optstring = Some spec" by (auto split: if_splits)
  consider (Flag) "peek optstring (spec + 1) \<noteq> CHR '':''"
    | (Att) "peek optstring (spec + 1) = CHR '':''" "peek rest 0 \<noteq> NUL"
    | (Sep) "peek optstring (spec + 1) = CHR '':''" "peek rest 0 = NUL" "optind g < length argv"
    | (Miss) "peek optstring (spec + 1) = CHR '':''" "peek rest 0 = NUL" "length argv \<le> optind g" by linarith
  then show ?thesis
  proof cases
    case Flag
    show ?thesis unfolding handle_short_opt_flag [OF assms c Flag] using assms
      by (simp add: scan_left_def rest_or_null_def)
  next
    case Att
    show ?thesis unfolding handle_short_opt_attached [OF assms c Att] using assms by (simp add: scan_left_def)
  next
    case Sep
    show ?thesis unfolding handle_short_opt_separate [OF assms c Sep]
      using assms sum_drop_mono [of "optind g" argv] by (simp add: scan_left_def)
  next
    case Miss
    from handle_short_opt_missing [OF assms c Miss, of K w] show ?thesis
      using assms by (fastforce simp: scan_left_def)
  qed
qed

text \<open>The name part of an argument \<open>--name\<close> or \<open>--name=value\<close>.\<close>

definition long_name :: "string \<Rightarrow> string" where
  "long_name name = take (case find_char (CHR ''='') name of Some e \<Rightarrow> e | None \<Rightarrow> length name) name"

lemma handle_long_opt_unknown:
  assumes "find_long longopts (long_name (drop 2 (argv ! optind g))) 0 = None"
  shows "\<exists>w'. handle_long_opt K argv optstring longopts g w =
    Some (uchar (CHR ''?''), g\<lparr>optind := optind g + 1, optopt := 0\<rparr>, w')"
  using assms getopt_prints(3) [of K stderr argv "drop 2 (argv ! optind g)" w]
  by (auto simp: handle_long_opt_def Let_def long_name_def)

lemma handle_long_opt_plain:
  assumes "find_long longopts (long_name (drop 2 (argv ! optind g))) 0 = Some found"
    and "has_arg (longopts ! found) \<noteq> required_argument" "has_arg (longopts ! found) \<noteq> optional_argument"
  shows "handle_long_opt K argv optstring longopts g w =
    long_result (longopts ! found) (g\<lparr>optind := optind g + 1, optarg := None\<rparr>) w"
  using assms by (simp add: handle_long_opt_def Let_def long_name_def)

lemma handle_long_opt_optional:
  assumes "find_long longopts (long_name (drop 2 (argv ! optind g))) 0 = Some found"
    and "has_arg (longopts ! found) = optional_argument"
  shows "handle_long_opt K argv optstring longopts g w =
    long_result (longopts ! found) (g\<lparr>optind := optind g + 1,
      optarg := map_option (\<lambda>e. drop (e + 1) (drop 2 (argv ! optind g)))
        (find_char (CHR ''='') (drop 2 (argv ! optind g)))\<rparr>) w"
  using assms
  by (simp add: handle_long_opt_def Let_def long_name_def optional_argument_def required_argument_def)

lemma handle_long_opt_eq:
  assumes "find_long longopts (long_name (drop 2 (argv ! optind g))) 0 = Some found"
    and "has_arg (longopts ! found) = required_argument"
    and "find_char (CHR ''='') (drop 2 (argv ! optind g)) = Some e"
  shows "handle_long_opt K argv optstring longopts g w =
    long_result (longopts ! found) (g\<lparr>optind := optind g + 1,
      optarg := Some (drop (e + 1) (drop 2 (argv ! optind g)))\<rparr>) w"
  using assms by (simp add: handle_long_opt_def Let_def long_name_def)

lemma handle_long_opt_separate:
  assumes "find_long longopts (long_name (drop 2 (argv ! optind g))) 0 = Some found"
    and "has_arg (longopts ! found) = required_argument"
    and "find_char (CHR ''='') (drop 2 (argv ! optind g)) = None" "optind g + 1 < length argv"
  shows "handle_long_opt K argv optstring longopts g w =
    long_result (longopts ! found) (g\<lparr>optarg := Some (argv ! (optind g + 1)), optind := optind g + 2\<rparr>) w"
  using assms by (simp only: handle_long_opt_def Let_def long_name_def option.case) simp

lemma handle_long_opt_missing:
  assumes "find_long longopts (long_name (drop 2 (argv ! optind g))) 0 = Some found"
    and "has_arg (longopts ! found) = required_argument"
    and "find_char (CHR ''='') (drop 2 (argv ! optind g)) = None" "length argv \<le> optind g + 1"
  shows "\<exists>w'. handle_long_opt K argv optstring longopts g w =
    Some (if peek optstring 0 = CHR '':'' then uchar (CHR '':'') else uchar (CHR ''?''), g\<lparr>optind := optind g + 1\<rparr>, w')"
  using assms getopt_prints(4) [of K stderr argv "opt_name (longopts ! found)" w]
  by (simp only: handle_long_opt_def Let_def long_name_def) auto

lemma handle_long_opt_progress:
  assumes "nextchar g = None" "optind g < length argv"
  shows "\<exists>r g' w'. handle_long_opt K argv optstring longopts g w = Some (r, g', w') \<and> scan_left argv g' < scan_left argv g"
proof -
  have res: "\<exists>r g'. long_result opt g1 w = Some (r, g', w) \<and> nextchar g' = nextchar g1 \<and> optind g' = optind g1"
    for opt g1 by (simp add: long_result_def split: option.split)
  have "\<exists>r g' w'. handle_long_opt K argv optstring longopts g w = Some (r, g', w') \<and>
      nextchar g' = None \<and> optind g < optind g'"
  proof (cases "find_long longopts (long_name (drop 2 (argv ! optind g))) 0")
    case None
    from handle_long_opt_unknown [OF this, of K optstring w] assms(1) show ?thesis by fastforce
  next
    case (Some found)
    note [simp] = handle_long_opt_plain [OF Some] handle_long_opt_optional [OF Some]
      handle_long_opt_eq [OF Some] handle_long_opt_separate [OF Some]
    consider (Missing) "has_arg (longopts ! found) = required_argument"
        "find_char (CHR ''='') (drop 2 (argv ! optind g)) = None" "length argv \<le> optind g + 1"
      | (Result) g1 where "handle_long_opt K argv optstring longopts g w = long_result (longopts ! found) g1 w"
        "nextchar g1 = nextchar g" "optind g < optind g1"
      by (cases "find_char (CHR ''='') (drop 2 (argv ! optind g))";
          cases "has_arg (longopts ! found) = required_argument";
          cases "has_arg (longopts ! found) = optional_argument"; cases "optind g + 1 < length argv") auto
    then show ?thesis
    proof cases
      case Missing
      from handle_long_opt_missing [OF Some Missing, of K optstring w] assms(1) show ?thesis by fastforce
    next
      case Result
      with res [of "longopts ! found" g1] assms(1) show ?thesis by auto
    qed
  qed
  then show ?thesis using assms sum_drop_less [of "optind g" _ argv] by (fastforce simp: scan_left_def)
qed

lemma getopt_long_progress:
  "\<exists>r g' w'. getopt_long K argv optstring longopts g w = Some (r, g', w') \<and>
     (r \<noteq> -1 \<longrightarrow> scan_left argv g' < scan_left argv g)"
proof -
  let ?g = "g\<lparr>optarg := None\<rparr>" and ?i = "optind g" and ?a = "argv ! optind g"
  note def = getopt_long_def getopt_internal_def Let_def
  have left: "scan_left argv ?g = scan_left argv g" by (simp add: scan_left_def)
  consider (Cluster) c rest where "nextchar g = Some (c # rest)" "c \<noteq> NUL"
    | (End) "\<not> (case nextchar g of None \<Rightarrow> False | Some s \<Rightarrow> peek s 0 \<noteq> NUL)"
        "length argv \<le> ?i \<or> peek ?a 0 \<noteq> CHR ''-'' \<or> peek ?a 1 = NUL \<or> ?a = ''--''"
    | (Next) "\<not> (case nextchar g of None \<Rightarrow> False | Some s \<Rightarrow> peek s 0 \<noteq> NUL)"
        "?i < length argv" "peek ?a 0 = CHR ''-''" "peek ?a 1 \<noteq> NUL" "?a \<noteq> ''--''"
    by (cases "nextchar g"; force simp: peek_def neq_Nil_conv split: if_splits)
  then show ?thesis
  proof cases
    case Cluster
    with handle_short_opt_progress [of ?g c rest K argv optstring w] left show ?thesis by (auto simp: def)
  next
    case End
    then show ?thesis by (auto simp: def)
  next
    case Next
    have less: "scan_left argv (?g\<lparr>nextchar := None\<rparr>) \<le> scan_left argv g"
      by (simp add: scan_left_def split: option.split)
    obtain c rest where a: "drop 1 ?a = c # rest" using Next(4) by (cases "drop 1 ?a") (auto simp: peek_def)
    show ?thesis
    proof (cases "peek ?a 1 = CHR ''-''")
      case True
      with Next handle_long_opt_progress [of "?g\<lparr>nextchar := None\<rparr>" argv K optstring longopts w] less
      show ?thesis by (auto simp: def)
    next
      case False
      let ?g1 = "?g\<lparr>nextchar := Some (drop 1 ?a), optind := ?i + 1\<rparr>"
      have "scan_left argv ?g1 \<le> scan_left argv g"
        using Next(2) sum_drop_Suc [of ?i argv] by (simp add: scan_left_def)
      with Next False handle_short_opt_progress [of ?g1 c rest K argv optstring w] a
      show ?thesis by (auto simp: def)
    qed
  qed
qed

section \<open>Command lines\<close>

text \<open>The ways in which an option is written on a command line, the arguments they take there, and the
  results and values of \<open>optarg\<close> that the program should see.\<close>

datatype opt_use =
    Flags string
  | Short_Arg byte string
  | Short_Sep byte string
  | Long string
  | Long_Eq string string
  | Long_Sep string string

fun render :: "opt_use \<Rightarrow> string list" where
  "render (Flags cs) = [CHR ''-'' # cs]"
| "render (Short_Arg c v) = [CHR ''-'' # c # v]"
| "render (Short_Sep c v) = [[CHR ''-'', c], v]"
| "render (Long n) = [''--'' @ n]"
| "render (Long_Eq n v) = [''--'' @ n @ CHR ''='' # v]"
| "render (Long_Sep n v) = [''--'' @ n, v]"

definition takes_arg :: "string \<Rightarrow> byte \<Rightarrow> bool \<Rightarrow> bool" where
  "takes_arg optstring c b \<longleftrightarrow> c \<noteq> CHR '':'' \<and> c \<noteq> NUL \<and>
     (case find_char c optstring of None \<Rightarrow> False | Some i \<Rightarrow> (peek optstring (i + 1) = CHR '':'') = b)"

definition long_takes :: "long_option list \<Rightarrow> string \<Rightarrow> (int \<Rightarrow> bool) \<Rightarrow> bool" where
  "long_takes longopts n P \<longleftrightarrow> n \<noteq> [] \<and> CHR ''='' \<notin> set n \<and> hd n \<noteq> NUL \<and>
     (case find_long longopts n 0 of None \<Rightarrow> False
      | Some i \<Rightarrow> P (has_arg (longopts ! i)) \<and> opt_flag (longopts ! i) = None \<and> opt_val (longopts ! i) \<noteq> -1)"

definition long_val :: "long_option list \<Rightarrow> string \<Rightarrow> int" where
  "long_val longopts n = opt_val (longopts ! the (find_long longopts n 0))"

fun valid_use :: "string \<Rightarrow> long_option list \<Rightarrow> opt_use \<Rightarrow> bool" where
  "valid_use os ls (Flags cs) \<longleftrightarrow> cs \<noteq> [] \<and> hd cs \<noteq> CHR ''-'' \<and> list_all (\<lambda>c. takes_arg os c False) cs"
| "valid_use os ls (Short_Arg c v) \<longleftrightarrow> c \<noteq> CHR ''-'' \<and> takes_arg os c True \<and> peek v 0 \<noteq> NUL"
| "valid_use os ls (Short_Sep c v) \<longleftrightarrow> c \<noteq> CHR ''-'' \<and> takes_arg os c True"
| "valid_use os ls (Long n) \<longleftrightarrow> long_takes ls n (\<lambda>a. a \<noteq> required_argument)"
| "valid_use os ls (Long_Eq n v) \<longleftrightarrow> long_takes ls n (\<lambda>a. a = required_argument \<or> a = optional_argument)"
| "valid_use os ls (Long_Sep n v) \<longleftrightarrow> long_takes ls n (\<lambda>a. a = required_argument)"

fun delivers :: "long_option list \<Rightarrow> opt_use \<Rightarrow> (int \<times> string option) list" where
  "delivers ls (Flags cs) = map (\<lambda>c. (uchar c, None)) cs"
| "delivers ls (Short_Arg c v) = [(uchar c, Some v)]"
| "delivers ls (Short_Sep c v) = [(uchar c, Some v)]"
| "delivers ls (Long n) = [(long_val ls n, None)]"
| "delivers ls (Long_Eq n v) = [(long_val ls n, Some v)]"
| "delivers ls (Long_Sep n v) = [(long_val ls n, Some v)]"

definition operand :: "string \<Rightarrow> bool" where
  "operand a \<longleftrightarrow> peek a 0 \<noteq> CHR ''-'' \<or> peek a 1 = NUL"

text \<open>The program that collects its options.\<close>

definition collect :: "int \<Rightarrow> string option \<Rightarrow> (int \<times> string option) list \<Rightarrow> 'w \<Rightarrow>
    (int option \<times> (int \<times> string option) list \<times> 'w) option" where
  "collect opt arg acc w = Some (None, acc @ [(opt, arg)], w)"

lemma collect_step:
  assumes "get g w = Some (r, g', w')" "r \<noteq> -1"
  shows "getopt_loop get collect acc g w = getopt_loop get collect (acc @ [(r, optarg g')]) g' w'"
  using assms by (subst getopt_loop.simps) (simp add: collect_def)

lemma collect_end:
  assumes "get g w = Some (-1, g', w')"
  shows "getopt_loop get collect acc g w = Some (None, acc, g', w')"
  using assms by (subst getopt_loop.simps) simp

lemma uchar_not_minus1 [simp]: "uchar c \<noteq> -1"
  using uchar_bounds [of c] by linarith

text \<open>Scanning an argument from its first character on.\<close>

lemma getopt_long_short:
  assumes "nextchar g = None" "drop (optind g) argv = (CHR ''-'' # c # cs) # rest" "c \<noteq> CHR ''-''" "c \<noteq> NUL"
  shows "getopt_long K argv os ls g w = handle_short_opt K argv os
    (g\<lparr>optarg := None, nextchar := Some (c # cs), optind := optind g + 1\<rparr>) w"
proof -
  have "optind g < length argv" "argv ! optind g = CHR ''-'' # c # cs"
    using assms(2) by (metis drop_all list.discI not_le) (metis assms(2) nth_via_drop)
  with assms show ?thesis by (simp add: getopt_long_def getopt_internal_def Let_def)
qed

lemma getopt_long_long:
  assumes "nextchar g = None" "drop (optind g) argv = (''--'' @ name) # rest" "name \<noteq> []"
  shows "getopt_long K argv os ls g w = handle_long_opt K argv os ls (g\<lparr>optarg := None, nextchar := None\<rparr>) w \<and>
    argv ! optind g = ''--'' @ name \<and> optind g < length argv"
proof -
  have "optind g < length argv" "argv ! optind g = ''--'' @ name"
    using assms(2) by (metis drop_all list.discI not_le) (metis assms(2) nth_via_drop)
  with assms show ?thesis by (simp add: getopt_long_def getopt_internal_def Let_def)
qed

lemma collect_flags:
  assumes "list_all (\<lambda>c. takes_arg os c False) cs" "nextchar g = rest_or_null cs"
  shows "\<exists>g'. getopt_loop (getopt_long K argv os ls) collect acc g w =
      getopt_loop (getopt_long K argv os ls) collect (acc @ map (\<lambda>c. (uchar c, None)) cs) g' w \<and>
      nextchar g' = None \<and> optind g' = optind g"
  using assms
proof (induction cs arbitrary: acc g)
  case Nil
  then show ?case by (auto simp: rest_or_null_def)
next
  case (Cons c cs)
  then have c: "c \<noteq> CHR '':''" "c \<noteq> NUL" by (auto simp: takes_arg_def)
  obtain i where i: "find_char c os = Some i" "peek os (i + 1) \<noteq> CHR '':''"
    using Cons.prems(1) by (auto simp: takes_arg_def split: option.splits)
  let ?g = "g\<lparr>optarg := None, nextchar := rest_or_null cs\<rparr>"
  have nx: "nextchar (g\<lparr>optarg := None\<rparr>) = Some (c # cs)" using Cons.prems(2) c by (simp add: rest_or_null_def)
  have "getopt_long K argv os ls g w = handle_short_opt K argv os (g\<lparr>optarg := None\<rparr>) w"
    using nx c by (simp add: getopt_long_def getopt_internal_def)
  also have "\<dots> = Some (uchar c, ?g, w)" by (simp add: handle_short_opt_flag [OF nx c(1) i])
  finally have "getopt_loop (getopt_long K argv os ls) collect acc g w =
      getopt_loop (getopt_long K argv os ls) collect (acc @ [(uchar c, None)]) ?g w"
    by (subst collect_step) auto
  with Cons.IH [of ?g "acc @ [(uchar c, None)]"] Cons.prems(1) show ?case by auto
qed

lemma takes_argD:
  assumes "takes_arg os c True"
  obtains i where "c \<noteq> CHR '':''" "c \<noteq> NUL" "find_char c os = Some i" "peek os (i + 1) = CHR '':''"
  using assms by (auto simp: takes_arg_def split: option.splits)

lemma long_takesD:
  assumes "long_takes ls n P"
  obtains i where "n \<noteq> []" "CHR ''='' \<notin> set n" "find_long ls n 0 = Some i" "P (has_arg (ls ! i))"
    "opt_flag (ls ! i) = None" "opt_val (ls ! i) = long_val ls n" "long_val ls n \<noteq> -1"
  using assms by (auto simp: long_takes_def long_val_def split: option.splits)

lemma long_name_simps:
  "CHR ''='' \<notin> set n \<Longrightarrow> long_name n = n"
  "CHR ''='' \<notin> set n \<Longrightarrow> long_name (n @ CHR ''='' # v) = n"
  using find_char_append [of "CHR ''=''" n v]
  by (simp_all add: long_name_def flip: find_char_None_iff)

lemma collect_single:
  assumes "getopt_long K argv os ls g w = Some (r, g', w)" "r \<noteq> -1"
    and "nextchar g' = None" "drop (optind g') argv = rest"
  shows "\<exists>g'' . getopt_loop (getopt_long K argv os ls) collect acc g w =
      getopt_loop (getopt_long K argv os ls) collect (acc @ [(r, optarg g')]) g'' w \<and>
      nextchar g'' = None \<and> drop (optind g'') argv = rest"
  using collect_step [where get = "getopt_long K argv os ls", OF assms(1,2)] assms(3,4) by blast

lemma drop_Suc_eq: "drop i xs = y # ys \<Longrightarrow> drop (Suc i) xs = ys"
  by (metis drop_Suc list.sel(3) tl_drop)

lemma drop_two_eq:
  assumes "drop i xs = y # z # ys"
  shows "drop (Suc (Suc i)) xs = ys" "Suc i < length xs" "xs ! Suc i = z"
proof -
  have d: "drop (Suc i) xs = z # ys" using assms by (rule drop_Suc_eq)
  then show "drop (Suc (Suc i)) xs = ys" by (rule drop_Suc_eq)
  show "Suc i < length xs" using d by (metis drop_all list.discI not_le)
  show "xs ! Suc i = z" using d by (metis nth_via_drop)
qed

lemma collect_flags_use:
  assumes "valid_use os ls (Flags cs)" "nextchar g = None" "drop (optind g) argv = (CHR ''-'' # cs) # rest"
  shows "\<exists>g'. getopt_loop (getopt_long K argv os ls) collect acc g w =
      getopt_loop (getopt_long K argv os ls) collect (acc @ map (\<lambda>c. (uchar c, None)) cs) g' w \<and>
      nextchar g' = None \<and> drop (optind g') argv = rest"
proof -
  obtain c cs' where cs: "cs = c # cs'" "c \<noteq> CHR ''-''" "takes_arg os c False"
      "list_all (\<lambda>c. takes_arg os c False) cs'"
    using assms(1) by (cases cs) auto
  then have c: "c \<noteq> CHR '':''" "c \<noteq> NUL" by (auto simp: takes_arg_def)
  obtain i where i: "find_char c os = Some i" "peek os (i + 1) \<noteq> CHR '':''"
    using cs(3) by (auto simp: takes_arg_def split: option.splits)
  let ?g = "g\<lparr>optarg := None, nextchar := Some (c # cs'), optind := optind g + 1\<rparr>"
  have "getopt_long K argv os ls g w = handle_short_opt K argv os ?g w"
    by (rule getopt_long_short [OF assms(2) assms(3) [unfolded cs(1)] cs(2) c(2)])
  also have "\<dots> = Some (uchar c, ?g\<lparr>nextchar := rest_or_null cs'\<rparr>, w)"
    by (rule handle_short_opt_flag [OF _ c(1) i]) simp
  finally have "getopt_loop (getopt_long K argv os ls) collect acc g w =
      getopt_loop (getopt_long K argv os ls) collect (acc @ [(uchar c, None)]) (?g\<lparr>nextchar := rest_or_null cs'\<rparr>) w"
    by (subst collect_step) auto
  with collect_flags [OF cs(4), of "?g\<lparr>nextchar := rest_or_null cs'\<rparr>" K argv ls "acc @ [(uchar c, None)]" w]
  show ?thesis using drop_Suc_eq [OF assms(3)] by (auto simp: cs(1))
qed

lemma collect_short_arg:
  assumes "takes_arg os c True" "c \<noteq> CHR ''-''" "nextchar g = None"
    and "(drop (optind g) argv = (CHR ''-'' # c # v) # rest \<and> peek v 0 \<noteq> NUL) \<or> drop (optind g) argv = [CHR ''-'', c] # v # rest"
  shows "\<exists>g'. getopt_loop (getopt_long K argv os ls) collect acc g w =
      getopt_loop (getopt_long K argv os ls) collect (acc @ [(uchar c, Some v)]) g' w \<and>
      nextchar g' = None \<and> drop (optind g') argv = rest"
proof -
  obtain i where i: "c \<noteq> CHR '':''" "c \<noteq> NUL" "find_char c os = Some i" "peek os (i + 1) = CHR '':''"
    using assms(1) by (rule takes_argD)
  from assms(4) show ?thesis
  proof (elim disjE conjE)
    assume d: "drop (optind g) argv = (CHR ''-'' # c # v) # rest" and v: "peek v 0 \<noteq> NUL"
    let ?g = "g\<lparr>optarg := None, nextchar := Some (c # v), optind := optind g + 1\<rparr>"
    have "getopt_long K argv os ls g w = handle_short_opt K argv os ?g w"
      by (rule getopt_long_short [OF assms(3) d assms(2) i(2)])
    also have "\<dots> = Some (uchar c, ?g\<lparr>optarg := Some v, nextchar := None\<rparr>, w)"
      by (rule handle_short_opt_attached [OF _ i(1,3,4) v]) simp
    finally show ?thesis using collect_single [of K argv os ls g w _ _ rest acc] drop_Suc_eq [OF d] by force
  next
    assume d: "drop (optind g) argv = [CHR ''-'', c] # v # rest"
    let ?g = "g\<lparr>optarg := None, nextchar := Some [c], optind := optind g + 1\<rparr>"
    have "getopt_long K argv os ls g w = handle_short_opt K argv os ?g w"
      by (rule getopt_long_short [OF assms(3) d assms(2) i(2)])
    also have "\<dots> = Some (uchar c, ?g\<lparr>optarg := Some (argv ! optind ?g), optind := optind ?g + 1, nextchar := None\<rparr>, w)"
      by (rule handle_short_opt_separate [OF _ i(1,3,4)]) (use drop_two_eq [OF d] in auto)
    finally show ?thesis using collect_single [of K argv os ls g w _ _ rest acc] drop_two_eq [OF d] by force
  qed
qed

lemma collect_long:
  assumes "long_takes ls n P" "nextchar g = None"
    and "(drop (optind g) argv = (''--'' @ n) # rest \<and> a = None \<and> (\<forall>h. P h \<longrightarrow> h \<noteq> required_argument)) \<or>
         (drop (optind g) argv = (''--'' @ n @ CHR ''='' # v) # rest \<and> a = Some v \<and>
            (\<forall>h. P h \<longrightarrow> h = required_argument \<or> h = optional_argument)) \<or>
         (drop (optind g) argv = (''--'' @ n) # v # rest \<and> a = Some v \<and> (\<forall>h. P h \<longrightarrow> h = required_argument))"
  shows "\<exists>g'. getopt_loop (getopt_long K argv os ls) collect acc g w =
      getopt_loop (getopt_long K argv os ls) collect (acc @ [(long_val ls n, a)]) g' w \<and>
      nextchar g' = None \<and> drop (optind g') argv = rest"
proof -
  obtain i where i: "n \<noteq> []" "CHR ''='' \<notin> set n" "find_long ls n 0 = Some i" "P (has_arg (ls ! i))"
      and val: "opt_flag (ls ! i) = None" "opt_val (ls ! i) = long_val ls n" "long_val ls n \<noteq> -1"
    using assms(1) by (rule long_takesD)
  have res: "long_result (ls ! i) g' w = Some (long_val ls n, g', w)" for g'
    using val by (simp add: long_result_def)
  let ?g = "g\<lparr>optarg := None, nextchar := None\<rparr>"
  have none: "find_char (CHR ''='') n = None" using i(2) by simp
  from assms(3) show ?thesis
  proof (elim disjE conjE)
    assume d: "drop (optind g) argv = (''--'' @ n) # rest" and a: "a = None" "\<forall>h. P h \<longrightarrow> h \<noteq> required_argument"
    note l = getopt_long_long [OF assms(2) d i(1), of K os ls w]
    then have f: "find_long ls (long_name (drop 2 (argv ! optind ?g))) 0 = Some i"
      using i by (simp add: long_name_simps)
    have "getopt_long K argv os ls g w = Some (long_val ls n, ?g\<lparr>optind := optind g + 1, optarg := None\<rparr>, w)"
    proof (cases "has_arg (ls ! i) = optional_argument")
      case True
      show ?thesis using l none handle_long_opt_optional [OF f True, of K os w] by (simp add: res del: find_char_None_iff)
    next
      case False
      show ?thesis using l handle_long_opt_plain [OF f _ False, of K os w] a i by (simp add: res)
    qed
    from collect_single [OF this val(3), of rest acc] show ?thesis using drop_Suc_eq [OF d] a by simp
  next
    assume d: "drop (optind g) argv = (''--'' @ n @ CHR ''='' # v) # rest" and a: "a = Some v"
      "\<forall>h. P h \<longrightarrow> h = required_argument \<or> h = optional_argument"
    have ne: "n @ CHR ''='' # v \<noteq> []" by simp
    note l = getopt_long_long [OF assms(2) d ne, of K os ls w]
    then have f: "find_long ls (long_name (drop 2 (argv ! optind ?g))) 0 = Some i"
      using i by (simp add: long_name_simps)
    have eq: "find_char (CHR ''='') (drop 2 (argv ! optind ?g)) = Some (length n)"
      using l find_char_append [OF i(2), of v] by simp
    have "getopt_long K argv os ls g w = Some (long_val ls n, ?g\<lparr>optind := optind g + 1, optarg := Some v\<rparr>, w)"
    proof (cases "has_arg (ls ! i) = optional_argument")
      case True
      show ?thesis using l eq handle_long_opt_optional [OF f True, of K os w] by (simp add: res)
    next
      case False
      with a i have "has_arg (ls ! i) = required_argument" by auto
      from handle_long_opt_eq [OF f this eq, of K os w] l show ?thesis by (simp add: res)
    qed
    from collect_single [OF this val(3), of rest acc] show ?thesis using drop_Suc_eq [OF d] a by simp
  next
    assume d: "drop (optind g) argv = (''--'' @ n) # v # rest" and a: "a = Some v" "\<forall>h. P h \<longrightarrow> h = required_argument"
    note l = getopt_long_long [OF assms(2) d i(1), of K os ls w]
    then have f: "find_long ls (long_name (drop 2 (argv ! optind ?g))) 0 = Some i"
      and eq: "find_char (CHR ''='') (drop 2 (argv ! optind ?g)) = None"
      using i by (simp_all add: long_name_simps)
    have "has_arg (ls ! i) = required_argument" using a i by auto
    from handle_long_opt_separate [OF f this eq, of K os w] l drop_two_eq [OF d]
    have "getopt_long K argv os ls g w = Some (long_val ls n, ?g\<lparr>optarg := Some v, optind := optind g + 2\<rparr>, w)"
      by (simp add: res)
    from collect_single [OF this val(3), of rest acc] show ?thesis using drop_two_eq [OF d] a by simp
  qed
qed

lemma collect_use:
  assumes "valid_use os ls u" "nextchar g = None" "drop (optind g) argv = render u @ rest"
  shows "\<exists>g'. getopt_loop (getopt_long K argv os ls) collect acc g w =
      getopt_loop (getopt_long K argv os ls) collect (acc @ delivers ls u) g' w \<and>
      nextchar g' = None \<and> drop (optind g') argv = rest"
proof (cases u)
  case (Flags cs)
  with assms show ?thesis using collect_flags_use [of os ls cs g argv rest K acc w] by simp
next
  case (Short_Arg c v)
  with assms show ?thesis using collect_short_arg [of os c g argv v rest K ls acc w] by simp
next
  case (Short_Sep c v)
  with assms show ?thesis using collect_short_arg [of os c g argv v rest K ls acc w] by simp
next
  case (Long n)
  with assms collect_long [of ls n _ g argv rest None "[]" K os acc w] show ?thesis by fastforce
next
  case (Long_Eq n v)
  with assms collect_long [of ls n _ g argv rest "Some v" v K os acc w] show ?thesis by fastforce
next
  case (Long_Sep n v)
  with assms collect_long [of ls n _ g argv rest "Some v" v K os acc w] show ?thesis by fastforce
qed

lemma collect_uses:
  assumes "list_all (valid_use os ls) us" "nextchar g = None"
    and "drop (optind g) argv = concat (map render us) @ ops"
  shows "\<exists>g'. getopt_loop (getopt_long K argv os ls) collect acc g w =
      getopt_loop (getopt_long K argv os ls) collect (acc @ concat (map (delivers ls) us)) g' w \<and>
      nextchar g' = None \<and> drop (optind g') argv = ops"
  using assms
proof (induction us arbitrary: g acc)
  case (Cons u us)
  then obtain g1 where g1: "getopt_loop (getopt_long K argv os ls) collect acc g w =
      getopt_loop (getopt_long K argv os ls) collect (acc @ delivers ls u) g1 w"
      "nextchar g1 = None" "drop (optind g1) argv = concat (map render us) @ ops"
    using collect_use [of os ls u g argv "concat (map render us) @ ops" K acc w] by auto
  with Cons.IH [of g1 "acc @ delivers ls u"] Cons.prems(1) show ?case by simp
qed auto

section \<open>Properties\<close>

text \<open>C23. Parsing a command line gives back what was written on it. For a command line made of any
  sequence of valid options, in any of the forms \<open>-abc\<close>, \<open>-ovalue\<close>, \<open>-o value\<close>, \<open>--name\<close>, \<open>--name=value\<close>,
  \<open>--name value\<close>, followed by operands, the loop over \<open>getopt_long\<close> sees exactly these options with
  their values, in order; it then ends with \<open>optind\<close> at the first operand, and prints nothing.\<close>

theorem getopt_long_roundtrip:
  assumes "list_all (valid_use optstring longopts) us" "ops = [] \<or> operand (hd ops)"
  shows "\<exists>g. getopt_loop (getopt_long K (prog # concat (map render us) @ ops) optstring longopts) collect [] getopt_init w =
      Some (None, concat (map (delivers longopts) us), g, w) \<and>
    drop (optind g) (prog # concat (map render us) @ ops) = ops"
proof -
  let ?argv = "prog # concat (map render us) @ ops"
  obtain g where g: "getopt_loop (getopt_long K ?argv optstring longopts) collect [] getopt_init w =
      getopt_loop (getopt_long K ?argv optstring longopts) collect (concat (map (delivers longopts) us)) g w"
      "nextchar g = None" "drop (optind g) ?argv = ops"
    using collect_uses [OF assms(1), of getopt_init ?argv ops K "[]" w] by (auto simp: getopt_init_def)
  let ?g = "g\<lparr>optarg := None, nextchar := None\<rparr>"
  have "getopt_long K ?argv optstring longopts g w = Some (-1, ?g, w)"
  proof (cases ops)
    case Nil
    with g show ?thesis by (simp add: getopt_long_def getopt_internal_def Let_def)
  next
    case (Cons a as)
    with g(3) have "?argv ! optind g = a" "optind g < length ?argv"
      by (metis nth_via_drop) (metis Cons g(3) drop_all list.discI not_le)
    with Cons assms(2) g(2) show ?thesis
      by (auto simp: getopt_long_def getopt_internal_def Let_def operand_def simp del: length_Cons)
  qed
  from collect_end [where get = "getopt_long K ?argv optstring longopts", OF this] g show ?thesis by auto
qed

theorem getopt_long_roundtrip_witness:
  "\<exists>g. getopt_loop (getopt_long ram_kernel
        [''head'', ''-qv'', ''-n5'', ''-c'', ''7'', ''--quiet'', ''--bytes=9'', ''--lines'', ''3'', ''file'']
        ''c:n:qvh'' [\<lparr>opt_name = ''bytes'', has_arg = required_argument, opt_flag = None, opt_val = 99\<rparr>,
                   \<lparr>opt_name = ''lines'', has_arg = required_argument, opt_flag = None, opt_val = 110\<rparr>,
                   \<lparr>opt_name = ''quiet'', has_arg = no_argument, opt_flag = None, opt_val = 113\<rparr>])
        collect [] getopt_init (ram_world []) =
      Some (None, [(113, None), (118, None), (110, Some ''5''), (99, Some ''7''), (113, None), (99, Some ''9''),
                   (110, Some ''3'')], g, ram_world []) \<and>
     drop (optind g) [''head'', ''-qv'', ''-n5'', ''-c'', ''7'', ''--quiet'', ''--bytes=9'', ''--lines'', ''3'', ''file''] = [''file'']"
proof -
  let ?os = "''c:n:qvh''"
  let ?ls = "[\<lparr>opt_name = ''bytes'', has_arg = required_argument, opt_flag = None, opt_val = 99\<rparr>,
                   \<lparr>opt_name = ''lines'', has_arg = required_argument, opt_flag = None, opt_val = 110\<rparr>,
                   \<lparr>opt_name = ''quiet'', has_arg = no_argument, opt_flag = None, opt_val = 113\<rparr>]"
  let ?us = "[Flags ''qv'', Short_Arg (CHR ''n'') ''5'', Short_Sep (CHR ''c'') ''7'', Long ''quiet'',
      Long_Eq ''bytes'' ''9'', Long_Sep ''lines'' ''3'']"
  have valid: "list_all (valid_use ?os ?ls) ?us" by code_simp
  have args: "concat (map render ?us) = [''-qv'', ''-n5'', ''-c'', ''7'', ''--quiet'', ''--bytes=9'', ''--lines'', ''3'']"
    by code_simp
  have res: "concat (map (delivers ?ls) ?us) = [(113, None), (118, None), (110, Some ''5''), (99, Some ''7''),
      (113, None), (99, Some ''9''), (110, Some ''3'')]" by code_simp
  have "operand (hd [''file''])" by code_simp
  then show ?thesis
    using getopt_long_roundtrip [OF valid, of "[''file'']" ram_kernel "''head''" "ram_world []"]
    unfolding args res by simp
qed

text \<open>C36. The loop of a program over its options ends on every command line, valid or not: each call of
  \<open>getopt_long\<close> that does not return -1 has consumed a part of it.\<close>

theorem getopt_loop_terminates:
  assumes "\<And>opt arg os w. \<exists>r. body opt arg os w = Some r"
  shows "\<exists>r. getopt_loop (getopt_long K argv optstring longopts) body os g w = Some r"
proof (induction "scan_left argv g" arbitrary: g os w rule: less_induct)
  case less
  obtain r g' w' where g': "getopt_long K argv optstring longopts g w = Some (r, g', w')"
      "r \<noteq> -1 \<longrightarrow> scan_left argv g' < scan_left argv g"
    using getopt_long_progress by blast
  obtain ret os' w'' where b: "body r (optarg g') os w' = Some (ret, os', w'')"
    using assms by (metis prod_cases3)
  show ?case
    by (subst getopt_loop.simps) (use g' b less [of g'] in \<open>auto simp: getopt_long_def\<close>)
qed

theorem getopt_loop_terminates_witness:
  "\<exists>r. getopt_loop (getopt_long ram_kernel [''wc'', ''-x'', ''--what''] ''lw'' []) collect [] getopt_init (ram_world []) = Some r"
  by (rule getopt_loop_terminates) (simp add: collect_def)

end
