(* ===== verification/Lines.thy ===== *)
theory Lines
  imports Stdio_Props
begin

text \<open>
  Reading a stream line by line: the function \<open>read_line\<close> that \<open>cat.c\<close>, \<open>head.c\<close> and \<open>tail.c\<close> each carry
  a copy of, the loop of these programs over the lines of a stream, and what a stream consists of
  as a list of lines.
\<close>

section \<open>One line\<close>

record line_st =
  ln_any :: bool
  ln_newline :: bool
  ln_cap :: nat
  ln_buf :: "byte list"
  ln_oom :: bool

definition read_line_step :: "'k kernel \<Rightarrow> int \<Rightarrow> line_st \<Rightarrow> 'k world \<Rightarrow> (bool \<times> line_st \<times> 'k world) option" where
  "read_line_step K c s0 w =
     (let s = s0\<lparr>ln_any := True\<rparr> in
      if c = uchar newline then Some (True, s\<lparr>ln_newline := True\<rparr>, w)
      else if length (ln_buf s) + 1 \<ge> ln_cap s then
        let cap = size_mul (ln_cap s) 2;
            (ok, k) = heap_ok K (kern w) cap;
            w' = w\<lparr>kern := k\<rparr>
        in if \<not> ok then Some (True, s\<lparr>ln_cap := cap, ln_oom := True\<rparr>, w')
           else Some (False, s\<lparr>ln_cap := cap, ln_buf := ln_buf s @ [to_char c]\<rparr>, w')
      else Some (False, s\<lparr>ln_buf := ln_buf s @ [to_char c]\<rparr>, w))"

text \<open>The result is the return value, and the line and \<open>got_newline\<close> as stored on a return of 1.\<close>

definition read_line :: "'k kernel \<Rightarrow> fptr \<Rightarrow> 'k world \<Rightarrow> ((int \<times> byte list \<times> bool) \<times> 'k world) option" where
  "read_line K f w =
     (let (ok, k) = heap_ok K (kern w) 128;
          w1 = w\<lparr>kern := k\<rparr>
      in if \<not> ok then Some ((-1, [], False), w1)
         else do {
           (s, w2) \<leftarrow> while_getc (fgetc K f) (read_line_step K)
             \<lparr>ln_any = False, ln_newline = False, ln_cap = 128, ln_buf = [], ln_oom = False\<rparr> w1;
           if ln_oom s then Some ((-1, [], ln_newline s), w2)
           else if \<not> ln_any s then Some ((0, [], ln_newline s), w2)
           else Some ((1, ln_buf s, ln_newline s), w2)
         })"

text \<open>A sequence of calls of \<open>printf\<close> without arguments.\<close>

fun printf_all :: "'k kernel \<Rightarrow> string list \<Rightarrow> 'k world \<Rightarrow> (unit \<times> 'k world) option" where
  "printf_all K [] w = Some ((), w)"
| "printf_all K (fmt # fmts) w = do { (_, w') \<leftarrow> printf K fmt [] w; printf_all K fmts w' }"

text \<open>The loop over the lines: it ends when there is no line left, or, with the first result \<open>True\<close>,
  when the memory for a line is refused.\<close>

partial_function (option) each_line ::
  "('k world \<Rightarrow> ((int \<times> byte list \<times> bool) \<times> 'k world) option) \<Rightarrow>
   (byte list \<Rightarrow> bool \<Rightarrow> 'a \<Rightarrow> 'k world \<Rightarrow> ('a \<times> 'k world) option) \<Rightarrow> 'a \<Rightarrow> 'k world \<Rightarrow>
   (bool \<times> 'a \<times> 'k world) option" where
  "each_line rd body a w = do {
     ((r, line, nl), w1) \<leftarrow> rd w;
     if r = 0 then Some (False, a, w1)
     else if r < 0 then Some (True, a, w1)
     else do {
       (a', w2) \<leftarrow> body line nl a w1;
       each_line rd body a' w2
     }
   }"

declare each_line.simps [code]

section \<open>The lines of a text\<close>

definition first_line :: "byte list \<Rightarrow> byte list" where
  "first_line bs = takeWhile (\<lambda>c. c \<noteq> newline) bs"

definition after_line :: "byte list \<Rightarrow> byte list" where
  "after_line bs = drop 1 (dropWhile (\<lambda>c. c \<noteq> newline) bs)"

function split_lines :: "byte list \<Rightarrow> (byte list \<times> bool) list" where
  "split_lines bs = (if bs = [] then [] else (first_line bs, newline \<in> set bs) # split_lines (after_line bs))"
  by pat_completeness auto
termination
proof (relation "measure length")
  fix bs :: "byte list"
  assume "bs \<noteq> []"
  moreover have "length (dropWhile (\<lambda>c. c \<noteq> newline) bs) \<le> length bs" by (rule length_dropWhile_le)
  ultimately show "(after_line bs, bs) \<in> measure length"
    by (cases bs) (auto simp: after_line_def intro: le_less_trans)
qed simp

declare split_lines.simps [simp del]

definition line_text :: "byte list \<times> bool \<Rightarrow> byte list" where
  "line_text l = fst l @ (if snd l then [newline] else [])"

lemma split_lines_Nil [simp]: "split_lines [] = []"
  by (simp add: split_lines.simps)

lemma split_lines_Cons: "bs \<noteq> [] \<Longrightarrow> split_lines bs = (first_line bs, newline \<in> set bs) # split_lines (after_line bs)"
  by (simp add: split_lines.simps)

lemma first_after_line: "bs = line_text (first_line bs, newline \<in> set bs) @ after_line bs"
proof (cases "newline \<in> set bs")
  case True
  then obtain c cs where d: "dropWhile (\<lambda>c. c \<noteq> newline) bs = c # cs"
    by (cases "dropWhile (\<lambda>c. c \<noteq> newline) bs") auto
  then have "c = newline" using hd_dropWhile [of "\<lambda>c. c \<noteq> newline" bs] by simp
  with True d takeWhile_dropWhile_id [of "\<lambda>c. c \<noteq> newline" bs] show ?thesis
    by (simp add: line_text_def first_line_def after_line_def)
next
  case False
  then have t: "takeWhile (\<lambda>c. c \<noteq> newline) bs = bs" and d: "dropWhile (\<lambda>c. c \<noteq> newline) bs = []"
    by (auto simp: takeWhile_eq_all_conv)
  show ?thesis using False unfolding line_text_def first_line_def after_line_def t d by simp
qed

lemma concat_split_lines: "concat (map line_text (split_lines bs)) = bs"
proof (induction bs rule: split_lines.induct)
  case (1 bs)
  then show ?case using first_after_line [of bs, symmetric] by (cases "bs = []") (simp_all add: split_lines_Cons)
qed

lemma length_first_line: "length (first_line bs) \<le> length bs"
  by (simp add: first_line_def length_takeWhile_le)

lemma split_lines_lengths: "(l, nl) \<in> set (split_lines bs) \<Longrightarrow> length l \<le> length bs"
proof (induction bs rule: split_lines.induct)
  case (1 bs)
  show ?case
  proof (cases "bs = []")
    case False
    have "length (after_line bs) \<le> length bs"
      using length_dropWhile_le [of "\<lambda>c. c \<noteq> newline" bs] by (simp add: after_line_def)
    with 1 False length_first_line [of bs] show ?thesis by (auto simp: split_lines_Cons)
  qed (use 1 in simp)
qed

text \<open>The lines of a text by its first character.\<close>

lemma split_lines_newline: "split_lines (newline # cs) = ([], True) # split_lines cs"
  by (subst split_lines_Cons) (simp_all add: first_line_def after_line_def)

lemma split_lines_char:
  assumes "c \<noteq> newline"
  shows "split_lines (c # cs) = (case split_lines cs of [] \<Rightarrow> [([c], False)] | l # ls \<Rightarrow> (c # fst l, snd l) # ls)"
proof (cases "cs = []")
  case True
  with assms show ?thesis by (subst split_lines_Cons) (simp_all add: first_line_def after_line_def)
next
  case False
  have "split_lines (c # cs) = (c # first_line cs, newline \<in> set cs) # split_lines (after_line cs)"
    using assms by (subst split_lines_Cons) (auto simp: first_line_def after_line_def)
  with False show ?thesis by (simp add: split_lines_Cons [OF False])
qed

lemma split_lines_eq_Nil [simp]: "split_lines bs = [] \<longleftrightarrow> bs = []"
  by (cases "bs = []") (simp_all add: split_lines_Cons)

lemma split_lines_append:
  assumes "pre = [] \<or> last pre = newline"
  shows "split_lines (pre @ post) = split_lines pre @ split_lines post"
  using assms
proof (induction pre)
  case (Cons c pre)
  show ?case
  proof (cases "c = newline")
    case True
    with Cons show ?thesis by (cases "pre = []") (auto simp: split_lines_newline)
  next
    case False
    with Cons have "pre \<noteq> []" by auto
    then obtain l ls where "split_lines pre = l # ls" by (cases "split_lines pre") auto
    with Cons False \<open>pre \<noteq> []\<close> show ?thesis by (simp add: split_lines_char)
  qed
qed simp

lemma length_split_lines: "length (split_lines bs) \<le> Suc (count_list bs newline)"
proof (induction bs)
  case (Cons c bs)
  then show ?case
    by (cases "c = newline") (auto simp: split_lines_newline split_lines_char split: list.split)
qed simp

lemma length_split_lines_full:
  "bs = [] \<or> last bs = newline \<Longrightarrow> length (split_lines bs) = count_list bs newline"
proof (induction bs)
  case (Cons c bs)
  show ?case
  proof (cases "c = newline")
    case True
    with Cons show ?thesis by (cases "bs = []") (auto simp: split_lines_newline)
  next
    case False
    with Cons have "bs \<noteq> []" by auto
    with Cons False show ?thesis by (auto simp: split_lines_char split: list.split)
  qed
qed simp

text \<open>The first n lines.\<close>

definition first_lines :: "nat \<Rightarrow> byte list \<Rightarrow> byte list" where
  "first_lines n bs = concat (map line_text (take n (split_lines bs)))"

lemma first_lines_all: "count_list bs newline < n \<Longrightarrow> first_lines n bs = bs"
  using length_split_lines [of bs] concat_split_lines [of bs] by (simp add: first_lines_def)

lemma first_lines_prefix:
  assumes "pre \<noteq> []" "last pre = newline" "count_list pre newline = n"
  shows "first_lines n (pre @ post) = pre"
  using assms concat_split_lines [of pre]
  by (simp add: first_lines_def split_lines_append length_split_lines_full)

text \<open>What follows the first m lines.\<close>

definition from_line :: "nat \<Rightarrow> byte list \<Rightarrow> byte list" where
  "from_line m bs = concat (map line_text (drop m (split_lines bs)))"

lemma split_at_newline:
  "m \<le> count_list bs newline \<Longrightarrow>
   \<exists>a b. bs = a @ b \<and> (a = [] \<or> last a = newline) \<and> count_list a newline = m"
proof (induction bs arbitrary: m)
  case (Cons c cs)
  show ?case
  proof (cases m)
    case 0
    show ?thesis by (rule exI [of _ "[]"], rule exI [of _ "c # cs"]) (simp add: 0)
  next
    case (Suc k)
    have "(if c = newline then k else m) \<le> count_list cs newline" using Cons.prems Suc by auto
    then obtain a b where "cs = a @ b" "a = [] \<or> last a = newline" "count_list a newline = (if c = newline then k else m)"
      using Cons.IH by blast
    with Suc show ?thesis by (intro exI [of _ "c # a"] exI [of _ b]) (auto split: if_splits)
  qed
qed simp

lemma from_line_append:
  assumes "a = [] \<or> last a = newline" "count_list a newline = m"
  shows "from_line m (a @ b) = b"
  using assms concat_split_lines [of b]
  by (simp add: from_line_def split_lines_append length_split_lines_full)

lemma from_line_Nil [simp]: "from_line m [] = []"
  by (simp add: from_line_def)

lemma from_line_none: "length (split_lines bs) \<le> m \<Longrightarrow> from_line m bs = []"
  by (simp add: from_line_def)

lemma from_line_snoc:
  "from_line m (pre @ [c]) = from_line m pre @ (if m \<le> count_list pre newline then [c] else [])"
proof (cases "m \<le> count_list pre newline")
  case True
  then obtain a b where "pre = a @ b" "a = [] \<or> last a = newline" "count_list a newline = m"
    using split_at_newline by blast
  with True from_line_append [of a m b] from_line_append [of a m "b @ [c]"] show ?thesis by simp
next
  case False
  have "length (split_lines (pre @ [c])) \<le> m"
  proof (cases "c = newline")
    case True
    then show ?thesis using False length_split_lines_full [of "pre @ [c]"] by simp
  next
    case c: False
    then show ?thesis using False length_split_lines [of "pre @ [c]"] by simp
  qed
  moreover have "length (split_lines pre) \<le> m" using False length_split_lines [of pre] by simp
  ultimately show ?thesis using False by (simp add: from_line_none)
qed

section \<open>Reading lines\<close>

text \<open>A heap that never runs out, and whose calls leave the streams alone.\<close>

definition kernel_heap :: "'k kernel \<Rightarrow> 'k view \<Rightarrow> bool" where
  "kernel_heap K V \<longleftrightarrow> (\<forall>k n. \<exists>k'. heap_ok K k n = (True, k') \<and>
     inp V k' = inp V k \<and> outp V k' = outp V k \<and> live V k' = live V k)"

lemma heap_ok_reads:
  assumes "kernel_heap K V"
  obtains k' where "heap_ok K (kern w) n = (True, k')" "reads_only V i w (w\<lparr>kern := k'\<rparr>)"
    "stream_ok K V i (w\<lparr>kern := k'\<rparr>) = stream_ok K V i w" "remaining V i (w\<lparr>kern := k'\<rparr>) = remaining V i w"
proof -
  obtain k' where "heap_ok K (kern w) n = (True, k')" "inp V k' = inp V (kern w)"
      "outp V k' = outp V (kern w)" "live V k' = live V (kern w)"
    using assms unfolding kernel_heap_def by metis
  then show ?thesis by (intro that [of k']) (auto simp: reads_only_def stream_ok_def remaining_def)
qed

lemma read_line_step_newline:
  "read_line_step K (uchar newline) s w = Some (True, s\<lparr>ln_any := True, ln_newline := True\<rparr>, w)"
  by (simp add: read_line_step_def Let_def)

lemma read_line_step_char:
  assumes "kernel_heap K V" "c \<noteq> newline" "\<not> ln_oom s"
  obtains s' w' where "read_line_step K (uchar c) s w = Some (False, s', w')" "ln_any s'" "\<not> ln_oom s'"
    "ln_newline s' = ln_newline s" "ln_buf s' = ln_buf s @ [c]" "reads_only V i w w'"
    "stream_ok K V i w' = stream_ok K V i w" "remaining V i w' = remaining V i w"
proof (cases "length (ln_buf s) + 1 \<ge> ln_cap s")
  case True
  obtain k' where "heap_ok K (kern w) (size_mul (ln_cap s) 2) = (True, k')" "reads_only V i w (w\<lparr>kern := k'\<rparr>)"
      "stream_ok K V i (w\<lparr>kern := k'\<rparr>) = stream_ok K V i w" "remaining V i (w\<lparr>kern := k'\<rparr>) = remaining V i w"
    using heap_ok_reads [OF assms(1), of w "size_mul (ln_cap s) 2" i] by blast
  with True assms(2,3) show ?thesis
    by (intro that [of "s\<lparr>ln_any := True, ln_cap := size_mul (ln_cap s) 2, ln_buf := ln_buf s @ [c]\<rparr>" "w\<lparr>kern := k'\<rparr>"])
      (auto simp: read_line_step_def Let_def)
next
  case False
  with assms(2,3) show ?thesis
    by (intro that [of "s\<lparr>ln_any := True, ln_buf := ln_buf s @ [c]\<rparr>" w]) (auto simp: read_line_step_def Let_def)
qed

lemma read_line_loop:
  assumes "stream_ok K V i w" "kernel_heap K V" "\<not> ln_oom s" "\<not> ln_newline s"
  shows "\<exists>s' w'. while_getc (fgetc K (Some i)) (read_line_step K) s w = Some (s', w') \<and> \<not> ln_oom s' \<and>
      ln_any s' = (ln_any s \<or> remaining V i w \<noteq> []) \<and> ln_buf s' = ln_buf s @ first_line (remaining V i w) \<and>
      ln_newline s' = (newline \<in> set (remaining V i w)) \<and> stream_ok K V i w' \<and> reads_only V i w w' \<and>
      remaining V i w' = after_line (remaining V i w)"
  using assms
proof (induction "remaining V i w" arbitrary: s w)
  case Nil
  show ?case
    by (rule fgetc_stream.while_getc_eof [OF Nil(2) Nil(1) [symmetric], where body = "read_line_step K" and a = s])
      (use Nil in \<open>auto simp: first_line_def after_line_def\<close>)
next
  case (Cons c cs)
  obtain w1 where w1: "stream_ok K V i w1" "remaining V i w1 = cs" "reads_only V i w w1"
    and run: "while_getc (fgetc K (Some i)) (read_line_step K) s w = do {
       (stop, a', s2) \<leftarrow> read_line_step K (uchar c) s w1;
       if stop then Some (a', s2) else while_getc (fgetc K (Some i)) (read_line_step K) a' s2 }"
    by (rule fgetc_stream.while_getc_char [OF Cons(3) Cons(2) [symmetric]])
  have rem: "remaining V i w = c # cs" using Cons(2) by simp
  show ?case
  proof (cases "c = newline")
    case True
    with run rem w1 Cons(5,6) show ?thesis
      by (simp add: read_line_step_newline first_line_def after_line_def)
  next
    case False
    obtain s' w2 where s': "read_line_step K (uchar c) s w1 = Some (False, s', w2)" "ln_any s'" "\<not> ln_oom s'"
        "ln_newline s' = ln_newline s" "ln_buf s' = ln_buf s @ [c]" "reads_only V i w1 w2"
        "stream_ok K V i w2 = stream_ok K V i w1" "remaining V i w2 = remaining V i w1"
      by (rule read_line_step_char [OF Cons(4) False Cons(5)])
    have "reads_only V i w w2" using w1(3) s'(6) by (rule reads_only_trans)
    then have trans: "\<And>w'. reads_only V i w2 w' \<Longrightarrow> reads_only V i w w'" by (rule reads_only_trans)
    have "cs = remaining V i w2" "stream_ok K V i w2" using s' w1 by auto
    from Cons(1) [OF this Cons(4) s'(3)] s'(4) Cons(6)
    obtain s3 w3 where "while_getc (fgetc K (Some i)) (read_line_step K) s' w2 = Some (s3, w3)" "\<not> ln_oom s3"
        "ln_any s3" "ln_buf s3 = ln_buf s' @ first_line cs" "ln_newline s3 = (newline \<in> set cs)"
        "stream_ok K V i w3" "reads_only V i w2 w3" "remaining V i w3 = after_line cs"
      using s'(2) w1(2) s'(8) by auto
    with run s' False trans rem show ?thesis by (auto simp: first_line_def after_line_def)
  qed
qed

lemma read_line_ok:
  assumes "stream_ok K V i w" "kernel_heap K V"
  obtains w' where "read_line K (Some i) w = Some (if remaining V i w = [] then (0, [], False)
      else (1, first_line (remaining V i w), newline \<in> set (remaining V i w)), w')"
    "stream_ok K V i w'" "reads_only V i w w'" "remaining V i w' = after_line (remaining V i w)"
proof -
  let ?s = "\<lparr>ln_any = False, ln_newline = False, ln_cap = 128, ln_buf = [], ln_oom = False\<rparr>"
  obtain k' where k': "heap_ok K (kern w) 128 = (True, k')" "reads_only V i w (w\<lparr>kern := k'\<rparr>)"
      "stream_ok K V i (w\<lparr>kern := k'\<rparr>) = stream_ok K V i w" "remaining V i (w\<lparr>kern := k'\<rparr>) = remaining V i w"
    using heap_ok_reads [OF assms(2), of w 128 i] by blast
  have ok: "stream_ok K V i (w\<lparr>kern := k'\<rparr>)" using k'(3) assms(1) by simp
  obtain s' w' where w': "while_getc (fgetc K (Some i)) (read_line_step K) ?s (w\<lparr>kern := k'\<rparr>) = Some (s', w')"
      "\<not> ln_oom s'" "ln_any s' = (remaining V i w \<noteq> [])" "ln_buf s' = first_line (remaining V i w)"
      "ln_newline s' = (newline \<in> set (remaining V i w))" "stream_ok K V i w'" "reads_only V i (w\<lparr>kern := k'\<rparr>) w'"
      "remaining V i w' = after_line (remaining V i w)"
    using read_line_loop [OF ok assms(2), of ?s] k'(4) by auto
  have "reads_only V i w w'" using k'(2) w'(7) by (rule reads_only_trans)
  with w' k' show ?thesis by (intro that [of w']) (auto simp: read_line_def Let_def first_line_def)
qed

text \<open>The rule for the loop over the lines. \<open>P\<close> relates the lines already handled to the state.\<close>

lemma each_line_rule_aux:
  assumes heap: "kernel_heap K V"
    and step: "\<And>pre l nl a w w'. P pre a w \<Longrightarrow> reads_only V i w w' \<Longrightarrow> stream_ok K V i w' \<Longrightarrow> (l, nl) \<in> set (split_lines bs) \<Longrightarrow>
      \<exists>a' w2. body l nl a w' = Some (a', w2) \<and> stream_ok K V i w2 \<and> remaining V i w2 = remaining V i w' \<and> P (pre @ [(l, nl)]) a' w2"
    and eof: "\<And>pre a w w'. P pre a w \<Longrightarrow> reads_only V i w w' \<Longrightarrow> stream_ok K V i w' \<Longrightarrow> P pre a w'"
    and "stream_ok K V i w" "P pre a w" "set (split_lines (remaining V i w)) \<subseteq> set (split_lines bs)"
  shows "\<exists>a' w'. each_line (read_line K (Some i)) body a w = Some (False, a', w') \<and> P (pre @ split_lines (remaining V i w)) a' w' \<and>
           stream_ok K V i w'"
  using assms(4-)
proof (induction "remaining V i w" arbitrary: pre a w rule: split_lines.induct)
  case (1 w)
  obtain w1 where w1: "read_line K (Some i) w = Some (if remaining V i w = [] then (0, [], False)
      else (1, first_line (remaining V i w), newline \<in> set (remaining V i w)), w1)"
    "stream_ok K V i w1" "reads_only V i w w1" "remaining V i w1 = after_line (remaining V i w)"
    by (rule read_line_ok [OF 1(2) heap])
  show ?case
  proof (cases "remaining V i w = []")
    case True
    with w1 eof [OF 1(3) w1(3,2)] show ?thesis by (subst each_line.simps) simp
  next
    case False
    let ?l = "first_line (remaining V i w)" and ?nl = "newline \<in> set (remaining V i w)"
    note sl = split_lines_Cons [OF False]
    obtain a' w2 where b: "body ?l ?nl a w1 = Some (a', w2)" "stream_ok K V i w2" "remaining V i w2 = remaining V i w1"
        "P (pre @ [(?l, ?nl)]) a' w2"
      using step [OF 1(3) w1(3,2), of ?l ?nl] 1(4) by (auto simp: sl)
    have "each_line (read_line K (Some i)) body a w = each_line (read_line K (Some i)) body a' w2"
      using w1(1) b(1) False by (subst each_line.simps) simp
    moreover have "\<exists>a'' w'. each_line (read_line K (Some i)) body a' w2 = Some (False, a'', w') \<and>
        P ((pre @ [(?l, ?nl)]) @ split_lines (remaining V i w2)) a'' w' \<and> stream_ok K V i w'"
      using 1(1) [OF False _ b(2,4)] b(3) w1(4) 1(4) by (simp add: sl)
    ultimately show ?thesis using b(3) w1(4) by (simp add: sl)
  qed
qed

lemmas each_line_rule = each_line_rule_aux [where pre = "[]", unfolded append_Nil]

section \<open>Printing lines\<close>

lemma kernel_writes_weaken: "kernel_writes K V \<Longrightarrow> kernel_writes_some K V"
  unfolding kernel_writes_def kernel_writes_some_def by (metis length_greater_0_conv order.refl take_all_iff)

lemma fwrite_stdout:
  assumes "io_ok K V i w" "length bs < 2 ^ 64"
  obtains w' where "fwrite K bs 1 (length bs) stdout w = (length bs, w')" "writes_out K V i bs w w'"
proof (cases "bs = []")
  case True
  with assms(1) show ?thesis by (intro that [of w]) (auto simp: fwrite_def intro: writes_out_refl)
next
  case False
  let ?k = "snd (snd (sys_write K (kern w) 1 bs))"
  obtain w' where w': "write_out K 1 bs w = (E_SUCCESS, length bs, w')" "writes_out K V i bs w w'"
    by (rule write_out_ok [OF assms(1) False])
  have fd: "fd (files w 1) = 1" using assms(1) by (simp add: io_ok_def)
  have "fwrite_loop K 1 bs (length bs) 0 w = fwrite_loop K 1 bs (length bs) (length bs) w'"
    using False w'(1) fd by (subst fwrite_loop.simps) simp
  also have "\<dots> = (length bs, w')" by (subst fwrite_loop.simps) simp
  finally show ?thesis
    using False assms(2) fd w'(2) by (intro that [of w']) (auto simp: fwrite_def size_mul_def)
qed

lemma io_ok_reads: "io_ok K V i w \<Longrightarrow> reads_only V i w w' \<Longrightarrow> stream_ok K V i w' \<Longrightarrow> io_ok K V i w'"
  by (cases "i = 1") (auto simp: io_ok_def reads_only_def)

lemma printed_reads: "reads_only V i w w' \<Longrightarrow> printed V w' = printed V w"
  by (simp add: reads_only_def printed_def)

lemma ferror_reads: "reads_only V i w w' \<Longrightarrow> error (files w' i) = error (files w i)"
  by (simp add: reads_only_def)

lemma io_ok_stream: "io_ok K V i w \<Longrightarrow> stream_ok K V i w"
  by (simp add: io_ok_def)

lemma ram_kernel_heap [simp]: "kernel_heap ram_kernel ram_view"
  by (simp add: kernel_heap_def ram_kernel_def null_kernel_def)

text \<open>The state of a program that reads stream i and prints: what it has printed since \<open>w0\<close>.\<close>

definition prints :: "'k kernel \<Rightarrow> 'k view \<Rightarrow> nat \<Rightarrow> 'k world \<Rightarrow> byte list \<Rightarrow> 'k world \<Rightarrow> bool" where
  "prints K V i w0 bs w \<longleftrightarrow> io_ok K V i w \<and> printed V w = printed V w0 @ bs \<and> error (files w i) = error (files w0 i)"

lemma prints_refl: "io_ok K V i w \<Longrightarrow> prints K V i w [] w"
  by (simp add: prints_def)

lemma prints_reads: "prints K V i w0 bs w \<Longrightarrow> reads_only V i w w' \<Longrightarrow> stream_ok K V i w' \<Longrightarrow> prints K V i w0 bs w'"
  by (auto simp: prints_def printed_reads ferror_reads intro: io_ok_reads)

lemma prints_writes: "prints K V i w0 bs w \<Longrightarrow> writes_out K V i cs w w' \<Longrightarrow> prints K V i w0 (bs @ cs) w'"
  by (simp add: prints_def writes_out_def)

lemma prints_io: "prints K V i w0 bs w \<Longrightarrow> io_ok K V i w"
  by (simp add: prints_def)

lemma prints_stream: "prints K V i w0 bs w \<Longrightarrow> stream_ok K V i w"
  by (simp add: prints_def io_ok_def)

lemma writes_out_rem: "writes_out K V i cs w w' \<Longrightarrow> remaining V i w' = remaining V i w"
  by (simp add: writes_out_def)

text \<open>Writing one more piece.\<close>

lemma prints_fputc:
  assumes "prints K V i w0 bs w"
  shows "prints K V i w0 (bs @ [to_char c]) (snd (fputc K c stdout w)) \<and>
    remaining V i (snd (fputc K c stdout w)) = remaining V i w"
  by (rule fputc_stdout [OF prints_io [OF assms], of c])
    (use assms in \<open>auto intro: prints_writes dest: writes_out_rem\<close>)

lemma prints_putchar:
  "prints K V i w0 bs w \<Longrightarrow> prints K V i w0 (bs @ [c]) (snd (fputc K (uchar c) stdout w))"
  using prints_fputc [of K V i w0 bs w "uchar c"] by simp

lemma prints_fwrite:
  assumes "prints K V i w0 bs w" "length cs < 2 ^ 64"
  shows "prints K V i w0 (bs @ cs) (snd (fwrite K cs 1 (length cs) stdout w)) \<and>
    remaining V i (snd (fwrite K cs 1 (length cs) stdout w)) = remaining V i w"
  by (rule fwrite_stdout [OF prints_io [OF assms(1)] assms(2)])
    (use assms in \<open>auto intro: prints_writes dest: writes_out_rem\<close>)

lemma prints_printf:
  assumes "prints K V i w0 bs w" "format_text fmt args = Some t" "length t \<le> 511"
  obtains r w' where "printf K fmt args w = Some (r, w')" "prints K V i w0 (bs @ t) w'" "remaining V i w' = remaining V i w"
proof -
  have "length t < 2 ^ 31" using assms(3) by simp
  then obtain w' where "printf K fmt args w = Some (int (length t), w')" "writes_out K V i (take 511 t) w w'"
    by (rule printf_text [OF prints_io [OF assms(1)] assms(2)])
  with assms that show ?thesis by (auto intro: prints_writes dest: writes_out_rem)
qed

lemma prints_if_fputc:
  assumes "prints K V i w0 bs w"
  shows "prints K V i w0 (bs @ (if b then [c] else [])) (if b then snd (fputc K (uchar c) stdout w) else w) \<and>
    remaining V i (if b then snd (fputc K (uchar c) stdout w) else w) = remaining V i w"
  using assms prints_fputc [OF assms, of "uchar c"] by simp

end
