(* ===== verification/Cat.thy ===== *)
theory Cat
  imports Lines Getopt
begin

text \<open>
  \<open>userspace/cat.c\<close>: copying streams to the standard output, with the numbering, squeezing and
  end-of-line options.
\<close>

section \<open>The program\<close>

record cat_opts =
  number_lines :: bool
  number_nonblank :: bool
  squeeze_blank :: bool
  show_ends :: bool

definition cat_print_help :: "'k kernel \<Rightarrow> 'k world \<Rightarrow> (unit \<times> 'k world) option" where
  "cat_print_help K w = printf_all K [
     ''Usage: cat [OPTION]... [FILE]...\<newline>'',
     ''Concatenate FILE(s) to standard output.\<newline>\<newline>'',
     ''With no FILE, or when FILE is -, read standard input.\<newline>\<newline>'',
     ''  -A            equivalent to -E\<newline>'',
     ''  -b            number nonempty output lines\<newline>'',
     ''  -E            display $ at end of each line\<newline>'',
     ''  -n            number all output lines\<newline>'',
     ''  -s            suppress repeated empty output lines\<newline>'',
     ''  -h, --help    display this help and exit\<newline>''] w"

definition number_format :: string where
  "number_format = ''%6lld'' @ [CHR 0x09]"

definition cat_number :: "'k kernel \<Rightarrow> bool \<Rightarrow> int \<Rightarrow> 'k world \<Rightarrow> (int \<times> 'k world) option" where
  "cat_number K do_number lineno w =
     (if do_number then do {
        (_, w') \<leftarrow> printf K number_format [VLong lineno] w;
        Some (int64 (lineno + 1), w')
      } else Some (lineno, w))"

definition cat_write :: "'k kernel \<Rightarrow> cat_opts \<Rightarrow> byte list \<Rightarrow> bool \<Rightarrow> 'k world \<Rightarrow> 'k world" where
  "cat_write K opts line nl w =
     (let w1 = snd (fwrite K line 1 (length line) stdout w);
          w2 = (if show_ends opts then snd (fputc K (uchar (CHR ''$'')) stdout w1) else w1)
      in if nl then snd (fputc K (uchar newline) stdout w2) else w2)"

definition cat_line :: "'k kernel \<Rightarrow> cat_opts \<Rightarrow> byte list \<Rightarrow> bool \<Rightarrow> int \<times> bool \<Rightarrow> 'k world \<Rightarrow>
    ((int \<times> bool) \<times> 'k world) option" where
  "cat_line K opts line nl st w =
     (let (lineno, prev_blank) = st;
          is_blank = (length line = 0);
          do_number = (if number_nonblank opts then \<not> is_blank else number_lines opts)
      in if squeeze_blank opts \<and> is_blank \<and> prev_blank then Some ((lineno, prev_blank), w)
         else do {
           (lineno', w1) \<leftarrow> cat_number K do_number lineno w;
           Some ((lineno', is_blank), cat_write K opts line nl w1)
         })"

definition cat_stream :: "'k kernel \<Rightarrow> fptr \<Rightarrow> cat_opts \<Rightarrow> int \<times> bool \<Rightarrow> 'k world \<Rightarrow>
    (int \<times> (int \<times> bool) \<times> 'k world) option" where
  "cat_stream K f opts st w = do {
     (oom, st', w1) \<leftarrow> each_line (read_line K f) (cat_line K opts) st w;
     if oom then do {
       (_, w2) \<leftarrow> fprintf K stderr ''cat: out of memory\<newline>'' [] w1;
       Some (1, st', w2)
     } else Some (if ferror f w1 then 1 else 0, st', w1)
   }"

definition cat_long_opts :: "long_option list" where
  "cat_long_opts = [\<lparr>opt_name = ''help'', has_arg = no_argument, opt_flag = None, opt_val = uchar (CHR ''h'')\<rparr>]"

definition cat_option :: "'k kernel \<Rightarrow> int \<Rightarrow> string option \<Rightarrow> cat_opts \<Rightarrow> 'k world \<Rightarrow>
    (int option \<times> cat_opts \<times> 'k world) option" where
  "cat_option K opt arg opts w =
     (if opt = uchar (CHR ''n'') then Some (None, opts\<lparr>number_lines := True\<rparr>, w)
      else if opt = uchar (CHR ''b'') then Some (None, opts\<lparr>number_nonblank := True\<rparr>, w)
      else if opt = uchar (CHR ''s'') then Some (None, opts\<lparr>squeeze_blank := True\<rparr>, w)
      else if opt = uchar (CHR ''E'') \<or> opt = uchar (CHR ''A'') then Some (None, opts\<lparr>show_ends := True\<rparr>, w)
      else if opt = uchar (CHR ''h'') then do { (_, w') \<leftarrow> cat_print_help K w; Some (Some 0, opts, w') }
      else Some (Some 1, opts, w))"

text \<open>The loop over the operands; \<open>fail\<close> accumulates the failures.\<close>

fun cat_files :: "'k kernel \<Rightarrow> cat_opts \<Rightarrow> string list \<Rightarrow> int \<Rightarrow> int \<times> bool \<Rightarrow> 'k world \<Rightarrow> (int \<times> 'k world) option" where
  "cat_files K opts [] fail st w = Some (fail, w)"
| "cat_files K opts (path # paths) fail st w =
     (let is_stdin = (path = ''-'');
          (sst, s, k) = (if is_stdin then (E_INVALID, \<lparr>st_size = 0, st_mode = 0, st_type = 0\<rparr>, kern w)
                         else sys_stat K (kern w) path STAT_FOLLOW_FLAG);
          w1 = w\<lparr>kern := k\<rparr>
      in if \<not> is_stdin \<and> sst = E_SUCCESS \<and> is_dir_mode (st_mode s) then do {
           (_, w2) \<leftarrow> fprintf K stderr ''cat: %s: Is a directory\<newline>'' [VStr (Some path)] w1;
           cat_files K opts paths 1 st w2
         } else
           let (f, w2) = (if is_stdin then (stdin, w1) else fopen K (Some path) (Some ''r'') w1)
           in if f = None then do {
                (_, w3) \<leftarrow> fprintf K stderr ''cat: %s: No such file or directory\<newline>'' [VStr (Some path)] w2;
                cat_files K opts paths 1 st w3
              } else do {
                (r, st', w3) \<leftarrow> cat_stream K f opts st w2;
                let w4 = (if is_stdin then w3 else snd (fclose K f w3));
                cat_files K opts paths (or fail r) st' w4
              })"

definition cat_main :: "'k kernel \<Rightarrow> string list \<Rightarrow> 'k world \<Rightarrow> (int \<times> 'k world) option" where
  "cat_main K argv w = do {
     (ret, opts, g, w1) \<leftarrow> getopt_loop (getopt_long K argv ''nbsEAh'' cat_long_opts) (cat_option K)
       \<lparr>number_lines = False, number_nonblank = False, squeeze_blank = False, show_ends = False\<rparr> getopt_init w;
     case ret of
       Some r \<Rightarrow> Some (r, w1)
     | None \<Rightarrow>
         if optind g \<ge> length argv then do {
           (r, _, w2) \<leftarrow> cat_stream K stdin opts (1, False) w1;
           Some (if or 0 r \<noteq> 0 then 1 else 0, w2)
         } else do {
           (fail, w2) \<leftarrow> cat_files K opts (drop (optind g) argv) 0 (1, False) w1;
           Some (if fail \<noteq> 0 then 1 else 0, w2)
         }
   }"

section \<open>What cat prints\<close>

definition number_text :: "int \<Rightarrow> byte list" where
  "number_text n = int_text 6 False False (int64 n) @ [CHR 0x09]"

text \<open>The text of a line, and of a sequence of lines, under the options, from a line number and the
  blankness of the line printed before.\<close>

definition numbered :: "cat_opts \<Rightarrow> byte list \<Rightarrow> bool" where
  "numbered opts line = (if number_nonblank opts then line \<noteq> [] else number_lines opts)"

definition cat_line_text :: "cat_opts \<Rightarrow> byte list \<times> bool \<Rightarrow> int \<times> bool \<Rightarrow> byte list \<times> int \<times> bool" where
  "cat_line_text opts l st =
     (let (line, nl) = l; (lineno, prev_blank) = st in
      if squeeze_blank opts \<and> line = [] \<and> prev_blank then ([], st)
      else ((if numbered opts line then number_text lineno else []) @ line @
              (if show_ends opts then ''$'' else []) @ (if nl then [newline] else []),
            if numbered opts line then int64 (lineno + 1) else lineno, line = []))"

fun cat_text :: "cat_opts \<Rightarrow> (byte list \<times> bool) list \<Rightarrow> int \<times> bool \<Rightarrow> byte list \<times> int \<times> bool" where
  "cat_text opts [] st = ([], st)"
| "cat_text opts (l # ls) st =
     (let (t1, st1) = cat_line_text opts l st; (t2, st2) = cat_text opts ls st1 in (t1 @ t2, st2))"

lemma format_number: "format_text number_format [VLong n] = Some (number_text n)"
proof -
  have "parse_spec (''6lld'' @ [CHR 0x09]) = (False, False, 6, True, ''d'' @ [CHR 0x09])" by code_simp
  from format_text_spec [OF this [unfolded append_Cons append_Nil], of "[VLong n]" "int_text 6 False False (int64 n)" "[]"]
  show ?thesis by (simp add: number_format_def number_text_def conv_text_def format_simps)
qed

lemma length_number_text: "length (number_text n) \<le> 28"
  using length_int_text [of 6 False False "int64 n"] by (simp add: number_text_def)

lemma cat_text_snoc:
  "cat_text opts (ls @ [l]) st =
     (let (t1, st1) = cat_text opts ls st; (t2, st2) = cat_line_text opts l st1 in (t1 @ t2, st2))"
  by (induction ls arbitrary: st) (auto simp: Let_def split: prod.splits)

lemma cat_number_prints:
  assumes "prints K V i w0 bs w"
  obtains w' where "cat_number K b n w = Some (if b then int64 (n + 1) else n, w')"
    "prints K V i w0 (bs @ (if b then number_text n else [])) w'" "remaining V i w' = remaining V i w"
proof (cases b)
  case True
  have len: "length (number_text n) \<le> 511" using length_number_text [of n] by simp
  show ?thesis
    by (rule prints_printf [OF assms format_number len]) (use True that in \<open>auto simp: cat_number_def\<close>)
qed (use assms that in \<open>auto simp: cat_number_def\<close>)

lemma cat_write_prints:
  assumes "prints K V i w0 bs w" "length line < 2 ^ 64"
  shows "prints K V i w0 (bs @ line @ (if show_ends opts then ''$'' else []) @ (if nl then [newline] else []))
      (cat_write K opts line nl w) \<and> remaining V i (cat_write K opts line nl w) = remaining V i w"
proof -
  note p1 = prints_fwrite [OF assms]
  note p2 = prints_if_fputc [OF p1 [THEN conjunct1], of "show_ends opts" "CHR ''$''"]
  note p3 = prints_if_fputc [OF p2 [THEN conjunct1], of nl newline]
  show ?thesis using p1 p2 p3 by (simp only: cat_write_def Let_def append_assoc)
qed

lemma cat_line_prints:
  assumes "prints K V i w0 bs w" "length line < 2 ^ 64"
  shows "\<exists>w'. cat_line K opts line nl st w = Some (snd (cat_line_text opts (line, nl) st), w') \<and>
    prints K V i w0 (bs @ fst (cat_line_text opts (line, nl) st)) w' \<and> remaining V i w' = remaining V i w"
proof -
  obtain lineno pb where st: "st = (lineno, pb)" by (cases st)
  show ?thesis
  proof (cases "squeeze_blank opts \<and> line = [] \<and> pb")
    case True
    with assms(1) show ?thesis by (simp add: cat_line_def cat_line_text_def st)
  next
    case False
    let ?num = "numbered opts line"
    obtain w1 where w1: "cat_number K ?num lineno w = Some (if ?num then int64 (lineno + 1) else lineno, w1)"
        "prints K V i w0 (bs @ (if ?num then number_text lineno else [])) w1" "remaining V i w1 = remaining V i w"
      by (rule cat_number_prints [OF assms(1), where b = ?num and n = lineno])
    have "cat_line K opts line nl st w =
        Some ((if ?num then int64 (lineno + 1) else lineno, line = []), cat_write K opts line nl w1)"
      using False w1(1) by (auto simp: cat_line_def st numbered_def)
    moreover have "cat_line_text opts (line, nl) st = ((if ?num then number_text lineno else []) @ line @
        (if show_ends opts then ''$'' else []) @ (if nl then [newline] else []),
        if ?num then int64 (lineno + 1) else lineno, line = [])"
      using False by (auto simp: cat_line_text_def st)
    ultimately show ?thesis using cat_write_prints [OF w1(2) assms(2), of opts nl] w1(3) by simp
  qed
qed

text \<open>The stream as a whole.\<close>

lemma cat_stream_prints:
  assumes "io_ok K V i w" "kernel_heap K V" "length (remaining V i w) < 2 ^ 64" "\<not> error (files w i)"
  obtains w' where "cat_stream K (Some i) opts st w = Some (0, snd (cat_text opts (split_lines (remaining V i w)) st), w')"
    "prints K V i w (fst (cat_text opts (split_lines (remaining V i w)) st)) w'"
proof -
  let ?P = "\<lambda>pre a w'. prints K V i w (fst (cat_text opts pre st)) w' \<and> a = snd (cat_text opts pre st)"
  have "\<exists>a' w'. each_line (read_line K (Some i)) (cat_line K opts) st w = Some (False, a', w') \<and>
      ?P (split_lines (remaining V i w)) a' w' \<and> stream_ok K V i w'"
  proof (rule each_line_rule [OF assms(2), where P = ?P and bs = "remaining V i w"])
    fix pre l nl a u u'
    assume p: "prints K V i w (fst (cat_text opts pre st)) u \<and> a = snd (cat_text opts pre st)"
      and r: "reads_only V i u u'" "stream_ok K V i u'" and l: "(l, nl) \<in> set (split_lines (remaining V i w))"
    have p': "prints K V i w (fst (cat_text opts pre st)) u'" using p r prints_reads by blast
    have len: "length l < 2 ^ 64" using split_lines_lengths [OF l] assms(3) by simp
    from cat_line_prints [OF p' len, of opts nl a] p
    show "\<exists>a' u2. cat_line K opts l nl a u' = Some (a', u2) \<and> stream_ok K V i u2 \<and> remaining V i u2 = remaining V i u' \<and>
        prints K V i w (fst (cat_text opts (pre @ [(l, nl)]) st)) u2 \<and> a' = snd (cat_text opts (pre @ [(l, nl)]) st)"
      by (auto simp: cat_text_snoc Let_def prints_def dest: io_ok_stream split: prod.splits)
  next
    fix pre a u u'
    assume "?P pre a u" "reads_only V i u u'" "stream_ok K V i u'"
    then show "?P pre a u'" using prints_reads by blast
  qed (use assms in \<open>auto intro: prints_refl io_ok_stream\<close>)
  then obtain a' w' where "each_line (read_line K (Some i)) (cat_line K opts) st w = Some (False, a', w')"
      "?P (split_lines (remaining V i w)) a' w'" by blast
  moreover from this assms(4) have "\<not> error (files w' i)" by (simp add: prints_def)
  ultimately show ?thesis by (intro that [of w']) (auto simp: cat_stream_def ferror_def)
qed

section \<open>Properties\<close>

lemma cat_text_plain:
  assumes "\<not> number_lines opts" "\<not> number_nonblank opts" "\<not> squeeze_blank opts" "\<not> show_ends opts"
  shows "fst (cat_text opts ls st) = concat (map line_text ls)"
proof (induction ls arbitrary: st)
  case (Cons l ls)
  have "fst (cat_line_text opts l st) = line_text l"
    using assms by (cases l; cases st) (simp add: cat_line_text_def numbered_def line_text_def)
  with Cons.IH show ?case by (simp add: split_beta Let_def)
qed simp

text \<open>C26. \<open>cat\<close> prints its standard input: every line under the options given (numbered, squeezed, ended
  with \<open>$\<close>), a last line without newline included, and without options the input byte for byte. It
  returns 0.\<close>

theorem cat_stream_correct:
  assumes "io_ok K V i w" "kernel_heap K V" "length (remaining V i w) < 2 ^ 64" "\<not> error (files w i)"
  shows "\<exists>w'. cat_stream K (Some i) opts st w =
      Some (0, snd (cat_text opts (split_lines (remaining V i w)) st), w') \<and>
    printed V w' = printed V w @ fst (cat_text opts (split_lines (remaining V i w)) st) \<and>
    (\<not> number_lines opts \<and> \<not> number_nonblank opts \<and> \<not> squeeze_blank opts \<and> \<not> show_ends opts \<longrightarrow>
       printed V w' = printed V w @ remaining V i w)"
  by (rule cat_stream_prints [OF assms, of opts st])
    (auto simp: prints_def cat_text_plain concat_split_lines)

theorem cat_stream_correct_witness:
  "\<exists>w'. cat_stream ram_kernel stdin \<lparr>number_lines = True, number_nonblank = False, squeeze_blank = True, show_ends = False\<rparr>
       (1, False) (ram_world (''a'' @ [newline, newline, newline] @ ''b'')) = Some (0, (4, False), w') \<and>
     printed ram_view w' = ''     1'' @ [CHR 0x09] @ ''a'' @ [newline] @ ''     2'' @ [CHR 0x09, newline] @
       ''     3'' @ [CHR 0x09] @ ''b''"
proof -
  let ?o = "\<lparr>number_lines = True, number_nonblank = False, squeeze_blank = True, show_ends = False\<rparr>"
  let ?b = "''a'' @ [newline, newline, newline] @ ''b''"
  have tx: "cat_text ?o (split_lines ?b) (1, False) = (''     1'' @ [CHR 0x09] @ ''a'' @ [newline] @ ''     2'' @
      [CHR 0x09, newline] @ ''     3'' @ [CHR 0x09] @ ''b'', 4, False)" by code_simp
  have "\<not> error (files (ram_world ?b) 0)" by (simp add: ram_world_def unbound_file_def)
  with tx show ?thesis
    using cat_stream_correct [of ram_kernel ram_view 0 "ram_world ?b" ?o "(1, False)"]
    by (simp only: ram_world_io_ok ram_kernel_heap ram_world_remaining ram_world_printed) auto
qed

end
