(* ===== verification/Wc.thy ===== *)
theory Wc
  imports Lines Getopt
begin

text \<open>
  \<open>userspace/wc.c\<close>: counting the lines, words and bytes of streams, and the table it prints.
\<close>

section \<open>The program\<close>

record wc_opts =
  o_lines :: bool
  o_words :: bool
  o_chars :: bool
  o_bytes :: bool
  o_max_line_length :: bool

record wc_result =
  r_lines :: int
  r_words :: int
  r_chars :: int
  r_bytes :: int
  r_max_line_length :: int
  r_name :: string
  r_has_name :: bool

definition wc_zero :: wc_result where
  "wc_zero = \<lparr>r_lines = 0, r_words = 0, r_chars = 0, r_bytes = 0, r_max_line_length = 0, r_name = [], r_has_name = False\<rparr>"

definition wc_print_help :: "'k kernel \<Rightarrow> 'k world \<Rightarrow> (unit \<times> 'k world) option" where
  "wc_print_help K w = printf_all K [
     ''Usage: wc [OPTION]... [FILE]...\<newline>'',
     ''Print newline, word, and byte counts for each FILE, and a total line if\<newline>'',
     ''more than one FILE is specified.\<newline>\<newline>'',
     ''With no FILE, or when FILE is -, read standard input.\<newline>\<newline>'',
     ''  -c, --bytes             print the byte counts\<newline>'',
     ''  -m, --chars             print the character counts\<newline>'',
     ''  -l, --lines             print the newline counts\<newline>'',
     ''  -L, --max-line-length   print the maximum display width\<newline>'',
     ''  -w, --words             print the word counts\<newline>'',
     ''  -h, --help              display this help and exit\<newline>''] w"

text \<open>The body of the loop of \<open>wc_count\<close>, on its variables \<open>in_word\<close>, \<open>line_len\<close> and \<open>*r\<close>.\<close>

definition wc_max_line :: "int \<Rightarrow> wc_result \<Rightarrow> wc_result" where
  "wc_max_line line_len r = (if line_len > r_max_line_length r then r\<lparr>r_max_line_length := line_len\<rparr> else r)"

definition wc_step :: "int \<Rightarrow> bool \<times> int \<times> wc_result \<Rightarrow> bool \<times> int \<times> wc_result" where
  "wc_step c s =
     (let (in_word, line_len, r) = s;
          r1 = r\<lparr>r_bytes := uint64 (r_bytes r + 1), r_chars := uint64 (r_chars r + 1)\<rparr>;
          (in_word', r2) = (if isspace c then (False, r1)
                            else if \<not> in_word then (True, r1\<lparr>r_words := uint64 (r_words r1 + 1)\<rparr>)
                            else (in_word, r1))
      in if c = uchar newline
         then (in_word', 0, wc_max_line line_len (r2\<lparr>r_lines := uint64 (r_lines r2 + 1)\<rparr>))
         else (in_word', uint64 (line_len + 1), r2))"

definition wc_count :: "'k kernel \<Rightarrow> fptr \<Rightarrow> wc_result \<Rightarrow> 'k world \<Rightarrow> (int \<times> wc_result \<times> 'k world) option" where
  "wc_count K f r w = do {
     ((in_word, line_len, r'), w') \<leftarrow> while_getc (fgetc K f) (\<lambda>c s w. Some (False, wc_step c s, w)) (False, 0, r) w;
     Some (if ferror f w' then 1 else 0, wc_max_line line_len r', w')
   }"

function count_digits :: "int \<Rightarrow> int" where
  "count_digits v = (if v \<ge> 10 then count_digits (v div 10) + 1 else 1)"
  by pat_completeness auto
termination
  by (relation "measure nat") auto

declare count_digits.simps [simp del]

text \<open>The columns of a row: the flag and the value of each.\<close>

definition wc_columns :: "wc_opts \<Rightarrow> wc_result \<Rightarrow> (bool \<times> int) list" where
  "wc_columns opts r = [(o_lines opts, r_lines r), (o_words opts, r_words r), (o_chars opts, r_chars r),
     (o_bytes opts, r_bytes r), (o_max_line_length opts, r_max_line_length r)]"

fun print_columns :: "'k kernel \<Rightarrow> string \<Rightarrow> (bool \<times> int) list \<Rightarrow> bool \<Rightarrow> 'k world \<Rightarrow> (unit \<times> 'k world) option" where
  "print_columns K fmt [] any w = Some ((), w)"
| "print_columns K fmt ((flag, v) # cols) any w =
     (if flag then do {
        let w1 = (if any then snd (fputc K (uchar (CHR '' '')) stdout w) else w);
        (_, w2) \<leftarrow> printf K fmt [VLong v] w1;
        print_columns K fmt cols True w2
      } else print_columns K fmt cols any w)"

definition print_row :: "'k kernel \<Rightarrow> wc_opts \<Rightarrow> wc_result \<Rightarrow> int \<Rightarrow> 'k world \<Rightarrow> (unit \<times> 'k world) option" where
  "print_row K opts r width w = do {
     fmt \<leftarrow> snprintf_str 16 ''%%%dllu'' [VInt width];
     (_, w1) \<leftarrow> print_columns K fmt (wc_columns opts r) False w;
     (_, w2) \<leftarrow> (if r_has_name r then printf K '' %s'' [VStr (Some (r_name r))] w1 else Some (0, w1));
     (_, w3) \<leftarrow> printf K ''\<newline>'' [] w2;
     Some ((), w3)
   }"

definition wc_long_opts :: "long_option list" where
  "wc_long_opts = map (\<lambda>(n, c). \<lparr>opt_name = n, has_arg = no_argument, opt_flag = None, opt_val = uchar c\<rparr>)
     [(''bytes'', CHR ''c''), (''chars'', CHR ''m''), (''lines'', CHR ''l''), (''max-line-length'', CHR ''L''),
      (''words'', CHR ''w''), (''help'', CHR ''h'')]"

definition wc_option :: "'k kernel \<Rightarrow> int \<Rightarrow> string option \<Rightarrow> wc_opts \<Rightarrow> 'k world \<Rightarrow>
    (int option \<times> wc_opts \<times> 'k world) option" where
  "wc_option K opt arg opts w =
     (if opt = uchar (CHR ''c'') then Some (None, opts\<lparr>o_bytes := True\<rparr>, w)
      else if opt = uchar (CHR ''m'') then Some (None, opts\<lparr>o_chars := True\<rparr>, w)
      else if opt = uchar (CHR ''l'') then Some (None, opts\<lparr>o_lines := True\<rparr>, w)
      else if opt = uchar (CHR ''L'') then Some (None, opts\<lparr>o_max_line_length := True\<rparr>, w)
      else if opt = uchar (CHR ''w'') then Some (None, opts\<lparr>o_words := True\<rparr>, w)
      else if opt = uchar (CHR ''h'') then do { (_, w') \<leftarrow> wc_print_help K w; Some (Some 0, opts, w') }
      else Some (Some 1, opts, w))"

definition wc_default_opts :: "wc_opts \<Rightarrow> wc_opts" where
  "wc_default_opts opts =
     (if \<not> (o_lines opts \<or> o_words opts \<or> o_chars opts \<or> o_bytes opts \<or> o_max_line_length opts)
      then opts\<lparr>o_lines := True, o_words := True, o_bytes := True\<rparr> else opts)"

definition sizeof_wc_result :: nat where "sizeof_wc_result = 304"

text \<open>The loop over the operands, with the results collected so far and the capacity of their array.
  When the array cannot grow the loop is left.\<close>

fun wc_files :: "'k kernel \<Rightarrow> string list \<Rightarrow> int \<Rightarrow> nat \<Rightarrow> wc_result list \<Rightarrow> 'k world \<Rightarrow>
    (int \<times> wc_result list \<times> 'k world) option" where
  "wc_files K [] fail cap results w = Some (fail, results, w)"
| "wc_files K (path # paths) fail cap results w =
     (let is_stdin = (path = ''-'');
          (sst, s, k) = (if is_stdin then (E_INVALID, \<lparr>st_size = 0, st_mode = 0, st_type = 0\<rparr>, kern w)
                         else sys_stat K (kern w) path STAT_FOLLOW_FLAG);
          w1 = w\<lparr>kern := k\<rparr>
      in if \<not> is_stdin \<and> sst = E_SUCCESS \<and> is_dir_mode (st_mode s) then do {
           (_, w2) \<leftarrow> fprintf K stderr ''wc: %s: Is a directory\<newline>'' [VStr (Some path)] w1;
           wc_files K paths 1 cap results w2
         } else
           let (f, w2) = (if is_stdin then (stdin, w1) else fopen K (Some path) (Some ''r'') w1)
           in if f = None then do {
                (_, w3) \<leftarrow> fprintf K stderr ''wc: %s: No such file or directory\<newline>'' [VStr (Some path)] w2;
                wc_files K paths 1 cap results w3
              } else do {
                (b, r, w3) \<leftarrow> wc_count K f wc_zero w2;
                nm \<leftarrow> snprintf_str PATH_MAX ''%s'' [VStr (Some path)];
                let r' = r\<lparr>r_name := nm, r_has_name := True\<rparr>;
                let fail' = or fail b;
                let cap' = (if length results = cap then size_mul cap 2 else cap);
                let (ok, k4) = (if length results = cap then heap_ok K (kern w3) (size_mul cap' sizeof_wc_result)
                                else (True, kern w3));
                let w4 = w3\<lparr>kern := k4\<rparr>;
                if \<not> ok then do {
                  (_, w5) \<leftarrow> fprintf K stderr ''wc: out of memory\<newline>'' [] w4;
                  Some (1, results, w5)
                } else wc_files K paths fail' cap' (results @ [r']) (if is_stdin then w4 else snd (fclose K f w4))
              })"

definition wc_add :: "wc_result \<Rightarrow> wc_result \<Rightarrow> wc_result" where
  "wc_add tot r = wc_max_line (r_max_line_length r)
     (tot\<lparr>r_lines := uint64 (r_lines tot + r_lines r), r_words := uint64 (r_words tot + r_words r),
          r_chars := uint64 (r_chars tot + r_chars r), r_bytes := uint64 (r_bytes tot + r_bytes r)\<rparr>)"

definition wc_widen :: "wc_opts \<Rightarrow> wc_result \<Rightarrow> int \<Rightarrow> int" where
  "wc_widen opts r widest = fold (\<lambda>(flag, v) widest. if flag \<and> v > widest then v else widest) (wc_columns opts r) widest"

fun print_rows :: "'k kernel \<Rightarrow> wc_opts \<Rightarrow> wc_result list \<Rightarrow> int \<Rightarrow> 'k world \<Rightarrow> (unit \<times> 'k world) option" where
  "print_rows K opts [] width w = Some ((), w)"
| "print_rows K opts (r # rs) width w = do { (_, w') \<leftarrow> print_row K opts r width w; print_rows K opts rs width w' }"

definition wc_report :: "'k kernel \<Rightarrow> wc_opts \<Rightarrow> wc_result list \<Rightarrow> 'k world \<Rightarrow> (unit \<times> 'k world) option" where
  "wc_report K opts results w = do {
     let tot = fold (\<lambda>r t. wc_add t r) results wc_zero;
     let show_total = (length results > 1);
     nm \<leftarrow> (if show_total then snprintf_str PATH_MAX ''total'' [] else Some []);
     let tot' = (if show_total then tot\<lparr>r_name := nm, r_has_name := True\<rparr> else tot);
     let widest = fold (wc_widen opts) results 1;
     let widest' = (if show_total then wc_widen opts tot' widest else widest);
     let width = count_digits widest';
     (_, w1) \<leftarrow> print_rows K opts results width w;
     if show_total then print_row K opts tot' width w1 else Some ((), w1)
   }"

definition wc_main :: "'k kernel \<Rightarrow> string list \<Rightarrow> 'k world \<Rightarrow> (int \<times> 'k world) option" where
  "wc_main K argv w = do {
     (ret, opts0, g, w1) \<leftarrow> getopt_loop (getopt_long K argv ''cmlLwh'' wc_long_opts) (wc_option K)
       \<lparr>o_lines = False, o_words = False, o_chars = False, o_bytes = False, o_max_line_length = False\<rparr> getopt_init w;
     case ret of
       Some r \<Rightarrow> Some (r, w1)
     | None \<Rightarrow> do {
         let opts = wc_default_opts opts0;
         let (ok, k) = heap_ok K (kern w1) (size_mul 8 sizeof_wc_result);
         let w2 = w1\<lparr>kern := k\<rparr>;
         if \<not> ok then do {
           (_, w3) \<leftarrow> fprintf K stderr ''wc: out of memory\<newline>'' [] w2;
           Some (1, w3)
         } else do {
           (fail, results, w3) \<leftarrow>
             (if optind g \<ge> length argv then do {
                (b, r, w') \<leftarrow> wc_count K stdin wc_zero w2;
                Some (or 0 b, [r], w')
              } else wc_files K (drop (optind g) argv) 0 8 [] w2);
           (_, w4) \<leftarrow> wc_report K opts results w3;
           Some (if fail \<noteq> 0 then 1 else 0, w4)
         }
       }
   }"

section \<open>What is counted\<close>

text \<open>Words start at the characters that are not space and follow a space or the start of the text;
  the lines are what lies between the newlines.\<close>

definition space :: "byte \<Rightarrow> bool" where
  "space c = isspace (uchar c)"

definition word_starts :: "byte \<Rightarrow> byte list \<Rightarrow> nat" where
  "word_starts p bs = length (filter (\<lambda>(a, c). space a \<and> \<not> space c) (zip (p # bs) bs))"

fun newline_fields :: "byte list \<Rightarrow> byte list list" where
  "newline_fields [] = [[]]"
| "newline_fields (c # cs) =
     (if c = newline then [] # newline_fields cs else (c # hd (newline_fields cs)) # tl (newline_fields cs))"

definition longest :: "nat \<Rightarrow> byte list \<Rightarrow> nat" where
  "longest n bs = fold max (map length (tl (newline_fields bs))) (n + length (hd (newline_fields bs)))"

lemma newline_fields_ne [simp]: "newline_fields bs \<noteq> []"
  by (cases bs) auto

lemma longest_simps:
  "longest n [] = n"
  "longest n (c # cs) = (if c = newline then max n (longest 0 cs) else longest (Suc n) cs)"
proof -
  have "fold max xs (max m k) = max m (fold max xs k)" for xs and m k :: nat
    by (induction xs arbitrary: k) (simp_all add: max.left_commute [of _ m])
  then show "longest n (c # cs) = (if c = newline then max n (longest 0 cs) else longest (Suc n) cs)"
    by (cases "newline_fields cs") (auto simp: longest_def max.commute)
qed (simp add: longest_def)

lemma wc_step_eq:
  assumes "uint64 (ll + 1) = ll + 1"
  shows "wc_step (uchar c) (\<not> space p, ll, r) =
    (\<not> space c, if c = newline then 0 else ll + 1,
     (if c = newline then wc_max_line ll else id)
       (r\<lparr>r_bytes := uint64 (r_bytes r + 1), r_chars := uint64 (r_chars r + 1),
          r_words := (if space p \<and> \<not> space c then uint64 (r_words r + 1) else r_words r),
          r_lines := (if c = newline then uint64 (r_lines r + 1) else r_lines r)\<rparr>))"
  using assms by (auto simp: wc_step_def Let_def space_def wc_max_line_def)

lemma word_starts_Cons:
  "word_starts p (c # cs) = (if space p \<and> \<not> space c then 1 else 0) + word_starts c cs"
  by (simp add: word_starts_def)

lemma wc_fold:
  assumes "fold (\<lambda>c. wc_step (uchar c)) bs (\<not> space p, int n, r) = (iw, ll, r')"
    and "int n + int (length bs) < 2 ^ 64" "0 \<le> r_words r" "0 \<le> r_lines r" "r_bytes r = r_chars r"
    and "r_words r \<le> r_bytes r" "r_lines r \<le> r_bytes r" "r_bytes r + int (length bs) < 2 ^ 64"
  shows "r_bytes r' = r_bytes r + int (length bs) \<and> r_chars r' = r_chars r + int (length bs) \<and>
    r_words r' = r_words r + int (word_starts p bs) \<and> r_lines r' = r_lines r + int (count_list bs newline) \<and>
    max ll (r_max_line_length r') = max (r_max_line_length r) (int (longest n bs)) \<and>
    r_name r' = r_name r \<and> r_has_name r' = r_has_name r"
  using assms
proof (induction bs arbitrary: p n r)
  case Nil
  then show ?case by (auto simp: word_starts_def longest_simps max.commute)
next
  case (Cons c cs)
  let ?n = "if c = newline then 0 else Suc n"
  let ?r = "r\<lparr>r_bytes := r_bytes r + 1, r_chars := r_chars r + 1,
          r_words := (if space p \<and> \<not> space c then r_words r + 1 else r_words r),
          r_lines := (if c = newline then r_lines r + 1 else r_lines r)\<rparr>"
  let ?r1 = "(if c = newline then wc_max_line (int n) else id) ?r"
  have u: "uint64 (int n + 1) = int n + 1" "uint64 (r_bytes r + 1) = r_bytes r + 1"
    "uint64 (r_words r + 1) = r_words r + 1" "uint64 (r_lines r + 1) = r_lines r + 1"
    using Cons.prems by (auto intro!: uint64_id)
  have "wc_step (uchar c) (\<not> space p, int n, r) = (\<not> space c, int ?n, ?r1)"
    unfolding wc_step_eq [OF u(1)] using u Cons.prems(5) by auto
  with Cons.prems(1) have fold: "fold (\<lambda>c. wc_step (uchar c)) cs (\<not> space c, int ?n, ?r1) = (iw, ll, r')" by simp
  have "r_bytes r' = r_bytes ?r1 + int (length cs) \<and> r_chars r' = r_chars ?r1 + int (length cs) \<and>
    r_words r' = r_words ?r1 + int (word_starts c cs) \<and> r_lines r' = r_lines ?r1 + int (count_list cs newline) \<and>
    max ll (r_max_line_length r') = max (r_max_line_length ?r1) (int (longest ?n cs)) \<and>
    r_name r' = r_name ?r1 \<and> r_has_name r' = r_has_name ?r1"
    by (rule Cons.IH [OF fold]) (use Cons.prems in \<open>auto simp: wc_max_line_def\<close>)
  then show ?case
    by (auto simp: word_starts_Cons longest_simps wc_max_line_def)
qed

section \<open>Properties\<close>

text \<open>C27. \<open>wc\<close> counts right: after the loop over a stream that can be read, the result holds the number of
  its newlines, the number of its words (where a character that is not space follows a space or the
  start), its length in bytes, and the length of the longest piece between newlines, the last,
  unterminated one included. Nothing is printed.\<close>

theorem wc_count_correct:
  assumes "stream_ok K V i w" "length (remaining V i w) < 2 ^ 64" "\<not> error (files w i)"
  shows "\<exists>w'. wc_count K (Some i) wc_zero w =
      Some (0, \<lparr>r_lines = int (count_list (remaining V i w) newline),
                r_words = int (word_starts (CHR '' '') (remaining V i w)),
                r_chars = int (length (remaining V i w)), r_bytes = int (length (remaining V i w)),
                r_max_line_length = int (longest 0 (remaining V i w)), r_name = [], r_has_name = False\<rparr>, w') \<and>
    remaining V i w' = [] \<and> reads_only V i w w'"
proof -
  let ?bs = "remaining V i w"
  obtain iw ll r' where fold: "fold (\<lambda>c. wc_step (uchar c)) ?bs (False, 0, wc_zero) = (iw, ll, r')"
    by (metis prod_cases3)
  obtain w' where w': "while_getc (fgetc K (Some i)) (\<lambda>c s w. Some (False, wc_step c s, w)) (False, 0, wc_zero) w
      = Some ((iw, ll, r'), w')" "remaining V i w' = []" "reads_only V i w w'"
    using fgetc_stream.while_getc_fold [where body = "\<lambda>c s w. Some (False, wc_step c s, w)" and g = wc_step
        and a = "(False, 0, wc_zero)", OF assms(1)] fold by auto
  have sp: "space (CHR '' '')" by code_simp
  have "r_bytes r' = int (length ?bs) \<and> r_chars r' = int (length ?bs) \<and> r_words r' = int (word_starts (CHR '' '') ?bs) \<and>
      r_lines r' = int (count_list ?bs newline) \<and> max ll (r_max_line_length r') = int (longest 0 ?bs) \<and>
      r_name r' = [] \<and> \<not> r_has_name r'"
    using wc_fold [of ?bs "CHR '' ''" 0 wc_zero iw ll r'] fold assms(2) sp by (simp add: wc_zero_def)
  then have "wc_max_line ll r' = \<lparr>r_lines = int (count_list ?bs newline), r_words = int (word_starts (CHR '' '') ?bs),
      r_chars = int (length ?bs), r_bytes = int (length ?bs), r_max_line_length = int (longest 0 ?bs), r_name = [],
      r_has_name = False\<rparr>"
    by (auto simp: wc_max_line_def max_def split: if_splits)
  moreover have "\<not> error (files w' i)" using assms(3) w'(3) by (simp add: reads_only_def)
  ultimately show ?thesis using w' by (auto simp: wc_count_def ferror_def)
qed

theorem wc_count_correct_witness:
  "\<exists>w'. wc_count ram_kernel stdin wc_zero (ram_world (''two words'' @ [newline] @ '' one'')) =
     Some (0, \<lparr>r_lines = 1, r_words = 3, r_chars = 14, r_bytes = 14, r_max_line_length = 9, r_name = [], r_has_name = False\<rparr>, w')"
proof -
  let ?b = "''two words'' @ [newline] @ '' one''"
  have "stream_ok ram_kernel ram_view 0 (ram_world ?b)" by (rule io_ok_stream) simp
  moreover have "\<not> error (files (ram_world ?b) 0)" by (simp add: ram_world_def unbound_file_def)
  moreover have "count_list ?b newline = 1" "word_starts (CHR '' '') ?b = 3" "longest 0 ?b = 9" by code_simp+
  ultimately show ?thesis
    using wc_count_correct [of ram_kernel ram_view 0 "ram_world ?b"] by (simp only: ram_world_remaining) auto
qed

end
