(* ===== verification/Fifo.thy ===== *)
theory Fifo
  imports Prelude
begin

text \<open>
  Queues of bounded length that drop their oldest element, as \<open>head.c\<close> and \<open>tail.c\<close> keep them in
  circular arrays. The locale \<open>bounded_fifo\<close> is their contract: pushing appends, and drops the first
  element of a full queue, so that after a sequence of pushes the queue holds its last elements.
\<close>

section \<open>The contract\<close>

definition last_n :: "nat \<Rightarrow> 'a list \<Rightarrow> 'a list" where
  "last_n n xs = drop (length xs - n) xs"

lemma length_last_n [simp]: "length (last_n n xs) = min n (length xs)"
  by (simp add: last_n_def)

lemma last_n_Nil [simp]: "last_n n [] = []"
  by (simp add: last_n_def)

lemma last_n_snoc:
  "0 < n \<Longrightarrow> last_n n (xs @ [x]) = (if length (last_n n xs) < n then last_n n xs @ [x] else tl (last_n n xs) @ [x])"
  by (auto simp: last_n_def Suc_diff_le drop_Suc tl_drop min_def not_less le_Suc_eq split: if_splits)

text \<open>What has been dropped is the part before the last elements.\<close>

definition but_last_n :: "nat \<Rightarrow> 'a list \<Rightarrow> 'a list" where
  "but_last_n n xs = take (length xs - n) xs"

lemma but_last_n_Nil [simp]: "but_last_n n [] = []"
  by (simp add: but_last_n_def)

lemma but_last_n_snoc:
  assumes "0 < n"
  shows "but_last_n n (xs @ [x]) = but_last_n n xs @ (if length (last_n n xs) = n then [hd (last_n n xs)] else [])"
proof (cases "n \<le> length xs")
  case True
  then have "Suc (length xs) - n = Suc (length xs - n)" "length xs - n < length xs" using assms by auto
  with True show ?thesis
    by (simp add: but_last_n_def last_n_def take_Suc_conv_app_nth hd_drop_conv_nth)
qed (simp add: but_last_n_def last_n_def)

locale bounded_fifo =
  fixes push :: "'a \<Rightarrow> 'q \<Rightarrow> 'q"
    and elems :: "'q \<Rightarrow> 'a list"
    and ok :: "'q \<Rightarrow> bool"
    and capacity :: nat
  assumes capacity_pos: "ok q \<Longrightarrow> 0 < capacity"
    and push_ok: "ok q \<Longrightarrow> ok (push x q)"
    and push_elems: "ok q \<Longrightarrow> elems (push x q) =
      (if length (elems q) < capacity then elems q @ [x] else tl (elems q) @ [x])"
begin

lemma push_last_n:
  assumes "ok q" "elems q = last_n capacity xs"
  shows "ok (push x q)" "elems (push x q) = last_n capacity (xs @ [x])"
  using assms by (simp_all add: push_ok push_elems last_n_snoc capacity_pos)

lemma fold_push:
  assumes "ok q" "elems q = []"
  shows "ok (fold push xs q)" "elems (fold push xs q) = last_n capacity xs"
proof -
  have "ok (fold push xs q) \<and> elems (fold push xs q) = last_n capacity xs"
    using assms push_last_n by (induction xs rule: rev_induct) auto
  then show "ok (fold push xs q)" "elems (fold push xs q) = last_n capacity xs" by auto
qed

end

section \<open>The queue of head and tail\<close>

text \<open>The oldest element is at \<open>head_idx\<close>, the next free slot \<open>count\<close> places after it. A capacity is at
  most 2^63, so no index below overflows a \<open>size_t\<close>.\<close>

record 'a queue =
  slots :: "'a list"
  head_idx :: nat
  qcount :: nat

definition queue_init :: "nat \<Rightarrow> 'a \<Rightarrow> 'a queue" where
  "queue_init cap x = \<lparr>slots = replicate cap x, head_idx = 0, qcount = 0\<rparr>"

definition queue_push :: "'a \<Rightarrow> 'a queue \<Rightarrow> 'a queue" where
  "queue_push x q =
     (let cap = length (slots q) in
      if qcount q = cap
      then q\<lparr>slots := (slots q)[head_idx q := x], head_idx := (head_idx q + 1) mod cap\<rparr>
      else q\<lparr>slots := (slots q)[(head_idx q + qcount q) mod cap := x], qcount := qcount q + 1\<rparr>)"

definition queue_elems :: "'a queue \<Rightarrow> 'a list" where
  "queue_elems q = map (\<lambda>i. slots q ! ((head_idx q + i) mod length (slots q))) [0..<qcount q]"

definition queue_ok :: "nat \<Rightarrow> 'a queue \<Rightarrow> bool" where
  "queue_ok cap q \<longleftrightarrow> 0 < cap \<and> length (slots q) = cap \<and> head_idx q < cap \<and> qcount q \<le> cap"

lemma queue_init_ok: "0 < cap \<Longrightarrow> queue_ok cap (queue_init cap x)" "queue_elems (queue_init cap x) = []"
  by (simp_all add: queue_ok_def queue_init_def queue_elems_def)

lemma mod_add_small: "h < (m :: nat) \<Longrightarrow> i < m \<Longrightarrow> (h + i) mod m = (if h + i < m then h + i else h + i - m)"
  by (simp add: mod_if le_mod_geq)

lemma mod_add_neq: "h < (m :: nat) \<Longrightarrow> i < m \<Longrightarrow> j < m \<Longrightarrow> i \<noteq> j \<Longrightarrow> (h + i) mod m \<noteq> (h + j) mod m"
  by (auto simp: mod_add_small split: if_splits)

lemma queue_push_full:
  assumes "queue_ok cap q" "qcount q = cap"
  shows "queue_elems (queue_push x q) = tl (queue_elems q) @ [x]"
proof (rule nth_equalityI)
  have cap: "0 < cap" "length (slots q) = cap" "head_idx q < cap" using assms by (auto simp: queue_ok_def)
  show "length (queue_elems (queue_push x q)) = length (tl (queue_elems q) @ [x])"
    using assms cap by (simp add: queue_elems_def queue_push_def Let_def)
  fix i
  assume "i < length (queue_elems (queue_push x q))"
  then have i: "i < cap" using assms cap by (simp add: queue_elems_def queue_push_def Let_def)
  let ?h = "head_idx q"
  have nth: "queue_elems (queue_push x q) ! i = (slots q)[?h := x] ! ((?h + Suc i) mod cap)"
    using assms(2) cap i by (simp add: queue_elems_def queue_push_def Let_def mod_add_left_eq)
  show "queue_elems (queue_push x q) ! i = (tl (queue_elems q) @ [x]) ! i"
  proof (cases "Suc i = cap")
    case True
    then have "\<not> i < cap - Suc 0" "cap - Suc 0 = i" by auto
    with nth cap assms(2) True show ?thesis by (simp add: nth_append queue_elems_def)
  next
    case False
    then have "(?h + Suc i) mod cap \<noteq> (?h + 0) mod cap" using cap i by (intro mod_add_neq) auto
    moreover have "i < cap - Suc 0" using False i by simp
    ultimately show ?thesis using nth cap i assms(2) by (simp add: nth_append queue_elems_def nth_tl)
  qed
qed

lemma queue_push_room:
  assumes "queue_ok cap q" "qcount q < cap"
  shows "queue_elems (queue_push x q) = queue_elems q @ [x]"
proof -
  have cap: "0 < cap" "length (slots q) = cap" "head_idx q < cap" using assms by (auto simp: queue_ok_def)
  have "(slots q)[(head_idx q + qcount q) mod cap := x] ! ((head_idx q + i) mod cap) = slots q ! ((head_idx q + i) mod cap)"
    if "i < qcount q" for i
    using mod_add_neq [of "head_idx q" cap "qcount q" i] that cap assms(2) by simp
  with assms(2) cap show ?thesis by (simp add: queue_elems_def queue_push_def Let_def)
qed

interpretation queue: bounded_fifo queue_push queue_elems "queue_ok cap" cap for cap
proof
  fix q :: "'a queue" and x
  assume ok: "queue_ok cap q"
  then show "0 < cap" by (simp add: queue_ok_def)
  show "queue_ok cap (queue_push x q)" using ok by (auto simp: queue_ok_def queue_push_def Let_def)
  have "length (queue_elems q) = qcount q" by (simp add: queue_elems_def)
  then show "queue_elems (queue_push x q) =
      (if length (queue_elems q) < cap then queue_elems q @ [x] else tl (queue_elems q) @ [x])"
    using queue_push_full [OF ok] queue_push_room [OF ok] ok by (auto simp: queue_ok_def)
qed

lemma queue_oldest:
  assumes "queue_ok cap q" "0 < qcount q"
  shows "slots q ! head_idx q = hd (queue_elems q)"
  using assms by (simp add: queue_ok_def queue_elems_def hd_map upt_rec)

lemma length_queue_elems [simp]: "length (queue_elems q) = qcount q"
  by (simp add: queue_elems_def)

section \<open>The ring of tail\<close>

text \<open>\<open>tail_last_bytes\<close> keeps the place of the next byte instead, \<open>pos\<close>, and starts reading at \<open>pos\<close> when the
  ring is full, at 0 otherwise.\<close>

record 'a ring =
  ring_slots :: "'a list"
  ring_pos :: nat
  ring_filled :: nat

definition ring_init :: "nat \<Rightarrow> 'a \<Rightarrow> 'a ring" where
  "ring_init cap x = \<lparr>ring_slots = replicate cap x, ring_pos = 0, ring_filled = 0\<rparr>"

definition ring_push :: "'a \<Rightarrow> 'a ring \<Rightarrow> 'a ring" where
  "ring_push x q =
     (let cap = length (ring_slots q) in
      q\<lparr>ring_slots := (ring_slots q)[ring_pos q := x], ring_pos := (ring_pos q + 1) mod cap,
        ring_filled := (if ring_filled q < cap then ring_filled q + 1 else ring_filled q)\<rparr>)"

definition ring_elems :: "'a ring \<Rightarrow> 'a list" where
  "ring_elems q =
     (let cap = length (ring_slots q);
          start = (if ring_filled q < cap then 0 else ring_pos q)
      in map (\<lambda>i. ring_slots q ! ((start + i) mod cap)) [0..<ring_filled q])"

definition ring_ok :: "nat \<Rightarrow> 'a ring \<Rightarrow> bool" where
  "ring_ok cap q \<longleftrightarrow> 0 < cap \<and> length (ring_slots q) = cap \<and> ring_pos q < cap \<and> ring_filled q \<le> cap \<and>
     (ring_filled q < cap \<longrightarrow> ring_pos q = ring_filled q)"

lemma ring_init_ok: "0 < cap \<Longrightarrow> ring_ok cap (ring_init cap x)" "ring_elems (ring_init cap x) = []"
  by (simp_all add: ring_ok_def ring_init_def ring_elems_def Let_def)

text \<open>The ring is a queue that is read from another place, so its laws are those of the queue.\<close>

definition ring_queue :: "'a ring \<Rightarrow> 'a queue" where
  "ring_queue q = \<lparr>slots = ring_slots q,
     head_idx = (if ring_filled q < length (ring_slots q) then 0 else ring_pos q), qcount = ring_filled q\<rparr>"

lemma ring_queue_elems: "queue_elems (ring_queue q) = ring_elems q"
  by (simp add: queue_elems_def ring_queue_def ring_elems_def Let_def)

lemma ring_queue_ok: "ring_ok cap q \<Longrightarrow> queue_ok cap (ring_queue q)"
  by (auto simp: queue_ok_def ring_ok_def ring_queue_def)

lemma ring_queue_push: "ring_ok cap q \<Longrightarrow> ring_queue (ring_push x q) = queue_push x (ring_queue q)"
proof -
  assume ok: "ring_ok cap q"
  have "Suc (ring_filled q) mod cap = 0" if "ring_filled q < cap" "\<not> Suc (ring_filled q) < cap"
  proof -
    have "Suc (ring_filled q) = cap" using that by simp
    then show ?thesis by simp
  qed
  with ok show ?thesis by (auto simp: ring_ok_def ring_queue_def ring_push_def queue_push_def Let_def)
qed

interpretation ring: bounded_fifo ring_push ring_elems "ring_ok cap" cap for cap
proof
  fix q :: "'a ring" and x
  assume ok: "ring_ok cap q"
  then show "0 < cap" by (simp add: ring_ok_def)
  show "ring_ok cap (ring_push x q)"
    using ok by (auto simp: ring_ok_def ring_push_def Let_def)
  show "ring_elems (ring_push x q) =
      (if length (ring_elems q) < cap then ring_elems q @ [x] else tl (ring_elems q) @ [x])"
    using queue.push_elems [OF ring_queue_ok [OF ok], of x] ring_queue_push [OF ok, of x]
    by (simp add: ring_queue_elems [symmetric])
qed

end
