(* ===== verification/Head.thy ===== *)
theory Head
  imports Lines Getopt Fifo
begin

text \<open>
  \<open>userspace/head.c\<close>: the first lines or bytes of a stream, or all but the last ones, which it keeps
  back in a queue.
\<close>

section \<open>The program\<close>

datatype count_mode = MODE_LINES | MODE_BYTES

record head_opts =
  h_mode :: count_mode
  h_count :: int
  h_exclude_from_end :: bool
  h_quiet :: bool
  h_verbose :: bool

definition head_print_help :: "'k kernel \<Rightarrow> 'k world \<Rightarrow> (unit \<times> 'k world) option" where
  "head_print_help K w = printf_all K [
     ''Usage: head [OPTION]... [FILE]...\<newline>'',
     ''Print the first 10 lines of each FILE to standard output.\<newline>'',
     ''With more than one FILE, precede each with a header giving the file name.\<newline>\<newline>'',
     ''With no FILE, or when FILE is -, read standard input.\<newline>\<newline>'',
     ''  -c, --bytes=[-]NUM     print the first NUM bytes of each file;\<newline>'',
     ''                           with a leading '-', print all but the last NUM bytes\<newline>'',
     ''  -n, --lines=[-]NUM     print the first NUM lines instead of the first 10;\<newline>'',
     ''                           with a leading '-', print all but the last NUM lines\<newline>'',
     ''  -q, --quiet, --silent  never print headers giving file names\<newline>'',
     ''  -v, --verbose          always print headers giving file names\<newline>'',
     ''  -h, --help             display this help and exit\<newline>''] w"

text \<open>The result of \<open>parse_count\<close> is \<open>None\<close> for a return of -1; \<open>*exclude\<close> is set in any case.\<close>

definition head_parse_count :: "string \<Rightarrow> int option \<times> bool" where
  "head_parse_count s =
     (let exclude = (peek s 0 = CHR ''-'');
          s1 = (if exclude then drop 1 s else s);
          (v, e) = strtoll s1 10
      in (if peek s1 e \<noteq> NUL \<or> v < 0 then None else Some v, exclude))"

text \<open>\<open>head.c\<close> has the \<open>read_line\<close> of \<open>cat.c\<close>, word for word.\<close>

definition head_read_line :: "'k kernel \<Rightarrow> fptr \<Rightarrow> 'k world \<Rightarrow> ((int \<times> byte list \<times> bool) \<times> 'k world) option" where
  "head_read_line K f = read_line K f"

definition stream_status :: "fptr \<Rightarrow> 'k world \<Rightarrow> int" where
  "stream_status f w = (if ferror f w then 1 else 0)"

definition head_first_lines :: "'k kernel \<Rightarrow> fptr \<Rightarrow> int \<Rightarrow> 'k world \<Rightarrow> (int \<times> 'k world) option" where
  "head_first_lines K f n w =
     (if n = 0 then Some (stream_status f w, w)
      else do {
        (_, w') \<leftarrow> while_getc (fgetc K f) (\<lambda>c lines w.
          let w1 = snd (fputc K c stdout w) in
          if c = uchar newline then
            let lines' = int64 (lines + 1) in Some (lines' = n, lines', w1)
          else Some (False, lines, w1)) 0 w;
        Some (stream_status f w', w')
      })"

text \<open>The loop counts up to \<open>n\<close>; here it counts the bytes left down.\<close>

fun head_bytes_loop :: "'k kernel \<Rightarrow> fptr \<Rightarrow> nat \<Rightarrow> 'k world \<Rightarrow> 'k world" where
  "head_bytes_loop K f 0 w = w"
| "head_bytes_loop K f (Suc m) w =
     (let (c, w1) = fgetc K f w
      in if c = EOF then w1 else head_bytes_loop K f m (snd (fputc K c stdout w1)))"

definition head_first_bytes :: "'k kernel \<Rightarrow> fptr \<Rightarrow> int \<Rightarrow> 'k world \<Rightarrow> (int \<times> 'k world) option" where
  "head_first_bytes K f n w = (let w' = head_bytes_loop K f (nat n) w in Some (stream_status f w', w'))"

text \<open>\<open>while ((c = fgetc(f)) != EOF) fputc(c, stdout)\<close>\<close>

definition copy_stream :: "'k kernel \<Rightarrow> fptr \<Rightarrow> 'k world \<Rightarrow> (unit \<times> 'k world) option" where
  "copy_stream K f w = while_getc (fgetc K f) (\<lambda>c _ w. Some (False, (), snd (fputc K c stdout w))) () w"

definition sizeof_pending_line :: nat where "sizeof_pending_line = 24"

definition write_pending :: "'k kernel \<Rightarrow> byte list \<times> bool \<Rightarrow> 'k world \<Rightarrow> 'k world" where
  "write_pending K l w =
     (let w1 = snd (fwrite K (fst l) 1 (length (fst l)) stdout w)
      in if snd l then snd (fputc K (uchar newline) stdout w1) else w1)"

definition head_queue_line :: "'k kernel \<Rightarrow> byte list \<Rightarrow> bool \<Rightarrow> (byte list \<times> bool) queue \<Rightarrow> 'k world \<Rightarrow>
    ((byte list \<times> bool) queue \<times> 'k world) option" where
  "head_queue_line K line nl q w =
     Some (queue_push (line, nl) q,
       if qcount q = length (slots q) then write_pending K (slots q ! head_idx q) w else w)"

definition head_all_but_last_lines :: "'k kernel \<Rightarrow> fptr \<Rightarrow> int \<Rightarrow> 'k world \<Rightarrow> (int \<times> 'k world) option" where
  "head_all_but_last_lines K f n w =
     (if n \<le> 0 then do { (_, w') \<leftarrow> copy_stream K f w; Some (stream_status f w', w') }
      else
        let cap = nat n;
            (ok, k) = heap_ok K (kern w) (cap * sizeof_pending_line);
            w1 = w\<lparr>kern := k\<rparr>
        in if \<not> ok then do {
             (_, w2) \<leftarrow> fprintf K stderr ''head: out of memory\<newline>'' [] w1;
             Some (1, w2)
           } else do {
             (oom, q, w2) \<leftarrow> each_line (head_read_line K f) (head_queue_line K) (queue_init cap ([], False)) w1;
             (_, w3) \<leftarrow> (if oom then fprintf K stderr ''head: out of memory\<newline>'' [] w2 else Some (0, w2));
             Some (if ferror f w3 then 1 else if oom then 1 else 0, w3)
           })"

definition head_queue_byte :: "'k kernel \<Rightarrow> int \<Rightarrow> byte queue \<Rightarrow> 'k world \<Rightarrow> (bool \<times> byte queue \<times> 'k world) option" where
  "head_queue_byte K c q w =
     Some (False, queue_push (to_char c) q,
       if qcount q = length (slots q) then snd (fputc K (uchar (slots q ! head_idx q)) stdout w) else w)"

definition head_all_but_last_bytes :: "'k kernel \<Rightarrow> fptr \<Rightarrow> int \<Rightarrow> 'k world \<Rightarrow> (int \<times> 'k world) option" where
  "head_all_but_last_bytes K f n w =
     (if n \<le> 0 then do { (_, w') \<leftarrow> copy_stream K f w; Some (stream_status f w', w') }
      else
        let cap = nat n;
            (ok, k) = heap_ok K (kern w) cap;
            w1 = w\<lparr>kern := k\<rparr>
        in if \<not> ok then do {
             (_, w2) \<leftarrow> fprintf K stderr ''head: out of memory\<newline>'' [] w1;
             Some (1, w2)
           } else do {
             (_, w2) \<leftarrow> while_getc (fgetc K f) (head_queue_byte K) (queue_init cap NUL) w1;
             Some (stream_status f w2, w2)
           })"

definition head_stream :: "'k kernel \<Rightarrow> fptr \<Rightarrow> head_opts \<Rightarrow> 'k world \<Rightarrow> (int \<times> 'k world) option" where
  "head_stream K f opts w =
     (if h_mode opts = MODE_LINES then
        if h_exclude_from_end opts then head_all_but_last_lines K f (h_count opts) w
        else head_first_lines K f (h_count opts) w
      else
        if h_exclude_from_end opts then head_all_but_last_bytes K f (h_count opts) w
        else head_first_bytes K f (h_count opts) w)"

definition head_long_opts :: "long_option list" where
  "head_long_opts = map (\<lambda>(n, a, c). \<lparr>opt_name = n, has_arg = a, opt_flag = None, opt_val = uchar c\<rparr>)
     [(''bytes'', required_argument, CHR ''c''), (''lines'', required_argument, CHR ''n''),
      (''quiet'', no_argument, CHR ''q''), (''silent'', no_argument, CHR ''q''),
      (''verbose'', no_argument, CHR ''v''), (''help'', no_argument, CHR ''h'')]"

text \<open>The two options with a number: the mode is set only when the number is valid, the exclusion
  always.\<close>

definition head_count_option :: "'k kernel \<Rightarrow> count_mode \<Rightarrow> string \<Rightarrow> string option \<Rightarrow> head_opts \<Rightarrow> 'k world \<Rightarrow>
    (int option \<times> head_opts \<times> 'k world) option" where
  "head_count_option K mode msg arg opts w =
     (case arg of
        None \<Rightarrow> None
      | Some a \<Rightarrow>
          (case head_parse_count a of
             (None, exclude) \<Rightarrow> do {
               (_, w') \<leftarrow> fprintf K stderr msg [VStr (Some a)] w;
               Some (Some 1, opts\<lparr>h_exclude_from_end := exclude\<rparr>, w')
             }
           | (Some v, exclude) \<Rightarrow>
               Some (None, opts\<lparr>h_count := v, h_exclude_from_end := exclude, h_mode := mode\<rparr>, w)))"

definition head_option :: "'k kernel \<Rightarrow> int \<Rightarrow> string option \<Rightarrow> head_opts \<Rightarrow> 'k world \<Rightarrow>
    (int option \<times> head_opts \<times> 'k world) option" where
  "head_option K opt arg opts w =
     (if opt = uchar (CHR ''c'') then
        head_count_option K MODE_BYTES ''head: invalid number of bytes: '%s'\<newline>'' arg opts w
      else if opt = uchar (CHR ''n'') then
        head_count_option K MODE_LINES ''head: invalid number of lines: '%s'\<newline>'' arg opts w
      else if opt = uchar (CHR ''q'') then Some (None, opts\<lparr>h_quiet := True\<rparr>, w)
      else if opt = uchar (CHR ''v'') then Some (None, opts\<lparr>h_verbose := True\<rparr>, w)
      else if opt = uchar (CHR ''h'') then do { (_, w') \<leftarrow> head_print_help K w; Some (Some 0, opts, w') }
      else Some (Some 1, opts, w))"

text \<open>The header before a file, \<open>first\<close> saying that none was printed yet.\<close>

definition print_header :: "'k kernel \<Rightarrow> bool \<Rightarrow> string \<Rightarrow> 'k world \<Rightarrow> (unit \<times> 'k world) option" where
  "print_header K first name w = do {
     (_, w1) \<leftarrow> (if \<not> first then printf K ''\<newline>'' [] w else Some (0, w));
     (_, w2) \<leftarrow> printf K ''==> %s <==\<newline>'' [VStr (Some name)] w1;
     Some ((), w2)
   }"

fun head_files :: "'k kernel \<Rightarrow> head_opts \<Rightarrow> bool \<Rightarrow> string list \<Rightarrow> bool \<Rightarrow> int \<Rightarrow> 'k world \<Rightarrow> (int \<times> 'k world) option" where
  "head_files K opts print_headers [] first fail w = Some (fail, w)"
| "head_files K opts print_headers (path # paths) first fail w =
     (let is_stdin = (path = ''-'');
          (sst, s, k) = (if is_stdin then (E_INVALID, \<lparr>st_size = 0, st_mode = 0, st_type = 0\<rparr>, kern w)
                         else sys_stat K (kern w) path STAT_FOLLOW_FLAG);
          w1 = w\<lparr>kern := k\<rparr>
      in if \<not> is_stdin \<and> sst = E_SUCCESS \<and> is_dir_mode (st_mode s) then do {
           (_, w2) \<leftarrow> fprintf K stderr ''head: error reading '%s': Is a directory\<newline>'' [VStr (Some path)] w1;
           head_files K opts print_headers paths first 1 w2
         } else
           let (f, w2) = (if is_stdin then (stdin, w1) else fopen K (Some path) (Some ''r'') w1)
           in if f = None then do {
                (_, w3) \<leftarrow> fprintf K stderr ''head: cannot open '%s' for reading: No such file or directory\<newline>''
                  [VStr (Some path)] w2;
                head_files K opts print_headers paths first 1 w3
              } else do {
                (_, w3) \<leftarrow> (if print_headers
                  then print_header K first (if is_stdin then ''standard input'' else path) w2 else Some ((), w2));
                (r, w4) \<leftarrow> head_stream K f opts w3;
                head_files K opts print_headers paths False (or fail r) (if is_stdin then w4 else snd (fclose K f w4))
              })"

definition head_main :: "'k kernel \<Rightarrow> string list \<Rightarrow> 'k world \<Rightarrow> (int \<times> 'k world) option" where
  "head_main K argv w = do {
     (ret, opts, g, w1) \<leftarrow> getopt_loop (getopt_long K argv ''c:n:qvh'' head_long_opts) (head_option K)
       \<lparr>h_mode = MODE_LINES, h_count = 10, h_exclude_from_end = False, h_quiet = False, h_verbose = False\<rparr> getopt_init w;
     case ret of
       Some r \<Rightarrow> Some (r, w1)
     | None \<Rightarrow>
         if optind g \<ge> length argv then do {
           (r, w2) \<leftarrow> head_stream K stdin opts w1;
           Some (if or 0 r \<noteq> 0 then 1 else 0, w2)
         } else do {
           let multi = (length argv - optind g > 1);
           let print_headers = (h_verbose opts \<or> (multi \<and> \<not> h_quiet opts));
           (fail, w2) \<leftarrow> head_files K opts print_headers (drop (optind g) argv) True 0 w1;
           Some (if fail \<noteq> 0 then 1 else 0, w2)
         }
   }"

section \<open>What head prints\<close>

definition head_text :: "head_opts \<Rightarrow> byte list \<Rightarrow> byte list" where
  "head_text opts bs =
     (if h_mode opts = MODE_LINES then
        if h_exclude_from_end opts then concat (map line_text (but_last_n (nat (h_count opts)) (split_lines bs)))
        else first_lines (nat (h_count opts)) bs
      else if h_exclude_from_end opts then but_last_n (nat (h_count opts)) bs
      else take (nat (h_count opts)) bs)"

text \<open>A program that has printed \<open>t\<close> of stream i and returns 0.\<close>

lemma status_ok: "prints K V i w0 t w \<Longrightarrow> \<not> error (files w0 i) \<Longrightarrow> stream_status (Some i) w = 0"
  by (simp add: prints_def stream_status_def ferror_def)

lemma head_first_lines_prints:
  assumes "io_ok K V i w" "0 < n" "n < 2 ^ 63" "\<not> error (files w i)"
  obtains w' where "head_first_lines K (Some i) n w = Some (0, w')"
    "prints K V i w (first_lines (nat n) (remaining V i w)) w'"
proof -
  let ?body = "\<lambda>c lines u. let u1 = snd (fputc K c stdout u) in
      if c = uchar newline then let lines' = int64 (lines + 1) in Some (lines' = n, lines', u1)
      else Some (False, lines, u1)"
  let ?P = "\<lambda>pre lines u. prints K V i w pre u \<and> lines = int (count_list pre newline) \<and> lines < n"
  let ?Q = "\<lambda>pre lines u. prints K V i w pre u \<and> pre \<noteq> [] \<and> last pre = newline \<and> int (count_list pre newline) = n"
  have "\<exists>a' w'. while_getc (fgetc K (Some i)) ?body 0 w = Some (a', w') \<and>
      (?P (remaining V i w) a' w' \<or> (\<exists>mid post. remaining V i w = mid @ post \<and> ?Q mid a' w'))"
  proof (rule fgetc_stream.while_getc_rule [where V = V and P = ?P and Q = ?Q and R = ?P])
    fix pre c lines u u'
    assume p: "?P pre lines u" and r: "remaining V i u = c # remaining V i u'" "stream_ok K V i u'" "reads_only V i u u'"
    have p': "prints K V i w pre u'" using p r prints_reads by blast
    have u: "int64 (lines + 1) = lines + 1" using p assms(3) by (intro int64_id) auto
    from prints_fputc [OF p', of "uchar c"] u p show "\<exists>stop lines' u2. ?body (uchar c) lines u' = Some (stop, lines', u2) \<and>
        (if stop then ?Q (pre @ [c]) lines' u2
         else stream_ok K V i u2 \<and> remaining V i u2 = remaining V i u' \<and> ?P (pre @ [c]) lines' u2)"
      by (auto simp: Let_def prints_def dest: io_ok_stream)
  next
    fix pre a u u'
    assume "?P pre a u" "stream_ok K V i u'" "reads_only V i u u'"
    then show "?P pre a u'" using prints_reads by blast
  qed (use assms in \<open>auto intro: prints_refl io_ok_stream\<close>)
  then obtain a' w' where w': "while_getc (fgetc K (Some i)) ?body 0 w = Some (a', w')"
      "?P (remaining V i w) a' w' \<or> (\<exists>mid post. remaining V i w = mid @ post \<and> ?Q mid a' w')" by blast
  have "prints K V i w (first_lines (nat n) (remaining V i w)) w'"
    using w'(2) first_lines_all [of "remaining V i w" "nat n"] first_lines_prefix [of _ "nat n"] by auto
  with w'(1) assms(2,4) that show ?thesis by (auto simp: head_first_lines_def status_ok)
qed

lemma head_first_bytes_prints:
  assumes "prints K V i w0 t w"
  shows "prints K V i w0 (t @ take m (remaining V i w)) (head_bytes_loop K (Some i) m w)"
  using assms
proof (induction m arbitrary: t w)
  case (Suc m)
  show ?case
  proof (cases rule: fgetc_cases [OF io_ok_stream [OF prints_io [OF Suc.prems]]])
    case (1 w')
    then show ?thesis using prints_reads [OF Suc.prems, of w'] by simp
  next
    case (2 c w')
    have "prints K V i w0 t w'" using 2 Suc.prems prints_reads by blast
    note p = prints_fputc [OF this, of "uchar c"]
    from Suc.IH [OF p [THEN conjunct1]] p 2 show ?thesis by simp
  qed
qed simp

lemma copy_stream_prints:
  assumes "io_ok K V i w"
  obtains w' where "copy_stream K (Some i) w = Some ((), w')" "prints K V i w (remaining V i w) w'"
proof -
  have "\<exists>a' w'. while_getc (fgetc K (Some i)) (\<lambda>c _ w. Some (False, (), snd (fputc K c stdout w))) () w = Some (a', w') \<and>
      prints K V i w (remaining V i w) w' \<and> stream_ok K V i w' \<and> remaining V i w' = []"
  proof (rule fgetc_stream.while_getc_all [where V = V and P = "\<lambda>pre _ u. prints K V i w pre u"])
    fix pre c a u u'
    assume "prints K V i w pre u" "remaining V i u = c # remaining V i u'" "stream_ok K V i u'" "reads_only V i u u'"
    then have "prints K V i w pre u'" using prints_reads by blast
    from prints_fputc [OF this, of "uchar c"]
    show "\<exists>a' u2. Some (False, (), snd (fputc K (uchar c) stdout u')) = Some (False, a', u2) \<and>
        stream_ok K V i u2 \<and> remaining V i u2 = remaining V i u' \<and> prints K V i w (pre @ [c]) u2"
      by (auto simp: prints_def dest: io_ok_stream)
  qed (use assms prints_reads in \<open>auto intro: prints_refl io_ok_stream\<close>)
  with that show ?thesis by (auto simp: copy_stream_def)
qed

lemma heap_prints:
  assumes "prints K V i w0 t w" "kernel_heap K V"
  obtains k' where "heap_ok K (kern w) n = (True, k')" "prints K V i w0 t (w\<lparr>kern := k'\<rparr>)"
    "remaining V i (w\<lparr>kern := k'\<rparr>) = remaining V i w"
proof -
  obtain k' where "heap_ok K (kern w) n = (True, k')" "reads_only V i w (w\<lparr>kern := k'\<rparr>)"
      "stream_ok K V i (w\<lparr>kern := k'\<rparr>) = stream_ok K V i w" "remaining V i (w\<lparr>kern := k'\<rparr>) = remaining V i w"
    by (rule heap_ok_reads [OF assms(2), of w n i])
  with assms(1) that prints_reads io_ok_stream [OF prints_io] show ?thesis by metis
qed

lemma write_pending_prints:
  assumes "prints K V i w0 t w" "length (fst l) < 2 ^ 64"
  shows "prints K V i w0 (t @ line_text l) (write_pending K l w) \<and> remaining V i (write_pending K l w) = remaining V i w"
proof -
  note p = prints_fwrite [OF assms]
  from p prints_if_fputc [OF p [THEN conjunct1], of "snd l" newline] show ?thesis
    by (simp only: write_pending_def Let_def line_text_def append_assoc)
qed

lemma head_all_but_last_bytes_prints:
  assumes "io_ok K V i w" "kernel_heap K V" "0 < n" "\<not> error (files w i)"
  obtains w' where "head_all_but_last_bytes K (Some i) n w = Some (0, w')"
    "prints K V i w (but_last_n (nat n) (remaining V i w)) w'"
proof -
  let ?cap = "nat n"
  obtain k' where k': "heap_ok K (kern w) ?cap = (True, k')" "prints K V i w [] (w\<lparr>kern := k'\<rparr>)"
      "remaining V i (w\<lparr>kern := k'\<rparr>) = remaining V i w"
    by (rule heap_prints [OF prints_refl [OF assms(1)] assms(2)])
  let ?P = "\<lambda>pre q u. prints K V i w (but_last_n ?cap pre) u \<and> queue_ok ?cap q \<and> queue_elems q = last_n ?cap pre"
  have "\<exists>q w'. while_getc (fgetc K (Some i)) (head_queue_byte K) (queue_init ?cap NUL) (w\<lparr>kern := k'\<rparr>) = Some (q, w') \<and>
      ?P (remaining V i (w\<lparr>kern := k'\<rparr>)) q w' \<and> stream_ok K V i w' \<and> remaining V i w' = []"
  proof (rule fgetc_stream.while_getc_all [where V = V and P = ?P])
    fix pre c q u u'
    assume p: "?P pre q u" and r: "remaining V i u = c # remaining V i u'" "stream_ok K V i u'" "reads_only V i u u'"
    have p': "prints K V i w (but_last_n ?cap pre) u'" using p r prints_reads by blast
    let ?full = "qcount q = length (slots q)"
    have len: "qcount q = length (last_n ?cap pre)" "length (slots q) = ?cap" "0 < ?cap"
      using p assms(3) length_queue_elems [of q] by (auto simp: queue_ok_def)
    have out: "but_last_n ?cap (pre @ [c]) = but_last_n ?cap pre @ (if ?full then [slots q ! head_idx q] else [])"
      using len p by (auto simp: but_last_n_snoc queue_oldest [of ?cap])
    note q = queue.push_last_n [of ?cap q pre c]
    from prints_if_fputc [OF p', of ?full "slots q ! head_idx q"] q p
    show "\<exists>q' u2. head_queue_byte K (uchar c) q u' = Some (False, q', u2) \<and> stream_ok K V i u2 \<and>
        remaining V i u2 = remaining V i u' \<and> ?P (pre @ [c]) q' u2"
      unfolding head_queue_byte_def out to_char_uchar by (blast dest: prints_io io_ok_stream)
  next
    fix pre q u u'
    assume "?P pre q u" "stream_ok K V i u'" "reads_only V i u u'"
    then show "?P pre q u'" using prints_reads by blast
  qed (use assms k' in \<open>auto simp: queue_init_ok intro: io_ok_stream prints_io\<close>)
  with k' assms(3,4) that show ?thesis by (auto simp: head_all_but_last_bytes_def status_ok)
qed

lemma head_all_but_last_lines_prints:
  assumes "io_ok K V i w" "kernel_heap K V" "0 < n" "\<not> error (files w i)" "length (remaining V i w) < 2 ^ 64"
  obtains w' where "head_all_but_last_lines K (Some i) n w = Some (0, w')"
    "prints K V i w (concat (map line_text (but_last_n (nat n) (split_lines (remaining V i w))))) w'"
proof -
  let ?cap = "nat n"
  obtain k' where k': "heap_ok K (kern w) (?cap * sizeof_pending_line) = (True, k')" "prints K V i w [] (w\<lparr>kern := k'\<rparr>)"
      "remaining V i (w\<lparr>kern := k'\<rparr>) = remaining V i w"
    by (rule heap_prints [OF prints_refl [OF assms(1)] assms(2)])
  let ?P = "\<lambda>pre q u. prints K V i w (concat (map line_text (but_last_n ?cap pre))) u \<and> queue_ok ?cap q \<and>
      queue_elems q = last_n ?cap pre \<and> (\<forall>l \<in> set pre. length (fst l) < 2 ^ 64)"
  have "\<exists>q w'. each_line (read_line K (Some i)) (head_queue_line K) (queue_init ?cap ([], False)) (w\<lparr>kern := k'\<rparr>) = Some (False, q, w') \<and>
      ?P (split_lines (remaining V i (w\<lparr>kern := k'\<rparr>))) q w' \<and> stream_ok K V i w'"
  proof (rule each_line_rule [OF assms(2), where P = ?P and bs = "remaining V i w"])
    fix pre l nl q u u'
    assume p: "?P pre q u" and r: "reads_only V i u u'" "stream_ok K V i u'" and l: "(l, nl) \<in> set (split_lines (remaining V i w))"
    have p': "prints K V i w (concat (map line_text (but_last_n ?cap pre))) u'" using p r prints_reads by blast
    let ?full = "qcount q = length (slots q)" and ?old = "slots q ! head_idx q"
    have len: "qcount q = length (last_n ?cap pre)" "length (slots q) = ?cap" "0 < ?cap"
      using p assms(3) length_queue_elems [of q] by (auto simp: queue_ok_def)
    have out: "but_last_n ?cap (pre @ [(l, nl)]) = but_last_n ?cap pre @ (if ?full then [?old] else [])"
      using len p by (auto simp: but_last_n_snoc queue_oldest [of ?cap])
    have old: "length (fst ?old) < 2 ^ 64" if ?full
    proof -
      have "?old \<in> set (last_n ?cap pre)" using that len p queue_oldest [of ?cap q] by (metis hd_in_set length_greater_0_conv)
      then show ?thesis using p by (auto simp: last_n_def dest: in_set_dropD)
    qed
    have "length l < 2 ^ 64" using split_lines_lengths [OF l] assms(5) by simp
    then have wf: "\<forall>l' \<in> set (pre @ [(l, nl)]). length (fst l') < 2 ^ 64" using p by auto
    note q = queue.push_last_n [of ?cap q pre "(l, nl)"]
    have "prints K V i w (concat (map line_text (but_last_n ?cap (pre @ [(l, nl)])))) (if ?full then write_pending K ?old u' else u') \<and>
        remaining V i (if ?full then write_pending K ?old u' else u') = remaining V i u'"
      unfolding out using write_pending_prints [OF p', of ?old] old p' by auto
    with q p wf show "\<exists>q' u2. head_queue_line K l nl q u' = Some (q', u2) \<and> stream_ok K V i u2 \<and>
        remaining V i u2 = remaining V i u' \<and> ?P (pre @ [(l, nl)]) q' u2"
      unfolding head_queue_line_def by (blast dest: prints_io io_ok_stream)
  next
    fix pre q u u'
    assume "?P pre q u" "reads_only V i u u'" "stream_ok K V i u'"
    then show "?P pre q u'" using prints_reads by blast
  qed (use assms k' in \<open>auto simp: queue_init_ok intro: io_ok_stream prints_io\<close>)
  then obtain q w' where w': "each_line (read_line K (Some i)) (head_queue_line K) (queue_init ?cap ([], False)) (w\<lparr>kern := k'\<rparr>) = Some (False, q, w')"
      "prints K V i w (concat (map line_text (but_last_n ?cap (split_lines (remaining V i w))))) w'"
    using k'(3) by auto
  moreover have "\<not> error (files w' i)" using w'(2) assms(4) by (simp add: prints_def)
  ultimately show ?thesis using k' assms(3) that
    by (auto simp: head_all_but_last_lines_def head_read_line_def ferror_def)
qed

section \<open>Properties\<close>

text \<open>C24. \<open>head\<close> prints what its options ask for: the first n lines or bytes of the stream, or all but
  its last n lines or bytes, for every n, and returns 0. The lines are those between newlines, with an
  unterminated last line counted and printed without newline.\<close>

theorem head_stream_correct:
  assumes "io_ok K V i w" "kernel_heap K V" "length (remaining V i w) < 2 ^ 64" "\<not> error (files w i)"
    and "0 \<le> h_count opts" "h_count opts < 2 ^ 63"
  shows "\<exists>w'. head_stream K (Some i) opts w = Some (0, w') \<and>
    printed V w' = printed V w @ head_text opts (remaining V i w)"
proof -
  let ?n = "h_count opts" and ?bs = "remaining V i w"
  have zero: "but_last_n 0 xs = xs" "first_lines 0 ys = []" for xs :: "(byte list \<times> bool) list" and ys
    by (simp_all add: but_last_n_def first_lines_def)
  have copy: "\<exists>w'. do { (_, w') \<leftarrow> copy_stream K (Some i) w; Some (stream_status (Some i) w', w') } = Some (0, w') \<and>
      prints K V i w ?bs w'"
    by (rule copy_stream_prints [OF assms(1)]) (use assms(4) in \<open>auto simp: status_ok\<close>)
  have "\<exists>w'. head_stream K (Some i) opts w = Some (0, w') \<and> prints K V i w (head_text opts ?bs) w'"
  proof (cases "?n = 0")
    case True
    then show ?thesis
      using copy prints_refl [OF assms(1)] assms(4)
      by (auto simp: head_stream_def head_text_def zero concat_split_lines head_first_lines_def head_first_bytes_def
          head_all_but_last_lines_def head_all_but_last_bytes_def status_ok but_last_n_def)
  next
    case False
    then have n: "0 < ?n" using assms(5) by simp
    have bytes: "head_first_bytes K (Some i) ?n w = Some (0, head_bytes_loop K (Some i) (nat ?n) w) \<and>
        prints K V i w (take (nat ?n) ?bs) (head_bytes_loop K (Some i) (nat ?n) w)"
      using head_first_bytes_prints [OF prints_refl [OF assms(1)], of "nat ?n"] assms(4)
      by (auto simp: head_first_bytes_def status_ok)
    have lines: "\<exists>w'. head_first_lines K (Some i) ?n w = Some (0, w') \<and> prints K V i w (first_lines (nat ?n) ?bs) w'"
      by (rule head_first_lines_prints [OF assms(1) n assms(6,4)]) blast
    have but_bytes: "\<exists>w'. head_all_but_last_bytes K (Some i) ?n w = Some (0, w') \<and> prints K V i w (but_last_n (nat ?n) ?bs) w'"
      by (rule head_all_but_last_bytes_prints [OF assms(1,2) n assms(4)]) blast
    have but_lines: "\<exists>w'. head_all_but_last_lines K (Some i) ?n w = Some (0, w') \<and>
        prints K V i w (concat (map line_text (but_last_n (nat ?n) (split_lines ?bs)))) w'"
      by (rule head_all_but_last_lines_prints [OF assms(1,2) n assms(4,3)]) blast
    show ?thesis
      using bytes lines but_bytes but_lines
      by (cases "h_mode opts"; cases "h_exclude_from_end opts") (simp_all add: head_stream_def head_text_def)
  qed
  then show ?thesis by (auto simp: prints_def)
qed

theorem head_stream_correct_witness:
  "\<exists>w'. head_stream ram_kernel stdin \<lparr>h_mode = MODE_LINES, h_count = 2, h_exclude_from_end = True, h_quiet = False, h_verbose = False\<rparr>
      (ram_world (''a'' @ [newline] @ ''b'' @ [newline] @ ''c'' @ [newline] @ ''d'')) = Some (0, w') \<and>
    printed ram_view w' = ''a'' @ [newline] @ ''b'' @ [newline]"
proof -
  let ?o = "\<lparr>h_mode = MODE_LINES, h_count = 2, h_exclude_from_end = True, h_quiet = False, h_verbose = False\<rparr>"
  let ?b = "''a'' @ [newline] @ ''b'' @ [newline] @ ''c'' @ [newline] @ ''d''"
  have "\<not> error (files (ram_world ?b) 0)" by (simp add: ram_world_def unbound_file_def)
  moreover have "head_text ?o ?b = ''a'' @ [newline] @ ''b'' @ [newline]" by code_simp
  ultimately show ?thesis
    using head_stream_correct [of ram_kernel ram_view 0 "ram_world ?b" ?o]
    by (simp only: ram_world_io_ok ram_kernel_heap ram_world_remaining ram_world_printed) auto
qed

end
