(* ===== verification/Tail.thy ===== *)
theory Tail
  imports Head
begin

text \<open>
  \<open>userspace/tail.c\<close>: the last lines or bytes of a stream, or everything from a line or byte on. It shares
  the types of a pending line and of the counting mode with \<open>head.c\<close>.
\<close>

section \<open>The program\<close>

record tail_opts =
  t_mode :: count_mode
  t_count :: int
  t_from_start :: bool
  t_quiet :: bool
  t_verbose :: bool

definition tail_print_help :: "'k kernel \<Rightarrow> 'k world \<Rightarrow> (unit \<times> 'k world) option" where
  "tail_print_help K w = printf_all K [
     ''Usage: tail [OPTION]... [FILE]...\<newline>'',
     ''Print the last 10 lines of each FILE to standard output.\<newline>'',
     ''With more than one FILE, precede each with a header giving the file name.\<newline>\<newline>'',
     ''With no FILE, or when FILE is -, read standard input.\<newline>\<newline>'',
     ''  -c, --bytes=[+]NUM     print the last NUM bytes; with a leading '+',\<newline>'',
     ''                           print starting with byte NUM of each file\<newline>'',
     ''  -n, --lines=[+]NUM     print the last NUM lines instead of the last 10;\<newline>'',
     ''                           with a leading '+', print starting with line NUM\<newline>'',
     ''  -q, --quiet, --silent  never print headers giving file names\<newline>'',
     ''  -v, --verbose          always print headers giving file names\<newline>'',
     ''  -h, --help             display this help and exit\<newline>''] w"

definition tail_parse_count :: "string \<Rightarrow> int option \<times> bool" where
  "tail_parse_count s =
     (let from_start = (peek s 0 = CHR ''+'');
          s1 = (if peek s 0 = CHR ''+'' \<or> peek s 0 = CHR ''-'' then drop 1 s else s);
          (v, e) = strtoll s1 10
      in (if peek s1 e \<noteq> NUL \<or> v < 0 then None else Some v, from_start))"

text \<open>\<open>tail.c\<close> has the \<open>read_line\<close> of \<open>cat.c\<close>, word for word.\<close>

definition tail_read_line :: "'k kernel \<Rightarrow> fptr \<Rightarrow> 'k world \<Rightarrow> ((int \<times> byte list \<times> bool) \<times> 'k world) option" where
  "tail_read_line K f = read_line K f"

text \<open>The loop that prints the queue from its oldest element on.\<close>

definition write_queue :: "'k kernel \<Rightarrow> (byte list \<times> bool) queue \<Rightarrow> 'k world \<Rightarrow> 'k world" where
  "write_queue K q w =
     fold (\<lambda>i. write_pending K (slots q ! ((head_idx q + i) mod length (slots q)))) [0..<qcount q] w"

definition tail_last_lines :: "'k kernel \<Rightarrow> fptr \<Rightarrow> int \<Rightarrow> 'k world \<Rightarrow> (int \<times> 'k world) option" where
  "tail_last_lines K f n w =
     (if n = 0 then Some (stream_status f w, w)
      else
        let cap = nat n;
            (ok, k) = heap_ok K (kern w) (cap * sizeof_pending_line);
            w1 = w\<lparr>kern := k\<rparr>
        in if \<not> ok then do {
             (_, w2) \<leftarrow> fprintf K stderr ''tail: out of memory\<newline>'' [] w1;
             Some (1, w2)
           } else do {
             (oom, q, w2) \<leftarrow> each_line (tail_read_line K f) (\<lambda>line nl q w. Some (queue_push (line, nl) q, w))
               (queue_init cap ([], False)) w1;
             (_, w3) \<leftarrow> (if oom then fprintf K stderr ''tail: out of memory\<newline>'' [] w2 else Some (0, w2));
             let w4 = write_queue K q w3;
             Some (if ferror f w4 then 1 else if oom then 1 else 0, w4)
           })"

definition write_ring :: "'k kernel \<Rightarrow> byte ring \<Rightarrow> 'k world \<Rightarrow> 'k world" where
  "write_ring K q w =
     (let cap = length (ring_slots q);
          start = (if ring_filled q < cap then 0 else ring_pos q)
      in fold (\<lambda>i w. snd (fputc K (uchar (ring_slots q ! ((start + i) mod cap))) stdout w)) [0..<ring_filled q] w)"

definition tail_last_bytes :: "'k kernel \<Rightarrow> fptr \<Rightarrow> int \<Rightarrow> 'k world \<Rightarrow> (int \<times> 'k world) option" where
  "tail_last_bytes K f n w =
     (if n = 0 then Some (stream_status f w, w)
      else
        let cap = nat n;
            (ok, k) = heap_ok K (kern w) cap;
            w1 = w\<lparr>kern := k\<rparr>
        in if \<not> ok then do {
             (_, w2) \<leftarrow> fprintf K stderr ''tail: out of memory\<newline>'' [] w1;
             Some (1, w2)
           } else do {
             (q, w2) \<leftarrow> while_getc (fgetc K f) (\<lambda>c q w. Some (False, ring_push (to_char c) q, w)) (ring_init cap NUL) w1;
             let w3 = write_ring K q w2;
             Some (stream_status f w3, w3)
           })"

definition tail_from_line :: "'k kernel \<Rightarrow> fptr \<Rightarrow> int \<Rightarrow> 'k world \<Rightarrow> (int \<times> 'k world) option" where
  "tail_from_line K f start0 w = do {
     let start = (if start0 < 1 then 1 else start0);
     (_, w') \<leftarrow> while_getc (fgetc K f) (\<lambda>c current_line w.
       Some (False, if c = uchar newline then int64 (current_line + 1) else current_line,
             if current_line \<ge> start then snd (fputc K c stdout w) else w)) 1 w;
     Some (stream_status f w', w')
   }"

definition tail_from_byte :: "'k kernel \<Rightarrow> fptr \<Rightarrow> int \<Rightarrow> 'k world \<Rightarrow> (int \<times> 'k world) option" where
  "tail_from_byte K f start0 w = do {
     let start = (if start0 < 1 then 1 else start0);
     (_, w') \<leftarrow> while_getc (fgetc K f) (\<lambda>c idx w.
       Some (False, int64 (idx + 1), if idx \<ge> start then snd (fputc K c stdout w) else w)) 1 w;
     Some (stream_status f w', w')
   }"

definition tail_stream :: "'k kernel \<Rightarrow> fptr \<Rightarrow> tail_opts \<Rightarrow> 'k world \<Rightarrow> (int \<times> 'k world) option" where
  "tail_stream K f opts w =
     (if t_mode opts = MODE_LINES then
        if t_from_start opts then tail_from_line K f (t_count opts) w else tail_last_lines K f (t_count opts) w
      else
        if t_from_start opts then tail_from_byte K f (t_count opts) w else tail_last_bytes K f (t_count opts) w)"

definition tail_long_opts :: "long_option list" where
  "tail_long_opts = map (\<lambda>(n, a, c). \<lparr>opt_name = n, has_arg = a, opt_flag = None, opt_val = uchar c\<rparr>)
     [(''bytes'', required_argument, CHR ''c''), (''lines'', required_argument, CHR ''n''),
      (''quiet'', no_argument, CHR ''q''), (''silent'', no_argument, CHR ''q''),
      (''verbose'', no_argument, CHR ''v''), (''help'', no_argument, CHR ''h'')]"

definition tail_count_option :: "'k kernel \<Rightarrow> count_mode \<Rightarrow> string \<Rightarrow> string option \<Rightarrow> tail_opts \<Rightarrow> 'k world \<Rightarrow>
    (int option \<times> tail_opts \<times> 'k world) option" where
  "tail_count_option K mode msg arg opts w =
     (case arg of
        None \<Rightarrow> None
      | Some a \<Rightarrow>
          (case tail_parse_count a of
             (None, from_start) \<Rightarrow> do {
               (_, w') \<leftarrow> fprintf K stderr msg [VStr (Some a)] w;
               Some (Some 1, opts\<lparr>t_from_start := from_start\<rparr>, w')
             }
           | (Some v, from_start) \<Rightarrow>
               Some (None, opts\<lparr>t_count := v, t_from_start := from_start, t_mode := mode\<rparr>, w)))"

definition tail_option :: "'k kernel \<Rightarrow> int \<Rightarrow> string option \<Rightarrow> tail_opts \<Rightarrow> 'k world \<Rightarrow>
    (int option \<times> tail_opts \<times> 'k world) option" where
  "tail_option K opt arg opts w =
     (if opt = uchar (CHR ''c'') then
        tail_count_option K MODE_BYTES ''tail: invalid number of bytes: '%s'\<newline>'' arg opts w
      else if opt = uchar (CHR ''n'') then
        tail_count_option K MODE_LINES ''tail: invalid number of lines: '%s'\<newline>'' arg opts w
      else if opt = uchar (CHR ''q'') then Some (None, opts\<lparr>t_quiet := True\<rparr>, w)
      else if opt = uchar (CHR ''v'') then Some (None, opts\<lparr>t_verbose := True\<rparr>, w)
      else if opt = uchar (CHR ''h'') then do { (_, w') \<leftarrow> tail_print_help K w; Some (Some 0, opts, w') }
      else Some (Some 1, opts, w))"

fun tail_files :: "'k kernel \<Rightarrow> tail_opts \<Rightarrow> bool \<Rightarrow> string list \<Rightarrow> bool \<Rightarrow> int \<Rightarrow> 'k world \<Rightarrow> (int \<times> 'k world) option" where
  "tail_files K opts print_headers [] first fail w = Some (fail, w)"
| "tail_files K opts print_headers (path # paths) first fail w =
     (let is_stdin = (path = ''-'');
          (sst, s, k) = (if is_stdin then (E_INVALID, \<lparr>st_size = 0, st_mode = 0, st_type = 0\<rparr>, kern w)
                         else sys_stat K (kern w) path STAT_FOLLOW_FLAG);
          w1 = w\<lparr>kern := k\<rparr>
      in if \<not> is_stdin \<and> sst = E_SUCCESS \<and> is_dir_mode (st_mode s) then do {
           (_, w2) \<leftarrow> fprintf K stderr ''tail: error reading '%s': Is a directory\<newline>'' [VStr (Some path)] w1;
           tail_files K opts print_headers paths first 1 w2
         } else
           let (f, w2) = (if is_stdin then (stdin, w1) else fopen K (Some path) (Some ''r'') w1)
           in if f = None then do {
                (_, w3) \<leftarrow> fprintf K stderr ''tail: cannot open '%s' for reading: No such file or directory\<newline>''
                  [VStr (Some path)] w2;
                tail_files K opts print_headers paths first 1 w3
              } else do {
                (_, w3) \<leftarrow> (if print_headers
                  then print_header K first (if is_stdin then ''standard input'' else path) w2 else Some ((), w2));
                (r, w4) \<leftarrow> tail_stream K f opts w3;
                tail_files K opts print_headers paths False (or fail r) (if is_stdin then w4 else snd (fclose K f w4))
              })"

definition tail_main :: "'k kernel \<Rightarrow> string list \<Rightarrow> 'k world \<Rightarrow> (int \<times> 'k world) option" where
  "tail_main K argv w = do {
     (ret, opts, g, w1) \<leftarrow> getopt_loop (getopt_long K argv ''c:n:qvh'' tail_long_opts) (tail_option K)
       \<lparr>t_mode = MODE_LINES, t_count = 10, t_from_start = False, t_quiet = False, t_verbose = False\<rparr> getopt_init w;
     case ret of
       Some r \<Rightarrow> Some (r, w1)
     | None \<Rightarrow>
         if optind g \<ge> length argv then do {
           (r, w2) \<leftarrow> tail_stream K stdin opts w1;
           Some (if or 0 r \<noteq> 0 then 1 else 0, w2)
         } else do {
           let multi = (length argv - optind g > 1);
           let print_headers = (t_verbose opts \<or> (multi \<and> \<not> t_quiet opts));
           (fail, w2) \<leftarrow> tail_files K opts print_headers (drop (optind g) argv) True 0 w1;
           Some (if fail \<noteq> 0 then 1 else 0, w2)
         }
   }"

section \<open>What tail prints\<close>

definition tail_text :: "tail_opts \<Rightarrow> byte list \<Rightarrow> byte list" where
  "tail_text opts bs =
     (if t_mode opts = MODE_LINES then
        if t_from_start opts then from_line (nat (t_count opts - 1)) bs
        else concat (map line_text (last_n (nat (t_count opts)) (split_lines bs)))
      else if t_from_start opts then drop (nat (t_count opts - 1)) bs
      else last_n (nat (t_count opts)) bs)"

lemma fold_prints:
  assumes "prints K V i w0 t w" "\<And>t w x. prints K V i w0 t w \<Longrightarrow> x \<in> set xs \<Longrightarrow> prints K V i w0 (t @ g x) (f x w)"
  shows "prints K V i w0 (t @ concat (map g xs)) (fold f xs w)"
  using assms
proof (induction xs arbitrary: t w)
  case (Cons x xs)
  have "prints K V i w0 (t @ g x) (f x w)" using Cons.prems by simp
  from Cons.IH [OF this] Cons.prems(2) show ?case by simp
qed simp

lemma write_ring_prints:
  assumes "prints K V i w0 t w"
  shows "prints K V i w0 (t @ ring_elems q) (write_ring K q w)"
proof -
  let ?start = "if ring_filled q < length (ring_slots q) then 0 else ring_pos q"
  let ?g = "\<lambda>i. ring_slots q ! ((?start + i) mod length (ring_slots q))"
  have "prints K V i w0 (t @ concat (map (\<lambda>j. [?g j]) [0..<ring_filled q]))
      (fold (\<lambda>j w. snd (fputc K (uchar (?g j)) stdout w)) [0..<ring_filled q] w)"
    by (rule fold_prints [OF assms]) (rule prints_putchar)
  then show ?thesis by (simp add: write_ring_def ring_elems_def Let_def concat_map_singleton)
qed

lemma write_queue_prints:
  assumes "prints K V i w0 t w" "\<forall>l \<in> set (queue_elems q). length (fst l) < 2 ^ 64"
  shows "prints K V i w0 (t @ concat (map line_text (queue_elems q))) (write_queue K q w)"
proof -
  let ?g = "\<lambda>j. slots q ! ((head_idx q + j) mod length (slots q))"
  have "prints K V i w0 (t @ concat (map (\<lambda>j. line_text (?g j)) [0..<qcount q]))
      (fold (\<lambda>j. write_pending K (?g j)) [0..<qcount q] w)"
    by (rule fold_prints [OF assms(1)]) (use assms(2) write_pending_prints in \<open>fastforce simp: queue_elems_def\<close>)
  then show ?thesis by (simp add: write_queue_def queue_elems_def comp_def)
qed

lemma tail_last_bytes_prints:
  assumes "io_ok K V i w" "kernel_heap K V" "0 < n" "\<not> error (files w i)"
  obtains w' where "tail_last_bytes K (Some i) n w = Some (0, w')" "prints K V i w (last_n (nat n) (remaining V i w)) w'"
proof -
  obtain k' where k': "heap_ok K (kern w) (nat n) = (True, k')" "prints K V i w [] (w\<lparr>kern := k'\<rparr>)"
      "remaining V i (w\<lparr>kern := k'\<rparr>) = remaining V i w"
    by (rule heap_prints [OF prints_refl [OF assms(1)] assms(2)])
  let ?body = "\<lambda>c q w. Some (False, ring_push (to_char c) q, w)"
  let ?q = "fold ring_push (remaining V i w) (ring_init (nat n) NUL)"
  obtain w' where w': "while_getc (fgetc K (Some i)) ?body (ring_init (nat n) NUL) (w\<lparr>kern := k'\<rparr>) = Some (?q, w')"
      "stream_ok K V i w'" "reads_only V i (w\<lparr>kern := k'\<rparr>) w'"
    using fgetc_stream.while_getc_fold [where body = ?body and g = "\<lambda>c. ring_push (to_char c)" and a = "ring_init (nat n) NUL",
        OF io_ok_stream [OF prints_io [OF k'(2)]]] k'(3) by auto
  have "ring_elems ?q = last_n (nat n) (remaining V i w)"
    by (rule ring.fold_push(2)) (use assms(3) in \<open>simp_all add: ring_init_ok\<close>)
  with write_ring_prints [OF prints_reads [OF k'(2) w'(3,2)], of ?q]
  have "prints K V i w (last_n (nat n) (remaining V i w)) (write_ring K ?q w')" by simp
  with w'(1) k'(1) assms(3,4) that show ?thesis by (auto simp: tail_last_bytes_def status_ok)
qed

lemma tail_last_lines_prints:
  assumes "io_ok K V i w" "kernel_heap K V" "0 < n" "\<not> error (files w i)" "length (remaining V i w) < 2 ^ 64"
  obtains w' where "tail_last_lines K (Some i) n w = Some (0, w')"
    "prints K V i w (concat (map line_text (last_n (nat n) (split_lines (remaining V i w))))) w'"
proof -
  let ?cap = "nat n" and ?ls = "split_lines (remaining V i w)"
  obtain k' where k': "heap_ok K (kern w) (?cap * sizeof_pending_line) = (True, k')" "prints K V i w [] (w\<lparr>kern := k'\<rparr>)"
      "remaining V i (w\<lparr>kern := k'\<rparr>) = remaining V i w"
    by (rule heap_prints [OF prints_refl [OF assms(1)] assms(2)])
  let ?body = "\<lambda>line nl q w. Some (queue_push (line, nl) q, w)"
  let ?P = "\<lambda>pre (q :: (byte list \<times> bool) queue) u. prints K V i w [] u \<and> queue_ok ?cap q \<and> queue_elems q = last_n ?cap pre"
  have "\<exists>q w'. each_line (read_line K (Some i)) ?body (queue_init ?cap ([], False)) (w\<lparr>kern := k'\<rparr>) = Some (False, q, w') \<and>
      ?P (split_lines (remaining V i (w\<lparr>kern := k'\<rparr>))) q w' \<and> stream_ok K V i w'"
  proof (rule each_line_rule [OF assms(2), where P = ?P and bs = "remaining V i w"])
    fix pre l nl q u u'
    assume p: "?P pre q u" and r: "reads_only V i u u'" "stream_ok K V i u'"
    have "prints K V i w [] u'" using p r prints_reads by blast
    with p r queue.push_last_n [of ?cap q pre "(l, nl)"]
    show "\<exists>q' u2. ?body l nl q u' = Some (q', u2) \<and> stream_ok K V i u2 \<and>
        remaining V i u2 = remaining V i u' \<and> ?P (pre @ [(l, nl)]) q' u2" by blast
  next
    fix pre q u u'
    assume "?P pre q u" "reads_only V i u u'" "stream_ok K V i u'"
    then show "?P pre q u'" using prints_reads by blast
  qed (use assms k' in \<open>auto simp: queue_init_ok intro: io_ok_stream prints_io\<close>)
  then obtain q w' where w': "each_line (read_line K (Some i)) ?body (queue_init ?cap ([], False)) (w\<lparr>kern := k'\<rparr>) = Some (False, q, w')"
      "prints K V i w [] w'" "queue_elems q = last_n ?cap ?ls"
    using k'(3) by auto
  have "\<forall>l \<in> set (queue_elems q). length (fst l) < 2 ^ 64"
    using split_lines_lengths [of _ _ "remaining V i w"] assms(5) w'(3) by (fastforce simp: last_n_def dest: in_set_dropD)
  from write_queue_prints [OF w'(2) this] w'(3)
  have "prints K V i w (concat (map line_text (last_n ?cap ?ls))) (write_queue K q w')" by simp
  moreover from this have "\<not> error (files (write_queue K q w') i)" using assms(4) by (simp add: prints_def)
  ultimately show ?thesis using w'(1) k'(1) assms(3) that
    by (auto simp: tail_last_lines_def tail_read_line_def ferror_def)
qed

text \<open>The loops that skip a part of the stream: a counter that starts at 1 and is compared with \<open>start\<close>
  before a byte is printed.\<close>

lemma counting_loop_prints:
  assumes "io_ok K V i w" "length (remaining V i w) < 2 ^ 62"
    and "\<And>pre c. out (pre @ [c]) = out pre @ (if m \<le> cnt pre then [c] else [])" "out [] = []"
    and "\<And>pre c. cnt (pre @ [c]) = cnt pre + (if adv (uchar c) then 1 else 0)" "cnt [] = 0"
  shows "\<exists>a w'. while_getc (fgetc K (Some i)) (\<lambda>c n w. Some (False, if adv c then int64 (n + 1) else n,
             if n \<ge> int m + 1 then snd (fputc K c stdout w) else w)) 1 w = Some (a, w') \<and>
      prints K V i w (out (remaining V i w)) w'"
proof -
  let ?body = "\<lambda>c n w. Some (False, if adv c then int64 (n + 1) else n,
             if n \<ge> int m + 1 then snd (fputc K c stdout w) else w)"
  let ?P = "\<lambda>pre n u. prints K V i w (out pre) u \<and> n = 1 + int (cnt pre) \<and> cnt pre \<le> length pre \<and>
      length pre + length (remaining V i u) \<le> length (remaining V i w)"
  have "\<exists>a w'. while_getc (fgetc K (Some i)) ?body 1 w = Some (a, w') \<and> ?P (remaining V i w) a w' \<and>
      stream_ok K V i w' \<and> remaining V i w' = []"
  proof (rule fgetc_stream.while_getc_all [where V = V and P = ?P])
    fix pre c n u u'
    assume p: "?P pre n u" and r: "remaining V i u = c # remaining V i u'" "stream_ok K V i u'" "reads_only V i u u'"
    have p': "prints K V i w (out pre) u'" using p r prints_reads by blast
    have "int64 (n + 1) = n + 1" using p r assms(2) by (intro int64_id) auto
    with prints_if_fputc [OF p', of "m \<le> cnt pre" c] p r
    show "\<exists>n' u2. ?body (uchar c) n u' = Some (False, n', u2) \<and> stream_ok K V i u2 \<and>
        remaining V i u2 = remaining V i u' \<and> ?P (pre @ [c]) n' u2"
      by (auto simp: assms(3,5) dest: prints_stream)
  next
    fix pre n u u'
    assume "?P pre n u" "stream_ok K V i u'" "remaining V i u' = []" "reads_only V i u u'"
    then show "?P pre n u'" using prints_reads by auto
  qed (use assms in \<open>auto intro: io_ok_stream prints_refl\<close>)
  then show ?thesis by blast
qed

lemma tail_from_line_prints:
  assumes "io_ok K V i w" "length (remaining V i w) < 2 ^ 62" "\<not> error (files w i)"
  shows "\<exists>w'. tail_from_line K (Some i) n w = Some (0, w') \<and> prints K V i w (from_line (nat (n - 1)) (remaining V i w)) w'"
proof -
  have start: "(if n < 1 then 1 else n) = int (nat (n - 1)) + 1" by simp
  have "\<exists>a w'. while_getc (fgetc K (Some i)) (\<lambda>c m w. Some (False, if c = uchar newline then int64 (m + 1) else m,
             if m \<ge> int (nat (n - 1)) + 1 then snd (fputc K c stdout w) else w)) 1 w = Some (a, w') \<and>
      prints K V i w (from_line (nat (n - 1)) (remaining V i w)) w'"
    by (rule counting_loop_prints [OF assms(1,2), where cnt = "\<lambda>bs. count_list bs newline"])
      (simp_all add: from_line_snoc)
  then show ?thesis unfolding tail_from_line_def start Let_def using status_ok assms(3) by fastforce
qed

lemma tail_from_byte_prints:
  assumes "io_ok K V i w" "length (remaining V i w) < 2 ^ 62" "\<not> error (files w i)"
  shows "\<exists>w'. tail_from_byte K (Some i) n w = Some (0, w') \<and> prints K V i w (drop (nat (n - 1)) (remaining V i w)) w'"
proof -
  have start: "(if n < 1 then 1 else n) = int (nat (n - 1)) + 1" by simp
  have "\<exists>a w'. while_getc (fgetc K (Some i)) (\<lambda>c m w. Some (False, if True then int64 (m + 1) else m,
             if m \<ge> int (nat (n - 1)) + 1 then snd (fputc K c stdout w) else w)) 1 w = Some (a, w') \<and>
      prints K V i w (drop (nat (n - 1)) (remaining V i w)) w'"
    by (rule counting_loop_prints [OF assms(1,2), where cnt = length and adv = "\<lambda>_. True"]) simp_all
  then show ?thesis unfolding tail_from_byte_def start Let_def if_True using status_ok assms(3) by fastforce
qed

section \<open>Properties\<close>

text \<open>C25. \<open>tail\<close> prints what its options ask for: the last n lines or bytes of the stream, or everything
  from line or byte n on (0 meaning 1), for every n, and returns 0. The circular buffers hold exactly the
  last elements whatever the length of the stream.\<close>

theorem tail_stream_correct:
  assumes "io_ok K V i w" "kernel_heap K V" "length (remaining V i w) < 2 ^ 62" "\<not> error (files w i)"
    and "0 \<le> t_count opts"
  shows "\<exists>w'. tail_stream K (Some i) opts w = Some (0, w') \<and>
    printed V w' = printed V w @ tail_text opts (remaining V i w)"
proof -
  let ?n = "t_count opts" and ?bs = "remaining V i w"
  have short: "length ?bs < 2 ^ 64" using assms(3) by simp
  have "\<exists>w'. tail_stream K (Some i) opts w = Some (0, w') \<and> prints K V i w (tail_text opts ?bs) w'"
  proof (cases "t_from_start opts \<or> ?n = 0")
    case True
    then show ?thesis
      using tail_from_line_prints [OF assms(1,3,4), of ?n] tail_from_byte_prints [OF assms(1,3,4), of ?n]
        prints_refl [OF assms(1)] assms(4)
      by (cases "t_mode opts"; cases "t_from_start opts")
        (simp_all add: tail_stream_def tail_text_def tail_last_lines_def tail_last_bytes_def status_ok last_n_def)
  next
    case False
    then have n: "0 < ?n" using assms(5) by simp
    have bytes: "\<exists>w'. tail_last_bytes K (Some i) ?n w = Some (0, w') \<and> prints K V i w (last_n (nat ?n) ?bs) w'"
      by (rule tail_last_bytes_prints [OF assms(1,2) n assms(4)]) blast
    have lines: "\<exists>w'. tail_last_lines K (Some i) ?n w = Some (0, w') \<and>
        prints K V i w (concat (map line_text (last_n (nat ?n) (split_lines ?bs)))) w'"
      by (rule tail_last_lines_prints [OF assms(1,2) n assms(4) short]) blast
    show ?thesis
      using bytes lines False by (cases "t_mode opts") (simp_all add: tail_stream_def tail_text_def)
  qed
  then show ?thesis by (auto simp: prints_def)
qed

theorem tail_stream_correct_witness:
  "\<exists>w'. tail_stream ram_kernel stdin \<lparr>t_mode = MODE_BYTES, t_count = 3, t_from_start = False, t_quiet = False, t_verbose = False\<rparr>
      (ram_world ''abcdefgh'') = Some (0, w') \<and> printed ram_view w' = ''fgh''"
proof -
  let ?o = "\<lparr>t_mode = MODE_BYTES, t_count = 3, t_from_start = False, t_quiet = False, t_verbose = False\<rparr>"
  have "\<not> error (files (ram_world ''abcdefgh'') 0)" by (simp add: ram_world_def unbound_file_def)
  moreover have "tail_text ?o ''abcdefgh'' = ''fgh''" by code_simp
  ultimately show ?thesis
    using tail_stream_correct [of ram_kernel ram_view 0 "ram_world ''abcdefgh''" ?o]
    by (simp only: ram_world_io_ok ram_kernel_heap ram_world_remaining ram_world_printed) auto
qed

end
