(* ===== verification/Echo.thy ===== *)
theory Echo
  imports Lines Getopt
begin

text \<open>
  \<open>userspace/echo.c\<close>: printing the arguments, with the backslash escapes of \<open>-e\<close>.
\<close>

section \<open>The program\<close>

abbreviation backslash :: byte where
  "backslash \<equiv> CHR 0x5C"

definition echo_print_help :: "'k kernel \<Rightarrow> 'k world \<Rightarrow> (unit \<times> 'k world) option" where
  "echo_print_help K w = printf_all K [
     ''Usage: echo [-n] [-e] [-E] [-h] [string ...]\<newline>'',
     ''Write arguments to standard output.\<newline>\<newline>'',
     ''  -n        do not output a trailing newline\<newline>'',
     ''  -e        enable interpretation of backslash escapes\<newline>'',
     ''  -E        disable interpretation of backslash escapes (default)\<newline>'',
     ''  -h, --help  display this help and exit\<newline>\<newline>'',
     ''Recognized escapes when -e is used: '' @ [backslash, backslash] @ '' '' @
       concat (map (\<lambda>c. [backslash, c] @ '' '') ''ntrabfv'') @ [backslash] @ ''c\<newline>'',
     ''('' @ [backslash] @ ''c stops all further output immediately, with no trailing newline)\<newline>''] w"

text \<open>The character an escape stands for; \<open>\c\<close> and the unknown ones are handled by the caller.\<close>

fun escape_char :: "byte \<Rightarrow> byte option" where
  "escape_char c =
     (if c = CHR ''n'' then Some newline
      else if c = CHR ''t'' then Some (CHR 0x09)
      else if c = CHR ''r'' then Some (CHR 0x0D)
      else if c = CHR ''a'' then Some (CHR 0x07)
      else if c = CHR ''b'' then Some (CHR 0x08)
      else if c = CHR ''f'' then Some (CHR 0x0C)
      else if c = CHR ''v'' then Some (CHR 0x0B)
      else if c = backslash then Some backslash
      else None)"

definition put :: "'k kernel \<Rightarrow> byte \<Rightarrow> 'k world \<Rightarrow> 'k world" where
  "put K c w = snd (fputc K (schar c) stdout w)"

fun output_escaped :: "'k kernel \<Rightarrow> string \<Rightarrow> 'k world \<Rightarrow> bool \<times> 'k world" where
  "output_escaped K [] w = (False, w)"
| "output_escaped K [c] w = (False, put K c w)"
| "output_escaped K (c # d # s) w =
     (if c = backslash then
        case escape_char d of
          Some e \<Rightarrow> output_escaped K s (put K e w)
        | None \<Rightarrow>
            if d = CHR ''c'' then (True, w)
            else output_escaped K s (put K d (put K backslash w))
      else output_escaped K (d # s) (put K c w))"

text \<open>The loop over the arguments; \<open>first\<close> says that none was printed yet.\<close>

fun echo_args :: "'k kernel \<Rightarrow> bool \<Rightarrow> bool \<Rightarrow> string list \<Rightarrow> 'k world \<Rightarrow> bool \<times> 'k world" where
  "echo_args K escapes first [] w = (False, w)"
| "echo_args K escapes first (a # as) w =
     (let w1 = (if first then w else put K (CHR '' '') w);
          (stop, w2) = (if escapes then output_escaped K a w1 else (False, snd (fputs K (Some a) stdout w1)))
      in if stop then (True, w2) else echo_args K escapes False as w2)"

definition echo_option :: "'k kernel \<Rightarrow> int \<Rightarrow> string option \<Rightarrow> bool \<times> bool \<Rightarrow> 'k world \<Rightarrow>
    (int option \<times> (bool \<times> bool) \<times> 'k world) option" where
  "echo_option K opt arg st w =
     (if opt = uchar (CHR ''n'') then Some (None, (False, snd st), w)
      else if opt = uchar (CHR ''e'') then Some (None, (fst st, True), w)
      else if opt = uchar (CHR ''E'') then Some (None, (fst st, False), w)
      else if opt = uchar (CHR ''h'') then do { (_, w') \<leftarrow> echo_print_help K w; Some (Some 0, st, w') }
      else Some (Some 1, st, w))"

definition echo_main :: "'k kernel \<Rightarrow> string list \<Rightarrow> 'k world \<Rightarrow> (int \<times> 'k world) option" where
  "echo_main K argv w = do {
     (ret, (nl, escapes), g, w1) \<leftarrow> getopt_loop
       (getopt_long K argv ''neEh'' [\<lparr>opt_name = ''help'', has_arg = no_argument, opt_flag = None, opt_val = uchar (CHR ''h'')\<rparr>])
       (echo_option K) (True, False) getopt_init w;
     case ret of
       Some r \<Rightarrow> Some (r, w1)
     | None \<Rightarrow>
         let (stop, w2) = echo_args K escapes True (drop (optind g) argv) w1
         in Some (0, if nl \<and> \<not> stop then put K newline w2 else w2)
   }"

section \<open>What echo prints\<close>

text \<open>The text of an argument with escapes: an escape stands for one character, \<open>\c\<close> ends everything, an
  unknown escape and a single backslash at the end stand for themselves.\<close>

fun unescape :: "string \<Rightarrow> string \<times> bool" where
  "unescape [] = ([], False)"
| "unescape [c] = ([c], False)"
| "unescape (c # d # s) =
     (if c \<noteq> backslash then (let (t, b) = unescape (d # s) in (c # t, b))
      else if d = CHR ''c'' then ([], True)
      else let (t, b) = unescape s
           in (case escape_char d of Some e \<Rightarrow> e # t | None \<Rightarrow> backslash # d # t, b))"

fun echo_text :: "bool \<Rightarrow> bool \<Rightarrow> string list \<Rightarrow> string \<times> bool" where
  "echo_text escapes first [] = ([], False)"
| "echo_text escapes first (a # as) =
     (let (t, stop) = (if escapes then unescape a else (a, False));
          t1 = (if first then t else CHR '' '' # t)
      in if stop then (t1, True)
         else let (t2, b) = echo_text escapes False as in (t1 @ t2, b))"

lemma to_char_schar [simp]: "to_char (schar c) = c"
proof -
  have "take_bit 8 (schar c) = uchar c"
    using uchar_bounds [of c] by (simp add: schar_def uchar_def take_bit_signed_take_bit take_bit_int_eq_self)
  then have "schar c mod 256 = uchar c" by (simp add: take_bit_eq_mod)
  then have "uchar (to_char (schar c)) = uchar c" by (simp add: uchar_to_char)
  then show ?thesis by simp
qed

lemma put_prints: "prints K V i w0 t w \<Longrightarrow> prints K V i w0 (t @ [c]) (put K c w)"
  using prints_fputc [of K V i w0 t w "schar c"] by (simp add: put_def)

lemma output_escaped_prints:
  "prints K V i w0 t w \<Longrightarrow>
   fst (output_escaped K s w) = snd (unescape s) \<and> prints K V i w0 (t @ fst (unescape s)) (snd (output_escaped K s w))"
proof (induction K s w arbitrary: t rule: output_escaped.induct)
  case (2 K c w)
  then show ?case by (simp add: put_prints)
next
  case (3 K c d s w)
  note p = 3(4)
  show ?case
  proof (cases "c = backslash")
    case True
    show ?thesis
    proof (cases "escape_char d")
      case None
      have "prints K V i w0 (t @ [backslash, d]) (put K d (put K backslash w))"
        using put_prints [OF put_prints [OF p, of backslash], of d] by simp
      from 3(1) [OF True None _ this] None True p show ?thesis
        by (cases "d = CHR ''c''") (simp_all add: split_beta del: escape_char.simps)
    next
      case (Some e)
      have "d \<noteq> CHR ''c''" using Some by (auto split: if_splits)
      with 3(2) [OF True Some put_prints [OF p]] Some True show ?thesis
        by (simp add: split_beta del: escape_char.simps)
    qed
  next
    case False
    from 3(3) [OF False put_prints [OF p]] False show ?thesis
      by (simp add: split_beta del: escape_char.simps)
  qed
qed simp

lemma echo_args_prints:
  "prints K V i w0 t w \<Longrightarrow>
   fst (echo_args K e first as w) = snd (echo_text e first as) \<and>
   prints K V i w0 (t @ fst (echo_text e first as)) (snd (echo_args K e first as w))"
proof (induction as arbitrary: first t w)
  case (Cons a as)
  let ?w1 = "if first then w else put K (CHR '' '') w" and ?t1 = "t @ (if first then [] else '' '')"
  have p: "prints K V i w0 ?t1 ?w1" using Cons.prems put_prints by auto
  obtain w2 where puts: "fputs K (Some a) stdout ?w1 = (0, w2)" "prints K V i w0 (?t1 @ a) w2"
    by (rule fputs_stdout [OF prints_io [OF p]]) (use p prints_writes in blast)
  show ?case
  proof (cases e)
    case True
    from output_escaped_prints [OF p, of a] Cons.IH [of "?t1 @ fst (unescape a)" "snd (output_escaped K a ?w1)" False] True
    show ?thesis by (auto simp: split_beta Let_def)
  next
    case False
    from Cons.IH [OF puts(2), of False] puts(1) False show ?thesis by (auto simp: split_beta Let_def)
  qed
qed simp

section \<open>Properties\<close>



end
