(* ===== verification/Scanf.thy ===== *)
theory Scanf
  imports Stdio_Props Ctype
begin

text \<open>
  Formatted input, \<open>userspace/libc/scanf.c\<close>. The source of characters, a pair of function pointers in
  the code, is a pair of functions here; \<open>sscanf\<close> reads a string and \<open>fscanf\<close> a stream through it. What is
  stored through the pointers of the argument list is returned as a list, in their order.
\<close>

section \<open>Sources\<close>

definition file_get :: "'k kernel \<Rightarrow> fptr \<Rightarrow> 'k world \<Rightarrow> int \<times> 'k world" where
  "file_get K f w = fgetc K f w"

definition file_unget :: "fptr \<Rightarrow> int \<Rightarrow> 'k world \<Rightarrow> 'k world" where
  "file_unget f c w = (if c \<noteq> EOF then snd (ungetc c f w) else w)"

type_synonym str_ctx = "string \<times> nat"

definition str_get :: "str_ctx \<Rightarrow> int \<times> str_ctx" where
  "str_get sc = (let (s, pos) = sc; c = peek s pos in if c = NUL then (EOF, sc) else (uchar c, s, pos + 1))"

definition str_unget :: "int \<Rightarrow> str_ctx \<Rightarrow> str_ctx" where
  "str_unget c sc = (let (s, pos) = sc in (s, if pos > 0 then pos - 1 else pos))"

section \<open>The scanner\<close>

datatype len_mod = LEN_NONE | LEN_CHAR | LEN_SHORT | LEN_LONG | LEN_LONGLONG

text \<open>A store through an argument: characters without and with a terminator, and numbers of the type
  the conversion and its length modifier select, already converted to it.\<close>

datatype store = Chars string | Str string | Signed len_mod int | Unsigned len_mod int

definition matches_digit :: "byte \<Rightarrow> int \<Rightarrow> bool" where
  "matches_digit conv c =
     (if conv = CHR ''x'' then isxdigit c else if conv = CHR ''i'' then isalnum c else isdigit c)"

text \<open>\<open>do c = get(); while (c != EOF && isspace(c))\<close>, with whether a space was skipped.\<close>

partial_function (option) skip_spaces :: "('s \<Rightarrow> int \<times> 's) \<Rightarrow> bool \<Rightarrow> 's \<Rightarrow> (int \<times> bool \<times> 's) option" where
  "skip_spaces get skipped s =
     (let (c, s1) = get s in
      if c \<noteq> EOF \<and> isspace (uint8 c) then skip_spaces get True s1 else Some (c, skipped, s1))"

declare skip_spaces.simps [code]

definition unget_char :: "(int \<Rightarrow> 's \<Rightarrow> 's) \<Rightarrow> int \<Rightarrow> 's \<Rightarrow> 's" where
  "unget_char unget c s = (if c \<noteq> EOF then unget c s else s)"

fun scan_width :: "string \<Rightarrow> int \<Rightarrow> int \<times> string" where
  "scan_width [] w = (w, [])"
| "scan_width (c # fmt) w =
     (if schar c \<ge> 48 \<and> schar c \<le> 57 then scan_width fmt (int32 (w * 10 + (schar c - 48))) else (w, c # fmt))"

definition scan_length :: "string \<Rightarrow> len_mod \<times> string" where
  "scan_length fmt =
     (if peek fmt 0 = CHR ''h'' then
        if peek fmt 1 = CHR ''h'' then (LEN_CHAR, drop 2 fmt) else (LEN_SHORT, drop 1 fmt)
      else if peek fmt 0 = CHR ''l'' then
        if peek fmt 1 = CHR ''l'' then (LEN_LONGLONG, drop 2 fmt) else (LEN_LONG, drop 1 fmt)
      else (LEN_NONE, fmt))"

text \<open>The loop of \<open>%c\<close>: up to w characters.\<close>

fun scan_chars :: "('s \<Rightarrow> int \<times> 's) \<Rightarrow> nat \<Rightarrow> 's \<Rightarrow> string \<times> 's" where
  "scan_chars get 0 s = ([], s)"
| "scan_chars get (Suc w) s =
     (let (c, s1) = get s in
      if c = EOF then ([], s1)
      else let (cs, s2) = scan_chars get w s1 in (to_char c # cs, s2))"

text \<open>The loops of \<open>%s\<close> and of the digits: while the character in \<open>c\<close> is accepted and there is room.\<close>

fun scan_while :: "('s \<Rightarrow> int \<times> 's) \<Rightarrow> (int \<Rightarrow> bool) \<Rightarrow> nat \<Rightarrow> int \<Rightarrow> 's \<Rightarrow> string \<times> int \<times> 's" where
  "scan_while get P 0 c s = ([], c, s)"
| "scan_while get P (Suc m) c s =
     (if c \<noteq> EOF \<and> P c then
        let (c1, s1) = get s; (cs, c2, s2) = scan_while get P m c1 s1 in (to_char c # cs, c2, s2)
      else ([], c, s))"

text \<open>The text of a number: sign, prefix and digits. The width limits only the digits.\<close>

definition scan_number :: "('s \<Rightarrow> int \<times> 's) \<Rightarrow> byte \<Rightarrow> int \<Rightarrow> int \<Rightarrow> 's \<Rightarrow> string \<times> int \<times> 's" where
  "scan_number get conv width c0 s0 =
     (let (sign, c1, s1) = (if c0 = uchar (CHR ''+'') \<or> c0 = uchar (CHR ''-'')
                            then let (c, s) = get s0 in ([to_char c0], c, s) else ([], c0, s0));
          (zero, c2, s2) = (if (conv = CHR ''x'' \<or> conv = CHR ''i'') \<and> c1 = uchar (CHR ''0'')
                            then let (c, s) = get s1 in ([to_char c1], c, s) else ([], c1, s1));
          (pre, c3, s3) = (if zero \<noteq> [] \<and> (c2 = uchar (CHR ''x'') \<or> c2 = uchar (CHR ''X''))
                           then let (c, s) = get s2 in (zero @ [to_char c2], c, s) else (zero, c2, s2));
          ti = length (sign @ pre);
          maxw = (if width > 0 then nat width else 63);
          (ds, c4, s4) = scan_while get (matches_digit conv) (min maxw 63 - ti) c3 s3
      in (sign @ pre @ ds, c4, s4))"

definition store_signed :: "len_mod \<Rightarrow> int \<Rightarrow> store" where
  "store_signed m v = Signed m
     (case m of LEN_CHAR \<Rightarrow> signed_take_bit 7 v | LEN_SHORT \<Rightarrow> signed_take_bit 15 v
      | LEN_LONG \<Rightarrow> v | LEN_LONGLONG \<Rightarrow> v | LEN_NONE \<Rightarrow> int32 v)"

definition store_unsigned :: "len_mod \<Rightarrow> int \<Rightarrow> store" where
  "store_unsigned m v = Unsigned m
     (case m of LEN_CHAR \<Rightarrow> uint8 v | LEN_SHORT \<Rightarrow> take_bit 16 v
      | LEN_LONG \<Rightarrow> v | LEN_LONGLONG \<Rightarrow> v | LEN_NONE \<Rightarrow> uint32 v)"

definition number_store :: "byte \<Rightarrow> len_mod \<Rightarrow> string \<Rightarrow> store" where
  "number_store conv m tok =
     (let base = (if conv = CHR ''x'' then 16 else if conv = CHR ''o'' then 8 else if conv = CHR ''i'' then 0 else 10)
      in if conv = CHR ''d'' \<or> conv = CHR ''i'' then store_signed m (fst (strtol tok base))
         else store_unsigned m (fst (strtoul tok base)))"

definition end_value :: "bool \<Rightarrow> int \<Rightarrow> int" where
  "end_value any_input assigned = (if any_input \<or> assigned \<noteq> 0 then assigned else EOF)"

text \<open>The state of the main loop: the rest of the format, the number of assignments, whether input was
  read, what has been stored, and the source. One round of the loop returns the result of the function
  or the next state.\<close>

type_synonym 's scan_st = "string \<times> int \<times> bool \<times> store list \<times> 's"
type_synonym 's scan_res = "int \<times> store list \<times> 's"

definition scan_literal :: "('s \<Rightarrow> int \<times> 's) \<Rightarrow> (int \<Rightarrow> 's \<Rightarrow> 's) \<Rightarrow> byte \<Rightarrow> string \<Rightarrow> 's scan_st \<Rightarrow> 's scan_res + 's scan_st" where
  "scan_literal get unget lit fmt1 x =
     (let (fmt, assigned, any_input, st, s) = x;
          (c, s1) = get s
      in if c = EOF then Inl (end_value any_input assigned, st, s1)
         else if to_char c \<noteq> lit then Inl (assigned, st, unget c s1)
         else Inr (fmt1, assigned, True, st, s1))"

definition scan_assign :: "bool \<Rightarrow> store \<Rightarrow> string \<Rightarrow> int \<Rightarrow> store list \<Rightarrow> 's \<Rightarrow> 's scan_res + 's scan_st" where
  "scan_assign suppress v fmt assigned st s =
     (if suppress then Inr (fmt, assigned, True, st, s) else Inr (fmt, assigned + 1, True, st @ [v], s))"

definition scan_conversion :: "('s \<Rightarrow> int \<times> 's) \<Rightarrow> (int \<Rightarrow> 's \<Rightarrow> 's) \<Rightarrow> bool \<Rightarrow> int \<Rightarrow> len_mod \<Rightarrow> byte \<Rightarrow> 's scan_st \<Rightarrow>
    ('s scan_res + 's scan_st) option" where
  "scan_conversion get unget suppress width lm conv x =
     (let (fmt, assigned, any_input, st, s) = x in
      if conv = CHR ''c'' then
        let w = (if width > 0 then nat width else 1);
            (cs, s1) = scan_chars get w s;
            st1 = (if suppress then st else st @ [Chars cs]);
            any1 = (any_input \<or> cs \<noteq> []) in
        if length cs < w then Some (Inl (end_value any1 assigned, st1, s1))
        else Some (Inr (fmt, if suppress then assigned else assigned + 1, any1, st1, s1))
      else do {
        (c, _, s1) \<leftarrow> skip_spaces get False s;
        if c = EOF then Some (Inl (end_value any_input assigned, st, s1))
        else if conv = CHR ''s'' then
          let maxw = (if width > 0 then nat width else 255);
              (t, c2, s2) = scan_while get (\<lambda>c. \<not> isspace (uint8 c)) (min maxw 255) c s1;
              s3 = unget_char unget c2 s2 in
          if t = [] then Some (Inl (assigned, st, s3))
          else Some (scan_assign suppress (Str t) fmt assigned st s3)
        else
          let (tok, c2, s2) = scan_number get conv width c s1;
              s3 = unget_char unget c2 s2 in
          if tok = [] \<or> tok = ''+'' \<or> tok = ''-'' then Some (Inl (assigned, st, s3))
          else Some (scan_assign suppress (number_store conv lm tok) fmt assigned st s3)
      })"

definition scan_step :: "('s \<Rightarrow> int \<times> 's) \<Rightarrow> (int \<Rightarrow> 's \<Rightarrow> 's) \<Rightarrow> 's scan_st \<Rightarrow> ('s scan_res + 's scan_st) option" where
  "scan_step get unget x =
     (let (fmt, assigned, any_input, st, s) = x in
      if peek fmt 0 = NUL then Some (Inl (assigned, st, s))
      else if isspace (uchar (peek fmt 0)) then do {
        (c, skipped, s1) \<leftarrow> skip_spaces get False s;
        Some (Inr (drop 1 fmt, assigned, any_input \<or> skipped, st, unget_char unget c s1))
      }
      else if peek fmt 0 \<noteq> CHR ''%'' then Some (scan_literal get unget (peek fmt 0) (drop 1 fmt) x)
      else if peek fmt 1 = CHR ''%'' then Some (scan_literal get unget (CHR ''%'') (drop 2 fmt) x)
      else
        let suppress = (peek fmt 1 = CHR ''*'');
            (width, fmt2) = scan_width (drop (if suppress then 2 else 1) fmt) 0;
            (lm, fmt3) = scan_length fmt2;
            conv = peek fmt3 0 in
        if conv = NUL then Some (Inl (assigned, st, s))
        else scan_conversion get unget suppress width lm conv (drop 1 fmt3, assigned, any_input, st, s))"

partial_function (option) vformat_scan ::
  "('s \<Rightarrow> int \<times> 's) \<Rightarrow> (int \<Rightarrow> 's \<Rightarrow> 's) \<Rightarrow> 's scan_st \<Rightarrow> 's scan_res option" where
  "vformat_scan get unget x = do {
     r \<leftarrow> scan_step get unget x;
     case r of Inl y \<Rightarrow> Some y | Inr x' \<Rightarrow> vformat_scan get unget x'
   }"

declare vformat_scan.simps [code]

definition vfscanf :: "'k kernel \<Rightarrow> fptr \<Rightarrow> string \<Rightarrow> 'k world \<Rightarrow> (int \<times> store list \<times> 'k world) option" where
  "vfscanf K stream fmt w = vformat_scan (file_get K stream) (file_unget stream) (fmt, 0, False, [], w)"

definition fscanf :: "'k kernel \<Rightarrow> fptr \<Rightarrow> string \<Rightarrow> 'k world \<Rightarrow> (int \<times> store list \<times> 'k world) option" where
  "fscanf K stream fmt w = vfscanf K stream fmt w"

definition vscanf :: "'k kernel \<Rightarrow> string \<Rightarrow> 'k world \<Rightarrow> (int \<times> store list \<times> 'k world) option" where
  "vscanf K fmt w = vfscanf K stdin fmt w"

definition scanf :: "'k kernel \<Rightarrow> string \<Rightarrow> 'k world \<Rightarrow> (int \<times> store list \<times> 'k world) option" where
  "scanf K fmt w = vscanf K fmt w"

definition vsscanf :: "string \<Rightarrow> string \<Rightarrow> (int \<times> store list) option" where
  "vsscanf str fmt = do { (r, st, _) \<leftarrow> vformat_scan str_get str_unget (fmt, 0, False, [], str, 0); Some (r, st) }"

definition sscanf :: "string \<Rightarrow> string \<Rightarrow> (int \<times> store list) option" where
  "sscanf str fmt = vsscanf str fmt"

abbreviation skip_ws :: "string \<Rightarrow> string" where
  "skip_ws \<equiv> dropWhile (\<lambda>c. isspace (uchar c))"

section \<open>The contract of a source\<close>

text \<open>A source delivers the characters of a text, and a character just read can be put back.\<close>

locale scan_source =
  fixes get :: "'s \<Rightarrow> int \<times> 's"
    and unget :: "int \<Rightarrow> 's \<Rightarrow> 's"
    and rem :: "'s \<Rightarrow> string"
    and ok :: "'s \<Rightarrow> bool"
  assumes get_eof: "ok s \<Longrightarrow> rem s = [] \<Longrightarrow> \<exists>s'. get s = (EOF, s') \<and> ok s' \<and> rem s' = []"
    and get_char: "ok s \<Longrightarrow> rem s = c # cs \<Longrightarrow> \<exists>s'. get s = (uchar c, s') \<and> ok s' \<and> rem s' = cs \<and>
      ok (unget (uchar c) s') \<and> rem (unget (uchar c) s') = c # cs"
begin

text \<open>The scanner holds one character of the text \<open>t\<close> in hand.\<close>

definition ahead :: "int \<Rightarrow> 's \<Rightarrow> string \<Rightarrow> bool" where
  "ahead c s t \<longleftrightarrow> ok s \<and>
     (case t of [] \<Rightarrow> c = EOF \<and> rem s = []
      | x # xs \<Rightarrow> c = uchar x \<and> rem s = xs \<and> ok (unget c s) \<and> rem (unget c s) = t)"

lemma get_ahead:
  assumes "ok s"
  obtains c s' where "get s = (c, s')" "ahead c s' (rem s)"
proof (cases "rem s")
  case Nil
  with get_eof [OF assms] that show ?thesis by (auto simp: ahead_def)
next
  case (Cons x xs)
  with get_char [OF assms Cons] that show ?thesis by (auto simp: ahead_def)
qed

lemma ahead_ok: "ahead c s (x # xs) \<Longrightarrow> ok s \<and> rem s = xs \<and> c = uchar x"
  by (simp add: ahead_def)

lemma ahead_EOF: "ahead c s t \<Longrightarrow> c = EOF \<longleftrightarrow> t = []"
  by (cases t) (auto simp: ahead_def)

lemma unget_ahead: "ahead c s t \<Longrightarrow> ok (unget_char unget c s) \<and> rem (unget_char unget c s) = t"
  by (cases t) (auto simp: ahead_def unget_char_def)

lemma skip_spaces_ahead:
  assumes "ok s"
  shows "\<exists>c k' s'. skip_spaces get k s = Some (c, k', s') \<and> ahead c s' (skip_ws (rem s))"
  using assms
proof (induction "rem s" arbitrary: s k)
  case Nil
  obtain c s' where "get s = (c, s')" "ahead c s' []" using get_ahead [OF Nil(2)] Nil(1) by metis
  moreover have "c = EOF" using calculation(2) by (simp add: ahead_def)
  ultimately show ?case using Nil by (subst skip_spaces.simps) (auto simp: Nil(1) [symmetric])
next
  case (Cons x xs)
  obtain c s' where g: "get s = (c, s')" "ahead c s' (x # xs)" using get_ahead [OF Cons(3)] Cons(2) by metis
  then have c: "c = uchar x" "xs = rem s'" "ok s'" by (auto simp: ahead_def)
  have u: "uint8 (uchar x) = uchar x" using uchar_bounds [of x] by (simp add: uint8_def take_bit_int_eq_self)
  show ?case
  proof (cases "isspace (uchar x)")
    case True
    have "skip_spaces get k s = skip_spaces get True s'" using g c u True by (subst skip_spaces.simps) simp
    with Cons(1) [OF c(2,3), of True] True c(2) Cons(2) [symmetric] show ?thesis by simp
  next
    case False
    have "skip_spaces get k s = Some (c, k, s')" using g c u False by (subst skip_spaces.simps) simp
    with g False Cons(2) [symmetric] show ?thesis by auto
  qed
qed

lemma scan_while_ahead:
  assumes "ahead c s t"
  shows "\<exists>c' s'. scan_while get P m c s = (take m (takeWhile (\<lambda>c. P (uchar c)) t), c', s') \<and>
    ahead c' s' (drop (length (take m (takeWhile (\<lambda>c. P (uchar c)) t))) t)"
  using assms
proof (induction m arbitrary: c s t)
  case (Suc m)
  show ?case
  proof (cases t)
    case Nil
    with Suc.prems show ?thesis by (auto simp: ahead_def)
  next
    case (Cons x xs)
    then have c: "c = uchar x" "rem s = xs" "ok s" using Suc.prems by (auto simp: ahead_def)
    obtain c1 s1 where g: "get s = (c1, s1)" "ahead c1 s1 xs" using get_ahead [OF c(3)] c(2) by metis
    from Suc.IH [OF g(2)] g(1) c(1) Cons Suc.prems show ?thesis by (cases "P (uchar x)") auto
  qed
qed simp

end

interpretation str_source: scan_source str_get str_unget "\<lambda>(s, pos). drop pos s" "\<lambda>(s, pos). pos \<le> length s \<and> NUL \<notin> set s"
proof (unfold_locales, goal_cases)
  case (1 sc)
  then show ?case by (auto simp: str_get_def peek_def split: prod.splits)
next
  case (2 sc c cs)
  obtain s pos where sc: "sc = (s, pos)" by (cases sc)
  have "pos < length s" "s ! pos = c" using 2 sc by (auto dest: nth_via_drop) (metis drop_all list.discI not_le)
  moreover have "c \<noteq> NUL" using 2 sc calculation nth_mem [of pos s] by auto
  moreover have "drop (Suc pos) s = cs" using 2 sc by (simp add: drop_Suc tl_drop [symmetric])
  ultimately show ?case using 2 sc by (auto simp: str_get_def str_unget_def peek_def)
qed

lemma fgetc_clears:
  assumes "stream_ok K V i w" "fgetc K (Some i) w = (uchar c, w')"
  shows "ungetc_ch (files w' i) < 0"
proof -
  have "\<not> uchar c < 0" "uchar c \<noteq> EOF" using uchar_bounds [of c] by auto
  with assms show ?thesis
    by (auto simp: fgetc_def refill_def take_buffered_def Let_def split: if_splits prod.splits)
qed

interpretation file_source: scan_source "file_get K (Some i)" "file_unget (Some i)" "remaining V i" "\<lambda>w. stream_ok K V i w"
  for K V i
proof (unfold_locales, goal_cases)
  case (1 w)
  from 1(1) show ?case by (rule fgetc_cases) (use 1(2) in \<open>auto simp: file_get_def\<close>)
next
  case (2 w c cs)
  obtain w' where w': "fgetc K (Some i) w = (uchar c, w')" "stream_ok K V i w'" "remaining V i w' = cs"
    using 2(1) by (rule fgetc_cases) (use 2(2) in auto)
  have "ungetc_ch (files w' i) < 0" using fgetc_clears [OF 2(1) w'(1)] .
  moreover have "uint8 (uchar c) = uchar c" "0 \<le> uchar c" "uchar c < 256" "uchar c \<noteq> EOF"
    using uchar_bounds [of c] by (auto simp: uint8_def take_bit_int_eq_self)
  ultimately show ?case using w'
    by (auto simp: file_get_def file_unget_def ungetc_def stream_ok_def wf_file_def remaining_def pushed_back_def
      buffered_def)
qed

section \<open>Reading numbers\<close>

lemma schar_uchar: "schar c = (if uchar c < 128 then uchar c else uchar c - 256)"
proof -
  have "(uchar c + 128) mod 256 = (if uchar c < 128 then uchar c + 128 else uchar c - 128)"
    using uchar_bounds [of c] mod_add_self2 [of "uchar c - 128" 256]
    by (auto simp: mod_pos_pos_trivial add.commute)
  then show ?thesis by (simp add: schar_def uchar_def signed_take_bit_eq_take_bit_shift take_bit_eq_mod)
qed

lemma digit_10: "is_digit 10 c \<longleftrightarrow> isdigit (uchar c)"
  using uchar_bounds [of c] by (auto simp: is_digit_def digit_val_def isdigit_def Let_def schar_uchar)

lemma num_text_digits:
  assumes "0 \<le> v"
  shows "num_text 10 False v \<noteq> []" "\<forall>c\<in>set (num_text 10 False v). is_digit 10 c" "digits_num 10 (num_text 10 False v) = v"
proof -
  obtain t where t: "ull_to_str v 10 False = Some t" "t \<noteq> []" "\<forall>c\<in>set t. is_digit 10 c" "digits_num 10 t = v"
    by (rule printed_digits [of 10 v False]) (use assms in simp_all)
  have "t = num_text 10 False v" using t(1) assms by (simp add: ull_to_str_eq num_text_def)
  with t show "num_text 10 False v \<noteq> []" "\<forall>c\<in>set (num_text 10 False v). is_digit 10 c"
    "digits_num 10 (num_text 10 False v) = v" by auto
qed

text \<open>The text of an \<open>int\<close>: a sign, at most 20 digits, and \<open>strtol\<close> gives the number back.\<close>

lemma int_text_parts:
  assumes "- (2 ^ 63) \<le> v" "v < 2 ^ 63"
  obtains sign ds where "int_text 0 False False v = sign @ ds" "sign = [] \<or> sign = ''-''" "ds \<noteq> []"
    "\<forall>c\<in>set ds. isdigit (uchar c)" "length ds \<le> 20" "fst (strtol (sign @ ds) 10) = v"
proof (cases "v < 0")
  case True
  then have u: "uint64 (- v) = - v" using assms by (simp add: uint64_id)
  let ?ds = "num_text 10 False (- v)"
  have t: "int_text 0 False False v = ''-'' @ ?ds" using True u by (simp add: int_text_def uint_text_def pad_text_def)
  have "length ?ds \<le> 20" using assms by (intro length_num_text) simp
  moreover have "fst (strtol (''-'' @ ?ds) 10) = v"
    using parse_digits(2) [of ?ds 10] num_text_digits [of "- v"] True u assms
    by (cases "v = - (2 ^ 63)") (auto simp: strtol_def int64_id int64_def signed_take_bit_int_eq_self)
  ultimately show ?thesis using that [OF t] num_text_digits [of "- v"] True by (simp add: digit_10)
next
  case False
  then have u: "uint64 v = v" using assms by (simp add: uint64_id)
  let ?ds = "num_text 10 False v"
  have t: "int_text 0 False False v = [] @ ?ds" using False u by (simp add: int_text_def uint_text_def pad_text_def)
  have "length ?ds \<le> 20" using assms by (intro length_num_text) simp
  moreover have "fst (strtol ([] @ ?ds) 10) = v"
    using parse_digits(1) [of ?ds 10] num_text_digits [of v] False u assms
    by (auto simp: strtol_def int64_id)
  ultimately show ?thesis using that [OF t] num_text_digits [of v] False by (simp add: digit_10)
qed

definition ends_number :: "string \<Rightarrow> bool" where
  "ends_number t \<longleftrightarrow> (case t of [] \<Rightarrow> True | c # _ \<Rightarrow> \<not> isdigit (uchar c))"

lemma ends_number_simps [simp]: "ends_number []" "ends_number (c # t) \<longleftrightarrow> \<not> isdigit (uchar c)"
  by (simp_all add: ends_number_def)

lemma takeWhile_ends: "\<forall>c\<in>set ds. P c \<Longrightarrow> (case t of [] \<Rightarrow> True | c # _ \<Rightarrow> \<not> P c) \<Longrightarrow> takeWhile P (ds @ t) = ds"
  by (cases t) auto

text \<open>Numbers, each followed by a space, and the format that prints and reads them.\<close>

definition numbers_format :: "nat \<Rightarrow> string" where
  "numbers_format n = concat (replicate n ''%d '')"

definition numbers_text :: "int list \<Rightarrow> string" where
  "numbers_text vs = concat (map (\<lambda>v. int_text 0 False False v @ '' '') vs)"

lemma numbers_simps [simp]:
  "numbers_format 0 = []" "numbers_format (Suc n) = CHR ''%'' # CHR ''d'' # CHR '' '' # numbers_format n"
  "numbers_text [] = []" "numbers_text (v # vs) = int_text 0 False False v @ CHR '' '' # numbers_text vs"
  by (simp_all add: numbers_format_def numbers_text_def)

lemma isdigit_not_sign: "isdigit (uchar c) \<Longrightarrow> c \<noteq> CHR ''+'' \<and> c \<noteq> CHR ''-''"
  by (auto simp: isdigit_def uchar_def)

context scan_source
begin

lemma scan_digits:
  assumes "ahead c s (ds @ rest)" "\<forall>c\<in>set ds. isdigit (uchar c)" "ends_number rest" "length ds \<le> m"
  shows "\<exists>c' s'. scan_while get (matches_digit CHR ''d'') m c s = (ds, c', s') \<and> ahead c' s' rest"
proof -
  have "takeWhile (\<lambda>c. matches_digit CHR ''d'' (uchar c)) (ds @ rest) = ds"
    using assms(2,3) by (intro takeWhile_ends) (auto simp: matches_digit_def ends_number_def split: list.splits)
  with scan_while_ahead [OF assms(1), of "matches_digit CHR ''d''" m] assms(4) show ?thesis by simp
qed

lemma scan_number_d:
  assumes "ahead c s (sign @ ds @ rest)" "sign = [] \<or> sign = ''-''" "ds \<noteq> []" "\<forall>c\<in>set ds. isdigit (uchar c)"
    "ends_number rest" "length ds \<le> 20"
  shows "\<exists>c' s'. scan_number get CHR ''d'' 0 c s = (sign @ ds, c', s') \<and> ahead c' s' rest"
  using assms(2)
proof
  assume sign: "sign = []"
  obtain x xs where ds: "ds = x # xs" using assms(3) by (cases ds) auto
  have "c = uchar x" "x \<noteq> CHR ''+''" "x \<noteq> CHR ''-''"
    using assms(1,4) sign ds ahead_ok isdigit_not_sign by auto
  moreover obtain c' s' where "scan_while get (matches_digit CHR ''d'') 63 c s = (ds, c', s')" "ahead c' s' rest"
    using scan_digits [of c s ds rest 63] assms sign by auto
  ultimately show ?thesis using sign by (simp add: scan_number_def Let_def)
next
  assume sign: "sign = ''-''"
  have c: "c = uchar CHR ''-''" "ok s" "rem s = ds @ rest" using ahead_ok assms(1) sign by auto
  obtain c1 s1 where g: "get s = (c1, s1)" "ahead c1 s1 (ds @ rest)" using get_ahead [OF c(2)] c(3) by metis
  obtain c' s' where "scan_while get (matches_digit CHR ''d'') 62 c1 s1 = (ds, c', s')" "ahead c' s' rest"
    using scan_digits [OF g(2), of 62] assms by auto
  with g c sign show ?thesis by (simp add: scan_number_def Let_def)
qed

lemma scan_step_d:
  assumes "ok s" "skip_ws (rem s) = skip_ws (int_text 0 False False v @ rest)" "ends_number rest" "- (2 ^ 31) \<le> v" "v < 2 ^ 31"
  shows "\<exists>s'. scan_step get unget (CHR ''%'' # CHR ''d'' # fmt, n, any, st, s) =
      Some (Inr (fmt, n + 1, True, st @ [Signed LEN_NONE v], s')) \<and> ok s' \<and> rem s' = rest"
proof -
  obtain sign ds where t: "int_text 0 False False v = sign @ ds" "sign = [] \<or> sign = ''-''" "ds \<noteq> []"
      "\<forall>c\<in>set ds. isdigit (uchar c)" "length ds \<le> 20" "fst (strtol (sign @ ds) 10) = v"
    by (rule int_text_parts [of v]) (use assms(4,5) in simp_all)
  obtain x xs where x: "sign @ ds = x # xs" "\<not> isspace (uchar x)"
    using t(2-4) by (cases ds) (auto simp: isspace_def isdigit_def uchar_def)
  have "skip_ws (rem s) = sign @ ds @ rest" using x assms(2) t(1) by simp
  then obtain c k s1 where a: "skip_spaces get False s = Some (c, k, s1)" "ahead c s1 (sign @ ds @ rest)"
    using skip_spaces_ahead [OF assms(1), of False] by auto
  then have c: "c \<noteq> EOF" using ahead_EOF t(3) by auto
  obtain c2 s2 where b: "scan_number get CHR ''d'' 0 c s1 = (sign @ ds, c2, s2)" "ahead c2 s2 rest"
    using scan_number_d [OF a(2) t(2-4) assms(3) t(5)] by blast
  have store: "number_store CHR ''d'' LEN_NONE (sign @ ds) = Signed LEN_NONE v"
    using t(6) assms(4,5) by (simp add: number_store_def store_signed_def int32_id)
  have tok: "\<not> (sign @ ds = [] \<or> sign @ ds = ''+'' \<or> sign @ ds = ''-'')"
    using t(2-4) by (auto simp: append_eq_Cons_conv isdigit_def uchar_def)
  have "scan_conversion get unget False 0 LEN_NONE CHR ''d'' (fmt, n, any, st, s) =
      Some (Inr (fmt, n + 1, True, st @ [Signed LEN_NONE v], unget_char unget c2 s2))"
    using a(1) b(1) c store tok by (simp add: scan_conversion_def scan_assign_def Let_def)
  moreover have "scan_step get unget (CHR ''%'' # CHR ''d'' # fmt, n, any, st, s) =
      scan_conversion get unget False 0 LEN_NONE CHR ''d'' (fmt, n, any, st, s)"
    by (simp add: scan_step_def scan_length_def isspace_def uchar_def schar_uchar Let_def)
  ultimately show ?thesis using unget_ahead [OF b(2)] by simp
qed

lemma scan_step_space:
  assumes "ok s"
  shows "\<exists>s' k. scan_step get unget (CHR '' '' # fmt, n, any, st, s) = Some (Inr (fmt, n, any \<or> k, st, s')) \<and>
    ok s' \<and> rem s' = skip_ws (rem s)"
proof -
  obtain c k s1 where a: "skip_spaces get False s = Some (c, k, s1)"
      "ahead c s1 (skip_ws (rem s))"
    using skip_spaces_ahead [OF assms, of False] by auto
  have "isspace (uchar CHR '' '')" by (simp add: isspace_def uchar_def)
  with a(1) unget_ahead [OF a(2)] show ?thesis by (auto simp: scan_step_def)
qed

lemma scan_numbers:
  assumes "ok s" "skip_ws (rem s) = skip_ws (numbers_text vs @ rest)" "\<forall>v\<in>set vs. - (2 ^ 31) \<le> v \<and> v < 2 ^ 31"
  shows "\<exists>s'. vformat_scan get unget (numbers_format (length vs), n, any, st, s) =
      Some (n + int (length vs), st @ map (Signed LEN_NONE) vs, s') \<and> ok s' \<and> skip_ws (rem s') = skip_ws rest"
  using assms
proof (induction vs arbitrary: s n any st)
  case Nil
  then show ?case by (subst vformat_scan.simps) (simp add: scan_step_def)
next
  case (Cons v vs)
  let ?fmt = "numbers_format (length vs)"
  obtain s1 where s1: "scan_step get unget (CHR ''%'' # CHR ''d'' # CHR '' '' # ?fmt, n, any, st, s) =
      Some (Inr (CHR '' '' # ?fmt, n + 1, True, st @ [Signed LEN_NONE v], s1))" "ok s1"
      "rem s1 = CHR '' '' # numbers_text vs @ rest"
    using scan_step_d [of s v "CHR '' '' # numbers_text vs @ rest" "CHR '' '' # ?fmt" n any st] Cons.prems
    by (auto simp: isdigit_def uchar_def)
  obtain s2 k where s2: "scan_step get unget (CHR '' '' # ?fmt, n + 1, True, st @ [Signed LEN_NONE v], s1) =
      Some (Inr (?fmt, n + 1, True \<or> k, st @ [Signed LEN_NONE v], s2))" "ok s2" "rem s2 = skip_ws (rem s1)"
    using scan_step_space [OF s1(2), of ?fmt "n + 1" True] by blast
  have "isspace (uchar CHR '' '')" by (simp add: isspace_def uchar_def)
  then have "skip_ws (rem s2) = skip_ws (numbers_text vs @ rest)" using s1(3) s2(3) by (simp add: dropWhile_idem)
  from Cons.IH [OF s2(2) this, of "n + 1" True "st @ [Signed LEN_NONE v]"] Cons.prems s1(1) s2(1)
  show ?case by (auto simp: vformat_scan.simps [of _ _ "(CHR ''%'' # _, _)"] vformat_scan.simps [of _ _ "(CHR '' '' # _, _)"])
qed

end

lemma format_numbers:
  "\<forall>v\<in>set vs. - (2 ^ 31) \<le> v \<and> v < 2 ^ 31 \<Longrightarrow>
   format_text (numbers_format (length vs)) (map VInt vs) = Some (numbers_text vs)"
  by (induction vs) (simp_all add: format_simps format_text.simps(1) int32_id)

lemma length_numbers_text: "length (numbers_text vs) \<le> 22 * length vs"
proof (induction vs)
  case (Cons v vs)
  then show ?case using length_int_text [of 0 False False v] by simp
qed simp

lemma numbers_text_no_NUL:
  "\<forall>v\<in>set vs. - (2 ^ 31) \<le> v \<and> v < 2 ^ 31 \<Longrightarrow> NUL \<notin> set (numbers_text vs)"
proof (induction vs)
  case (Cons v vs)
  have v: "- (2 ^ 63) \<le> v" "v < 2 ^ 63" using Cons.prems by auto
  have "NUL \<notin> set (int_text 0 False False v)"
    by (rule int_text_parts [OF v]) (auto simp: isdigit_def uchar_def)
  with Cons show ?case by simp
qed simp

text \<open>C22. A format of \<open>%d\<close> conversions separated by spaces reads back what it printed: \<open>snprintf\<close> writes
  any list of \<open>int\<close> values, the smallest one included, into a buffer that is large enough, and \<open>sscanf\<close>
  on the text assigns every one of them and returns their number.\<close>

theorem snprintf_sscanf:
  assumes "\<forall>v\<in>set vs. - (2 ^ 31) \<le> v \<and> v < 2 ^ 31" "length vs < 2 ^ 26" "sz = 22 * length vs + 1"
  shows "\<exists>t. snprintf m buf sz (numbers_format (length vs)) (map VInt vs) =
      Some (int (length t), mem_write m buf (t @ [NUL])) \<and>
    sscanf t (numbers_format (length vs)) = Some (int (length vs), map (Signed LEN_NONE) vs)"
proof -
  let ?t = "numbers_text vs"
  obtain s' where "vformat_scan str_get str_unget (numbers_format (length vs), 0, False, [], ?t, 0) =
      Some (int (length vs), map (Signed LEN_NONE) vs, s')"
    using str_source.scan_numbers [of "(?t, 0)" vs "[]" 0 False "[]"] assms(1) numbers_text_no_NUL [OF assms(1)] by auto
  moreover have "take (sz - 1) ?t = ?t" "int32 (int (length ?t)) = int (length ?t)"
    using length_numbers_text [of vs] assms(2,3) by (simp_all add: int32_id)
  ultimately show ?thesis
    using assms(3) by (intro exI [of _ ?t])
      (simp add: snprintf_def vsnprintf_text format_numbers [OF assms(1)] sscanf_def vsscanf_def)
qed

theorem snprintf_sscanf_witness:
  "\<exists>t. snprintf (\<lambda>_. NUL) 4096 67 (numbers_format 3) (map VInt [7, - 2147483648, 2147483647]) =
      Some (int (length t), mem_write (\<lambda>_. NUL) 4096 (t @ [NUL])) \<and>
    sscanf t (numbers_format 3) = Some (3, map (Signed LEN_NONE) [7, - 2147483648, 2147483647])"
  using snprintf_sscanf [of "[7, - 2147483648, 2147483647]" 67 "\<lambda>_. NUL" 4096]
  by (simp add: numeral_3_eq_3 del: numbers_simps)

text \<open>C29. \<open>fscanf\<close> of such a format on a stream, through the one character that \<open>ungetc\<close> holds: it assigns
  every number of the text in front of the reading position and leaves the rest of the stream, up to
  white space, to be read.\<close>

theorem fscanf_numbers:
  assumes "stream_ok K V i w" "remaining V i w = numbers_text vs @ rest" "\<forall>v\<in>set vs. - (2 ^ 31) \<le> v \<and> v < 2 ^ 31"
  shows "\<exists>w'. fscanf K (Some i) (numbers_format (length vs)) w = Some (int (length vs), map (Signed LEN_NONE) vs, w') \<and>
    stream_ok K V i w' \<and> skip_ws (remaining V i w') = skip_ws rest"
  using file_source.scan_numbers [OF assms(1) _ assms(3), of rest 0 False "[]"] assms(2)
  by (simp add: fscanf_def vfscanf_def)

theorem fscanf_numbers_witness:
  "\<exists>w'. fscanf ram_kernel (Some 0) (numbers_format 2) (ram_world (numbers_text [42, -7] @ ''rest'')) =
      Some (2, map (Signed LEN_NONE) [42, -7], w') \<and>
    stream_ok ram_kernel ram_view 0 w' \<and> skip_ws (remaining ram_view 0 w') = skip_ws ''rest''"
  using fscanf_numbers [of ram_kernel ram_view 0 "ram_world (numbers_text [42, -7] @ ''rest'')" "[42, -7]" "''rest''"]
    ram_world_io_ok [of "numbers_text [42, -7] @ ''rest''"]
  by (simp add: numeral_2_eq_2 io_ok_def del: numbers_simps dropWhile.simps dropWhile_eq_Nil_conv)

text \<open>Finding: \<open>%i\<close> takes every letter for a digit (\<open>matches_digit\<close>), so that in \<open>12abc\<close> it consumes
  the letters too and a following \<open>%s\<close> finds nothing, where \<open>%d\<close> leaves them.\<close>

theorem scanf_i_takes_letters:
  "sscanf ''12abc'' ''%i%s'' = Some (1, [Signed LEN_NONE 12]) \<and>
   sscanf ''12abc'' ''%d%s'' = Some (2, [Signed LEN_NONE 12, Str ''abc''])"
  by code_simp

end
