(* ===== verification/Pthread.thy ===== *)
theory Pthread
  imports Kernel "HOL-Library.Monad_Syntax"
begin

text \<open>
  Threads, mutexes, condition variables and semaphores, \<open>userspace/libc/pthread.c\<close>, as one thread
  executes them: each function takes the object, the kernel state and, for the thread functions, the
  library's table, and returns the result with their new values. Blocking is inside \<open>sys_wait\<close>. No
  value means that a loop of the code never ends. The interleavings of several threads are the subject
  of \<open>Pthread_Race\<close> and \<open>Cond_Var\<close>.
\<close>

section \<open>Types and constants\<close>

definition ENOMEM :: int where "ENOMEM = 12"
definition EBUSY :: int where "EBUSY = 16"
definition EINVAL :: int where "EINVAL = 22"
definition ETIMEDOUT :: int where "ETIMEDOUT = 110"

record pthread_mutex =
  mutex_fd :: int
  mutex_init :: int

record pthread_cond =
  cond_sem :: int
  waiters_lock :: int
  waiters :: int
  cond_init :: int

record sem =
  sem_fd :: int
  sem_inited :: int

text \<open>The descriptor of an object that has none yet, \<open>(uint64_t)-1\<close>.\<close>

definition NO_FD :: int where
  "NO_FD = uint64 (-1)"

definition PTHREAD_MUTEX_INITIALIZER :: pthread_mutex where
  "PTHREAD_MUTEX_INITIALIZER = \<lparr>mutex_fd = NO_FD, mutex_init = 0\<rparr>"

definition PTHREAD_COND_INITIALIZER :: pthread_cond where
  "PTHREAD_COND_INITIALIZER = \<lparr>cond_sem = NO_FD, waiters_lock = NO_FD, waiters = 0, cond_init = 0\<rparr>"

section \<open>Waiting\<close>

partial_function (option) wait_uninterruptible :: "'k kernel \<Rightarrow> int \<Rightarrow> 'k \<Rightarrow> (int \<times> 'k) option" where
  "wait_uninterruptible K h k =
     (let (r, k1) = sys_wait K k (int64 h) (-1) in
      if r = E_WAIT_INTERRUPTED then wait_uninterruptible K h k1 else Some (r, k1))"

declare wait_uninterruptible.simps [code]

text \<open>Creating a semaphore. The handle is stored in a \<open>syscall_status_t\<close>, a 32-bit enumeration.\<close>

definition create_semaphore :: "'k kernel \<Rightarrow> int \<Rightarrow> int \<Rightarrow> 'k \<Rightarrow> int \<times> 'k" where
  "create_semaphore K init max_count k =
     (let (h, k1) = sys_create_sync_object K k SYNC_SEMAPHORE init max_count None in (int32 h, k1))"

definition close_fd :: "'k kernel \<Rightarrow> int \<Rightarrow> 'k \<Rightarrow> 'k" where
  "close_fd K h k = snd (sys_close K k (int64 h))"

definition signal_fd :: "'k kernel \<Rightarrow> int \<Rightarrow> 'k \<Rightarrow> int \<times> 'k" where
  "signal_fd K h k = sys_signal K k (int64 h)"

section \<open>Mutexes\<close>

definition mutex_ensure_init :: "'k kernel \<Rightarrow> pthread_mutex \<Rightarrow> 'k \<Rightarrow> int \<times> pthread_mutex \<times> 'k" where
  "mutex_ensure_init K m k =
     (if mutex_init m \<noteq> 0 then (0, m, k)
      else let (h, k1) = create_semaphore K 1 1 k in
        if h < 0 then (ENOMEM, m, k1)
        else let candidate = uint64 h;
                 won = (mutex_fd m = NO_FD);
                 m1 = (if won then m\<lparr>mutex_fd := candidate\<rparr> else m);
                 k2 = (if won then k1 else close_fd K candidate k1)
             in (0, m1\<lparr>mutex_init := 1\<rparr>, k2))"

definition pthread_mutex_init :: "'k kernel \<Rightarrow> pthread_mutex \<Rightarrow> 'k \<Rightarrow> int \<times> pthread_mutex \<times> 'k" where
  "pthread_mutex_init K m k =
     (let (h, k1) = create_semaphore K 1 1 k in
      if h < 0 then (ENOMEM, m, k1) else (0, m\<lparr>mutex_fd := uint64 h, mutex_init := 1\<rparr>, k1))"

definition pthread_mutex_destroy :: "'k kernel \<Rightarrow> pthread_mutex \<Rightarrow> 'k \<Rightarrow> int \<times> pthread_mutex \<times> 'k" where
  "pthread_mutex_destroy K m k =
     (if mutex_init m = 0 then (EINVAL, m, k)
      else (0, m\<lparr>mutex_fd := NO_FD, mutex_init := 0\<rparr>, close_fd K (mutex_fd m) k))"

definition pthread_mutex_lock :: "'k kernel \<Rightarrow> pthread_mutex \<Rightarrow> 'k \<Rightarrow> (int \<times> pthread_mutex \<times> 'k) option" where
  "pthread_mutex_lock K m k =
     (let (r, m1, k1) = mutex_ensure_init K m k in
      if r \<noteq> 0 then Some (r, m1, k1)
      else do {
        (st, k2) \<leftarrow> wait_uninterruptible K (mutex_fd m1) k1;
        Some (if st = E_SUCCESS then 0 else EINVAL, m1, k2)
      })"

definition pthread_mutex_unlock :: "'k kernel \<Rightarrow> pthread_mutex \<Rightarrow> 'k \<Rightarrow> int \<times> pthread_mutex \<times> 'k" where
  "pthread_mutex_unlock K m k =
     (let (r, m1, k1) = mutex_ensure_init K m k in
      if r \<noteq> 0 then (r, m1, k1)
      else let (st, k2) = signal_fd K (mutex_fd m1) k1 in (if st = E_SUCCESS then 0 else EINVAL, m1, k2))"

definition pthread_mutex_trylock :: "'k kernel \<Rightarrow> pthread_mutex \<Rightarrow> 'k \<Rightarrow> int \<times> pthread_mutex \<times> 'k" where
  "pthread_mutex_trylock K m k =
     (let (r, m1, k1) = mutex_ensure_init K m k in
      if r \<noteq> 0 then (r, m1, k1)
      else let (st, k2) = sys_wait K k1 (int64 (mutex_fd m1)) 0
           in (if st = E_SUCCESS then 0 else if st = E_TIMEOUT then EBUSY else EINVAL, m1, k2))"

section \<open>Condition variables\<close>

definition SEM_VALUE_MAX :: int where
  "SEM_VALUE_MAX = 0x7FFFFFFF"

text \<open>A thread that loses the race for the semaphore spins until the winner has published the flag; with
  no other thread running, the spin never ends.\<close>

definition cond_ensure_init :: "'k kernel \<Rightarrow> pthread_cond \<Rightarrow> 'k \<Rightarrow> (int \<times> pthread_cond \<times> 'k) option" where
  "cond_ensure_init K c k =
     (if cond_init c \<noteq> 0 then Some (0, c, k)
      else let (s, k1) = create_semaphore K 0 SEM_VALUE_MAX k in
        if s < 0 then Some (ENOMEM, c, k1)
        else let (wlock, k2) = create_semaphore K 1 1 k1 in
          if wlock < 0 then Some (ENOMEM, c, close_fd K (uint64 s) k2)
          else if cond_sem c = NO_FD
          then Some (0, c\<lparr>cond_sem := uint64 s, waiters_lock := uint64 wlock, cond_init := 1\<rparr>, k2)
          else None)"

definition pthread_cond_init :: "'k kernel \<Rightarrow> pthread_cond \<Rightarrow> 'k \<Rightarrow> int \<times> pthread_cond \<times> 'k" where
  "pthread_cond_init K c k =
     (let (s, k1) = create_semaphore K 0 SEM_VALUE_MAX k in
      if s < 0 then (ENOMEM, c, k1)
      else let (wlock, k2) = create_semaphore K 1 1 k1 in
        if wlock < 0 then (ENOMEM, c, close_fd K (uint64 s) k2)
        else (0, \<lparr>cond_sem = uint64 s, waiters_lock = uint64 wlock, waiters = 0, cond_init = 1\<rparr>, k2))"

definition pthread_cond_destroy :: "'k kernel \<Rightarrow> pthread_cond \<Rightarrow> 'k \<Rightarrow> int \<times> pthread_cond \<times> 'k" where
  "pthread_cond_destroy K c k =
     (if cond_init c = 0 then (EINVAL, c, k)
      else (0, \<lparr>cond_sem = NO_FD, waiters_lock = NO_FD, waiters = 0, cond_init = 0\<rparr>,
            close_fd K (waiters_lock c) (close_fd K (cond_sem c) k)))"

text \<open>\<open>waiters\<close> is changed under its own lock.\<close>

definition change_waiters :: "'k kernel \<Rightarrow> (int \<Rightarrow> int) \<Rightarrow> pthread_cond \<Rightarrow> 'k \<Rightarrow> (pthread_cond \<times> 'k) option" where
  "change_waiters K f c k = do {
     (_, k1) \<leftarrow> wait_uninterruptible K (waiters_lock c) k;
     Some (c\<lparr>waiters := f (waiters c)\<rparr>, snd (signal_fd K (waiters_lock c) k1))
   }"

definition pthread_cond_wait ::
  "'k kernel \<Rightarrow> pthread_cond \<Rightarrow> pthread_mutex \<Rightarrow> 'k \<Rightarrow> (int \<times> pthread_cond \<times> pthread_mutex \<times> 'k) option" where
  "pthread_cond_wait K c m k = do {
     (r, c1, k1) \<leftarrow> cond_ensure_init K c k;
     if r \<noteq> 0 then Some (r, c1, m, k1)
     else do {
       (c2, k2) \<leftarrow> change_waiters K (\<lambda>n. int64 (n + 1)) c1 k1;
       let (_, m1, k3) = pthread_mutex_unlock K m k2;
       (_, k4) \<leftarrow> wait_uninterruptible K (cond_sem c2) k3;
       (_, m2, k5) \<leftarrow> pthread_mutex_lock K m1 k4;
       Some (0, c2, m2, k5)
     }
   }"

partial_function (option) timedwait_loop :: "'k kernel \<Rightarrow> int \<Rightarrow> int \<Rightarrow> int \<Rightarrow> 'k \<Rightarrow> (int \<times> 'k) option" where
  "timedwait_loop K h deadline res k =
     (let (st, now, k1) = sys_get_time_ms K k CLOCK_MONOTONIC in
      if st \<noteq> E_SUCCESS then Some (res, k1)
      else case now of
        None \<Rightarrow> None
      | Some now_ms \<Rightarrow>
          if now_ms \<ge> deadline then Some (E_TIMEOUT, k1)
          else let (res1, k2) = sys_wait K k1 (int64 h) (int64 (deadline - now_ms)) in
            if res1 \<noteq> E_WAIT_INTERRUPTED then Some (res1, k2) else timedwait_loop K h deadline res1 k2)"

declare timedwait_loop.simps [code]

definition deadline_ms :: "int \<Rightarrow> int \<Rightarrow> int" where
  "deadline_ms tv_sec tv_nsec = uint64 (uint64 (uint64 tv_sec * 1000) + uint64 tv_nsec div 1000000)"

definition pthread_cond_timedwait ::
  "'k kernel \<Rightarrow> pthread_cond \<Rightarrow> pthread_mutex \<Rightarrow> int \<Rightarrow> int \<Rightarrow> 'k \<Rightarrow> (int \<times> pthread_cond \<times> pthread_mutex \<times> 'k) option" where
  "pthread_cond_timedwait K c m tv_sec tv_nsec k = do {
     (r, c1, k1) \<leftarrow> cond_ensure_init K c k;
     if r \<noteq> 0 then Some (r, c1, m, k1)
     else do {
       (c2, k2) \<leftarrow> change_waiters K (\<lambda>n. int64 (n + 1)) c1 k1;
       let (_, m1, k3) = pthread_mutex_unlock K m k2;
       (res, k4) \<leftarrow> timedwait_loop K (cond_sem c2) (deadline_ms tv_sec tv_nsec) E_TIMEOUT k3;
       (c3, k5) \<leftarrow> (if res \<noteq> E_SUCCESS then change_waiters K (\<lambda>n. if n > 0 then n - 1 else n) c2 k4 else Some (c2, k4));
       (_, m2, k6) \<leftarrow> pthread_mutex_lock K m1 k5;
       Some (if res = E_TIMEOUT then ETIMEDOUT else if res = E_SUCCESS then 0 else EINVAL, c3, m2, k6)
     }
   }"

definition pthread_cond_signal :: "'k kernel \<Rightarrow> pthread_cond \<Rightarrow> 'k \<Rightarrow> (int \<times> pthread_cond \<times> 'k) option" where
  "pthread_cond_signal K c k = do {
     (r, c1, k1) \<leftarrow> cond_ensure_init K c k;
     if r \<noteq> 0 then Some (r, c1, k1)
     else do {
       (_, k2) \<leftarrow> wait_uninterruptible K (waiters_lock c1) k1;
       let (c2, k3) = (if waiters c1 > 0
                       then (c1\<lparr>waiters := waiters c1 - 1\<rparr>, snd (signal_fd K (cond_sem c1) k2)) else (c1, k2));
       Some (0, c2, snd (signal_fd K (waiters_lock c2) k3))
     }
   }"

fun signal_times :: "'k kernel \<Rightarrow> int \<Rightarrow> nat \<Rightarrow> 'k \<Rightarrow> 'k" where
  "signal_times K h 0 k = k"
| "signal_times K h (Suc n) k = signal_times K h n (snd (signal_fd K h k))"

definition pthread_cond_broadcast :: "'k kernel \<Rightarrow> pthread_cond \<Rightarrow> 'k \<Rightarrow> (int \<times> pthread_cond \<times> 'k) option" where
  "pthread_cond_broadcast K c k = do {
     (r, c1, k1) \<leftarrow> cond_ensure_init K c k;
     if r \<noteq> 0 then Some (r, c1, k1)
     else do {
       (c2, k2) \<leftarrow> change_waiters K (\<lambda>_. 0) c1 k1;
       Some (0, c2, signal_times K (cond_sem c2) (nat (waiters c1)) k2)
     }
   }"

section \<open>Semaphores\<close>

definition sem_init :: "'k kernel \<Rightarrow> sem \<Rightarrow> int \<Rightarrow> 'k \<Rightarrow> int \<times> sem \<times> 'k" where
  "sem_init K s n k =
     (let (h, k1) = create_semaphore K (uint32 n) SEM_VALUE_MAX k in
      if h < 0 then (-1, s, k1) else (0, \<lparr>sem_fd = uint64 h, sem_inited = 1\<rparr>, k1))"

definition sem_destroy :: "'k kernel \<Rightarrow> sem \<Rightarrow> 'k \<Rightarrow> int \<times> sem \<times> 'k" where
  "sem_destroy K s k =
     (if sem_inited s = 0 then (-1, s, k) else (0, \<lparr>sem_fd = NO_FD, sem_inited = 0\<rparr>, close_fd K (sem_fd s) k))"

definition sem_wait :: "'k kernel \<Rightarrow> sem \<Rightarrow> 'k \<Rightarrow> int \<times> 'k" where
  "sem_wait K s k =
     (if sem_inited s = 0 then (-1, k)
      else let (st, k1) = sys_wait K k (int64 (sem_fd s)) (-1) in (if st = E_SUCCESS then 0 else -1, k1))"

definition sem_post :: "'k kernel \<Rightarrow> sem \<Rightarrow> 'k \<Rightarrow> int \<times> 'k" where
  "sem_post K s k =
     (if sem_inited s = 0 then (-1, k)
      else let (st, k1) = signal_fd K (sem_fd s) k in (if st = E_SUCCESS then 0 else -1, k1))"

definition sem_trywait :: "'k kernel \<Rightarrow> sem \<Rightarrow> 'k \<Rightarrow> int \<times> 'k" where
  "sem_trywait K s k =
     (if sem_inited s = 0 then (-1, k)
      else let (st, k1) = sys_wait K k (int64 (sem_fd s)) 0 in (if st = E_SUCCESS then 0 else -1, k1))"

section \<open>Threads\<close>

definition PTHREAD_MAX_THREADS :: nat where
  "PTHREAD_MAX_THREADS = 64"

text \<open>The table of thread ids and handles with its lock. An entry whose id is 0 is free.\<close>

record pthread_table =
  thread_table :: "(int \<times> int) list"
  table_lock :: pthread_mutex

definition initial_table :: pthread_table where
  "initial_table = \<lparr>thread_table = replicate PTHREAD_MAX_THREADS (0, 0), table_lock = PTHREAD_MUTEX_INITIALIZER\<rparr>"

fun register_loop :: "int \<Rightarrow> int \<Rightarrow> (int \<times> int) list \<Rightarrow> (int \<times> int) list" where
  "register_loop tid h [] = []"
| "register_loop tid h ((t, h') # es) = (if t = 0 then (tid, h) # es else (t, h') # register_loop tid h es)"

definition pthread_register :: "'k kernel \<Rightarrow> int \<Rightarrow> int \<Rightarrow> pthread_table \<Rightarrow> 'k \<Rightarrow> (pthread_table \<times> 'k) option" where
  "pthread_register K tid h T k = do {
     (_, m1, k1) \<leftarrow> pthread_mutex_lock K (table_lock T) k;
     let (_, m2, k2) = pthread_mutex_unlock K m1 k1;
     Some (\<lparr>thread_table = register_loop tid h (thread_table T), table_lock = m2\<rparr>, k2)
   }"

fun take_loop :: "int \<Rightarrow> (int \<times> int) list \<Rightarrow> int \<times> (int \<times> int) list" where
  "take_loop tid [] = (-1, [])"
| "take_loop tid ((t, h) # es) =
     (if t = tid then (h, (0, h) # es) else let (r, es') = take_loop tid es in (r, (t, h) # es'))"

definition pthread_take :: "'k kernel \<Rightarrow> int \<Rightarrow> pthread_table \<Rightarrow> 'k \<Rightarrow> (int \<times> pthread_table \<times> 'k) option" where
  "pthread_take K tid T k = do {
     (_, m1, k1) \<leftarrow> pthread_mutex_lock K (table_lock T) k;
     let (h, tbl) = take_loop tid (thread_table T);
     let (_, m2, k2) = pthread_mutex_unlock K m1 k1;
     Some (h, \<lparr>thread_table = tbl, table_lock = m2\<rparr>, k2)
   }"

text \<open>The body of a thread: the start routine, a parameter that changes the state, then the end.\<close>

definition libc_pthread_thread_handler :: "'k kernel \<Rightarrow> (int \<Rightarrow> 'k \<Rightarrow> 'k) \<Rightarrow> int \<Rightarrow> 'k \<Rightarrow> 'k" where
  "libc_pthread_thread_handler K start arg k = snd (sys_exit_thread K (start arg k))"

definition pthread_attr_init :: int where "pthread_attr_init = 0"
definition pthread_attr_destroy :: int where "pthread_attr_destroy = 0"

text \<open>The size of the context that is passed to the thread: two pointers.\<close>

definition CTX_SIZE :: nat where
  "CTX_SIZE = 16"

definition pthread_create ::
  "'k kernel \<Rightarrow> int \<Rightarrow> int \<Rightarrow> pthread_table \<Rightarrow> 'k \<Rightarrow> (int \<times> int option \<times> pthread_table \<times> 'k) option" where
  "pthread_create K start arg T k =
     (let (got, k1) = heap_ok K k CTX_SIZE in
      if \<not> got then Some (ENOMEM, None, T, k1)
      else let (h, k2) = sys_create_thread K k1 start arg in
        if h < 0 then Some (EINVAL, None, T, k2)
        else let (st, info, k3) = sys_get_thread_info K k2 h in
          if st < 0 then Some (EINVAL, None, T, snd (sys_close K k3 h))
          else do {
            (T1, k4) \<leftarrow> pthread_register K (thread_id info) h T k3;
            Some (0, Some (thread_id info), T1, k4)
          })"

definition pthread_join :: "'k kernel \<Rightarrow> int \<Rightarrow> pthread_table \<Rightarrow> 'k \<Rightarrow> (int \<times> pthread_table \<times> 'k) option" where
  "pthread_join K thread T k = do {
     (h, T1, k1) \<leftarrow> pthread_take K thread T k;
     if h < 0 then Some (EINVAL, T1, k1)
     else do {
       (_, k2) \<leftarrow> wait_uninterruptible K (uint64 h) k1;
       Some (0, T1, snd (sys_close K k2 h))
     }
   }"

definition pthread_detach :: "'k kernel \<Rightarrow> int \<Rightarrow> pthread_table \<Rightarrow> 'k \<Rightarrow> (int \<times> pthread_table \<times> 'k) option" where
  "pthread_detach K thread T k = do {
     (h, T1, k1) \<leftarrow> pthread_take K thread T k;
     if h < 0 then Some (EINVAL, T1, k1) else Some (0, T1, snd (sys_close K k1 h))
   }"

definition pthread_exit :: "'k kernel \<Rightarrow> 'k \<Rightarrow> 'k" where
  "pthread_exit K k = snd (sys_exit_thread K k)"

definition pthread_self :: "'k kernel \<Rightarrow> 'k \<Rightarrow> int \<times> 'k" where
  "pthread_self K k = (let (t, k1) = sys_get_tid K k in (uint64 t, k1))"

definition pthread_equal :: "int \<Rightarrow> int \<Rightarrow> bool" where
  "pthread_equal t1 t2 \<longleftrightarrow> t1 = t2"

end
