(* ===== verification/Interleave.thy ===== *)
theory Interleave
  imports Main
begin

text \<open>
  Threads over a shared state. Each thread is at a local state \<open>l\<close>; \<open>act l s l' s'\<close> is one atomic action of
  a thread. The threads run in any interleaving of their actions.
\<close>

inductive reachable :: "('l \<Rightarrow> 's \<Rightarrow> 'l \<Rightarrow> 's \<Rightarrow> bool) \<Rightarrow> (nat \<Rightarrow> 'l) \<Rightarrow> 's \<Rightarrow> (nat \<Rightarrow> 'l) \<Rightarrow> 's \<Rightarrow> bool"
  for act L0 s0 where
  start: "reachable act L0 s0 L0 s0"
| step: "reachable act L0 s0 L s \<Longrightarrow> act (L t) s l' s' \<Longrightarrow> reachable act L0 s0 (L(t := l')) s'"

inductive_cases reachable_cases: "reachable act L0 s0 L s"

lemma reachable_trans:
  "reachable act L1 s1 L2 s2 \<Longrightarrow> reachable act L0 s0 L1 s1 \<Longrightarrow> reachable act L0 s0 L2 s2"
  by (induction rule: reachable.induct) (auto intro: reachable.step)

text \<open>Interference freedom in the style of Owicki and Gries: an invariant \<open>G\<close> of the shared state, an
  assertion \<open>P\<close> for each local state, and a relation \<open>Q\<close> between the local states of two threads. If every
  action keeps \<open>G\<close> and the assertions of its own thread, and does not break those of another one, they
  hold in every state that is reached.\<close>

locale interference_free =
  fixes act :: "'l \<Rightarrow> 's \<Rightarrow> 'l \<Rightarrow> 's \<Rightarrow> bool"
    and G :: "'s \<Rightarrow> bool"
    and P :: "'l \<Rightarrow> 's \<Rightarrow> bool"
    and Q :: "'l \<Rightarrow> 'l \<Rightarrow> bool"
  assumes own: "act l s l' s' \<Longrightarrow> G s \<Longrightarrow> P l s \<Longrightarrow> G s' \<and> P l' s'"
    and other: "act l s l' s' \<Longrightarrow> G s \<Longrightarrow> P l s \<Longrightarrow> P m s \<Longrightarrow> Q l m \<Longrightarrow> P m s' \<and> Q l' m"
    and sym: "Q l m \<Longrightarrow> Q m l"
begin

definition inv_all :: "(nat \<Rightarrow> 'l) \<Rightarrow> 's \<Rightarrow> bool" where
  "inv_all L s \<longleftrightarrow> G s \<and> (\<forall>t. P (L t) s) \<and> (\<forall>t u. t \<noteq> u \<longrightarrow> Q (L t) (L u))"

lemma inv_step:
  assumes "inv_all L s" "act (L t) s l' s'"
  shows "inv_all (L(t := l')) s'"
proof -
  have P: "\<forall>u. u \<noteq> t \<longrightarrow> P (L u) s' \<and> Q l' (L u)"
    using assms other by (metis inv_all_def)
  have "G s' \<and> P l' s'" using assms own by (metis inv_all_def)
  moreover have "\<forall>u. u \<noteq> t \<longrightarrow> Q (L u) l'" using P sym by blast
  ultimately show ?thesis using P assms(1) by (simp add: inv_all_def)
qed

lemma inv_reachable: "reachable act L0 s0 L s \<Longrightarrow> inv_all L0 s0 \<Longrightarrow> inv_all L s"
  by (induction rule: reachable.induct) (auto intro: inv_step)

end

text \<open>Resources: a thread holds some, others are stored in the shared state. An action may acquire
  resources that nobody owns, give back some that its thread holds, and move them between the thread and
  the shared state. Then nothing leaks: what is owned beyond the start is held or stored.\<close>

lemma account_sets:
  fixes O0 :: "'h set"
  assumes "Ow = O0 \<union> st \<union> (h \<union> rest)" "(st \<union> (h \<union> rest)) \<inter> O0 = {}" "new \<inter> Ow = {}" "gone \<subseteq> h"
    "Ow' = Ow \<union> new - gone" "h' \<union> st' = h \<union> st \<union> new - gone" "h \<inter> rest = {}"
  shows "Ow' = O0 \<union> (h' \<union> st') \<union> rest \<and> (h' \<union> st' \<union> rest) \<inter> O0 = {}"
  unfolding assms(5,6) using assms(1-4,7) by blast

definition accounts :: "'h set \<Rightarrow> 'h set \<Rightarrow> 'h set \<Rightarrow> 'h set \<Rightarrow> 'h set \<Rightarrow> bool" where
  "accounts h Ow Ow' all all' \<longleftrightarrow>
     (\<exists>new gone. new \<inter> Ow = {} \<and> gone \<subseteq> h \<and> Ow' = Ow \<union> new - gone \<and> all' = all \<union> new - gone)"

lemma accounts_same: "Ow' = Ow \<Longrightarrow> all' = all \<Longrightarrow> accounts h Ow Ow' all all'"
  unfolding accounts_def by (rule exI [of _ "{}"], rule exI [of _ "{}"]) simp

lemma accounts_acquire:
  "x \<notin> Ow \<Longrightarrow> Ow' = insert x Ow \<Longrightarrow> all' = insert x all \<Longrightarrow> accounts h Ow Ow' all all'"
  unfolding accounts_def by (rule exI [of _ "{x}"], rule exI [of _ "{}"]) simp

lemma accounts_release:
  "x \<in> h \<Longrightarrow> Ow' = Ow - {x} \<Longrightarrow> all' = all - {x} \<Longrightarrow> accounts h Ow Ow' all all'"
  unfolding accounts_def by (rule exI [of _ "{}"], rule exI [of _ "{x}"]) simp

locale accounted = interference_free +
  fixes held :: "'a \<Rightarrow> 'h set"
    and stored :: "'b \<Rightarrow> 'h set"
    and owned :: "'b \<Rightarrow> 'h set"
  assumes apart: "Q l m \<Longrightarrow> held l \<inter> held m = {}"
    and stored_apart: "P l s \<Longrightarrow> held l \<inter> stored s = {}"
    and account: "act l s l' s' \<Longrightarrow> G s \<Longrightarrow> P l s \<Longrightarrow>
      accounts (held l) (owned s) (owned s') (held l \<union> stored s) (held l' \<union> stored s')"
begin

lemma account_reachable:
  assumes "reachable act L0 s0 L s" "inv_all L0 s0" "stored s0 = {}" "\<forall>t. held (L0 t) = {}"
  shows "owned s = owned s0 \<union> stored s \<union> (\<Union>t. held (L t)) \<and> (stored s \<union> (\<Union>t. held (L t))) \<inter> owned s0 = {}"
  using assms
proof (induction rule: reachable.induct)
  case (step L s t l' s')
  let ?rest = "\<Union>u\<in>-{t}. held (L u)"
  have inv: "inv_all L s" by (rule inv_reachable [OF step.hyps(1) step.prems(1)])
  then have G: "G s" and P: "P (L t) s" and Q: "\<forall>u. u \<noteq> t \<longrightarrow> Q (L t) (L u)" by (auto simp: inv_all_def)
  obtain new gone where a: "new \<inter> owned s = {}" "gone \<subseteq> held (L t)" "owned s' = owned s \<union> new - gone"
      "held l' \<union> stored s' = held (L t) \<union> stored s \<union> new - gone"
    using account [OF step.hyps(2) G P] unfolding accounts_def by (elim exE conjE)
  have all: "(\<Union>u. held ((L(t := l')) u)) = held l' \<union> ?rest" "(\<Union>u. held (L u)) = held (L t) \<union> ?rest"
    by (auto split: if_splits)
  have d: "held (L t) \<inter> ?rest = {}" using Q apart by fastforce
  have IH: "owned s = owned s0 \<union> stored s \<union> (held (L t) \<union> ?rest)"
      "(stored s \<union> (held (L t) \<union> ?rest)) \<inter> owned s0 = {}"
    using step.IH [OF step.prems] unfolding all(2) by simp_all
  have "owned s' = owned s0 \<union> (held l' \<union> stored s') \<union> ?rest \<and> (held l' \<union> stored s' \<union> ?rest) \<inter> owned s0 = {}"
    by (rule account_sets [OF IH a d])
  then show ?case unfolding all(1) by (simp only: Un_ac simp_thms)
qed auto

end

text \<open>Executing a schedule, the list of the threads that act one after the other, when an action is a
  function of the local and the shared state.\<close>

fun run_schedule :: "('l \<Rightarrow> 's \<Rightarrow> 'l \<times> 's) \<Rightarrow> nat list \<Rightarrow> (nat \<Rightarrow> 'l) \<Rightarrow> 's \<Rightarrow> (nat \<Rightarrow> 'l) \<times> 's" where
  "run_schedule f [] L s = (L, s)"
| "run_schedule f (t # ts) L s = (let (l', s') = f (L t) s in run_schedule f ts (L(t := l')) s')"

fun schedule_ok :: "('l \<Rightarrow> 's \<Rightarrow> 'l \<times> 's) \<Rightarrow> ('l \<Rightarrow> bool) \<Rightarrow> nat list \<Rightarrow> (nat \<Rightarrow> 'l) \<Rightarrow> 's \<Rightarrow> bool" where
  "schedule_ok f en [] L s = True"
| "schedule_ok f en (t # ts) L s = (en (L t) \<and> (let (l', s') = f (L t) s in schedule_ok f en ts (L(t := l')) s'))"

lemma reachable_schedule:
  assumes "\<And>l s. en l \<Longrightarrow> act l s (fst (f l s)) (snd (f l s))" "schedule_ok f en ts L s"
  shows "reachable act L s (fst (run_schedule f ts L s)) (snd (run_schedule f ts L s))"
  using assms(2)
proof (induction ts arbitrary: L s)
  case (Cons t ts)
  obtain l' s' where f: "f (L t) s = (l', s')" by (cases "f (L t) s")
  then have "act (L t) s l' s'" using assms(1) [of "L t" s] Cons.prems by simp
  then have "reachable act L s (L(t := l')) s'" by (rule reachable.step [OF reachable.start])
  with Cons f show ?case by (auto intro: reachable_trans)
qed (simp add: reachable.start)

text \<open>A run given by its steps: the thread that acts, its next local state, and the next shared state.\<close>

fun follows :: "('l \<Rightarrow> 's \<Rightarrow> 'l \<Rightarrow> 's \<Rightarrow> bool) \<Rightarrow> (nat \<times> 'l \<times> 's) list \<Rightarrow> (nat \<Rightarrow> 'l) \<Rightarrow> 's \<Rightarrow> (nat \<Rightarrow> 'l) \<Rightarrow> 's \<Rightarrow> bool" where
  "follows act [] L s L' s' \<longleftrightarrow> L' = L \<and> s' = s"
| "follows act ((t, l1, s1) # tr) L s L' s' \<longleftrightarrow> act (L t) s l1 s1 \<and> follows act tr (L(t := l1)) s1 L' s'"

lemma reachable_follows:
  assumes "follows act tr L s L' s'"
  shows "reachable act L s L' s'"
  using assms
proof (induction tr arbitrary: L s)
  case (Cons step tr)
  obtain t l1 s1 where step: "step = (t, l1, s1)" by (cases step)
  then have "reachable act L s (L(t := l1)) s1" "follows act tr (L(t := l1)) s1 L' s'"
    using Cons.prems by (auto intro: reachable.step [OF reachable.start])
  with Cons.IH show ?case by (blast intro: reachable_trans)
qed (simp add: reachable.start)

end
