(* ===== verification/Cond_Var.thy ===== *)
theory Cond_Var
  imports Pthread Interleave
begin

text \<open>
  Condition variables of \<open>userspace/libc/pthread.c\<close> under concurrency: \<open>pthread_cond_wait\<close>,
  \<open>pthread_cond_timedwait\<close>, \<open>pthread_cond_signal\<close> and \<open>pthread_cond_broadcast\<close> on one initialised
  condition variable with its mutex, split into the accesses to shared memory and the system calls. The
  three semaphores are their counts: the lock of the waiter count and the mutex are 0 or 1, the one to
  sleep on is bounded by its maximum. The waiter count, 64 bits wide, is taken as unbounded.
\<close>

section \<open>The actions\<close>

record cv =
  cv_waiters :: int
  cv_sem :: int
  cv_lock :: bool
  cv_mutex :: bool

text \<open>A thread is outside, holding the mutex or not, or inside one of the functions: \<open>W\<close> for waiting, with
  whether it is the timed variant, \<open>T\<close> for the code after a wait that failed, with its status, \<open>S\<close> for
  signal and \<open>B\<close> for broadcast, with whether the caller holds the mutex. \<open>Off\<close> is a thread that does not
  exist.\<close>

datatype cv_pc = Off | Idle bool
  | W_Lock bool | W_Read bool | W_Write bool int | W_Unlock bool | W_Drop bool | W_Sleep bool
  | T_Lock int | T_Read int | T_Write int int | T_Unlock int | W_Relock int
  | S_Lock bool | S_Read bool | S_Write bool int | S_Post bool | S_Unlock bool
  | B_Lock bool | B_Read bool | B_Write bool int | B_Unlock bool int | B_Post bool int

definition post :: "int \<Rightarrow> int" where
  "post n = (if n < SEM_VALUE_MAX then n + 1 else n)"

inductive cv_act :: "cv_pc \<Rightarrow> cv \<Rightarrow> cv_pc \<Rightarrow> cv \<Rightarrow> bool" where
  lock: "cv_mutex s \<Longrightarrow> cv_act (Idle False) s (Idle True) (s\<lparr>cv_mutex := False\<rparr>)"
| unlock: "cv_act (Idle True) s (Idle False) (s\<lparr>cv_mutex := True\<rparr>)"
| wait: "cv_act (Idle True) s (W_Lock b) s"
| signal: "cv_act (Idle h) s (S_Lock h) s"
| broadcast: "cv_act (Idle h) s (B_Lock h) s"
| w_lock: "cv_lock s \<Longrightarrow> cv_act (W_Lock b) s (W_Read b) (s\<lparr>cv_lock := False\<rparr>)"
| w_read: "cv_act (W_Read b) s (W_Write b (cv_waiters s)) s"
| w_write: "cv_act (W_Write b n) s (W_Unlock b) (s\<lparr>cv_waiters := n + 1\<rparr>)"
| w_unlock: "cv_act (W_Unlock b) s (W_Drop b) (s\<lparr>cv_lock := True\<rparr>)"
| w_drop: "cv_act (W_Drop b) s (W_Sleep b) (s\<lparr>cv_mutex := True\<rparr>)"
| w_wake: "cv_sem s > 0 \<Longrightarrow> cv_act (W_Sleep b) s (W_Relock E_SUCCESS) (s\<lparr>cv_sem := cv_sem s - 1\<rparr>)"
| w_fail: "r \<noteq> E_SUCCESS \<Longrightarrow> cv_act (W_Sleep True) s (T_Lock r) s"
| t_lock: "cv_lock s \<Longrightarrow> cv_act (T_Lock r) s (T_Read r) (s\<lparr>cv_lock := False\<rparr>)"
| t_read: "cv_act (T_Read r) s (T_Write r (cv_waiters s)) s"
| t_write: "cv_act (T_Write r n) s (T_Unlock r) (if n > 0 then s\<lparr>cv_waiters := n - 1\<rparr> else s)"
| t_unlock: "cv_act (T_Unlock r) s (W_Relock r) (s\<lparr>cv_lock := True\<rparr>)"
| w_relock: "cv_mutex s \<Longrightarrow> cv_act (W_Relock r) s (Idle True) (s\<lparr>cv_mutex := False\<rparr>)"
| s_lock: "cv_lock s \<Longrightarrow> cv_act (S_Lock h) s (S_Read h) (s\<lparr>cv_lock := False\<rparr>)"
| s_read: "cv_act (S_Read h) s (S_Write h (cv_waiters s)) s"
| s_write: "n > 0 \<Longrightarrow> cv_act (S_Write h n) s (S_Post h) (s\<lparr>cv_waiters := n - 1\<rparr>)"
| s_none: "\<not> n > 0 \<Longrightarrow> cv_act (S_Write h n) s (S_Unlock h) s"
| s_post: "cv_act (S_Post h) s (S_Unlock h) (s\<lparr>cv_sem := post (cv_sem s)\<rparr>)"
| s_unlock: "cv_act (S_Unlock h) s (Idle h) (s\<lparr>cv_lock := True\<rparr>)"
| b_lock: "cv_lock s \<Longrightarrow> cv_act (B_Lock h) s (B_Read h) (s\<lparr>cv_lock := False\<rparr>)"
| b_read: "cv_act (B_Read h) s (B_Write h (cv_waiters s)) s"
| b_write: "cv_act (B_Write h n) s (B_Unlock h n) (s\<lparr>cv_waiters := 0\<rparr>)"
| b_unlock: "cv_act (B_Unlock h n) s (B_Post h n) (s\<lparr>cv_lock := True\<rparr>)"
| b_post: "n > 0 \<Longrightarrow> cv_act (B_Post h n) s (B_Post h (n - 1)) (s\<lparr>cv_sem := post (cv_sem s)\<rparr>)"
| b_done: "\<not> n > 0 \<Longrightarrow> cv_act (B_Post h n) s (Idle h) s"

inductive_cases cv_act_cases: "cv_act l s l' s'"

definition cv_start :: cv where
  "cv_start = \<lparr>cv_waiters = 0, cv_sem = 0, cv_lock = True, cv_mutex = True\<rparr>"

text \<open>The first n threads exist.\<close>

definition cv_threads :: "nat \<Rightarrow> nat \<Rightarrow> cv_pc" where
  "cv_threads n t = (if t < n then Idle False else Off)"

section \<open>Mutual exclusion\<close>

text \<open>The states in which a thread has the lock of the waiter count, and those in which it has the mutex.\<close>

fun critical :: "cv_pc \<Rightarrow> bool" where
  "critical (W_Read b) = True" | "critical (W_Write b n) = True" | "critical (W_Unlock b) = True"
| "critical (T_Read r) = True" | "critical (T_Write r n) = True" | "critical (T_Unlock r) = True"
| "critical (S_Read h) = True" | "critical (S_Write h n) = True" | "critical (S_Post h) = True"
| "critical (S_Unlock h) = True" | "critical (B_Read h) = True" | "critical (B_Write h n) = True"
| "critical (B_Unlock h n) = True" | "critical _ = False"

fun has_mutex :: "cv_pc \<Rightarrow> bool" where
  "has_mutex (Idle h) = h" | "has_mutex (W_Lock b) = True" | "has_mutex (W_Read b) = True"
| "has_mutex (W_Write b n) = True" | "has_mutex (W_Unlock b) = True" | "has_mutex (W_Drop b) = True"
| "has_mutex (S_Lock h) = h" | "has_mutex (S_Read h) = h" | "has_mutex (S_Write h n) = h" | "has_mutex (S_Post h) = h"
| "has_mutex (S_Unlock h) = h" | "has_mutex (B_Lock h) = h" | "has_mutex (B_Read h) = h" | "has_mutex (B_Write h n) = h"
| "has_mutex (B_Unlock h n) = h" | "has_mutex (B_Post h n) = h" | "has_mutex _ = False"

text \<open>The value of the waiter count that a thread has read and is about to use.\<close>

fun seen :: "cv_pc \<Rightarrow> int option" where
  "seen (W_Write b n) = Some n" | "seen (T_Write r n) = Some n" | "seen (S_Write h n) = Some n"
| "seen (B_Write h n) = Some n" | "seen _ = None"

fun posts :: "cv_pc \<Rightarrow> int" where
  "posts (S_Post h) = 1" | "posts (B_Unlock h n) = n" | "posts (B_Post h n) = n" | "posts _ = 0"

definition cv_shared :: "cv \<Rightarrow> bool" where
  "cv_shared s \<longleftrightarrow> 0 \<le> cv_waiters s \<and> 0 \<le> cv_sem s"

definition cv_local :: "cv_pc \<Rightarrow> cv \<Rightarrow> bool" where
  "cv_local l s \<longleftrightarrow> (critical l \<longrightarrow> \<not> cv_lock s) \<and> (has_mutex l \<longrightarrow> \<not> cv_mutex s) \<and>
     (\<forall>n. seen l = Some n \<longrightarrow> n = cv_waiters s) \<and> 0 \<le> posts l"

definition cv_apart :: "cv_pc \<Rightarrow> cv_pc \<Rightarrow> bool" where
  "cv_apart l m \<longleftrightarrow> \<not> (critical l \<and> critical m) \<and> \<not> (has_mutex l \<and> has_mutex m)"

lemma seen_critical: "\<not> critical l \<Longrightarrow> seen l = None"
  by (cases l) auto

interpretation cv_race: interference_free cv_act cv_shared cv_local cv_apart
proof (unfold_locales, goal_cases)
  case (1 l s l' s')
  then show ?case by (cases rule: cv_act.cases) (auto simp: cv_shared_def cv_local_def post_def)
next
  case (2 l s l' s' m)
  then show ?case
    by (cases rule: cv_act.cases) (auto simp: cv_local_def cv_apart_def dest: seen_critical)
next
  case (3 l m)
  then show ?case by (auto simp: cv_apart_def)
qed

section \<open>Counting\<close>

text \<open>A thread that counts as waiting: from the increment until it is woken, or, after a wait that failed,
  until it has taken back the increment.\<close>

fun counted :: "cv_pc \<Rightarrow> int" where
  "counted (W_Unlock b) = 1" | "counted (W_Drop b) = 1" | "counted (W_Sleep b) = 1"
| "counted (T_Lock r) = 1" | "counted (T_Read r) = 1" | "counted (T_Write r n) = 1" | "counted _ = 0"

definition balance :: "nat \<Rightarrow> (nat \<Rightarrow> cv_pc) \<Rightarrow> int" where
  "balance n L = (\<Sum>t<n. counted (L t) - posts (L t))"

lemma balance_update: "t < n \<Longrightarrow> balance n (L(t := l)) =
    balance n L - (counted (L t) - posts (L t)) + (counted l - posts l)"
  unfolding balance_def by (subst (1 2) sum.remove [of _ t]) auto

lemma balance_le: "\<forall>t. 0 \<le> posts (L t) \<Longrightarrow> balance n L \<le> int n"
proof (induction n)
  case (Suc n)
  have "counted (L n) \<le> 1" by (cases "L n") auto
  with Suc show ?case by (simp add: balance_def) (smt (verit))
qed (simp add: balance_def)

lemma cv_act_balance:
  assumes "cv_act l s l' s'" "cv_local l s" "cv_shared s" "b \<le> cv_waiters s + cv_sem s"
    "b - (counted l - posts l) + (counted l' - posts l') \<le> SEM_VALUE_MAX"
  shows "b - (counted l - posts l) + (counted l' - posts l') \<le> cv_waiters s' + cv_sem s'"
  using assms by (cases rule: cv_act.cases) (auto simp: cv_local_def cv_shared_def post_def)

lemma cv_inv:
  assumes "reachable cv_act (cv_threads n) cv_start L s"
  shows "cv_race.inv_all L s"
proof (rule cv_race.inv_reachable [OF assms])
  show "cv_race.inv_all (cv_threads n) cv_start"
    unfolding cv_race.inv_all_def
    by (simp add: cv_threads_def cv_start_def cv_shared_def cv_local_def cv_apart_def)
qed

lemma cv_balance:
  assumes "reachable cv_act (cv_threads n) cv_start L s" "int n \<le> SEM_VALUE_MAX"
  shows "balance n L \<le> cv_waiters s + cv_sem s \<and> (\<forall>t\<ge>n. L t = Off)"
  using assms
proof (induction rule: reachable.induct)
  case start
  then show ?case by (simp add: balance_def cv_threads_def cv_start_def)
next
  case (step L s t l' s')
  have IH: "balance n L \<le> cv_waiters s + cv_sem s" "\<forall>t\<ge>n. L t = Off" using step by simp_all
  have t: "t < n"
  proof (rule ccontr)
    assume "\<not> t < n"
    then have "cv_act Off s l' s'" using IH(2) step.hyps(2) by (metis not_less)
    then show False by (cases rule: cv_act.cases)
  qed
  have inv: "cv_race.inv_all L s" "cv_race.inv_all (L(t := l')) s'"
    using cv_inv reachable.step [OF step.hyps] step.hyps(1) by blast+
  have "balance n (L(t := l')) \<le> int n"
    using inv(2) by (intro balance_le) (simp add: cv_race.inv_all_def cv_local_def)
  then have "balance n (L(t := l')) \<le> cv_waiters s' + cv_sem s'"
    using cv_act_balance [OF step.hyps(2) _ _ IH(1)] inv(1) t step.prems
    by (simp add: balance_update cv_race.inv_all_def)
  with IH(2) t show ?case by simp
qed

section \<open>Properties\<close>

definition asleep :: "nat \<Rightarrow> (nat \<Rightarrow> cv_pc) \<Rightarrow> nat" where
  "asleep n L = card {t. t < n \<and> (\<exists>b. L t = W_Sleep b)}"

lemma asleep_le: "int (asleep n L) \<le> (\<Sum>t<n. counted (L t))"
proof -
  have "int (asleep n L) = (\<Sum>t<n. of_bool (\<exists>b. L t = W_Sleep b))"
    by (simp add: asleep_def of_bool_def sum.If_cases Collect_conj_eq lessThan_def)
  also have "\<dots> \<le> (\<Sum>t<n. counted (L t))"
  proof (rule sum_mono)
    show "of_bool (\<exists>b. L t = W_Sleep b) \<le> counted (L t)" for t by (cases "L t") auto
  qed
  finally show ?thesis .
qed

text \<open>C20. No wakeup is lost. In every state that threads using a condition variable can reach, the number
  of threads asleep on it is at most the waiter count plus the posts of the semaphore that were made or
  are still to be made by a signal or broadcast in progress. So a sleeping thread that no post is meant
  for is still counted, and the next \<open>pthread_cond_signal\<close> finds the count positive and posts; the time
  between the unlock of the mutex and the sleep makes no difference. The count is only touched by one
  thread at a time, and only one thread has the mutex.\<close>

theorem no_lost_wakeup:
  assumes "reachable cv_act (cv_threads n) cv_start L s" "int n \<le> SEM_VALUE_MAX"
  shows "int (asleep n L) \<le> cv_waiters s + cv_sem s + (\<Sum>t<n. posts (L t)) \<and>
    (\<forall>t u. t \<noteq> u \<longrightarrow> \<not> (critical (L t) \<and> critical (L u)) \<and> \<not> (has_mutex (L t) \<and> has_mutex (L u)))"
proof -
  have "(\<Sum>t<n. counted (L t)) \<le> cv_waiters s + cv_sem s + (\<Sum>t<n. posts (L t))"
    using cv_balance [OF assms] by (simp add: balance_def sum_subtractf)
  moreover have "\<forall>t u. t \<noteq> u \<longrightarrow> cv_apart (L t) (L u)" using cv_inv [OF assms(1)] by (simp add: cv_race.inv_all_def)
  ultimately show ?thesis using asleep_le [of n L] by (simp add: cv_apart_def)
qed

text \<open>A thread asleep, and another one in \<open>pthread_cond_signal\<close> that has taken it off the count and not
  posted yet.\<close>

theorem no_lost_wakeup_witness:
  "\<exists>L s. reachable cv_act (cv_threads 2) cv_start L s \<and> L 0 = W_Sleep False \<and> L 1 = S_Post False \<and> cv_waiters s = 0 \<and>
     int (asleep 2 L) \<le> cv_waiters s + cv_sem s + (\<Sum>t<2. posts (L t))"
proof -
  let ?s = "\<lambda>w l m. \<lparr>cv_waiters = w, cv_sem = 0, cv_lock = l, cv_mutex = m\<rparr>"
  let ?L = "(cv_threads 2)(0 := W_Sleep False, 1 := S_Post False)"
  let ?tr = "[(0, Idle True, ?s 0 True False), (0, W_Lock False, ?s 0 True False), (0, W_Read False, ?s 0 False False),
    (0, W_Write False 0, ?s 0 False False), (0, W_Unlock False, ?s 1 False False), (0, W_Drop False, ?s 1 True False),
    (1, S_Lock False, ?s 1 True False), (0, W_Sleep False, ?s 1 True True), (1, S_Read False, ?s 1 False True),
    (1, S_Write False 1, ?s 1 False True), (1, S_Post False, ?s 0 False True)]"
  have "follows cv_act ?tr (cv_threads 2) cv_start ?L (?s 0 False True)"
    by (simp add: cv_act.simps cv_threads_def cv_start_def) blast
  then have r: "reachable cv_act (cv_threads 2) cv_start ?L (?s 0 False True)" by (rule reachable_follows)
  from no_lost_wakeup [OF r] have "int (asleep 2 ?L) \<le> cv_waiters (?s 0 False True) + cv_sem (?s 0 False True) + (\<Sum>t<2. posts (?L t))"
    by (simp add: SEM_VALUE_MAX_def)
  with r show ?thesis by (intro exI [of _ ?L] exI [of _ "?s 0 False True"]) simp
qed

end
