(* ===== verification/Pthread_Race.thy ===== *)
theory Pthread_Race
  imports Pthread Interleave Ram_Kernel
begin

text \<open>
  Lazy initialisation in \<open>userspace/libc/pthread.c\<close> under concurrency. The functions that create the
  semaphores of a mutex and of a condition variable at their first use are split into their atomic
  actions; run alone, they are the functions of \<open>Pthread\<close>, and any number of threads may interleave them.
\<close>

section \<open>The handles of a process\<close>

text \<open>What the library relies on: \<open>owned\<close> is the set of open handles of the process; a synchronisation
  object gets a handle that is not in use, which fits in a \<open>syscall_status_t\<close>, and \<open>sys_close\<close> releases
  its handle.\<close>

definition owns_sync :: "'k kernel \<Rightarrow> ('k \<Rightarrow> int set) \<Rightarrow> bool" where
  "owns_sync K owned \<longleftrightarrow>
     (\<forall>k ty a b n h k'. sys_create_sync_object K k ty a b n = (h, k') \<longrightarrow>
        - (2 ^ 31) \<le> h \<and> h < 2 ^ 31 \<and>
        (if h < 0 then owned k' = owned k else h \<notin> owned k \<and> owned k' = insert h (owned k))) \<and>
     (\<forall>k h. owned (snd (sys_close K k h)) = owned k - {h})"

lemma create_semaphore_cases:
  assumes "owns_sync K owned" "create_semaphore K a b k = (h, k')"
  obtains (Fail) "h < 0" "owned k' = owned k"
  | (New) "0 \<le> h" "h < 2 ^ 31" "uint64 h = h" "int64 h = h" "h \<notin> owned k" "owned k' = insert h (owned k)"
proof -
  obtain h0 where c: "sys_create_sync_object K k SYNC_SEMAPHORE a b None = (h0, k')" "h = int32 h0"
    using assms(2) by (auto simp: create_semaphore_def split: prod.splits)
  with assms(1) have b: "- (2 ^ 31) \<le> h0" "h0 < 2 ^ 31"
    "if h0 < 0 then owned k' = owned k else h0 \<notin> owned k \<and> owned k' = insert h0 (owned k)"
    by (auto simp: owns_sync_def)
  then have "h = h0" using c(2) by (simp add: int32_id)
  with b Fail New show thesis by (cases "h < 0") (simp_all add: uint64_id int64_id)
qed

lemma owned_close: "owns_sync K owned \<Longrightarrow> 0 \<le> h \<Longrightarrow> h < 2 ^ 31 \<Longrightarrow> owned (close_fd K h k) = owned k - {h}"
  by (simp add: owns_sync_def close_fd_def int64_id)

section \<open>Mutexes\<close>

datatype mutex_pc = At_Load | At_Create | At_Cas int | At_Close int | At_Store | Returned int

fun mutex_step :: "'k kernel \<Rightarrow> mutex_pc \<Rightarrow> pthread_mutex \<times> 'k \<Rightarrow> mutex_pc \<times> pthread_mutex \<times> 'k" where
  "mutex_step K At_Load (m, k) = (if mutex_init m \<noteq> 0 then (Returned 0, m, k) else (At_Create, m, k))"
| "mutex_step K At_Create (m, k) =
     (let (h, k1) = create_semaphore K 1 1 k in
      if h < 0 then (Returned ENOMEM, m, k1) else (At_Cas (uint64 h), m, k1))"
| "mutex_step K (At_Cas candidate) (m, k) =
     (if mutex_fd m = NO_FD then (At_Store, m\<lparr>mutex_fd := candidate\<rparr>, k) else (At_Close candidate, m, k))"
| "mutex_step K (At_Close candidate) (m, k) = (At_Store, m, close_fd K candidate k)"
| "mutex_step K At_Store (m, k) = (Returned 0, m\<lparr>mutex_init := 1\<rparr>, k)"
| "mutex_step K (Returned r) (m, k) = (Returned r, m, k)"

definition mutex_act :: "'k kernel \<Rightarrow> mutex_pc \<Rightarrow> pthread_mutex \<times> 'k \<Rightarrow> mutex_pc \<Rightarrow> pthread_mutex \<times> 'k \<Rightarrow> bool" where
  "mutex_act K l s l' s' \<longleftrightarrow> (\<nexists>r. l = Returned r) \<and> mutex_step K l s = (l', s')"

definition held :: "mutex_pc \<Rightarrow> int set" where
  "held l = (case l of At_Cas c \<Rightarrow> {c} | At_Close c \<Rightarrow> {c} | _ \<Rightarrow> {})"

definition mutex_handles :: "pthread_mutex \<Rightarrow> int set" where
  "mutex_handles m = (if mutex_fd m = NO_FD then {} else {mutex_fd m})"

definition mutex_shared :: "'k kernel \<Rightarrow> ('k \<Rightarrow> int set) \<Rightarrow> pthread_mutex \<times> 'k \<Rightarrow> bool" where
  "mutex_shared K owned s \<longleftrightarrow> (case s of (m, k) \<Rightarrow> owns_sync K owned \<and> mutex_handles m \<subseteq> owned k \<and>
     (mutex_init m \<noteq> 0 \<longrightarrow> mutex_fd m \<noteq> NO_FD))"

definition mutex_local :: "('k \<Rightarrow> int set) \<Rightarrow> mutex_pc \<Rightarrow> pthread_mutex \<times> 'k \<Rightarrow> bool" where
  "mutex_local owned l s \<longleftrightarrow> (case s of (m, k) \<Rightarrow>
     held l \<subseteq> owned k \<and> held l \<subseteq> {0..<2 ^ 31} \<and> held l \<inter> mutex_handles m = {} \<and>
     (case l of At_Close c \<Rightarrow> mutex_fd m \<noteq> NO_FD | At_Store \<Rightarrow> mutex_fd m \<noteq> NO_FD
      | Returned r \<Rightarrow> (r = 0 \<and> mutex_init m \<noteq> 0) \<or> r = ENOMEM | _ \<Rightarrow> True))"

lemma NO_FD_big: "NO_FD \<ge> 2 ^ 31"
  by (simp add: NO_FD_def uint64_mod)

lemma mutex_act_cases:
  assumes "mutex_act K l (m, k) l' (m', k')" "owns_sync K owned" "held l \<subseteq> {0..<2 ^ 31}"
  obtains (Seen) "l = At_Load" "mutex_init m \<noteq> 0" "l' = Returned 0" "m' = m" "k' = k"
  | (Load) "l = At_Load" "l' = At_Create" "m' = m" "k' = k"
  | (Full) "l = At_Create" "l' = Returned ENOMEM" "m' = m" "owned k' = owned k"
  | (Create) h where "l = At_Create" "l' = At_Cas h" "m' = m" "0 \<le> h" "h < 2 ^ 31" "h \<notin> owned k"
      "owned k' = insert h (owned k)"
  | (Win) c where "l = At_Cas c" "mutex_fd m = NO_FD" "l' = At_Store" "m' = m\<lparr>mutex_fd := c\<rparr>" "k' = k" "c \<noteq> NO_FD"
  | (Lose) c where "l = At_Cas c" "mutex_fd m \<noteq> NO_FD" "l' = At_Close c" "m' = m" "k' = k"
  | (Close) c where "l = At_Close c" "l' = At_Store" "m' = m" "owned k' = owned k - {c}"
  | (Store) "l = At_Store" "l' = Returned 0" "m' = m\<lparr>mutex_init := 1\<rparr>" "k' = k"
proof (cases l)
  case At_Create
  obtain h where h: "create_semaphore K 1 1 k = (h, k')"
    using assms(1) At_Create by (auto simp: mutex_act_def split: prod.splits if_splits)
  show ?thesis
    using assms(1) At_Create h Full Create by (cases rule: create_semaphore_cases [OF assms(2) h]) (auto simp: mutex_act_def)
next
  case (At_Close c)
  then show ?thesis using assms Close [of c] by (auto simp: mutex_act_def owned_close held_def)
next
  case (At_Cas c)
  then have "c \<noteq> NO_FD" using assms(3) NO_FD_big by (auto simp: held_def)
  then show ?thesis using assms At_Cas Win [of c] Lose [of c] by (auto simp: mutex_act_def split: if_splits)
qed (use assms Seen Load Store in \<open>auto simp: mutex_act_def split: if_splits\<close>)

lemma mutex_own:
  assumes "mutex_act K l (m, k) l' (m', k')" "mutex_shared K owned (m, k)" "mutex_local owned l (m, k)"
  shows "mutex_shared K owned (m', k') \<and> mutex_local owned l' (m', k')"
proof -
  have "owns_sync K owned" "held l \<subseteq> {0..<2 ^ 31}" using assms by (simp_all add: mutex_shared_def mutex_local_def)
  from assms(1) this show ?thesis
    by (rule mutex_act_cases)
      (use assms(2,3) in \<open>auto simp: mutex_shared_def mutex_local_def held_def mutex_handles_def split: if_splits\<close>)
qed

lemma mutex_other:
  assumes "mutex_act K l (m, k) l' (m', k')" "mutex_shared K owned (m, k)" "mutex_local owned l (m, k)"
    "mutex_local owned n (m, k)" "held l \<inter> held n = {}"
  shows "mutex_local owned n (m', k') \<and> held l' \<inter> held n = {}"
proof -
  have "owns_sync K owned" "held l \<subseteq> {0..<2 ^ 31}" using assms by (simp_all add: mutex_shared_def mutex_local_def)
  from assms(1) this show ?thesis
    by (rule mutex_act_cases)
      (use assms(2-5) in \<open>auto simp: mutex_shared_def mutex_local_def held_def mutex_handles_def
        split: if_splits mutex_pc.splits\<close>)
qed

lemma mutex_account:
  assumes "mutex_act K l (m, k) l' (m', k')" "mutex_shared K owned (m, k)" "mutex_local owned l (m, k)"
  shows "accounts (held l) (owned k) (owned k') (held l \<union> mutex_handles m) (held l' \<union> mutex_handles m')"
proof -
  have "owns_sync K owned" "held l \<subseteq> {0..<2 ^ 31}" using assms by (simp_all add: mutex_shared_def mutex_local_def)
  from assms(1) this show ?thesis
  proof (rule mutex_act_cases, goal_cases)
    case (4 h)
    then show ?case by (intro accounts_acquire [of h]) (simp_all add: held_def)
  next
    case (7 c)
    then show ?case using assms(3) by (intro accounts_release [of c]) (auto simp: held_def mutex_local_def)
  qed (rule accounts_same; simp add: held_def mutex_handles_def)+
qed

interpretation mutex_race: accounted "mutex_act K" "mutex_shared K owned" "mutex_local owned"
  "\<lambda>l m. held l \<inter> held m = {}" held "\<lambda>s. mutex_handles (fst s)" "\<lambda>s. owned (snd s)"
  for K owned
proof (unfold_locales, goal_cases)
  case (1 l s l' s')
  then show ?case using mutex_own [of K l "fst s" "snd s" l' "fst s'" "snd s'" owned] by simp
next
  case (2 l s l' s' n)
  then show ?case using mutex_other [of K l "fst s" "snd s" l' "fst s'" "snd s'" owned n] by simp
next
  case (6 l s l' s')
  then show ?case using mutex_account [of K l "fst s" "snd s" l' "fst s'" "snd s'" owned] by simp
qed (auto simp: mutex_local_def split: prod.splits)

lemma mutex_race_inv:
  assumes "reachable (mutex_act K) (\<lambda>_. At_Load) (PTHREAD_MUTEX_INITIALIZER, k0) L s" "owns_sync K owned"
  shows "mutex_race.inv_all K owned L s"
proof (rule mutex_race.inv_reachable [OF assms(1)])
  show "mutex_race.inv_all K owned (\<lambda>_. At_Load) (PTHREAD_MUTEX_INITIALIZER, k0)"
    unfolding mutex_race.inv_all_def
    using assms(2) by (simp add: mutex_shared_def mutex_local_def mutex_handles_def PTHREAD_MUTEX_INITIALIZER_def held_def)
qed

lemma mutex_no_leak:
  assumes "reachable (mutex_act K) (\<lambda>_. At_Load) (PTHREAD_MUTEX_INITIALIZER, k0) L (m, k)" "owns_sync K owned"
  shows "owned k = owned k0 \<union> mutex_handles m \<union> (\<Union>t. held (L t)) \<and> mutex_handles m \<inter> owned k0 = {}"
  using mutex_race.account_reachable [OF assms(1) mutex_race_inv [OF reachable.start assms(2)]]
  by (auto simp: mutex_handles_def PTHREAD_MUTEX_INITIALIZER_def held_def)

lemma mutex_winner:
  assumes "reachable (mutex_act K) (\<lambda>_. At_Load) (PTHREAD_MUTEX_INITIALIZER, k0) L s"
  shows "mutex_fd (fst s) = NO_FD \<or> (\<exists>t. L t = At_Store \<or> L t = Returned 0)"
  using assms
proof (induction rule: reachable.induct)
  case start
  then show ?case by (simp add: PTHREAD_MUTEX_INITIALIZER_def)
next
  case (step L s t l' s')
  obtain m k where s: "s = (m, k)" by (cases s)
  show ?case
  proof (cases "\<exists>u. u \<noteq> t \<and> (L u = At_Store \<or> L u = Returned 0)")
    case False
    then have "mutex_fd m = NO_FD \<or> L t = At_Store \<or> L t = Returned 0" using step.IH s by auto
    with step.hyps(2) s show ?thesis
      by (cases "L t") (auto simp: mutex_act_def Let_def split: if_splits prod.splits)
  qed auto
qed

section \<open>Condition variables\<close>

datatype cond_pc = C_Load | C_Sem | C_Lock int | C_Drop int | C_Cas int int | C_Set int | C_Store
  | C_Close_Sem int int | C_Close_Lock int | C_Spin | C_Ret int

fun cond_step :: "'k kernel \<Rightarrow> cond_pc \<Rightarrow> pthread_cond \<times> 'k \<Rightarrow> cond_pc \<times> pthread_cond \<times> 'k" where
  "cond_step K C_Load (c, k) = (if cond_init c \<noteq> 0 then (C_Ret 0, c, k) else (C_Sem, c, k))"
| "cond_step K C_Sem (c, k) =
     (let (s, k1) = create_semaphore K 0 SEM_VALUE_MAX k in
      if s < 0 then (C_Ret ENOMEM, c, k1) else (C_Lock s, c, k1))"
| "cond_step K (C_Lock s) (c, k) =
     (let (w, k1) = create_semaphore K 1 1 k in
      if w < 0 then (C_Drop s, c, k1) else (C_Cas (uint64 s) w, c, k1))"
| "cond_step K (C_Drop s) (c, k) = (C_Ret ENOMEM, c, close_fd K (uint64 s) k)"
| "cond_step K (C_Cas candidate w) (c, k) =
     (if cond_sem c = NO_FD then (C_Set w, c\<lparr>cond_sem := candidate\<rparr>, k) else (C_Close_Sem candidate w, c, k))"
| "cond_step K (C_Set w) (c, k) = (C_Store, c\<lparr>waiters_lock := uint64 w\<rparr>, k)"
| "cond_step K C_Store (c, k) = (C_Ret 0, c\<lparr>cond_init := 1\<rparr>, k)"
| "cond_step K (C_Close_Sem s w) (c, k) = (C_Close_Lock w, c, close_fd K s k)"
| "cond_step K (C_Close_Lock w) (c, k) = (C_Spin, c, close_fd K (uint64 w) k)"
| "cond_step K C_Spin (c, k) = (if cond_init c \<noteq> 0 then (C_Ret 0, c, k) else (C_Spin, c, k))"
| "cond_step K (C_Ret r) (c, k) = (C_Ret r, c, k)"

definition cond_act :: "'k kernel \<Rightarrow> cond_pc \<Rightarrow> pthread_cond \<times> 'k \<Rightarrow> cond_pc \<Rightarrow> pthread_cond \<times> 'k \<Rightarrow> bool" where
  "cond_act K l s l' s' \<longleftrightarrow> (\<nexists>r. l = C_Ret r) \<and> cond_step K l s = (l', s')"

definition cond_held :: "cond_pc \<Rightarrow> int set" where
  "cond_held l = (case l of C_Lock s \<Rightarrow> {s} | C_Drop s \<Rightarrow> {s} | C_Cas s w \<Rightarrow> {s, w} | C_Set w \<Rightarrow> {w}
     | C_Close_Sem s w \<Rightarrow> {s, w} | C_Close_Lock w \<Rightarrow> {w} | _ \<Rightarrow> {})"

definition cond_handles :: "pthread_cond \<Rightarrow> int set" where
  "cond_handles c = (if cond_sem c = NO_FD then {} else {cond_sem c}) \<union>
     (if waiters_lock c = NO_FD then {} else {waiters_lock c})"

definition cond_shared :: "'k kernel \<Rightarrow> ('k \<Rightarrow> int set) \<Rightarrow> pthread_cond \<times> 'k \<Rightarrow> bool" where
  "cond_shared K owned s \<longleftrightarrow> (case s of (c, k) \<Rightarrow> owns_sync K owned \<and> cond_handles c \<subseteq> owned k \<and>
     (waiters_lock c \<noteq> NO_FD \<longrightarrow> cond_sem c \<noteq> NO_FD \<and> cond_sem c \<noteq> waiters_lock c) \<and>
     (cond_init c \<noteq> 0 \<longrightarrow> waiters_lock c \<noteq> NO_FD))"

definition cond_at :: "cond_pc \<Rightarrow> pthread_cond \<Rightarrow> bool" where
  "cond_at l c \<longleftrightarrow> (case l of C_Cas s w \<Rightarrow> s \<noteq> w | C_Close_Sem s w \<Rightarrow> s \<noteq> w
      | C_Set w \<Rightarrow> cond_sem c \<noteq> NO_FD \<and> waiters_lock c = NO_FD | C_Store \<Rightarrow> waiters_lock c \<noteq> NO_FD
      | C_Ret r \<Rightarrow> (r = 0 \<and> cond_init c \<noteq> 0) \<or> r = ENOMEM | _ \<Rightarrow> True)"

definition cond_local :: "('k \<Rightarrow> int set) \<Rightarrow> cond_pc \<Rightarrow> pthread_cond \<times> 'k \<Rightarrow> bool" where
  "cond_local owned l s \<longleftrightarrow> (case s of (c, k) \<Rightarrow>
     cond_held l \<subseteq> owned k \<and> cond_held l \<subseteq> {0..<2 ^ 31} \<and> cond_held l \<inter> cond_handles c = {} \<and> cond_at l c)"

definition cond_apart :: "cond_pc \<Rightarrow> cond_pc \<Rightarrow> bool" where
  "cond_apart l m \<longleftrightarrow> cond_held l \<inter> cond_held m = {} \<and> \<not> ((\<exists>w. l = C_Set w) \<and> (\<exists>w. m = C_Set w))"

lemma cond_act_cases:
  assumes "cond_act K l (c, k) l' (c', k')" "owns_sync K owned" "cond_held l \<subseteq> {0..<2 ^ 31}"
  obtains (Seen) "l = C_Load \<or> l = C_Spin" "cond_init c \<noteq> 0" "l' = C_Ret 0" "c' = c" "k' = k"
  | (Load) "l = C_Load" "l' = C_Sem" "c' = c" "k' = k"
  | (Spin) "l = C_Spin" "l' = C_Spin" "c' = c" "k' = k"
  | (Full) "l = C_Sem" "l' = C_Ret ENOMEM" "c' = c" "owned k' = owned k"
  | (Sem) h where "l = C_Sem" "l' = C_Lock h" "c' = c" "0 \<le> h" "h < 2 ^ 31" "h \<notin> owned k" "owned k' = insert h (owned k)"
  | (Fail) s where "l = C_Lock s" "l' = C_Drop s" "c' = c" "owned k' = owned k"
  | (Lock) s h where "l = C_Lock s" "l' = C_Cas s h" "c' = c" "0 \<le> h" "h < 2 ^ 31" "h \<notin> owned k" "owned k' = insert h (owned k)"
  | (Drop) s where "l = C_Drop s" "l' = C_Ret ENOMEM" "c' = c" "owned k' = owned k - {s}"
  | (Win) s w where "l = C_Cas s w" "cond_sem c = NO_FD" "l' = C_Set w" "c' = c\<lparr>cond_sem := s\<rparr>" "k' = k" "s \<noteq> NO_FD"
  | (Lose) s w where "l = C_Cas s w" "cond_sem c \<noteq> NO_FD" "l' = C_Close_Sem s w" "c' = c" "k' = k"
  | (Set) w where "l = C_Set w" "l' = C_Store" "c' = c\<lparr>waiters_lock := w\<rparr>" "k' = k" "w \<noteq> NO_FD"
  | (Store) "l = C_Store" "l' = C_Ret 0" "c' = c\<lparr>cond_init := 1\<rparr>" "k' = k"
  | (Close_Sem) s w where "l = C_Close_Sem s w" "l' = C_Close_Lock w" "c' = c" "owned k' = owned k - {s}"
  | (Close_Lock) w where "l = C_Close_Lock w" "l' = C_Spin" "c' = c" "owned k' = owned k - {w}"
proof (cases l)
  case C_Sem
  obtain h where h: "create_semaphore K 0 SEM_VALUE_MAX k = (h, k')"
    using assms(1) C_Sem by (auto simp: cond_act_def split: prod.splits if_splits)
  then have l': "c' = c" "l' = (if h < 0 then C_Ret ENOMEM else C_Lock h)"
    using assms(1) C_Sem by (auto simp: cond_act_def split: if_splits)
  show ?thesis
    by (cases rule: create_semaphore_cases [OF assms(2) h]) (rule Full Sem; simp add: C_Sem l')+
next
  case (C_Lock s)
  have s: "uint64 s = s" using assms(3) C_Lock by (simp add: cond_held_def uint64_id)
  obtain h where h: "create_semaphore K 1 1 k = (h, k')"
    using assms(1) C_Lock by (auto simp: cond_act_def split: prod.splits if_splits)
  then have l': "c' = c" "l' = (if h < 0 then C_Drop s else C_Cas s h)"
    using assms(1) C_Lock s by (auto simp: cond_act_def split: if_splits)
  show ?thesis
    by (cases rule: create_semaphore_cases [OF assms(2) h]) (rule Fail Lock; simp add: C_Lock l')+
next
  case (C_Cas s w)
  then have "s < 2 ^ 31" using assms(3) by (simp add: cond_held_def)
  then have "s \<noteq> NO_FD" using NO_FD_big by linarith
  then show ?thesis
    using assms(1) C_Cas by (cases "cond_sem c = NO_FD") (rule Win [of s w] Lose [of s w]; simp add: cond_act_def)+
next
  case (C_Set w)
  then have "0 \<le> w" "w < 2 ^ 31" using assms(3) by (simp_all add: cond_held_def)
  then have "w \<noteq> NO_FD" "uint64 w = w" using NO_FD_big by (linarith, simp add: uint64_id)
  then show ?thesis using assms(1) C_Set by (intro Set [of w]) (simp_all add: cond_act_def)
next
  case C_Load
  then show ?thesis using assms(1) by (cases "cond_init c = 0") (rule Load Seen; simp add: cond_act_def)+
next
  case C_Spin
  then show ?thesis using assms(1) by (cases "cond_init c = 0") (rule Spin Seen; simp add: cond_act_def)+
next
  case C_Store
  then show ?thesis using assms(1) by (intro Store) (simp_all add: cond_act_def)
next
  case (C_Drop s)
  then have "owned (close_fd K (uint64 s) k) = owned k - {s}"
    using assms(2,3) by (simp add: cond_held_def owned_close uint64_id)
  then show ?thesis using assms(1) C_Drop by (intro Drop [of s]) (simp_all add: cond_act_def)
next
  case (C_Close_Sem s w)
  then have "owned (close_fd K s k) = owned k - {s}" using assms(2,3) by (simp add: cond_held_def owned_close)
  then show ?thesis using assms(1) C_Close_Sem by (intro Close_Sem [of s w]) (simp_all add: cond_act_def)
next
  case (C_Close_Lock w)
  then have "owned (close_fd K (uint64 w) k) = owned k - {w}"
    using assms(2,3) by (simp add: cond_held_def owned_close uint64_id)
  then show ?thesis using assms(1) C_Close_Lock by (intro Close_Lock [of w]) (simp_all add: cond_act_def)
next
  case (C_Ret r)
  then show ?thesis using assms(1) by (simp add: cond_act_def)
qed

lemma cond_at_stable:
  "cond_at l c \<Longrightarrow> x \<noteq> NO_FD \<Longrightarrow> cond_at l (c\<lparr>cond_sem := x\<rparr>)"
  by (cases l) (simp_all add: cond_at_def)

lemma cond_at_stable_lock:
  "cond_at l c \<Longrightarrow> x \<noteq> NO_FD \<Longrightarrow> \<nexists>w. l = C_Set w \<Longrightarrow> cond_at l (c\<lparr>waiters_lock := x\<rparr>)"
  by (cases l) (simp_all add: cond_at_def)

lemma cond_at_stable_init: "cond_at l c \<Longrightarrow> cond_at l (c\<lparr>cond_init := 1\<rparr>)"
  by (cases l) (auto simp: cond_at_def)

lemma cond_held_simps [simp]:
  "cond_held C_Load = {}" "cond_held C_Sem = {}" "cond_held (C_Lock s) = {s}" "cond_held (C_Drop s) = {s}"
  "cond_held (C_Cas s w) = {s, w}" "cond_held (C_Set w) = {w}" "cond_held C_Store = {}"
  "cond_held (C_Close_Sem s w) = {s, w}" "cond_held (C_Close_Lock w) = {w}" "cond_held C_Spin = {}"
  "cond_held (C_Ret r) = {}"
  by (simp_all add: cond_held_def)

lemma cond_at_simps [simp]:
  "cond_at C_Load c" "cond_at C_Sem c" "cond_at (C_Lock s) c" "cond_at (C_Drop s) c"
  "cond_at (C_Cas s w) c = (s \<noteq> w)" "cond_at (C_Set w) c = (cond_sem c \<noteq> NO_FD \<and> waiters_lock c = NO_FD)"
  "cond_at C_Store c = (waiters_lock c \<noteq> NO_FD)" "cond_at (C_Close_Sem s w) c = (s \<noteq> w)"
  "cond_at (C_Close_Lock w) c" "cond_at C_Spin c"
  "cond_at (C_Ret r) c = ((r = 0 \<and> cond_init c \<noteq> 0) \<or> r = ENOMEM)"
  by (simp_all add: cond_at_def)

lemma cond_handles_update:
  "cond_sem c = NO_FD \<Longrightarrow> x \<noteq> NO_FD \<Longrightarrow> cond_handles (c\<lparr>cond_sem := x\<rparr>) = insert x (cond_handles c)"
  "waiters_lock c = NO_FD \<Longrightarrow> x \<noteq> NO_FD \<Longrightarrow> cond_handles (c\<lparr>waiters_lock := x\<rparr>) = insert x (cond_handles c)"
  "cond_handles (c\<lparr>cond_init := i\<rparr>) = cond_handles c"
  "cond_sem c \<noteq> NO_FD \<Longrightarrow> cond_sem c \<in> cond_handles c"
  by (auto simp: cond_handles_def)

lemma cond_own:
  assumes "cond_act K l (c, k) l' (c', k')" "cond_shared K owned (c, k)" "cond_local owned l (c, k)"
  shows "cond_shared K owned (c', k') \<and> cond_local owned l' (c', k')"
proof -
  have "owns_sync K owned" "cond_held l \<subseteq> {0..<2 ^ 31}" using assms by (simp_all add: cond_shared_def cond_local_def)
  from assms(1) this show ?thesis
    by (rule cond_act_cases)
      (use assms(2,3) in \<open>auto simp: cond_shared_def cond_local_def cond_handles_update\<close>)
qed

lemma cond_other:
  assumes "cond_act K l (c, k) l' (c', k')" "cond_shared K owned (c, k)" "cond_local owned l (c, k)"
    "cond_local owned n (c, k)" "cond_apart l n"
  shows "cond_local owned n (c', k') \<and> cond_apart l' n"
proof -
  have "owns_sync K owned" "cond_held l \<subseteq> {0..<2 ^ 31}" using assms by (simp_all add: cond_shared_def cond_local_def)
  from assms(1) this show ?thesis
    by (rule cond_act_cases)
      (use assms(2-5) in \<open>auto simp: cond_shared_def cond_local_def cond_apart_def cond_handles_update
        intro: cond_at_stable cond_at_stable_lock cond_at_stable_init\<close>)
qed

lemma cond_account:
  assumes "cond_act K l (c, k) l' (c', k')" "cond_shared K owned (c, k)" "cond_local owned l (c, k)"
  shows "accounts (cond_held l) (owned k) (owned k') (cond_held l \<union> cond_handles c) (cond_held l' \<union> cond_handles c')"
proof -
  have "owns_sync K owned" "cond_held l \<subseteq> {0..<2 ^ 31}" using assms by (simp_all add: cond_shared_def cond_local_def)
  from assms(1) this show ?thesis
  proof (rule cond_act_cases, goal_cases)
    case (5 h)
    then show ?case by (intro accounts_acquire [of h]) simp_all
  next
    case (7 s h)
    then show ?case by (intro accounts_acquire [of h]) auto
  next
    case (8 s)
    then show ?case using assms(3) by (intro accounts_release [of s]) (auto simp: cond_local_def)
  next
    case (13 s w)
    then show ?case using assms(3) by (intro accounts_release [of s]) (auto simp: cond_local_def)
  next
    case (14 w)
    then show ?case using assms(3) by (intro accounts_release [of w]) (auto simp: cond_local_def)
  qed (use assms(3) in \<open>auto intro!: accounts_same simp: cond_local_def cond_handles_update\<close>)
qed

interpretation cond_race: accounted "cond_act K" "cond_shared K owned" "cond_local owned" cond_apart
  cond_held "\<lambda>s. cond_handles (fst s)" "\<lambda>s. owned (snd s)"
  for K owned
proof (unfold_locales, goal_cases)
  case (1 l s l' s')
  then show ?case using cond_own [of K l "fst s" "snd s" l' "fst s'" "snd s'" owned] by simp
next
  case (2 l s l' s' n)
  then show ?case using cond_other [of K l "fst s" "snd s" l' "fst s'" "snd s'" owned n] by simp
next
  case (6 l s l' s')
  then show ?case using cond_account [of K l "fst s" "snd s" l' "fst s'" "snd s'" owned] by simp
qed (auto simp: cond_local_def cond_apart_def split: prod.splits)

lemma cond_race_inv:
  assumes "reachable (cond_act K) (\<lambda>_. C_Load) (PTHREAD_COND_INITIALIZER, k0) L s" "owns_sync K owned"
  shows "cond_race.inv_all K owned L s"
proof (rule cond_race.inv_reachable [OF assms(1)])
  show "cond_race.inv_all K owned (\<lambda>_. C_Load) (PTHREAD_COND_INITIALIZER, k0)"
    unfolding cond_race.inv_all_def
    using assms(2) by (simp add: cond_shared_def cond_local_def cond_apart_def cond_handles_def PTHREAD_COND_INITIALIZER_def)
qed

lemma cond_no_leak:
  assumes "reachable (cond_act K) (\<lambda>_. C_Load) (PTHREAD_COND_INITIALIZER, k0) L (c, k)" "owns_sync K owned"
  shows "owned k = owned k0 \<union> cond_handles c \<union> (\<Union>t. cond_held (L t)) \<and> cond_handles c \<inter> owned k0 = {}"
  using cond_race.account_reachable [OF assms(1) cond_race_inv [OF reachable.start assms(2)]]
  by (auto simp: cond_handles_def PTHREAD_COND_INITIALIZER_def)

lemma cond_winner:
  assumes "reachable (cond_act K) (\<lambda>_. C_Load) (PTHREAD_COND_INITIALIZER, k0) L s"
  shows "cond_sem (fst s) = NO_FD \<or> (\<exists>t. (\<exists>w. L t = C_Set w) \<or> L t = C_Store \<or> L t = C_Ret 0)"
  using assms
proof (induction rule: reachable.induct)
  case start
  then show ?case by (simp add: PTHREAD_COND_INITIALIZER_def)
next
  case (step L s t l' s')
  obtain c k where s: "s = (c, k)" by (cases s)
  show ?case
  proof (cases "\<exists>u. u \<noteq> t \<and> ((\<exists>w. L u = C_Set w) \<or> L u = C_Store \<or> L u = C_Ret 0)")
    case False
    then have "cond_sem c = NO_FD \<or> (\<exists>w. L t = C_Set w) \<or> L t = C_Store \<or> L t = C_Ret 0" using step.IH s by auto
    with step.hyps(2) s show ?thesis
      by (cases "L t") (auto simp: cond_act_def Let_def split: if_splits prod.splits)
  next
    case True
    then show ?thesis by (metis fun_upd_other)
  qed
qed

section \<open>A kernel with semaphores\<close>

text \<open>A concrete kernel for evaluation: handles counted from 3, each with the count of its semaphore.
  A wait on a semaphore that has count 0 times out.\<close>

record sync =
  sync_next :: nat
  sync_open :: "int set"
  sync_count :: "int \<Rightarrow> int"

definition sync_kernel :: "sync kernel" where
  "sync_kernel = null_kernel\<lparr>
     sys_create_sync_object := (\<lambda>k _ init _ _.
       if sync_next k \<ge> 2 ^ 31 then (E_OOM, k)
       else let h = int (sync_next k)
            in (h, k\<lparr>sync_next := sync_next k + 1, sync_open := insert h (sync_open k),
                     sync_count := (sync_count k)(h := init)\<rparr>)),
     sys_close := (\<lambda>k h. (E_SUCCESS, k\<lparr>sync_open := sync_open k - {h}\<rparr>)),
     sys_signal := (\<lambda>k h. (E_SUCCESS, k\<lparr>sync_count := (sync_count k)(h := sync_count k h + 1)\<rparr>)),
     sys_wait := (\<lambda>k h _. if sync_count k h > 0 then (E_SUCCESS, k\<lparr>sync_count := (sync_count k)(h := sync_count k h - 1)\<rparr>)
                         else (E_TIMEOUT, k))\<rparr>"

definition sync_start :: sync where
  "sync_start = \<lparr>sync_next = 3, sync_open = {0, 1, 2}, sync_count = (\<lambda>_. 0)\<rparr>"

text \<open>Handles that were handed out are below the next one.\<close>

definition sync_owned :: "sync \<Rightarrow> int set" where
  "sync_owned k = {h \<in> sync_open k. h < int (sync_next k)}"

lemma sync_kernel_owns: "owns_sync sync_kernel sync_owned"
  by (auto simp: owns_sync_def sync_kernel_def null_kernel_def sync_owned_def E_OOM_def Let_def split: if_splits)

lemmas sync_eval = sync_kernel_def null_kernel_def sync_start_def NO_FD_def uint64_mod
  create_semaphore_def close_fd_def uint64_id int64_id int32_id

section \<open>Properties\<close>






end
