(* ===== verification/Signal.thy ===== *)
theory Signal
  imports Pthread_Race
begin

text \<open>
  Signal handlers, \<open>userspace/libc/signal.c\<close>. A registration allocates a context that the kernel keeps and
  passes to every delivery, and the library frees the context that it replaces. First the functions as
  one thread executes them, then the registration as interleaved actions.
\<close>

section \<open>Registering a handler\<close>

definition SIGINT :: int where "SIGINT = 0"
definition SIGFPE :: int where "SIGFPE = 1"
definition SIGSEGV :: int where "SIGSEGV = 2"
definition SIGILL :: int where "SIGILL = 3"
definition SIGKILL :: int where "SIGKILL = 4"
definition SIGTTIN :: int where "SIGTTIN = 5"

definition SIG_TABLE_SIZE :: nat where "SIG_TABLE_SIZE = 6"

text \<open>The table of the registered contexts with its lock, and the contexts that are allocated, each with
  the handler and the argument.\<close>

record sig_state =
  sig_table :: "int option list"
  sig_lock :: pthread_mutex
  sig_ctxs :: "int \<Rightarrow> (int \<times> int) option"
  sig_next :: int

definition signal_init :: "sig_state \<Rightarrow> sig_state" where
  "signal_init S = S\<lparr>sig_table := replicate SIG_TABLE_SIZE None\<rparr>"

definition swap_entry :: "'k kernel \<Rightarrow> nat \<Rightarrow> int \<Rightarrow> sig_state \<Rightarrow> 'k \<Rightarrow> (int option \<times> sig_state \<times> 'k) option" where
  "swap_entry K sig ctx S k = do {
     (_, m1, k1) \<leftarrow> pthread_mutex_lock K (sig_lock S) k;
     let old = sig_table S ! sig;
     let (_, m2, k2) = pthread_mutex_unlock K m1 k1;
     Some (old, S\<lparr>sig_table := (sig_table S)[sig := Some ctx], sig_lock := m2\<rparr>, k2)
   }"

definition restore_entry :: "'k kernel \<Rightarrow> nat \<Rightarrow> int \<Rightarrow> int option \<Rightarrow> sig_state \<Rightarrow> 'k \<Rightarrow> (sig_state \<times> 'k) option" where
  "restore_entry K sig ctx old S k = do {
     (_, m1, k1) \<leftarrow> pthread_mutex_lock K (sig_lock S) k;
     let tab = (if sig_table S ! sig = Some ctx then (sig_table S)[sig := old] else sig_table S);
     let (_, m2, k2) = pthread_mutex_unlock K m1 k1;
     Some (S\<lparr>sig_table := tab, sig_lock := m2\<rparr>, k2)
   }"

definition free_ctx :: "int \<Rightarrow> sig_state \<Rightarrow> sig_state" where
  "free_ctx ctx S = S\<lparr>sig_ctxs := (sig_ctxs S)(ctx := None)\<rparr>"

definition set_signal_handler ::
  "'k kernel \<Rightarrow> nat \<Rightarrow> int \<Rightarrow> int \<Rightarrow> sig_state \<Rightarrow> 'k \<Rightarrow> (int \<times> sig_state \<times> 'k) option" where
  "set_signal_handler K sig handler user_ctx S k =
     (if sig \<ge> SIG_TABLE_SIZE then Some (E_INVALID, S, k)
      else let (got, k1) = heap_ok K k CTX_SIZE in
        if \<not> got then Some (E_OOM, S, k1)
        else let ctx = sig_next S;
                 S1 = S\<lparr>sig_ctxs := (sig_ctxs S)(ctx \<mapsto> (handler, user_ctx)), sig_next := ctx + 1\<rparr> in do {
          (old, S2, k2) \<leftarrow> swap_entry K sig ctx S1 k1;
          let (rc, k3) = sys_set_signal_handler K k2 (int sig) ctx;
          if rc \<noteq> E_SUCCESS then do {
            (S3, k4) \<leftarrow> restore_entry K sig ctx old S2 k3;
            Some (rc, free_ctx ctx S3, k4)
          }
          else Some (E_SUCCESS, case old of Some o' \<Rightarrow> free_ctx o' S2 | None \<Rightarrow> S2, k3)
        })"

text \<open>The delivery of a signal: the handler that the context names is called with its argument. There is no
  handler to call when the context was freed.\<close>

definition libc_sig_handler :: "sig_state \<Rightarrow> int \<Rightarrow> (int \<times> int) option" where
  "libc_sig_handler S ctx = sig_ctxs S ctx"

section \<open>One thread\<close>

text \<open>What the library relies on: \<open>reg k sig\<close> is the context that the kernel has for a signal. A
  successful registration sets it, a failed one does not, and the calls on semaphores and memory leave
  it alone.\<close>

definition keeps_reg :: "'k kernel \<Rightarrow> ('k \<Rightarrow> 'v) \<Rightarrow> bool" where
  "keeps_reg K reg \<longleftrightarrow>
     (\<forall>k n. reg (snd (heap_ok K k n)) = reg k) \<and> (\<forall>k h t. reg (snd (sys_wait K k h t)) = reg k) \<and>
     (\<forall>k h. reg (snd (sys_signal K k h)) = reg k) \<and> (\<forall>k h. reg (snd (sys_close K k h)) = reg k) \<and>
     (\<forall>k a b c n. reg (snd (sys_create_sync_object K k a b c n)) = reg k)"

definition registers :: "'k kernel \<Rightarrow> ('k \<Rightarrow> nat \<Rightarrow> int option) \<Rightarrow> bool" where
  "registers K reg \<longleftrightarrow> keeps_reg K reg \<and>
     (\<forall>k sig ctx rc k'. sys_set_signal_handler K k (int sig) ctx = (rc, k') \<longrightarrow>
        reg k' = (if rc = E_SUCCESS then (reg k)(sig := Some ctx) else reg k))"

lemma wait_keeps:
  assumes "keeps_reg K reg" "wait_uninterruptible K h k = Some y"
  shows "reg (snd y) = reg k"
proof -
  have "keeps_reg K reg \<longrightarrow> reg (snd y) = reg k"
    using assms(2)
  proof (rule wait_uninterruptible.raw_induct [of "\<lambda>K h k y. keeps_reg K reg \<longrightarrow> reg (snd y) = reg k", rotated])
    fix f :: "'a kernel \<Rightarrow> int \<Rightarrow> 'a \<Rightarrow> (int \<times> 'a) option" and K h k y
    assume IH: "\<And>K h k y. f K h k = Some y \<Longrightarrow> keeps_reg K reg \<longrightarrow> reg (snd y) = reg k"
      and eq: "(let (r, k1) = sys_wait K k (int64 h) (-1) in if r = E_WAIT_INTERRUPTED then f K h k1 else Some (r, k1)) = Some y"
    obtain r k1 where w: "sys_wait K k (int64 h) (-1) = (r, k1)" by (cases "sys_wait K k (int64 h) (-1)")
    have "keeps_reg K reg \<Longrightarrow> reg k1 = reg k" using w unfolding keeps_reg_def by (metis snd_conv)
    moreover have "f K h k1 = Some y \<or> y = (r, k1)" using eq unfolding w by (auto split: if_splits)
    ultimately show "keeps_reg K reg \<longrightarrow> reg (snd y) = reg k" using IH [of K h k1 y] by auto
  qed
  then show ?thesis using assms(1) ..
qed

lemma create_semaphore_keeps: "keeps_reg K reg \<Longrightarrow> reg (snd (create_semaphore K a b k)) = reg k"
  by (simp add: create_semaphore_def keeps_reg_def split_beta)

lemma ensure_init_keeps: "keeps_reg K reg \<Longrightarrow> reg (snd (snd (mutex_ensure_init K m k))) = reg k"
  using create_semaphore_keeps [of K reg 1 1 k]
  by (simp add: mutex_ensure_init_def Let_def split_beta close_fd_def keeps_reg_def)

lemma lock_keeps:
  assumes "keeps_reg K reg" "pthread_mutex_lock K m k = Some (r, m', k')"
  shows "reg k' = reg k"
proof (cases "mutex_ensure_init K m k")
  case (fields r1 m1 k1)
  have "reg k1 = reg k" using ensure_init_keeps [OF assms(1), of m k] fields by simp
  then show ?thesis
    using assms fields by (auto simp: pthread_mutex_lock_def split: if_splits Option.bind_splits dest: wait_keeps)
qed

lemma unlock_keeps: "keeps_reg K reg \<Longrightarrow> reg (snd (snd (pthread_mutex_unlock K m k))) = reg k"
  using ensure_init_keeps [of K reg m k]
  by (simp add: pthread_mutex_unlock_def signal_fd_def Let_def split_beta keeps_reg_def)

definition entries :: "'a option list \<Rightarrow> 'a set" where
  "entries xs = {c. Some c \<in> set xs}"

definition one_each :: "'a option list \<Rightarrow> bool" where
  "one_each xs \<longleftrightarrow> (\<forall>i < length xs. \<forall>j < length xs. i \<noteq> j \<longrightarrow> xs ! i \<noteq> None \<longrightarrow> xs ! i \<noteq> xs ! j)"

lemma entries_update:
  assumes "one_each xs" "i < length xs"
  shows "entries (xs[i := Some c]) = insert c (entries xs - {d. xs ! i = Some d})"
proof (rule set_eqI)
  fix d
  have "d \<in> entries (xs[i := Some c]) \<longleftrightarrow> (\<exists>j < length xs. xs[i := Some c] ! j = Some d)"
    by (auto simp: entries_def in_set_conv_nth)
  also have "\<dots> \<longleftrightarrow> d = c \<or> (\<exists>j < length xs. j \<noteq> i \<and> xs ! j = Some d)"
    using assms(2) by (auto simp: nth_list_update)
  also have "\<dots> \<longleftrightarrow> d = c \<or> (\<exists>j < length xs. xs ! j = Some d) \<and> xs ! i \<noteq> Some d"
    using assms by (auto simp: one_each_def) (metis option.distinct(1))
  finally show "d \<in> entries (xs[i := Some c]) \<longleftrightarrow> d \<in> insert c (entries xs - {d. xs ! i = Some d})"
    by (auto simp: entries_def in_set_conv_nth)
qed

lemma one_each_update:
  assumes "one_each xs" "i < length xs" "c \<notin> entries xs"
  shows "one_each (xs[i := Some c])"
proof -
  have "xs ! j \<noteq> Some c" if "j < length xs" for j using assms(3) that by (auto simp: entries_def in_set_conv_nth)
  then have "\<forall>j < length xs. xs ! j \<noteq> Some c \<and> Some c \<noteq> xs ! j" by metis
  then show ?thesis using assms(1,2) by (simp add: one_each_def nth_list_update)
qed

text \<open>The table agrees with the kernel, and the allocated contexts are exactly those in the table, each
  for one signal.\<close>

definition sig_ok :: "('k \<Rightarrow> nat \<Rightarrow> int option) \<Rightarrow> sig_state \<Rightarrow> 'k \<Rightarrow> bool" where
  "sig_ok reg S k \<longleftrightarrow> length (sig_table S) = SIG_TABLE_SIZE \<and> (\<forall>i < SIG_TABLE_SIZE. reg k i = sig_table S ! i) \<and>
     dom (sig_ctxs S) = entries (sig_table S) \<and> entries (sig_table S) \<subseteq> {..< sig_next S} \<and> one_each (sig_table S)"

definition waits_return :: "'k kernel \<Rightarrow> bool" where
  "waits_return K \<longleftrightarrow> (\<forall>h k. wait_uninterruptible K h k \<noteq> None)"

lemma lock_returns:
  assumes "waits_return K"
  obtains r m' k' where "pthread_mutex_lock K m k = Some (r, m', k')"
proof (cases "mutex_ensure_init K m k")
  case (fields r1 m1 k1)
  obtain y where "wait_uninterruptible K (mutex_fd m1) k1 = Some y"
    using assms [unfolded waits_return_def, rule_format, of "mutex_fd m1" k1] by blast
  then show ?thesis using that fields by (cases y, cases "r1 = 0") (auto simp: pthread_mutex_lock_def)
qed

lemma swap_entry_ok:
  assumes "waits_return K" "keeps_reg K reg"
  obtains m k' where "swap_entry K sig ctx S k = Some (sig_table S ! sig, S\<lparr>sig_table := (sig_table S)[sig := Some ctx], sig_lock := m\<rparr>, k')"
    "reg k' = reg k"
proof -
  obtain r m1 k1 where l: "pthread_mutex_lock K (sig_lock S) k = Some (r, m1, k1)" by (rule lock_returns [OF assms(1)])
  show ?thesis
    using that [of "fst (snd (pthread_mutex_unlock K m1 k1))" "snd (snd (pthread_mutex_unlock K m1 k1))"] l
      lock_keeps [OF assms(2) l] unlock_keeps [OF assms(2), of m1 k1] by (simp add: swap_entry_def split_beta)
qed

lemma restore_entry_ok:
  assumes "waits_return K" "keeps_reg K reg"
  obtains m k' where "restore_entry K sig ctx old S k =
      Some (S\<lparr>sig_table := (if sig_table S ! sig = Some ctx then (sig_table S)[sig := old] else sig_table S), sig_lock := m\<rparr>, k')"
    "reg k' = reg k"
proof -
  obtain r m1 k1 where l: "pthread_mutex_lock K (sig_lock S) k = Some (r, m1, k1)" by (rule lock_returns [OF assms(1)])
  show ?thesis
    using that [of "fst (snd (pthread_mutex_unlock K m1 k1))" "snd (snd (pthread_mutex_unlock K m1 k1))"] l
      lock_keeps [OF assms(2) l] unlock_keeps [OF assms(2), of m1 k1] by (simp add: restore_entry_def split_beta)
qed

lemma set_signal_handler_cases:
  assumes "registers K reg" "waits_return K" "sig < SIG_TABLE_SIZE" "sig < length (sig_table S)" "sig_ctxs S (sig_next S) = None"
  obtains (Memory) k' where "set_signal_handler K sig h u S k = Some (E_OOM, S, k')" "reg k' = reg k"
  | (Refused) rc m k' where "rc \<noteq> E_SUCCESS" "reg k' = reg k"
      "set_signal_handler K sig h u S k = Some (rc, S\<lparr>sig_lock := m, sig_next := sig_next S + 1\<rparr>, k')"
  | (Done) m k' where "reg k' = (reg k)(sig := Some (sig_next S))"
      "set_signal_handler K sig h u S k = Some (E_SUCCESS,
        (let S1 = S\<lparr>sig_table := (sig_table S)[sig := Some (sig_next S)], sig_lock := m, sig_next := sig_next S + 1,
                    sig_ctxs := (sig_ctxs S)(sig_next S \<mapsto> (h, u))\<rparr>
         in case sig_table S ! sig of Some c \<Rightarrow> free_ctx c S1 | None \<Rightarrow> S1), k')"
proof -
  have keeps: "keeps_reg K reg" using assms(1) by (simp add: registers_def)
  obtain got k1 where g: "heap_ok K k CTX_SIZE = (got, k1)" by (cases "heap_ok K k CTX_SIZE")
  have r1: "reg k1 = reg k" using keeps g unfolding keeps_reg_def by (metis snd_conv)
  let ?ctx = "sig_next S"
  let ?S1 = "S\<lparr>sig_ctxs := (sig_ctxs S)(?ctx \<mapsto> (h, u)), sig_next := ?ctx + 1\<rparr>"
  obtain m2 k2 where s2: "swap_entry K sig ?ctx ?S1 k1 = Some (sig_table S ! sig,
      ?S1\<lparr>sig_table := (sig_table S)[sig := Some ?ctx], sig_lock := m2\<rparr>, k2)" "reg k2 = reg k1"
    by (rule swap_entry_ok [OF assms(2) keeps, of sig ?ctx ?S1 k1]) simp
  let ?S2 = "?S1\<lparr>sig_table := (sig_table S)[sig := Some ?ctx], sig_lock := m2\<rparr>"
  obtain rc k3 where s3: "sys_set_signal_handler K k2 (int sig) ?ctx = (rc, k3)"
    by (cases "sys_set_signal_handler K k2 (int sig) ?ctx")
  have r3: "reg k3 = (if rc = E_SUCCESS then (reg k)(sig := Some ?ctx) else reg k)"
    using assms(1) s3 s2(2) r1 by (simp add: registers_def)
  obtain m4 k4 where s4: "restore_entry K sig ?ctx (sig_table S ! sig) ?S2 k3 =
      Some (?S2\<lparr>sig_table := sig_table S, sig_lock := m4\<rparr>, k4)" "reg k4 = reg k3"
    by (rule restore_entry_ok [OF assms(2) keeps, of sig ?ctx "sig_table S ! sig" ?S2 k3]) (simp add: assms(4))
  consider "\<not> got" | "got" "rc \<noteq> E_SUCCESS" | "got" "rc = E_SUCCESS" by blast
  then show ?thesis
  proof cases
    case 1
    then show ?thesis using Memory [of k1] g r1 assms(3) by (simp add: set_signal_handler_def)
  next
    case 2
    have "free_ctx ?ctx (?S2\<lparr>sig_table := sig_table S, sig_lock := m4\<rparr>) = S\<lparr>sig_lock := m4, sig_next := ?ctx + 1\<rparr>"
      using assms(5) by (simp add: free_ctx_def fun_upd_idem)
    with 2 g r1 s2 s3 s4 r3 assms(3) show ?thesis
      by (intro Refused [of rc k4 m4]) (simp_all add: set_signal_handler_def)
  next
    case 3
    with g r1 s2 s3 r3 assms(3) show ?thesis
      by (intro Done [of k3 m2]) (simp_all add: set_signal_handler_def free_ctx_def Let_def split: option.split)
  qed
qed

text \<open>C21. Registering a handler keeps the library and the kernel in step: on success the kernel has, for
  this signal, a context that names the new handler and its argument, and for the others what it had; on
  failure, and when memory is short, nothing has changed for either. In every case the allocated
  contexts are exactly those that the kernel has registered: none leaks and none is freed too early.\<close>

theorem set_signal_handler_correct:
  assumes "registers K reg" "waits_return K" "sig_ok reg S k" "sig < SIG_TABLE_SIZE"
  shows "\<exists>rc S' k'. set_signal_handler K sig h u S k = Some (rc, S', k') \<and> sig_ok reg S' k' \<and>
    (if rc = E_SUCCESS
     then (\<exists>ctx. reg k' sig = Some ctx \<and> libc_sig_handler S' ctx = Some (h, u)) \<and> (\<forall>j. j \<noteq> sig \<longrightarrow> reg k' j = reg k j)
     else reg k' = reg k \<and> sig_ctxs S' = sig_ctxs S)"
proof -
  have len: "sig < length (sig_table S)" and new: "sig_ctxs S (sig_next S) = None"
    using assms(3,4) by (auto simp: sig_ok_def dom_def)
  show ?thesis
    using assms(1,2,4) len new
  proof (cases rule: set_signal_handler_cases [of K reg sig S h u k])
    case (Memory k')
    then show ?thesis using assms(3) by (simp add: sig_ok_def E_OOM_def E_SUCCESS_def)
  next
    case (Refused rc m k')
    then show ?thesis using assms(3) by (fastforce simp: sig_ok_def)
  next
    case (Done m k')
    let ?n = "sig_next S"
    let ?S1 = "S\<lparr>sig_table := (sig_table S)[sig := Some ?n], sig_lock := m, sig_next := ?n + 1,
      sig_ctxs := (sig_ctxs S)(?n \<mapsto> (h, u))\<rparr>"
    let ?S' = "case sig_table S ! sig of Some c \<Rightarrow> free_ctx c ?S1 | None \<Rightarrow> ?S1"
    have fresh: "?n \<notin> entries (sig_table S)" and one: "one_each (sig_table S)" using assms(3) by (auto simp: sig_ok_def)
    have old: "sig_table S ! sig \<noteq> Some ?n" using fresh len by (auto simp: entries_def in_set_conv_nth)
    have "dom (sig_ctxs ?S') = entries (sig_table ?S')"
      using assms(3) entries_update [OF one len, of ?n] old
      by (auto simp: sig_ok_def free_ctx_def split: option.splits)
    then have "sig_ok reg ?S' k'"
      using assms(3) entries_update [OF one len, of ?n] one_each_update [OF one len fresh] Done(1) len
      by (auto simp: sig_ok_def free_ctx_def nth_list_update split: option.splits)
    moreover have "libc_sig_handler ?S' ?n = Some (h, u)"
      using old by (auto simp: libc_sig_handler_def free_ctx_def split: option.splits)
    ultimately show ?thesis using Done by (simp add: Let_def)
  qed
qed

text \<open>A concrete kernel for evaluation: its state is the table of registered contexts.\<close>

definition sig_kernel :: "(nat \<Rightarrow> int option) kernel" where
  "sig_kernel = null_kernel\<lparr>
     sys_wait := (\<lambda>k _ _. (E_SUCCESS, k)), sys_signal := (\<lambda>k _. (E_SUCCESS, k)), sys_create_sync_object := (\<lambda>k _ _ _ _. (3, k)),
     sys_set_signal_handler := (\<lambda>k sig ctx. (E_SUCCESS, k(nat sig := Some ctx)))\<rparr>"

lemma sig_kernel_ok: "registers sig_kernel (\<lambda>k. k)" "waits_return sig_kernel"
proof -
  show "registers sig_kernel (\<lambda>k. k)" by (simp add: registers_def keeps_reg_def sig_kernel_def null_kernel_def)
  have "wait_uninterruptible sig_kernel h k = Some (E_SUCCESS, k)" for h k
    by (subst wait_uninterruptible.simps) (simp add: sig_kernel_def E_SUCCESS_def E_WAIT_INTERRUPTED_def)
  then show "waits_return sig_kernel" by (simp add: waits_return_def)
qed

definition sig_start :: sig_state where
  "sig_start = signal_init \<lparr>sig_table = [], sig_lock = PTHREAD_MUTEX_INITIALIZER, sig_ctxs = (\<lambda>_. None), sig_next = 1\<rparr>"

theorem set_signal_handler_correct_witness:
  "\<exists>rc S' k'. set_signal_handler sig_kernel 2 100 200 sig_start (\<lambda>_. None) = Some (rc, S', k') \<and> sig_ok (\<lambda>k. k) S' k' \<and>
     (if rc = E_SUCCESS
      then (\<exists>ctx. k' 2 = Some ctx \<and> libc_sig_handler S' ctx = Some (100, 200)) \<and> (\<forall>j. j \<noteq> 2 \<longrightarrow> k' j = None)
      else k' = (\<lambda>_. None) \<and> sig_ctxs S' = sig_ctxs sig_start)"
proof -
  have "sig_ok (\<lambda>k. k) sig_start (\<lambda>_. None)"
    by (simp add: sig_ok_def sig_start_def signal_init_def entries_def one_each_def)
  from set_signal_handler_correct [OF sig_kernel_ok this, of 2 100 200] show ?thesis by (simp add: SIG_TABLE_SIZE_def)
qed

section \<open>Several threads\<close>

text \<open>Registrations for one signal by several threads. The lock makes the exchange of the table entry one
  action; the system call comes after it. The shared state is the entry, the context that the kernel has,
  and the allocated contexts.\<close>

record sig_shared =
  sh_entry :: "int option"
  sh_kernel :: "int option"
  sh_live :: "int set"

datatype sig_pc = H_Alloc | H_Swap int | H_Call int "int option" | H_Free "int option" | H_Undo int "int option"
  | H_Drop int | H_Done

inductive sig_act :: "sig_pc \<Rightarrow> sig_shared \<Rightarrow> sig_pc \<Rightarrow> sig_shared \<Rightarrow> bool" where
  alloc: "ctx \<notin> sh_live s \<Longrightarrow> sig_act H_Alloc s (H_Swap ctx) (s\<lparr>sh_live := insert ctx (sh_live s)\<rparr>)"
| swap: "sig_act (H_Swap ctx) s (H_Call ctx (sh_entry s)) (s\<lparr>sh_entry := Some ctx\<rparr>)"
| call_ok: "sig_act (H_Call ctx old) s (H_Free old) (s\<lparr>sh_kernel := Some ctx\<rparr>)"
| call_fail: "sig_act (H_Call ctx old) s (H_Undo ctx old) s"
| free_old: "sig_act (H_Free old) s H_Done (s\<lparr>sh_live := sh_live s - set_option old\<rparr>)"
| undo: "sig_act (H_Undo ctx old) s (H_Drop ctx) (if sh_entry s = Some ctx then s\<lparr>sh_entry := old\<rparr> else s)"
| drop: "sig_act (H_Drop ctx) s H_Done (s\<lparr>sh_live := sh_live s - {ctx}\<rparr>)"

text \<open>C38. Finding: two threads that register a handler for the same signal can leave the kernel with a
  context that was freed. The table entry and the registration in the kernel are not changed in one
  step: the second thread replaces the entry of the first one, registers its own context and frees the
  first; then the first thread makes its system call, with the freed context. Every later delivery of the
  signal uses it.\<close>

theorem signal_register_race:
  "\<exists>L s. reachable sig_act (\<lambda>_. H_Alloc) \<lparr>sh_entry = None, sh_kernel = None, sh_live = {}\<rparr> L s \<and>
     L 0 = H_Done \<and> L 1 = H_Done \<and> sh_kernel s = Some 7 \<and> 7 \<notin> sh_live s"
proof -
  let ?s = "\<lambda>e k l. \<lparr>sh_entry = e, sh_kernel = k, sh_live = l\<rparr>"
  let ?L = "(\<lambda>_. H_Alloc)(0 := H_Done, 1 := H_Done)"
  let ?tr = "[(0, H_Swap 7, ?s None None {7}), (0, H_Call 7 None, ?s (Some 7) None {7}),
    (1, H_Swap 8, ?s (Some 7) None {8, 7}), (1, H_Call 8 (Some 7), ?s (Some 8) None {8, 7}),
    (1, H_Free (Some 7), ?s (Some 8) (Some 8) {8, 7}), (1, H_Done, ?s (Some 8) (Some 8) {8}),
    (0, H_Free None, ?s (Some 8) (Some 7) {8}), (0, H_Done, ?s (Some 8) (Some 7) {8})]"
  have "follows sig_act ?tr (\<lambda>_. H_Alloc) (?s None None {}) ?L (?s (Some 8) (Some 7) {8})"
    by (auto simp: sig_act.simps)
  from reachable_follows [OF this] show ?thesis by (intro exI [of _ ?L] exI [of _ "?s (Some 8) (Some 7) {8}"]) simp
qed

end
