(* ===== verification/Shell_Parse.thy ===== *)
theory Shell_Parse
  imports Kernel Ctype Stdlib Environ
begin

text \<open>
  The parser of the shell, \<open>userspace/sh/parse.c\<close> with the types of \<open>job.h\<close>. Strings on the heap are kept
  with their identity, so that every allocation and release is visible: a ledger records which strings are
  live and whether one was released that was not.
\<close>

section \<open>Types\<close>

definition SH_MAX_ARGS :: nat where "SH_MAX_ARGS = 16"
definition SH_MAX_STAGES :: nat where "SH_MAX_STAGES = 8"
definition SH_MAX_REDIRECTS :: nat where "SH_MAX_REDIRECTS = 4"
definition SH_MAX_BG_JOBS :: nat where "SH_MAX_BG_JOBS = 16"
definition SH_MAX_CHAIN :: nat where "SH_MAX_CHAIN = 8"
definition SH_LINE_BUF :: nat where "SH_LINE_BUF = 256"
definition SH_WORD_BUF :: nat where "SH_WORD_BUF = 256"
definition SH_MAX_TOKENS :: nat where "SH_MAX_TOKENS = 64"

text \<open>A string on the heap: its identity and its text.\<close>

type_synonym str_ptr = "nat \<times> string"

record ledger =
  next_str :: nat
  live_strs :: "nat set"
  bad_free :: bool

datatype redir_kind = REDIR_TRUNC | REDIR_APPEND | REDIR_READ | REDIR_DUP_FD

record redirect =
  redir_fd :: int
  kind :: redir_kind
  path :: "str_ptr option"
  dup_target_fd :: int

record stage =
  argv :: "str_ptr list"
  redirects :: "redirect list"

type_synonym job = "stage list"

record job_list =
  jobs :: "job list"
  background :: bool

datatype token = TOK_WORD "str_ptr option" | TOK_PIPE | TOK_REDIR int redir_kind int

section \<open>Strings\<close>

definition sh_strdup :: "'k kernel \<Rightarrow> string \<Rightarrow> ledger \<Rightarrow> 'k \<Rightarrow> str_ptr option \<times> ledger \<times> 'k" where
  "sh_strdup K s H k =
     (let (got, k1) = heap_ok K k (length s + 1) in
      if \<not> got then (None, H, k1)
      else (Some (next_str H, s), H\<lparr>next_str := next_str H + 1, live_strs := insert (next_str H) (live_strs H)\<rparr>, k1))"

definition free_str :: "str_ptr option \<Rightarrow> ledger \<Rightarrow> ledger" where
  "free_str p H =
     (case p of None \<Rightarrow> H
      | Some (i, _) \<Rightarrow> if i \<in> live_strs H then H\<lparr>live_strs := live_strs H - {i}\<rparr> else H\<lparr>bad_free := True\<rparr>)"

section \<open>Words\<close>

definition is_word_end :: "byte \<Rightarrow> bool" where
  "is_word_end c \<longleftrightarrow> c = NUL \<or> isspace (uchar c) \<or> c = CHR ''|'' \<or> c = CHR ''>'' \<or> c = CHR ''<'' \<or> c = CHR ''&''"

text \<open>A loop that copies characters while they are accepted and there is room.\<close>

fun take_name :: "(byte \<Rightarrow> bool) \<Rightarrow> nat \<Rightarrow> string \<Rightarrow> string \<times> string" where
  "take_name P n [] = ([], [])"
| "take_name P n (c # s) =
     (if n > 0 \<and> P c then let (x, r) = take_name P (n - 1) s in (c # x, r) else ([], c # s))"

definition scan_var :: "string \<Rightarrow> string \<times> string" where
  "scan_var s =
     (if peek s 0 = CHR ''{'' then
        let (name, r) = take_name (\<lambda>c. c \<noteq> NUL \<and> c \<noteq> CHR ''}'') 63 (drop 1 s)
        in (name, if peek r 0 = CHR ''}'' then drop 1 r else r)
      else take_name (\<lambda>c. isalnum (uchar c) \<or> c = CHR ''_'') 63 s)"

lemma length_take_name: "length (snd (take_name P n s)) \<le> length s"
  by (induction P n s rule: take_name.induct) (auto simp: split_beta)

lemma length_scan_var: "length (snd (scan_var s)) \<le> length s"
  using length_take_name [of "\<lambda>c. c \<noteq> NUL \<and> c \<noteq> CHR ''}''" 63 "drop 1 s"] length_take_name [of _ 63 s]
  by (auto simp: scan_var_def split_beta)

function scan_word_loop :: "env \<Rightarrow> string \<Rightarrow> string \<Rightarrow> string \<times> string" where
  "scan_word_loop E [] buf = (buf, [])"
| "scan_word_loop E (c # s) buf =
     (if is_word_end c then (buf, c # s)
      else if c = CHR ''$'' then
        scan_word_loop E (snd (scan_var s))
          (case (if fst (scan_var s) \<noteq> [] then getenv E (fst (scan_var s)) else None) of
             None \<Rightarrow> buf
           | Some val \<Rightarrow> buf @ take (SH_WORD_BUF - 1 - length buf) val)
      else scan_word_loop E s (if length buf < SH_WORD_BUF - 1 then buf @ [c] else buf))"
  by pat_completeness auto
termination
  using length_scan_var by (relation "measure (\<lambda>(E, s, buf). length s)") (auto simp: less_Suc_eq_le)

definition scan_word :: "'k kernel \<Rightarrow> env \<Rightarrow> string \<Rightarrow> ledger \<Rightarrow> 'k \<Rightarrow> str_ptr option \<times> string \<times> ledger \<times> 'k" where
  "scan_word K E p H k =
     (let (buf, rest) = scan_word_loop E p [];
          (w, H1, k1) = sh_strdup K buf H k
      in (w, rest, H1, k1))"

section \<open>Tokens\<close>

definition token_word :: "token \<Rightarrow> str_ptr option" where
  "token_word t = (case t of TOK_WORD w \<Rightarrow> w | _ \<Rightarrow> None)"

fun free_tokens :: "token list \<Rightarrow> ledger \<Rightarrow> ledger" where
  "free_tokens [] H = H"
| "free_tokens (t # ts) H = free_tokens ts (free_str (token_word t) H)"

text \<open>After a redirection sign: the sign again for appending, or an ampersand with the number of the
  descriptor to duplicate; without a number the redirection is a plain one.\<close>

definition dup_redir :: "redir_kind \<Rightarrow> string \<Rightarrow> redir_kind \<times> int \<times> string" where
  "dup_redir plain p =
     (let ds = takeWhile (\<lambda>c. isdigit (uchar c)) p
      in if ds \<noteq> [] then (REDIR_DUP_FD, atoi p, drop (length ds) p) else (plain, -1, p))"

definition redir_token :: "byte \<Rightarrow> string \<Rightarrow> redir_kind \<times> int \<times> string" where
  "redir_token sign p =
     (if sign = CHR ''>'' then
        if peek p 0 = CHR ''>'' then (REDIR_APPEND, -1, drop 1 p)
        else if peek p 0 = CHR ''&'' then dup_redir REDIR_TRUNC (drop 1 p)
        else (REDIR_TRUNC, -1, p)
      else
        if peek p 0 = CHR ''&'' then dup_redir REDIR_READ (drop 1 p)
        else (REDIR_READ, -1, p))"

lemma length_redir_token: "length (snd (snd (redir_token sign p))) \<le> length p"
  by (simp add: redir_token_def dup_redir_def Let_def)

lemma length_scan_word_loop: "length (snd (scan_word_loop E s buf)) \<le> length s"
proof (induction E s buf rule: scan_word_loop.induct)
  case (2 E c s buf)
  then show ?case using length_scan_var [of s] by (auto intro: le_SucI order_trans)
qed simp

lemma length_scan_word_loop_less:
  "\<not> is_word_end c \<Longrightarrow> length (snd (scan_word_loop E (c # s) buf)) < Suc (length s)"
  using length_scan_word_loop [of E s] length_scan_word_loop [of E "snd (scan_var s)"] length_scan_var [of s]
  by (auto simp: less_Suc_eq_le intro: order_trans)

text \<open>The loop of the tokenizer. No value means a syntax error, the result -1; the words scanned so far are
  then released.\<close>

function tokenize_loop :: "'k kernel \<Rightarrow> env \<Rightarrow> nat \<Rightarrow> token list \<Rightarrow> string \<Rightarrow> ledger \<Rightarrow> 'k \<Rightarrow> token list option \<times> ledger \<times> 'k" where
  "tokenize_loop K E max_toks toks p0 H k =
     (let p = dropWhile (\<lambda>c. isspace (uchar c)) p0 in
      case p of
        [] \<Rightarrow> (Some toks, H, k)
      | c # p1 \<Rightarrow>
          if c = NUL then (Some toks, H, k)
          else if length toks \<ge> max_toks then (None, free_tokens toks H, k)
          else if c = CHR ''|'' then tokenize_loop K E max_toks (toks @ [TOK_PIPE]) p1 H k
          else if c = CHR ''&'' then (None, free_tokens toks H, k)
          else
            let digits = takeWhile (\<lambda>c. isdigit (uchar c)) p;
                q = drop (length digits) p
            in if peek q 0 = CHR ''>'' \<or> peek q 0 = CHR ''<'' then
                 let redir_fd = (if digits \<noteq> [] then atoi p else if peek q 0 = CHR ''>'' then 1 else 0);
                     (kind, target, rest) = redir_token (peek q 0) (drop 1 q)
                 in tokenize_loop K E max_toks (toks @ [TOK_REDIR redir_fd kind target]) rest H k
               else
                 let (w, rest, H1, k1) = scan_word K E p H k
                 in case w of
                      None \<Rightarrow> (None, free_tokens toks H1, k1)
                    | Some _ \<Rightarrow> tokenize_loop K E max_toks (toks @ [TOK_WORD w]) rest H1 k1)"
  by pat_completeness auto
termination
proof (relation "measure (\<lambda>(K, E, m, toks, p, H, k). length p)", goal_cases)
  case (2 K E m toks p0 H k p c p1)
  have "length p \<le> length p0" using 2(1) length_dropWhile_le by simp
  with 2(2) show ?case by simp
next
  case (3 K E m toks p0 H k p c p1 digits q redir_fd r kind kt target rest)
  have "length p \<le> length p0" using 3(1) length_dropWhile_le by simp
  moreover have "q \<noteq> []" using 3(9) by (auto simp: peek_def)
  moreover have "length q \<le> length p" using 3(8) by simp
  moreover have "snd (snd (redir_token (peek q 0) (drop 1 q))) = rest"
    using 3(11-13) by (cases "redir_token (peek q 0) (drop 1 q)") auto
  ultimately show ?case using length_redir_token [of "peek q 0" "drop 1 q"] by (cases q) auto
next
  case (4 K E m toks p0 H k p c p1 digits q r w wr rest r1 H1 k1 wp)
  have le: "length p \<le> length p0" using 4(1) length_dropWhile_le by simp
  have "\<not> isspace (uchar c)" using 4(1,2) by (metis hd_dropWhile list.distinct(1) list.sel(1))
  moreover have "\<not> isdigit (uchar CHR ''>'')" "\<not> isdigit (uchar CHR ''<'')" by (simp_all add: isdigit_def uchar_def)
  then have "c \<noteq> CHR ''>'' \<and> c \<noteq> CHR ''<''" using 4(2,7-9) by auto
  ultimately have "\<not> is_word_end c" using 4(3,5,6) by (simp add: is_word_end_def)
  from length_scan_word_loop_less [OF this, of E p1 "[]"] le 4(2,10-13) show ?case
    by (auto simp: scan_word_def split_beta Let_def)
qed simp

declare tokenize_loop.simps [simp del]

definition tokenize :: "'k kernel \<Rightarrow> env \<Rightarrow> string \<Rightarrow> nat \<Rightarrow> ledger \<Rightarrow> 'k \<Rightarrow> token list option \<times> ledger \<times> 'k" where
  "tokenize K E line max_toks H k = tokenize_loop K E max_toks [] line H k"

section \<open>Jobs\<close>

definition empty_stage :: stage where
  "empty_stage = \<lparr>argv = [], redirects = []\<rparr>"

definition change_last :: "(stage \<Rightarrow> stage) \<Rightarrow> job \<Rightarrow> job" where
  "change_last f job = butlast job @ [f (last job)]"

definition add_redirect :: "redirect \<Rightarrow> job \<Rightarrow> job" where
  "add_redirect r = change_last (\<lambda>st. st\<lparr>redirects := redirects st @ [r]\<rparr>)"

definition add_arg :: "str_ptr \<Rightarrow> job \<Rightarrow> job" where
  "add_arg w = change_last (\<lambda>st. st\<lparr>argv := argv st @ [w]\<rparr>)"

text \<open>The loop over the tokens. The current stage is the last one. The result has the tokens with the words
  that were moved into the job taken out.\<close>

fun build_loop :: "token list \<Rightarrow> job \<Rightarrow> int \<times> token list \<times> job" where
  "build_loop [] job = (0, [], job)"
| "build_loop (TOK_PIPE # ts) job =
     (if length job \<ge> SH_MAX_STAGES then (-1, TOK_PIPE # ts, job)
      else let (r, ts', job') = build_loop ts (job @ [empty_stage]) in (r, TOK_PIPE # ts', job'))"
| "build_loop (TOK_REDIR n kd target # ts) job =
     (let red = \<lparr>redir_fd = n, kind = kd, path = None, dup_target_fd = target\<rparr> in
      if length (redirects (last job)) \<ge> SH_MAX_REDIRECTS then (-1, TOK_REDIR n kd target # ts, job)
      else if kd = REDIR_DUP_FD then
        let (r, ts', job') = build_loop ts (add_redirect red job) in (r, TOK_REDIR n kd target # ts', job')
      else case ts of
        TOK_WORD w # ts1 \<Rightarrow>
          let (r, ts', job') = build_loop ts1 (add_redirect (red\<lparr>path := w\<rparr>) job)
          in (r, TOK_REDIR n kd target # TOK_WORD None # ts', job')
      | _ \<Rightarrow> (-1, TOK_REDIR n kd target # ts, add_redirect red job))"
| "build_loop (TOK_WORD w # ts) job =
     (if length (argv (last job)) \<ge> SH_MAX_ARGS then (-1, TOK_WORD w # ts, job)
      else let (r, ts', job') = build_loop ts (case w of Some p \<Rightarrow> add_arg p job | None \<Rightarrow> job)
           in (r, TOK_WORD None # ts', job'))"

definition build_job :: "token list \<Rightarrow> int \<times> token list \<times> job" where
  "build_job toks = build_loop toks [empty_stage]"

fun free_strs :: "str_ptr option list \<Rightarrow> ledger \<Rightarrow> ledger" where
  "free_strs [] H = H"
| "free_strs (p # ps) H = free_strs ps (free_str p H)"

definition stage_strs :: "stage \<Rightarrow> str_ptr option list" where
  "stage_strs st = map Some (argv st) @ map path (redirects st)"

definition job_free :: "job \<Rightarrow> ledger \<Rightarrow> ledger" where
  "job_free job H = free_strs (concat (map stage_strs job)) H"

definition job_list_free :: "job_list \<Rightarrow> ledger \<Rightarrow> ledger" where
  "job_list_free l H = fold job_free (jobs l) H"

section \<open>Lines\<close>

definition parse_segment :: "'k kernel \<Rightarrow> env \<Rightarrow> string \<Rightarrow> ledger \<Rightarrow> 'k \<Rightarrow> job option \<times> ledger \<times> 'k" where
  "parse_segment K E seg H k =
     (let (toks, H1, k1) = tokenize K E seg SH_MAX_TOKENS H k in
      case toks of
        None \<Rightarrow> (None, H1, k1)
      | Some [] \<Rightarrow> (None, H1, k1)
      | Some ts \<Rightarrow>
          let (rc, ts', job) = build_job ts in
          if rc \<noteq> 0 then (None, job_free job (free_tokens ts' H1), k1) else (Some job, H1, k1))"

text \<open>\<open>strstr(p, "&&")\<close> with the text on both sides.\<close>

fun find_and :: "string \<Rightarrow> (string \<times> string) option" where
  "find_and (c # d # s) =
     (if c = CHR ''&'' \<and> d = CHR ''&'' then Some ([], s)
      else map_option (\<lambda>(a, b). (c # a, b)) (find_and (d # s)))"
| "find_and _ = None"

lemma length_find_and: "find_and s = Some (a, b) \<Longrightarrow> length b < length s"
  by (induction s arbitrary: a b rule: find_and.induct) (fastforce split: if_splits)+

function parse_chain :: "'k kernel \<Rightarrow> env \<Rightarrow> bool \<Rightarrow> job list \<Rightarrow> string \<Rightarrow> ledger \<Rightarrow> 'k \<Rightarrow> int \<times> job_list \<times> ledger \<times> 'k" where
  "parse_chain K E bg js p H k =
     (let l = \<lparr>jobs = js, background = bg\<rparr>;
          (seg, rest) = (case find_and p of Some (a, b) \<Rightarrow> (a, Some b) | None \<Rightarrow> (p, None)) in
      if length js \<ge> SH_MAX_CHAIN then (-1, l, job_list_free l H, k)
      else let (job, H1, k1) = parse_segment K E seg H k in
        case job of
          None \<Rightarrow> (-1, l, job_list_free l H1, k1)
        | Some j \<Rightarrow>
            (case rest of
               Some b \<Rightarrow> parse_chain K E bg (js @ [j]) b H1 k1
             | None \<Rightarrow> (0, \<lparr>jobs = js @ [j], background = bg\<rparr>, H1, k1)))"
  by pat_completeness auto
termination
  by (relation "measure (\<lambda>(K, E, bg, js, p, H, k). length p)") (auto dest: length_find_and split: option.splits)

declare parse_chain.simps [simp del]

definition rtrim :: "string \<Rightarrow> string" where
  "rtrim s = rev (dropWhile (\<lambda>c. isspace (uchar c)) (rev s))"

definition parse_line :: "'k kernel \<Rightarrow> env \<Rightarrow> string \<Rightarrow> ledger \<Rightarrow> 'k \<Rightarrow> int \<times> job_list \<times> ledger \<times> 'k" where
  "parse_line K E raw_line H k =
     (let line = rtrim (take (SH_LINE_BUF - 1) raw_line);
          bg = (line \<noteq> [] \<and> last line = CHR ''&'');
          line1 = (if bg then rtrim (butlast line) else line)
      in if line1 = [] then (1, \<lparr>jobs = [], background = bg\<rparr>, H, k)
         else parse_chain K E bg [] line1 H k)"

end
