(* ===== verification/Shell_Parse_Props.thy ===== *)
theory Shell_Parse_Props
  imports Shell_Parse Ram_Kernel "HOL-Library.Multiset"
begin

text \<open>
  Properties of the parser of the shell: ownership of the strings it allocates, the bounds of the arrays
  it fills, and that it reads back what was written in its syntax.
\<close>

section \<open>Ownership of strings\<close>

text \<open>The identities of the strings in a list of pointers, some of them NULL.\<close>

definition ids :: "str_ptr option list \<Rightarrow> nat list" where
  "ids ps = map (fst \<circ> the) (filter (\<lambda>p. p \<noteq> None) ps)"

lemma ids_simps [simp]:
  "ids [] = []" "ids (None # ps) = ids ps" "ids (Some w # ps) = fst w # ids ps" "ids (ps @ qs) = ids ps @ ids qs"
  by (simp_all add: ids_def)

definition token_ids :: "token list \<Rightarrow> nat list" where
  "token_ids ts = ids (map token_word ts)"

definition job_ids :: "job \<Rightarrow> nat list" where
  "job_ids job = ids (concat (map stage_strs job))"

definition list_ids :: "job list \<Rightarrow> nat list" where
  "list_ids js = concat (map job_ids js)"

text \<open>From the ledger \<open>H\<close> to \<open>H'\<close> the live strings have grown by \<open>xs\<close>, all of them new, and no string was
  released wrongly.\<close>

definition gains :: "ledger \<Rightarrow> ledger \<Rightarrow> nat list \<Rightarrow> bool" where
  "gains H H' xs \<longleftrightarrow> live_strs H' = live_strs H \<union> set xs \<and> set xs \<inter> live_strs H = {} \<and> distinct xs \<and>
     bad_free H' = bad_free H \<and> live_strs H' \<subseteq> {..< next_str H'}"

lemma gains_mset: "gains H H' xs \<Longrightarrow> mset xs = mset ys \<Longrightarrow> gains H H' ys"
  using mset_eq_setD [of xs ys] mset_eq_imp_distinct_iff [of xs ys] by (auto simp: gains_def)

lemma gains_trans: "gains H0 H1 xs \<Longrightarrow> gains H1 H2 ys \<Longrightarrow> gains H0 H2 (xs @ ys)"
  by (auto simp: gains_def)

lemma gains_self: "gains H0 H xs \<Longrightarrow> gains H H []"
  by (auto simp: gains_def)

lemma gains_strdup:
  assumes "gains H0 H xs" "sh_strdup K s H k = (w, H', k')"
  shows "gains H0 H' (xs @ ids [w])"
  using assms by (auto simp: gains_def sh_strdup_def Let_def subset_iff less_Suc_eq split: if_splits prod.splits)

lemma gains_free: "gains H0 H (xs @ ids [p] @ ys) \<Longrightarrow> gains H0 (free_str p H) (xs @ ys)"
proof (cases p)
  case (Some w)
  assume "gains H0 H (xs @ ids [p] @ ys)"
  then have g: "live_strs H = live_strs H0 \<union> insert (fst w) (set xs \<union> set ys)" "bad_free H = bad_free H0"
      "fst w \<notin> live_strs H0 \<union> set xs \<union> set ys" "(set xs \<union> set ys) \<inter> live_strs H0 = {}" "distinct (xs @ ys)"
      "live_strs H \<subseteq> {..< next_str H}"
    using Some by (auto simp: gains_def)
  moreover have "live_strs H0 \<union> insert (fst w) (set xs \<union> set ys) - {fst w} = live_strs H0 \<union> (set xs \<union> set ys)"
    using g(3) by blast
  ultimately show ?thesis using Some by (auto simp: gains_def free_str_def split_beta simp del: distinct_append)
qed (simp add: free_str_def)

lemma gains_free_strs: "gains H0 H (xs @ ids ps) \<Longrightarrow> gains H0 (free_strs ps H) xs"
proof (induction ps arbitrary: H)
  case (Cons p ps)
  have "gains H0 (free_str p H) (xs @ ids ps)"
    by (rule gains_free) (use Cons.prems in \<open>cases p; simp\<close>)
  then show ?case using Cons.IH by simp
qed simp

lemma free_tokens_strs: "free_tokens ts H = free_strs (map token_word ts) H"
  by (induction ts arbitrary: H) simp_all

lemma gains_free_tokens: "gains H0 H (xs @ token_ids ts) \<Longrightarrow> gains H0 (free_tokens ts H) xs"
  by (simp add: free_tokens_strs token_ids_def gains_free_strs)

lemma gains_job_free: "gains H0 H (xs @ job_ids job) \<Longrightarrow> gains H0 (job_free job H) xs"
  by (simp add: job_free_def job_ids_def gains_free_strs)

lemma gains_list_free: "gains H0 H (xs @ list_ids js) \<Longrightarrow> gains H0 (fold job_free js H) xs"
proof (induction js arbitrary: H)
  case (Cons j js)
  have "gains H0 (job_free j H) (xs @ list_ids js)"
    by (rule gains_job_free) (rule gains_mset [OF Cons.prems], simp add: list_ids_def)
  then show ?case using Cons.IH by simp
qed (simp add: list_ids_def)

section \<open>Building a job\<close>

lemma job_ids_simps [simp]:
  "job_ids [] = []" "job_ids (st # job) = ids (stage_strs st) @ job_ids job" "job_ids (j1 @ j2) = job_ids j1 @ job_ids j2"
  "ids (stage_strs empty_stage) = []"
  by (simp_all add: job_ids_def stage_strs_def empty_stage_def)

lemma job_ids_change:
  assumes "job \<noteq> []"
  shows "mset (job_ids (add_redirect r job)) = mset (job_ids job) + mset (ids [path r])"
    "mset (job_ids (add_arg w job)) = mset (job_ids job) + mset (ids [Some w])"
proof -
  have "job_ids job = job_ids (butlast job) @ ids (stage_strs (last job))"
    using assms by (metis append_butlast_last_id job_ids_simps(1,2,3) append_Nil2)
  then show "mset (job_ids (add_redirect r job)) = mset (job_ids job) + mset (ids [path r])"
    "mset (job_ids (add_arg w job)) = mset (job_ids job) + mset (ids [Some w])"
    by (simp_all add: add_redirect_def add_arg_def change_last_def stage_strs_def)
qed

lemma token_ids_simps [simp]:
  "token_ids [] = []" "token_ids (TOK_PIPE # ts) = token_ids ts" "token_ids (TOK_REDIR n kd t # ts) = token_ids ts"
  "token_ids (TOK_WORD w # ts) = ids [w] @ token_ids ts" "token_ids (ts @ us) = token_ids ts @ token_ids us"
  by (cases w; simp add: token_ids_def token_word_def)+

lemma change_last_not_Nil [simp]: "add_redirect r job \<noteq> []" "add_arg w job \<noteq> []"
  by (simp_all add: add_redirect_def add_arg_def change_last_def)

lemma build_loop_mset:
  assumes "build_loop ts job = (rc, ts', job')" "job \<noteq> []"
  shows "mset (token_ids ts') + mset (job_ids job') = mset (token_ids ts) + mset (job_ids job) \<and>
    (rc = 0 \<longrightarrow> token_ids ts' = [])"
  using assms
  by (induction ts job arbitrary: rc ts' job' rule: build_loop.induct)
    (auto simp: Let_def job_ids_change split: if_splits prod.splits list.splits token.splits option.splits)

section \<open>Tokens\<close>

text \<open>One round of the tokenizer: it stops, or goes on with one more token.\<close>

lemma tokenize_loop_step:
  assumes "dropWhile (\<lambda>c. isspace (uchar c)) p = c # p1" "digits = takeWhile (\<lambda>c. isdigit (uchar c)) (c # p1)"
    "q = drop (length digits) (c # p1)"
  shows "tokenize_loop K E n toks p H k =
      (if c = NUL then (Some toks, H, k)
       else if length toks \<ge> n then (None, free_tokens toks H, k)
       else if c = CHR ''|'' then tokenize_loop K E n (toks @ [TOK_PIPE]) p1 H k
       else if c = CHR ''&'' then (None, free_tokens toks H, k)
       else if peek q 0 = CHR ''>'' \<or> peek q 0 = CHR ''<'' then
         let (kind, target, rest) = redir_token (peek q 0) (drop 1 q)
         in tokenize_loop K E n (toks @ [TOK_REDIR (if digits \<noteq> [] then atoi (c # p1) else if peek q 0 = CHR ''>'' then 1 else 0)
              kind target]) rest H k
       else let (w, rest, H1, k1) = scan_word K E (c # p1) H k
            in case w of None \<Rightarrow> (None, free_tokens toks H1, k1)
               | Some _ \<Rightarrow> tokenize_loop K E n (toks @ [TOK_WORD w]) rest H1 k1)"
  by (subst tokenize_loop.simps) (simp only: assms list.case Let_def)

lemma tokenize_loop_cases:
  obtains (End) "tokenize_loop K E n toks p H k = (Some toks, H, k)"
  | (Bad) "tokenize_loop K E n toks p H k = (None, free_tokens toks H, k)"
  | (Memory) H1 k1 buf where "tokenize_loop K E n toks p H k = (None, free_tokens toks H1, k1)"
      "sh_strdup K buf H k = (None, H1, k1)"
  | (Sign) t rest where "tokenize_loop K E n toks p H k = tokenize_loop K E n (toks @ [t]) rest H k"
      "length rest < length p" "t = TOK_PIPE \<or> (\<exists>fd kd tg. t = TOK_REDIR fd kd tg)" "length toks < n"
  | (Word) w rest H1 k1 where "tokenize_loop K E n toks p H k = tokenize_loop K E n (toks @ [TOK_WORD (Some w)]) rest H1 k1"
      "sh_strdup K (snd w) H k = (Some w, H1, k1)" "length rest < length p" "length toks < n"
proof (cases "dropWhile (\<lambda>c. isspace (uchar c)) p")
  case Nil
  then show ?thesis by (intro End) (subst tokenize_loop.simps, simp only: Let_def list.case)
next
  case (Cons c p1)
  let ?digits = "takeWhile (\<lambda>c. isdigit (uchar c)) (c # p1)"
  let ?q = "drop (length ?digits) (c # p1)"
  have le: "length (c # p1) \<le> length p" using length_dropWhile_le Cons by metis
  note eq = tokenize_loop_step [OF Cons refl refl, of K E n toks H k]
  consider (a) "c = NUL" | (b) "c \<noteq> NUL" "length toks \<ge> n" | (b') "c = CHR ''&''" "length toks < n"
    | (c) "c = CHR ''|''" "length toks < n" | (d) "c \<noteq> NUL" "length toks < n" "c \<noteq> CHR ''|''" "c \<noteq> CHR ''&''"
    by linarith
  then show ?thesis
  proof cases
    case a
    then show ?thesis using End eq by simp
  next
    case b
    then show ?thesis using Bad eq by simp
  next
    case b'
    then show ?thesis using Bad eq by simp
  next
    case c
    then show ?thesis using Sign [of TOK_PIPE p1] eq le by simp
  next
    case d
    show ?thesis
    proof (cases "peek ?q 0 = CHR ''>'' \<or> peek ?q 0 = CHR ''<''")
      case True
      then have q: "?q \<noteq> []" by (auto simp: peek_def)
      obtain kd tg rest where r: "redir_token (peek ?q 0) (drop 1 ?q) = (kd, tg, rest)" by (metis prod_cases3)
      have "length rest \<le> length (drop 1 ?q)" using length_redir_token [of "peek ?q 0" "drop 1 ?q"] r by simp
      also have "\<dots> < length ?q" using q by (cases ?q) auto
      also have "\<dots> \<le> length p" using le by simp
      finally have "length rest < length p" .
      moreover have "tokenize_loop K E n toks p H k = tokenize_loop K E n (toks @ [TOK_REDIR
          (if ?digits \<noteq> [] then atoi (c # p1) else if peek ?q 0 = CHR ''>'' then 1 else 0) kd tg]) rest H k"
        unfolding eq r using d True by (simp only: simp_thms if_True if_False not_le [symmetric] Let_def prod.case)
      ultimately show ?thesis using d(2) by (intro Sign) auto
    next
      case False
      have "\<not> isspace (uchar c)" using Cons by (metis hd_dropWhile list.distinct(1) list.sel(1))
      moreover have "\<not> isdigit (uchar CHR ''>'')" "\<not> isdigit (uchar CHR ''<'')" by (simp_all add: isdigit_def uchar_def)
      then have "c \<noteq> CHR ''>'' \<and> c \<noteq> CHR ''<''" using False by auto
      ultimately have "\<not> is_word_end c" using d by (simp add: is_word_end_def)
      then have less: "length (snd (scan_word_loop E (c # p1) [])) < length p"
        using length_scan_word_loop_less [of c E p1 "[]"] le by simp
      obtain buf rest where w: "scan_word_loop E (c # p1) [] = (buf, rest)" by fastforce
      obtain x H1 k1 where x: "sh_strdup K buf H k = (x, H1, k1)" by (metis prod_cases3)
      have e: "tokenize_loop K E n toks p H k = (case x of None \<Rightarrow> (None, free_tokens toks H1, k1)
          | Some _ \<Rightarrow> tokenize_loop K E n (toks @ [TOK_WORD x]) rest H1 k1)"
        unfolding eq scan_word_def w using d False
        by (simp only: x simp_thms if_True if_False not_le [symmetric] Let_def prod.case)
      show ?thesis
      proof (cases x)
        case None
        then show ?thesis using e x Memory by simp
      next
        case (Some w')
        then have "snd w' = buf" using x by (auto simp: sh_strdup_def Let_def split: if_splits prod.splits)
        with Some e x w less d(2) show ?thesis by (intro Word [of w' rest H1 k1]) simp_all
      qed
    qed
  qed
qed

lemma tokenize_loop_gains:
  assumes "gains H0 H (xs @ token_ids toks)" "tokenize_loop K E n toks p H k = (r, H', k')"
  shows "gains H0 H' (xs @ (case r of Some ts \<Rightarrow> token_ids ts | None \<Rightarrow> []))"
  using assms
proof (induction "length p" arbitrary: toks p H k rule: less_induct)
  case less
  show ?case
  proof (cases rule: tokenize_loop_cases [of K E n toks p H k])
    case End
    then show ?thesis using less.prems by simp
  next
    case Bad
    then show ?thesis using less.prems gains_free_tokens [of H0 H xs toks] by simp
  next
    case (Memory H1 k1 buf)
    have "gains H0 H1 (xs @ token_ids toks)" using gains_strdup [OF less.prems(1) Memory(2)] by simp
    then show ?thesis using less.prems Memory gains_free_tokens by fastforce
  next
    case (Sign t rest)
    then have "token_ids (toks @ [t]) = token_ids toks" by auto
    then show ?thesis using less.prems Sign by (intro less.hyps [of rest H "toks @ [t]" k]) simp_all
  next
    case (Word w rest H1 k1)
    have "gains H0 H1 (xs @ token_ids (toks @ [TOK_WORD (Some w)]))" using gains_strdup [OF less.prems(1) Word(2)] by simp
    then show ?thesis using less.prems Word by (intro less.hyps [of rest H1 "toks @ [TOK_WORD (Some w)]" k1]) simp_all
  qed
qed

lemma tokenize_loop_words:
  assumes "tokenize_loop K E n toks p H k = (Some ts, H', k')" "TOK_WORD None \<notin> set toks" "length toks \<le> n"
  shows "TOK_WORD None \<notin> set ts \<and> length ts \<le> n"
  using assms
proof (induction "length p" arbitrary: toks p H k rule: less_induct)
  case less
  show ?case
  proof (cases rule: tokenize_loop_cases [of K E n toks p H k])
    case (Sign t rest)
    then show ?thesis using less.prems by (intro less.hyps [of rest "toks @ [t]" H k]) auto
  next
    case (Word w rest H1 k1)
    then show ?thesis using less.prems by (intro less.hyps [of rest "toks @ [TOK_WORD (Some w)]" H1 k1]) auto
  qed (use less.prems in auto)
qed

section \<open>Bounds\<close>

text \<open>A parsed job fits the arrays: the terminating NULL of \<open>argv\<close> has room, and every redirection to a
  file has a path.\<close>

definition stage_wf :: "stage \<Rightarrow> bool" where
  "stage_wf st \<longleftrightarrow> length (argv st) \<le> SH_MAX_ARGS \<and> length (redirects st) \<le> SH_MAX_REDIRECTS \<and>
     (\<forall>r \<in> set (redirects st). (path r = None) = (kind r = REDIR_DUP_FD))"

definition job_wf :: "job \<Rightarrow> bool" where
  "job_wf job \<longleftrightarrow> job \<noteq> [] \<and> length job \<le> SH_MAX_STAGES \<and> (\<forall>st \<in> set job. stage_wf st)"

lemma job_wf_change:
  assumes "job_wf job" "stage_wf (f (last job))"
  shows "job_wf (change_last f job)"
  using assms in_set_butlastD [of _ job] by (auto simp: job_wf_def change_last_def)

lemma job_wf_add:
  assumes "job_wf job"
  shows "length (redirects (last job)) < SH_MAX_REDIRECTS \<Longrightarrow> (path r = None) = (kind r = REDIR_DUP_FD) \<Longrightarrow>
      job_wf (add_redirect r job)"
    and "length (argv (last job)) < SH_MAX_ARGS \<Longrightarrow> job_wf (add_arg w job)"
    and "length job < SH_MAX_STAGES \<Longrightarrow> job_wf (job @ [empty_stage])"
proof -
  have "stage_wf (last job)" using assms by (simp add: job_wf_def)
  then show "length (redirects (last job)) < SH_MAX_REDIRECTS \<Longrightarrow> (path r = None) = (kind r = REDIR_DUP_FD) \<Longrightarrow>
      job_wf (add_redirect r job)"
    "length (argv (last job)) < SH_MAX_ARGS \<Longrightarrow> job_wf (add_arg w job)"
    unfolding add_redirect_def add_arg_def by (intro job_wf_change [OF assms]; auto simp: stage_wf_def)+
  show "length job < SH_MAX_STAGES \<Longrightarrow> job_wf (job @ [empty_stage])"
    using assms by (auto simp: job_wf_def stage_wf_def empty_stage_def)
qed

lemma build_loop_wf:
  assumes "build_loop ts job = (0, ts', job')" "job_wf job" "TOK_WORD None \<notin> set ts"
  shows "job_wf job'"
  using assms
proof (induction ts job arbitrary: ts' job' rule: build_loop.induct)
  case (3 n kd target ts job)
  show ?case
  proof (cases ts)
    case (Cons t ts1)
    with 3 show ?thesis by (cases t) (auto simp: Let_def job_wf_add split: if_splits prod.splits)
  qed (use 3 in \<open>auto simp: Let_def job_wf_add split: if_splits prod.splits\<close>)
next
  case (4 w ts job)
  then show ?case by (cases w) (auto simp: job_wf_add split: if_splits prod.splits)
qed (auto simp: job_wf_add split: if_splits prod.splits)

text \<open>What a segment and a chain leave in the ledger.\<close>

lemma parse_segment_cases:
  assumes "gains H0 H xs"
  obtains (Error) H' k' where "parse_segment K E seg H k = (None, H', k')" "gains H0 H' xs"
  | (Ok) job H' k' where "parse_segment K E seg H k = (Some job, H', k')" "gains H0 H' (xs @ job_ids job)" "job_wf job"
proof -
  obtain toks H1 k1 where t: "tokenize_loop K E SH_MAX_TOKENS [] seg H k = (toks, H1, k1)" by (metis prod_cases3)
  have g: "gains H0 H1 (xs @ (case toks of Some ts \<Rightarrow> token_ids ts | None \<Rightarrow> []))"
    using tokenize_loop_gains [of H0 H xs "[]"] assms t by simp
  show ?thesis
  proof (cases "toks = None \<or> toks = Some []")
    case True
    then show ?thesis using Error [of H1 k1] t g by (auto simp: parse_segment_def tokenize_def)
  next
    case False
    then obtain ts where ts: "toks = Some ts" "ts \<noteq> []" by auto
    obtain rc ts' job where b: "build_loop ts [empty_stage] = (rc, ts', job)" by (metis prod_cases3)
    have m: "mset (token_ids ts') + mset (job_ids job) = mset (token_ids ts)" "rc = 0 \<longrightarrow> token_ids ts' = []"
      using build_loop_mset [OF b] by simp_all
    have p: "parse_segment K E seg H k = (if rc \<noteq> 0 then (None, job_free job (free_tokens ts' H1), k1) else (Some job, H1, k1))"
      using t ts b by (auto simp: parse_segment_def tokenize_def build_job_def split: list.splits)
    show ?thesis
    proof (cases "rc = 0")
      case True
      have "TOK_WORD None \<notin> set ts" using tokenize_loop_words [of K E _ "[]"] t ts(1) by simp
      moreover have "job_wf [empty_stage]"
        by (simp add: job_wf_def stage_wf_def empty_stage_def SH_MAX_STAGES_def)
      ultimately have "job_wf job" using build_loop_wf b True by blast
      moreover have "gains H0 H1 (xs @ job_ids job)"
        by (rule gains_mset [of _ _ "xs @ token_ids ts"]) (use g ts(1) m True in simp_all)
      ultimately show ?thesis using Ok p True by simp
    next
      case False
      have "gains H0 H1 ((xs @ job_ids job) @ token_ids ts')"
        by (rule gains_mset [of _ _ "xs @ token_ids ts"]) (use g ts(1) m in \<open>simp_all add: ac_simps\<close>)
      then have "gains H0 (job_free job (free_tokens ts' H1)) xs"
        by (intro gains_job_free gains_free_tokens)
      then show ?thesis using Error p False by simp
    qed
  qed
qed

lemma parse_chain_gains:
  assumes "gains H0 H (list_ids js)" "\<forall>j \<in> set js. job_wf j" "parse_chain K E bg js p H k = (rc, l, H', k')"
  shows "if rc = 0 then gains H0 H' (list_ids (jobs l)) \<and> jobs l \<noteq> [] \<and> length (jobs l) \<le> SH_MAX_CHAIN \<and>
      (\<forall>j \<in> set (jobs l). job_wf j) \<and> background l = bg
    else rc = -1 \<and> gains H0 H' []"
  using assms
proof (induction "length p" arbitrary: p js H k rule: less_induct)
  case less
  have free: "gains H0 (job_list_free \<lparr>jobs = js, background = bg\<rparr> H1) []" if "gains H0 H1 (list_ids js)" for H1
    using gains_list_free [of H0 H1 "[]" js] that by (simp add: job_list_free_def)
  define sr where "sr = (case find_and p of Some (a, b) \<Rightarrow> (a, Some b) | None \<Rightarrow> (p, None))"
  obtain seg rest where sr: "sr = (seg, rest)" by (cases sr)
  have eq: "parse_chain K E bg js p H k =
      (if length js \<ge> SH_MAX_CHAIN then (-1, \<lparr>jobs = js, background = bg\<rparr>, job_list_free \<lparr>jobs = js, background = bg\<rparr> H, k)
       else let (job, H1, k1) = parse_segment K E seg H k in
         case job of
           None \<Rightarrow> (-1, \<lparr>jobs = js, background = bg\<rparr>, job_list_free \<lparr>jobs = js, background = bg\<rparr> H1, k1)
         | Some j \<Rightarrow> (case rest of Some b \<Rightarrow> parse_chain K E bg (js @ [j]) b H1 k1
             | None \<Rightarrow> (0, \<lparr>jobs = js @ [j], background = bg\<rparr>, H1, k1)))"
    by (subst parse_chain.simps) (simp only: sr_def [symmetric] sr Let_def prod.case)
  have rest: "length b < length p" if "rest = Some b" for b
    using sr that length_find_and [of p] by (auto simp: sr_def split: option.splits)
  show ?case
  proof (cases "length js \<ge> SH_MAX_CHAIN")
    case True
    then show ?thesis using eq free [OF less.prems(1)] less.prems(3) by auto
  next
    case False
    show ?thesis
      using less.prems(1)
    proof (cases rule: parse_segment_cases [of H0 H "list_ids js" K E seg k])
      case (Error H1 k1)
      then show ?thesis using eq free [of H1] less.prems(3) False by auto
    next
      case (Ok j H1 k1)
      have g: "gains H0 H1 (list_ids (js @ [j]))" using Ok(2) by (simp add: list_ids_def)
      show ?thesis
      proof (cases rest)
        case None
        then show ?thesis using eq Ok less.prems False g by auto
      next
        case (Some b)
        have "parse_chain K E bg (js @ [j]) b H1 k1 = (rc, l, H', k')" using eq Ok less.prems(3) False Some by simp
        moreover have "\<forall>x \<in> set (js @ [j]). job_wf x" using less.prems(2) Ok(3) by simp
        ultimately show ?thesis using less.hyps [OF rest [OF Some] g] by blast
      qed
    qed
  qed
qed

lemma parse_line_gains:
  assumes "gains H H []" "parse_line K E raw_line H k = (rc, l, H', k')"
  shows "if rc = 0 then gains H H' (list_ids (jobs l)) \<and> jobs l \<noteq> [] \<and> length (jobs l) \<le> SH_MAX_CHAIN \<and>
      (\<forall>j \<in> set (jobs l). job_wf j)
    else gains H H' []"
proof -
  obtain bg p where "parse_line K E raw_line H k = (if p = [] then (1, \<lparr>jobs = [], background = bg\<rparr>, H, k)
      else parse_chain K E bg [] p H k)"
    unfolding parse_line_def Let_def by blast
  then show ?thesis
    using assms parse_chain_gains [of H H "[]" K E bg p k rc l H' k'] by (auto simp: list_ids_def split: if_splits)
qed

text \<open>C13. The parser owns its strings. Whatever the line and whenever memory runs out, \<open>parse_line\<close> releases
  no string that is not live; when it reports an empty line or a syntax error it has released every string
  it allocated; when it succeeds, the strings that are live beyond those at the start are exactly those of
  the job list, each once, so that \<open>job_list_free\<close> brings the ledger back.\<close>

theorem parse_line_ownership:
  assumes "live_strs H \<subseteq> {..< next_str H}" "parse_line K E raw_line H k = (rc, l, H', k')"
  shows "if rc = 0
    then gains H H' (list_ids (jobs l)) \<and> live_strs (job_list_free l H') = live_strs H \<and>
      bad_free (job_list_free l H') = bad_free H
    else live_strs H' = live_strs H \<and> bad_free H' = bad_free H"
proof -
  have H: "gains H H []" using assms(1) by (simp add: gains_def)
  have free: "live_strs (job_list_free l H') = live_strs H \<and> bad_free (job_list_free l H') = bad_free H"
    if "gains H H' (list_ids (jobs l))"
  proof -
    have "gains H (fold job_free (jobs l) H') []" by (rule gains_list_free) (simp add: that)
    then show ?thesis by (simp add: job_list_free_def gains_def)
  qed
  show ?thesis using parse_line_gains [OF H assms(2)] free by (auto simp: gains_def split: if_splits)
qed

definition no_strs :: ledger where
  "no_strs = \<lparr>next_str = 0, live_strs = {}, bad_free = False\<rparr>"

definition example_line :: string where
  "example_line = ''a b | c > d && e 2>&1 &''"

definition example_jobs :: "job_list" where
  "example_jobs = \<lparr>jobs =
     [[\<lparr>argv = [(0, ''a''), (1, ''b'')], redirects = []\<rparr>,
       \<lparr>argv = [(2, ''c'')], redirects = [\<lparr>redir_fd = 1, kind = REDIR_TRUNC, path = Some (3, ''d''), dup_target_fd = -1\<rparr>]\<rparr>],
      [\<lparr>argv = [(4, ''e'')], redirects = [\<lparr>redir_fd = 2, kind = REDIR_DUP_FD, path = None, dup_target_fd = 1\<rparr>]\<rparr>]],
     background = True\<rparr>"

lemma parse_example: "parse_line null_kernel (stack_env []) example_line no_strs () = (0, example_jobs, \<lparr>next_str = 5, live_strs = {4, 3, 2, 1, 0}, bad_free = False\<rparr>, ())"
  by code_simp

theorem parse_line_ownership_witness:
  "gains no_strs \<lparr>next_str = 5, live_strs = {4, 3, 2, 1, 0}, bad_free = False\<rparr> (list_ids (jobs example_jobs)) \<and>
   live_strs (job_list_free example_jobs \<lparr>next_str = 5, live_strs = {4, 3, 2, 1, 0}, bad_free = False\<rparr>) = {}"
  using parse_line_ownership [OF _ parse_example] by (simp add: no_strs_def)

text \<open>C31. A parsed line fits the fixed arrays that hold it: between one and eight jobs, each of one to eight
  stages, with at most sixteen arguments, so that the terminating NULL has its place, and four
  redirections, each with a path exactly when it is one to a file.\<close>

theorem parse_line_bounds:
  assumes "live_strs H \<subseteq> {..< next_str H}" "parse_line K E raw_line H k = (0, l, H', k')"
  shows "jobs l \<noteq> [] \<and> length (jobs l) \<le> SH_MAX_CHAIN \<and> (\<forall>job \<in> set (jobs l). job_wf job)"
proof -
  have "gains H H []" using assms(1) by (simp add: gains_def)
  from parse_line_gains [OF this assms(2)] show ?thesis by simp
qed

theorem parse_line_bounds_witness:
  "jobs example_jobs \<noteq> [] \<and> length (jobs example_jobs) \<le> SH_MAX_CHAIN \<and> list_all job_wf (jobs example_jobs)"
  using parse_line_bounds [OF _ parse_example] by (simp add: no_strs_def list_all_iff)

end
