(* ===== verification/Shell_Roundtrip.thy ===== *)
theory Shell_Roundtrip
  imports Shell_Parse_Props Scanf
begin

text \<open>
  The parser of the shell reads back what is written in its syntax: a text for a job list, and the proof
  that \<open>parse_line\<close> of this text gives the job list again.
\<close>

section \<open>Writing tokens\<close>

text \<open>A word that stands for itself: no separator and no variable in it, and short enough for the buffer.\<close>

definition plain_word :: "string \<Rightarrow> bool" where
  "plain_word s \<longleftrightarrow> s \<noteq> [] \<and> length s < SH_WORD_BUF \<and> (\<forall>c \<in> set s. \<not> is_word_end c \<and> c \<noteq> CHR ''$'')"

fun redir_sign :: "redir_kind \<Rightarrow> string" where
  "redir_sign REDIR_TRUNC = ''>''" | "redir_sign REDIR_APPEND = ''>>''" | "redir_sign REDIR_READ = ''<''"
| "redir_sign REDIR_DUP_FD = ''>&''"

fun token_text :: "token \<Rightarrow> string" where
  "token_text (TOK_WORD w) = snd (the w)"
| "token_text TOK_PIPE = ''|''"
| "token_text (TOK_REDIR n kd target) =
     num_text 10 False n @ redir_sign kd @ (if kd = REDIR_DUP_FD then num_text 10 False target else [])"

fun plain_token :: "token \<Rightarrow> bool" where
  "plain_token (TOK_WORD w) = (w \<noteq> None \<and> plain_word (snd (the w)))"
| "plain_token TOK_PIPE = True"
| "plain_token (TOK_REDIR n kd target) =
     (0 \<le> n \<and> n < 2 ^ 31 \<and> (if kd = REDIR_DUP_FD then 0 \<le> target \<and> target < 2 ^ 31 else target = -1))"

fun tokens_text :: "token list \<Rightarrow> string" where
  "tokens_text [] = []"
| "tokens_text [t] = token_text t"
| "tokens_text (t # ts) = token_text t @ CHR '' '' # tokens_text ts"

text \<open>Two values that differ only in the identities of the strings.\<close>

definition erase_str :: "str_ptr option \<Rightarrow> str_ptr option" where
  "erase_str = map_option (\<lambda>w. (0, snd w))"

fun erase_token :: "token \<Rightarrow> token" where
  "erase_token (TOK_WORD w) = TOK_WORD (erase_str w)"
| "erase_token t = t"

section \<open>Reading tokens\<close>

lemma space_facts [simp]:
  "isspace (uchar CHR '' '')" "\<not> isdigit (uchar CHR '' '')" "\<not> isdigit (uchar CHR ''>'')" "\<not> isdigit (uchar CHR ''<'')"
  "\<not> isspace (uchar CHR ''|'')" "\<not> isdigit (uchar CHR ''&'')" "\<not> isspace (uchar CHR ''&'')"
  by (simp_all add: isspace_def isdigit_def uchar_def)

text \<open>What may follow a token: the end or white space.\<close>

definition gap :: "string \<Rightarrow> bool" where
  "gap s \<longleftrightarrow> (s = [] \<or> isspace (uchar (hd s)))"

lemma digit_not_space: "isdigit (uchar c) \<Longrightarrow> \<not> isspace (uchar c) \<and> c \<noteq> NUL \<and> c \<noteq> CHR ''|'' \<and> c \<noteq> CHR ''&'' \<and> c \<noteq> CHR ''$'' \<and> c \<noteq> CHR ''>'' \<and> c \<noteq> CHR ''<''"
  by (auto simp: isspace_def isdigit_def uchar_def)

lemma scan_plain:
  "\<forall>c \<in> set s. \<not> is_word_end c \<and> c \<noteq> CHR ''$'' \<Longrightarrow> length buf + length s < SH_WORD_BUF \<Longrightarrow> gap rest \<Longrightarrow>
   scan_word_loop E (s @ rest) buf = (buf @ s, rest)"
proof (induction s arbitrary: buf)
  case Nil
  then show ?case by (cases rest) (auto simp: gap_def is_word_end_def)
qed auto

lemma atoi_digits:
  assumes "0 \<le> n" "n < 2 ^ 31" "ends_number rest"
  shows "atoi (num_text 10 False n @ rest) = n"
proof -
  let ?ds = "num_text 10 False n"
  note d = num_text_digits [OF assms(1)]
  obtain c t where c: "?ds = c # t" using d(1) by (cases ?ds) auto
  have e: "takeWhile (is_digit 10) (?ds @ rest) = ?ds"
    using d(2) assms(3) by (intro takeWhile_ends) (auto simp: ends_number_def digit_10 split: list.splits)
  have "digits_loop 10 0 (?ds @ rest) = (uint64 n, length ?ds)" by (simp only: digits_loop_eq e d(3))
  moreover have "is_digit 10 c" using d(2) c by simp
  then have "skip_space (?ds @ rest) = 0" "peek (?ds @ rest) 0 \<noteq> CHR ''-''" "peek (?ds @ rest) 0 \<noteq> CHR ''+''"
    using is_digit_plain [of 10 c] c by auto
  ultimately have "parse_ull (?ds @ rest) 10 = (uint64 n, length ?ds, False)"
    by (auto simp: parse_ull_def Let_def)
  then show ?thesis using assms by (simp add: atoi_def strtol_def uint64_id int64_id int32_id)
qed

lemma num_text_isdigit: "0 \<le> n \<Longrightarrow> \<forall>c \<in> set (num_text 10 False n). isdigit (uchar c)"
  using num_text_digits(2) by (simp add: digit_10)

lemma takeWhile_num:
  assumes "0 \<le> n" "ends_number rest"
  shows "takeWhile (\<lambda>c. isdigit (uchar c)) (num_text 10 False n @ rest) = num_text 10 False n"
  using assms num_text_isdigit by (intro takeWhile_ends) (auto simp: ends_number_def split: list.splits)

lemma gap_ends: "gap rest \<Longrightarrow> ends_number rest"
  using digit_not_space by (cases rest) (auto simp: gap_def)

definition spaces :: "string \<Rightarrow> bool" where
  "spaces s \<longleftrightarrow> (\<forall>c \<in> set s. isspace (uchar c))"

definition heap_always :: "'k kernel \<Rightarrow> bool" where
  "heap_always K \<longleftrightarrow> (\<forall>k n. fst (heap_ok K k n))"

lemma skip_to: "spaces sp \<Longrightarrow> \<not> isspace (uchar c) \<Longrightarrow> dropWhile (\<lambda>c. isspace (uchar c)) (sp @ c # s) = c # s"
  by (induction sp) (auto simp: spaces_def)

lemma token_word_step:
  assumes "spaces sp" "plain_word s" "gap rest" "length toks < n" "heap_always K"
  shows "\<exists>i H' k'. tokenize_loop K E n toks (sp @ s @ rest) H k =
    tokenize_loop K E n (toks @ [TOK_WORD (Some (i, s))]) rest H' k'"
proof -
  obtain c s1 where c: "s = c # s1" using assms(2) by (cases s) (auto simp: plain_word_def)
  have plain: "\<forall>c \<in> set s. \<not> is_word_end c \<and> c \<noteq> CHR ''$''" using assms(2) by (simp add: plain_word_def)
  then have nc: "\<not> isspace (uchar c)" "c \<noteq> NUL" "c \<noteq> CHR ''|''" "c \<noteq> CHR ''&''" using c by (auto simp: is_word_end_def)
  let ?ds = "takeWhile (\<lambda>c. isdigit (uchar c)) (c # s1 @ rest)"
  let ?q = "drop (length ?ds) (c # s1 @ rest)"
  have q: "?q = dropWhile (\<lambda>c. isdigit (uchar c)) (s @ rest)" using c by (simp add: dropWhile_eq_drop)
  have "peek ?q 0 \<noteq> CHR ''>'' \<and> peek ?q 0 \<noteq> CHR ''<''"
  proof (cases "\<forall>c \<in> set s. isdigit (uchar c)")
    case True
    then have "?q = dropWhile (\<lambda>c. isdigit (uchar c)) rest" unfolding q by (subst dropWhile_append2) auto
    also have "\<dots> = rest" using gap_ends [OF assms(3)] by (cases rest) auto
    finally show ?thesis using assms(3) by (cases rest) (auto simp: gap_def isspace_def uchar_def peek_def)
  next
    case False
    then have "?q = dropWhile (\<lambda>c. isdigit (uchar c)) s @ rest" "dropWhile (\<lambda>c. isdigit (uchar c)) s \<noteq> []"
      unfolding q by (auto simp: dropWhile_append1)
    moreover from this(2) have "hd (dropWhile (\<lambda>c. isdigit (uchar c)) s) \<in> set s" by (metis hd_in_set set_dropWhileD)
    ultimately show ?thesis using plain
      by (cases "dropWhile (\<lambda>c. isdigit (uchar c)) s") (auto simp: is_word_end_def)
  qed
  moreover have "scan_word_loop E (c # s1 @ rest) [] = (s, rest)"
    using scan_plain [OF plain _ assms(3), of "[]"] assms(2) c by (simp add: plain_word_def)
  moreover obtain i H1 k1 where "sh_strdup K s H k = (Some (i, s), H1, k1)"
    using assms(5) by (fastforce simp: sh_strdup_def heap_always_def split_beta Let_def)
  ultimately show ?thesis
    using tokenize_loop_step [OF skip_to [OF assms(1) nc(1), of "s1 @ rest"] refl refl, of K E n toks H k] nc assms(4) c
    by (auto simp: scan_word_def simp del: scan_word_loop.simps takeWhile.simps)
qed

lemma dup_redir_num:
  assumes "0 \<le> target" "target < 2 ^ 31" "gap rest"
  shows "dup_redir plain (num_text 10 False target @ rest) = (REDIR_DUP_FD, target, rest)"
  using takeWhile_num [OF assms(1) gap_ends [OF assms(3)]] atoi_digits [OF assms(1,2) gap_ends [OF assms(3)]]
    num_text_digits(1) [OF assms(1)] by (simp add: dup_redir_def)

lemma redir_token_sign:
  assumes "plain_token (TOK_REDIR m kd target)" "gap rest"
    and s: "sg # tail = redir_sign kd @ (if kd = REDIR_DUP_FD then num_text 10 False target else []) @ rest"
  shows "redir_token sg tail = (kd, target, rest) \<and> (sg = CHR ''>'' \<or> sg = CHR ''<'')"
proof -
  have "peek rest 0 \<noteq> CHR ''>''" "peek rest 0 \<noteq> CHR ''&''"
    using assms(2) by (cases rest; auto simp: gap_def isspace_def uchar_def peek_def)+
  then show ?thesis using assms dup_redir_num [OF _ _ assms(2)]
    by (cases kd) (auto simp: redir_token_def)
qed

lemma token_redir_step:
  assumes "spaces sp" "plain_token (TOK_REDIR m kd target)" "gap rest" "length toks < n"
  shows "tokenize_loop K E n toks (sp @ token_text (TOK_REDIR m kd target) @ rest) H k =
    tokenize_loop K E n (toks @ [TOK_REDIR m kd target]) rest H k"
proof -
  let ?ds = "num_text 10 False m"
  obtain sg tail where t: "redir_sign kd @ (if kd = REDIR_DUP_FD then num_text 10 False target else []) @ rest = sg # tail"
    by (cases kd) auto
  have r: "redir_token sg tail = (kd, target, rest)" "sg = CHR ''>'' \<or> sg = CHR ''<''"
    using redir_token_sign [OF assms(2,3) t [symmetric]] by auto
  have m: "0 \<le> m" "m < 2 ^ 31" using assms(2) by auto
  have e: "ends_number (sg # tail)" using r(2) by auto
  obtain c d1 where c: "?ds = c # d1" using num_text_digits(1) [OF m(1)] by (cases ?ds) auto
  have nc: "isdigit (uchar c)" using num_text_isdigit [OF m(1)] c by simp
  note nc' = digit_not_space [OF nc]
  have full: "token_text (TOK_REDIR m kd target) @ rest = c # d1 @ sg # tail" using t c by simp
  have ds: "?ds = takeWhile (\<lambda>c. isdigit (uchar c)) (c # d1 @ sg # tail)"
    using takeWhile_num [OF m(1) e] unfolding c by simp
  have q: "sg # tail = drop (length ?ds) (c # d1 @ sg # tail)" using c by simp
  have v: "atoi (c # d1 @ sg # tail) = m" using atoi_digits [OF m e] c by simp
  have sp: "dropWhile (\<lambda>c. isspace (uchar c)) (sp @ token_text (TOK_REDIR m kd target) @ rest) = c # d1 @ sg # tail"
    unfolding full using skip_to [OF assms(1), of c "d1 @ sg # tail"] nc' by simp
  show ?thesis
    using tokenize_loop_step [OF sp ds q, of K E n toks H k] r v nc' assms(4) c
    by (auto simp del: token_text.simps)
qed

lemma tokens_text_Cons: "tokens_text (t # ts) = token_text t @ (if ts = [] then [] else CHR '' '' # tokens_text ts)"
  by (cases ts) auto

lemma token_step:
  assumes "spaces sp" "plain_token t" "gap rest" "length toks < n" "heap_always K"
  shows "\<exists>t' H' k'. tokenize_loop K E n toks (sp @ token_text t @ rest) H k = tokenize_loop K E n (toks @ [t']) rest H' k' \<and>
    erase_token t' = erase_token t"
proof (cases t)
  case (TOK_WORD w)
  then obtain j s where w: "w = Some (j, s)" "plain_word s" using assms(2) by auto
  from token_word_step [OF assms(1) w(2) assms(3-5), of E H k] TOK_WORD w(1) show ?thesis
    by (auto simp: erase_str_def) (metis erase_str_def erase_token.simps(1) option.map(2) snd_conv)
next
  case TOK_PIPE
  then show ?thesis
    using tokenize_loop_step [OF skip_to [OF assms(1), of "CHR ''|''" rest] refl refl, of K E n toks H k] assms(4)
    by (intro exI [of _ TOK_PIPE] exI [of _ H] exI [of _ k]) simp
next
  case (TOK_REDIR m kd target)
  then show ?thesis using token_redir_step [OF assms(1) assms(2) [unfolded TOK_REDIR] assms(3,4), of K E H k]
    by (intro exI [of _ t] exI [of _ H] exI [of _ k]) (simp del: token_text.simps)
qed

lemma tokens_step:
  assumes "heap_always K" "\<forall>t \<in> set ts. plain_token t" "spaces sp" "spaces sp'" "length toks + length ts \<le> n"
  shows "\<exists>ts' H' k'. tokenize_loop K E n toks (sp @ tokens_text ts @ sp') H k = (Some (toks @ ts'), H', k') \<and>
    map erase_token ts' = map erase_token ts"
  using assms(2,3,5)
proof (induction ts arbitrary: toks sp H k)
  case Nil
  have "dropWhile (\<lambda>c. isspace (uchar c)) (sp @ sp') = []" using Nil(2) assms(4) by (auto simp: spaces_def)
  then have "tokenize_loop K E n toks (sp @ sp') H k = (Some toks, H, k)"
    by (subst tokenize_loop.simps) (simp only: Let_def list.case)
  then show ?case by simp
next
  case (Cons t ts)
  define rest where "rest = (if ts = [] then [] else CHR '' '' # tokens_text ts) @ sp'"
  have gap: "gap rest" using assms(4) by (cases sp') (auto simp: rest_def gap_def spaces_def)
  obtain sp1 where sp1: "spaces sp1" "rest = sp1 @ tokens_text ts @ sp'"
    by (cases "ts = []") (auto simp: rest_def spaces_def intro: that [of "[]"] that [of "'' ''"])
  obtain t' H1 k1 where t': "tokenize_loop K E n toks (sp @ token_text t @ rest) H k = tokenize_loop K E n (toks @ [t']) rest H1 k1"
      "erase_token t' = erase_token t"
    using token_step [OF Cons.prems(2) _ gap _ assms(1), of t toks n E H k] Cons.prems(1,3) by auto
  obtain ts' H2 k2 where "tokenize_loop K E n (toks @ [t']) rest H1 k1 = (Some (toks @ t' # ts'), H2, k2)"
      "map erase_token ts' = map erase_token ts"
    using Cons.IH [OF _ sp1(1), of "toks @ [t']" H1 k1] Cons.prems(1,3) sp1(2) by auto
  with t' show ?case by (intro exI [of _ "t' # ts'"]) (simp add: tokens_text_Cons rest_def)
qed

section \<open>Jobs\<close>

definition redir_tokens :: "redirect \<Rightarrow> token list" where
  "redir_tokens r = TOK_REDIR (redir_fd r) (kind r) (dup_target_fd r) #
     (if kind r = REDIR_DUP_FD then [] else [TOK_WORD (path r)])"

definition stage_tokens :: "stage \<Rightarrow> token list" where
  "stage_tokens st = map (\<lambda>w. TOK_WORD (Some w)) (argv st) @ concat (map redir_tokens (redirects st))"

fun job_tokens :: "job \<Rightarrow> token list" where
  "job_tokens [] = []"
| "job_tokens [st] = stage_tokens st"
| "job_tokens (st # sts) = stage_tokens st @ TOK_PIPE # job_tokens sts"

definition erase_redirect :: "redirect \<Rightarrow> redirect" where
  "erase_redirect r = r\<lparr>path := erase_str (path r)\<rparr>"

definition erase_stage :: "stage \<Rightarrow> stage" where
  "erase_stage st = \<lparr>argv = map (\<lambda>w. (0, snd w)) (argv st), redirects = map erase_redirect (redirects st)\<rparr>"

definition erase_job :: "job \<Rightarrow> job" where
  "erase_job = map erase_stage"

text \<open>The result and the job of the loop over the tokens.\<close>

definition built :: "token list \<Rightarrow> job \<Rightarrow> int \<times> job" where
  "built ts job = (let (rc, _, job') = build_loop ts job in (rc, job'))"

lemma built_simps:
  "built [] job = (0, job)"
  "length job < SH_MAX_STAGES \<Longrightarrow> built (TOK_PIPE # ts) job = built ts (job @ [empty_stage])"
  "length (argv (last job)) < SH_MAX_ARGS \<Longrightarrow> built (TOK_WORD (Some w) # ts) job = built ts (add_arg w job)"
  "length (redirects (last job)) < SH_MAX_REDIRECTS \<Longrightarrow> (path r = None) = (kind r = REDIR_DUP_FD) \<Longrightarrow>
     built (redir_tokens r @ ts) job = built ts (add_redirect r job)"
  by (auto simp: built_def split_beta) (cases r; auto simp: redir_tokens_def split_beta Let_def)+

lemma built_args:
  "length (argv st) + length ws \<le> SH_MAX_ARGS \<Longrightarrow>
   built (map (\<lambda>w. TOK_WORD (Some w)) ws @ ts) (job @ [st]) = built ts (job @ [st\<lparr>argv := argv st @ ws\<rparr>])"
proof (induction ws arbitrary: st)
  case (Cons w ws)
  have "built (TOK_WORD (Some w) # map (\<lambda>w. TOK_WORD (Some w)) ws @ ts) (job @ [st]) =
      built (map (\<lambda>w. TOK_WORD (Some w)) ws @ ts) (add_arg w (job @ [st]))"
    using Cons.prems by (intro built_simps(3)) simp
  then show ?case using Cons.IH [of "st\<lparr>argv := argv st @ [w]\<rparr>"] Cons.prems
    by (simp add: add_arg_def change_last_def)
qed simp

lemma built_redirects:
  "length (redirects st) + length rs \<le> SH_MAX_REDIRECTS \<Longrightarrow> \<forall>r \<in> set rs. (path r = None) = (kind r = REDIR_DUP_FD) \<Longrightarrow>
   built (concat (map redir_tokens rs) @ ts) (job @ [st]) = built ts (job @ [st\<lparr>redirects := redirects st @ rs\<rparr>])"
proof (induction rs arbitrary: st)
  case (Cons r rs)
  have "built (redir_tokens r @ concat (map redir_tokens rs) @ ts) (job @ [st]) =
      built (concat (map redir_tokens rs) @ ts) (add_redirect r (job @ [st]))"
    using Cons.prems by (intro built_simps(4)) simp_all
  then show ?case using Cons.IH [of "st\<lparr>redirects := redirects st @ [r]\<rparr>"] Cons.prems
    by (simp add: add_redirect_def change_last_def)
qed simp

lemma built_stage: "stage_wf st \<Longrightarrow> built (stage_tokens st @ ts) (job @ [empty_stage]) = built ts (job @ [st])"
  using built_args [of empty_stage "argv st" "concat (map redir_tokens (redirects st)) @ ts" job]
    built_redirects [of "empty_stage\<lparr>argv := argv st\<rparr>" "redirects st" ts job]
  by (cases st) (simp add: stage_wf_def stage_tokens_def empty_stage_def)

lemma built_job:
  "\<forall>st \<in> set sts. stage_wf st \<Longrightarrow> sts \<noteq> [] \<Longrightarrow> length job + length sts \<le> SH_MAX_STAGES \<Longrightarrow>
   built (job_tokens sts) (job @ [empty_stage]) = (0, job @ sts)"
proof (induction sts arbitrary: job rule: job_tokens.induct)
  case (2 st)
  then show ?case using built_stage [of st "[]" job] by (simp add: built_simps)
next
  case (3 st st' sts)
  then show ?case using built_stage [of st "TOK_PIPE # job_tokens (st' # sts)" job] "3.IH" [of "job @ [st]"]
    by (simp add: built_simps)
qed simp

lemma erase_change:
  "erase_job (add_arg w job) = add_arg (0, snd w) (erase_job job)" if "job \<noteq> []"
  using that by (simp add: erase_job_def add_arg_def change_last_def erase_stage_def map_butlast last_map)

lemma erase_change_redirect:
  "erase_job (add_redirect r job) = add_redirect (erase_redirect r) (erase_job job)" if "job \<noteq> []"
  using that by (simp add: erase_job_def add_redirect_def change_last_def erase_stage_def map_butlast last_map)

lemma erase_last: "job \<noteq> [] \<Longrightarrow> length (argv (last (erase_job job))) = length (argv (last job)) \<and>
    length (redirects (last (erase_job job))) = length (redirects (last job)) \<and> length (erase_job job) = length job"
  by (simp add: erase_job_def last_map erase_stage_def)

text \<open>The identities of the strings make no difference to how a job is built.\<close>

lemma built_erase:
  "job \<noteq> [] \<Longrightarrow> built (map erase_token ts) (erase_job job) = (let (rc, job') = built ts job in (rc, erase_job job'))"
proof (induction ts job rule: build_loop.induct)
  case (2 ts job)
  then show ?case using erase_last [of job]
    by (auto simp: built_def split_beta Let_def erase_job_def erase_stage_def empty_stage_def)
next
  case (3 n kd target ts job)
  let ?r = "\<lambda>p. \<lparr>redir_fd = n, kind = kd, path = p, dup_target_fd = target\<rparr>"
  have e: "erase_redirect (?r p) = ?r (erase_str p)" for p by (simp add: erase_redirect_def)
  have e0: "erase_str None = None" by (simp add: erase_str_def)
  show ?case
  proof (cases "length (redirects (last job)) \<ge> SH_MAX_REDIRECTS")
    case True
    then show ?thesis using erase_last [OF "3.prems"] by (simp add: built_def)
  next
    case False
    then have l: "\<not> length (redirects (last (erase_job job))) \<ge> SH_MAX_REDIRECTS" using erase_last [OF "3.prems"] by simp
    have ch: "erase_job (add_redirect (?r p) job) = add_redirect (?r (erase_str p)) (erase_job job)" for p
      using erase_change_redirect [OF "3.prems"] by (simp only: e)
    show ?thesis
    proof (cases "kd = REDIR_DUP_FD")
      case True
      with 3(1) [OF refl False True] l False ch [of None] e0 show ?thesis by (simp add: built_def split_beta Let_def)
    next
      case kd: False
      show ?thesis
      proof (cases ts)
        case Nil
        then show ?thesis using kd l False ch [of None] e0 by (simp add: built_def)
      next
        case (Cons t ts1)
        show ?thesis
        proof (cases t)
          case (TOK_WORD w)
          from 3(2) [OF refl False kd Cons TOK_WORD] kd l False ch [of w] Cons TOK_WORD show ?thesis
            by (simp add: built_def split_beta Let_def)
        qed (use kd l False ch [of None] e0 Cons in \<open>simp_all add: built_def\<close>)
      qed
    qed
  qed
next
  case (4 w ts job)
  then show ?case using erase_last [of job] erase_change [of job]
    by (cases w) (auto simp: built_def split_beta Let_def erase_str_def)
qed (simp add: built_def)

section \<open>Lines\<close>

definition plain_job :: "job \<Rightarrow> bool" where
  "plain_job job \<longleftrightarrow> job_wf job \<and> job_tokens job \<noteq> [] \<and> length (job_tokens job) \<le> SH_MAX_TOKENS \<and>
     (\<forall>t \<in> set (job_tokens job). plain_token t)"

lemma parse_segment_text:
  assumes "plain_job job" "heap_always K" "spaces sp" "spaces sp'"
  shows "\<exists>job' H' k'. parse_segment K E (sp @ tokens_text (job_tokens job) @ sp') H k = (Some job', H', k') \<and>
    erase_job job' = erase_job job"
proof -
  let ?ts = "job_tokens job"
  obtain ts H1 k1 where t: "tokenize_loop K E SH_MAX_TOKENS [] (sp @ tokens_text ?ts @ sp') H k = (Some ts, H1, k1)"
      "map erase_token ts = map erase_token ?ts"
    using tokens_step [OF assms(2) _ assms(3,4), of ?ts "[]" SH_MAX_TOKENS E H k] assms(1) by (auto simp: plain_job_def)
  obtain rc ts' job' where b: "build_loop ts [empty_stage] = (rc, ts', job')" by (metis prod_cases3)
  have "built ?ts ([] @ [empty_stage]) = (0, [] @ job)"
    using assms(1) by (intro built_job) (auto simp: plain_job_def job_wf_def)
  then have "built (map erase_token ts) (erase_job [empty_stage]) = (0, erase_job job)"
    using built_erase [of "[empty_stage]" ?ts] t(2) by simp
  then have "rc = 0" "erase_job job' = erase_job job"
    using built_erase [of "[empty_stage]" ts] b by (simp_all add: built_def)
  moreover have "ts \<noteq> []" using t(2) assms(1) by (auto simp: plain_job_def)
  ultimately show ?thesis
    using t(1) b by (auto simp: parse_segment_def tokenize_def build_job_def split: list.splits)
qed

text \<open>A text without \<open>&&\<close>, also not across its end.\<close>

definition no_and :: "string \<Rightarrow> bool" where
  "no_and s \<longleftrightarrow> find_and s = None \<and> (s = [] \<or> last s \<noteq> CHR ''&'')"

lemma find_and_append: "no_and s \<Longrightarrow> find_and (s @ t) = map_option (\<lambda>(a, b). (s @ a, b)) (find_and t)"
proof (induction s)
  case (Cons c s)
  then have "no_and s" by (cases s) (auto simp: no_and_def split: if_splits)
  moreover have "find_and (c # s @ t) = map_option (\<lambda>(a, b). (c # a, b)) (find_and (s @ t))"
    using Cons.prems by (cases "s @ t") (auto simp: no_and_def append_eq_Cons_conv split: if_splits)
  ultimately show ?case using Cons.IH by (cases "find_and t") auto
next
  case Nil
  then show ?case by (cases "find_and t") auto
qed

lemma no_and_append: "no_and s \<Longrightarrow> no_and t \<Longrightarrow> no_and (s @ t)"
  using find_and_append [of s t] by (auto simp: no_and_def last_append)

lemma no_and_plain: "CHR ''&'' \<notin> set s \<Longrightarrow> no_and s"
proof (induction s rule: find_and.induct)
  case (1 c d s)
  then show ?case by (auto simp: no_and_def)
qed (auto simp: no_and_def)

lemma no_and_one: "s \<noteq> [] \<Longrightarrow> CHR ''&'' \<notin> set s \<Longrightarrow> no_and (CHR ''&'' # s)"
  using no_and_plain [of s] by (cases s) (auto simp: no_and_def)

lemma num_text_no_and: "0 \<le> n \<Longrightarrow> CHR ''&'' \<notin> set (num_text 10 False n)"
  using num_text_isdigit digit_not_space by blast

lemma token_text_ok:
  assumes "plain_token t"
  shows "no_and (token_text t) \<and> token_text t \<noteq> [] \<and> \<not> isspace (uchar (last (token_text t))) \<and> last (token_text t) \<noteq> CHR ''&''"
proof (cases t)
  case (TOK_WORD w)
  then have "token_text t \<noteq> []" "\<forall>c \<in> set (token_text t). \<not> is_word_end c" using assms by (auto simp: plain_word_def)
  then show ?thesis using last_in_set [of "token_text t"] by (auto simp: is_word_end_def intro!: no_and_plain)
next
  case (TOK_REDIR n kd target)
  have num: "0 \<le> m \<Longrightarrow> num_text 10 False m \<noteq> [] \<and> isdigit (uchar (last (num_text 10 False m)))" for m
    using num_text_digits(1) [of m] num_text_isdigit [of m] last_in_set by blast
  have n: "0 \<le> n" using assms TOK_REDIR by simp
  show ?thesis
  proof (cases "kd = REDIR_DUP_FD")
    case True
    then have m: "0 \<le> target" using assms TOK_REDIR by simp
    have "no_and ((num_text 10 False n @ ''>'') @ CHR ''&'' # num_text 10 False target)"
      by (intro no_and_append no_and_plain no_and_one) (use num num_text_no_and n m in auto)
    then show ?thesis using True TOK_REDIR num [OF m] digit_not_space [of "last (num_text 10 False target)"] by simp
  next
    case False
    then have "no_and (num_text 10 False n @ redir_sign kd)" "redir_sign kd \<noteq> []"
        "\<not> isspace (uchar (last (redir_sign kd)))" "last (redir_sign kd) \<noteq> CHR ''&''"
      using num_text_no_and [OF n] by (cases kd; auto intro!: no_and_plain simp: isspace_def uchar_def)+
    then show ?thesis using TOK_REDIR False by simp
  qed
qed (auto simp: no_and_def)

lemma tokens_text_ok:
  assumes "\<forall>t \<in> set ts. plain_token t" "ts \<noteq> []"
  shows "no_and (tokens_text ts) \<and> tokens_text ts \<noteq> [] \<and> \<not> isspace (uchar (last (tokens_text ts))) \<and>
    last (tokens_text ts) \<noteq> CHR ''&''"
  using assms
proof (induction ts rule: tokens_text.induct)
  case (2 t)
  then show ?case using token_text_ok [of t] by simp
next
  case (3 t t' ts)
  have "no_and (token_text t)" "no_and (tokens_text (t' # ts))" using 3 token_text_ok [of t] by simp_all
  moreover have "no_and '' ''" by (rule no_and_plain) simp
  ultimately have "no_and (token_text t @ '' '' @ tokens_text (t' # ts))" by (intro no_and_append)
  with 3 show ?case by simp
qed simp

definition job_text :: "job \<Rightarrow> string" where
  "job_text job = tokens_text (job_tokens job)"

fun jobs_text :: "job list \<Rightarrow> string" where
  "jobs_text [] = []"
| "jobs_text [j] = job_text j"
| "jobs_text (j # js) = job_text j @ '' && '' @ jobs_text js"

definition line_text :: "job_list \<Rightarrow> string" where
  "line_text l = jobs_text (jobs l) @ (if background l then '' &'' else [])"

lemma job_text_ok:
  "plain_job j \<Longrightarrow> no_and (job_text j) \<and> job_text j \<noteq> [] \<and> \<not> isspace (uchar (last (job_text j))) \<and> last (job_text j) \<noteq> CHR ''&''"
  by (simp add: plain_job_def job_text_def tokens_text_ok)

lemma parse_chain_text:
  assumes "heap_always K" "\<forall>j \<in> set js. plain_job j" "js \<noteq> []" "length js0 + length js \<le> SH_MAX_CHAIN" "spaces sp"
  shows "\<exists>js' H' k'. parse_chain K E bg js0 (sp @ jobs_text js) H k = (0, \<lparr>jobs = js0 @ js', background = bg\<rparr>, H', k') \<and>
    map erase_job js' = map erase_job js"
  using assms(2-5)
proof (induction js arbitrary: js0 sp H k rule: jobs_text.induct)
  case (2 j)
  have "no_and (sp @ job_text j)"
    using "2.prems" job_text_ok [of j] by (intro no_and_append no_and_plain [of sp]) (auto simp: spaces_def)
  then have f: "find_and (sp @ job_text j) = None" by (simp add: no_and_def)
  obtain j' H' k' where "parse_segment K E (sp @ job_text j) H k = (Some j', H', k')" "erase_job j' = erase_job j"
    using parse_segment_text [OF _ assms(1) "2.prems"(4), of j "[]" E H k] "2.prems"(1) by (auto simp: job_text_def spaces_def)
  with f "2.prems"(3) show ?case by (subst parse_chain.simps) auto
next
  case (3 j j1 js)
  have ns: "no_and (sp @ job_text j @ '' '')"
    using "3.prems" job_text_ok [of j] by (intro no_and_append no_and_plain [of sp] no_and_plain [of "'' ''"]) (auto simp: spaces_def)
  have f: "find_and (sp @ jobs_text (j # j1 # js)) = Some (sp @ job_text j @ '' '', '' '' @ jobs_text (j1 # js))"
    using find_and_append [OF ns, of "''&& '' @ jobs_text (j1 # js)"] by simp
  obtain j' H1 k1 where p: "parse_segment K E (sp @ job_text j @ '' '') H k = (Some j', H1, k1)" "erase_job j' = erase_job j"
    using parse_segment_text [OF _ assms(1) "3.prems"(4), of j "'' ''" E H k] "3.prems"(1) by (auto simp: job_text_def spaces_def)
  obtain js' H' k' where "parse_chain K E bg (js0 @ [j']) ('' '' @ jobs_text (j1 # js)) H1 k1 =
      (0, \<lparr>jobs = js0 @ j' # js', background = bg\<rparr>, H', k')" "map erase_job js' = map erase_job (j1 # js)"
    using "3.IH" [of "js0 @ [j']" "'' ''" H1 k1] "3.prems" by (auto simp: spaces_def)
  with f p "3.prems"(3) show ?case by (subst parse_chain.simps) (auto intro!: exI [of _ "j' # js'"])
qed simp

section \<open>The property\<close>

lemma rtrim_last: "s \<noteq> [] \<Longrightarrow> \<not> isspace (uchar (last s)) \<Longrightarrow> rtrim s = s"
  by (cases s rule: rev_cases) (simp_all add: rtrim_def)

lemma rtrim_space: "rtrim (s @ '' '') = rtrim s"
  by (simp add: rtrim_def)

lemma jobs_text_last:
  "\<forall>j \<in> set js. plain_job j \<Longrightarrow> js \<noteq> [] \<Longrightarrow>
   jobs_text js \<noteq> [] \<and> \<not> isspace (uchar (last (jobs_text js))) \<and> last (jobs_text js) \<noteq> CHR ''&''"
proof (induction js rule: jobs_text.induct)
  case (2 j)
  then show ?case using job_text_ok [of j] by simp
qed simp_all

text \<open>C14. The parser reads back what is written in its syntax. A job list within the limits of the arrays,
  whose words contain no separator and no variable, is written with a space between tokens, \<open>|\<close> between
  stages, the descriptor in front of each redirection, \<open>&&\<close> between jobs and \<open>&\<close> at the end for the
  background; if the line fits the buffer, \<open>parse_line\<close> returns 0 and the same job list, up to the
  identity of the strings it allocated.\<close>

theorem parse_line_roundtrip:
  assumes "heap_always K" "jobs l \<noteq> []" "length (jobs l) \<le> SH_MAX_CHAIN" "\<forall>j \<in> set (jobs l). plain_job j"
    "length (line_text l) < SH_LINE_BUF"
  shows "\<exists>l' H' k'. parse_line K E (line_text l) H k = (0, l', H', k') \<and>
    map erase_job (jobs l') = map erase_job (jobs l) \<and> background l' = background l"
proof -
  let ?t = "jobs_text (jobs l)"
  note t = jobs_text_last [OF assms(4,2)]
  have r: "rtrim ?t = ?t" using t by (simp add: rtrim_last)
  have "rtrim (line_text l) = line_text l"
    using t by (intro rtrim_last) (auto simp: line_text_def)
  then have "parse_line K E (line_text l) H k = parse_chain K E (background l) [] ?t H k"
    using assms(5) t r rtrim_space [of ?t] by (simp add: parse_line_def line_text_def butlast_append)
  then show ?thesis
    using parse_chain_text [OF assms(1,4,2), of "[]" "[]" E "background l" H k] assms(3) by (auto simp: spaces_def)
qed

text \<open>The job list of \<open>sort -n < in | head 2>&1 >> log && echo 7 &\<close>.\<close>

definition roundtrip_jobs :: job_list where
  "roundtrip_jobs = \<lparr>jobs =
     [[\<lparr>argv = [(0, ''sort''), (0, ''-n'')], redirects = [\<lparr>redir_fd = 0, kind = REDIR_READ, path = Some (0, ''in''), dup_target_fd = -1\<rparr>]\<rparr>,
       \<lparr>argv = [(0, ''head'')], redirects = [\<lparr>redir_fd = 2, kind = REDIR_DUP_FD, path = None, dup_target_fd = 1\<rparr>,
         \<lparr>redir_fd = 1, kind = REDIR_APPEND, path = Some (0, ''log''), dup_target_fd = -1\<rparr>]\<rparr>],
      [\<lparr>argv = [(0, ''echo''), (0, ''7'')], redirects = []\<rparr>]],
     background = True\<rparr>"

theorem parse_line_roundtrip_witness:
  "line_text roundtrip_jobs = ''sort -n 0< in | head 2>&1 1>> log && echo 7 &'' \<and>
   (\<exists>l' H' k'. parse_line null_kernel (stack_env []) (line_text roundtrip_jobs) no_strs () = (0, l', H', k') \<and>
     map erase_job (jobs l') = map erase_job (jobs roundtrip_jobs) \<and> background l' = background roundtrip_jobs)"
proof
  show "line_text roundtrip_jobs = ''sort -n 0< in | head 2>&1 1>> log && echo 7 &''" by code_simp
  show "\<exists>l' H' k'. parse_line null_kernel (stack_env []) (line_text roundtrip_jobs) no_strs () = (0, l', H', k') \<and>
     map erase_job (jobs l') = map erase_job (jobs roundtrip_jobs) \<and> background l' = background roundtrip_jobs"
  proof (rule parse_line_roundtrip)
    show "heap_always null_kernel" by (simp add: heap_always_def null_kernel_def)
    show "jobs roundtrip_jobs \<noteq> []" "length (jobs roundtrip_jobs) \<le> SH_MAX_CHAIN" by code_simp+
    show "\<forall>j \<in> set (jobs roundtrip_jobs). plain_job j" by code_simp
    show "length (line_text roundtrip_jobs) < SH_LINE_BUF" by code_simp
  qed
qed

end
