(* ===== verification/Shell_Exec.thy ===== *)
theory Shell_Exec
  imports Shell_Parse Lines Signal
begin

text \<open>
  The executor of the shell: \<open>userspace/sh/redir.c\<close>, \<open>exec.c\<close>, \<open>builtins.c\<close> and \<open>main.c\<close>. The state is what the
  process has in memory: the context \<open>sh_ctx_t\<close>, the environment, the strings on the heap and the tables of
  the library, with the streams and the kernel. A result \<open>None\<close> stands for a read or store out of the bounds
  of an array, or for a loop that does not end. \<open>exit\<close> ends the process: functions that may reach it return
  \<open>Inl\<close> with the exit code, and \<open>Inr\<close> with their own result.
\<close>

section \<open>State\<close>

record bg_job =
  in_use :: bool
  job_pgid :: int
  bg_handles :: "int list"
  bg_pids :: "int list"
  bg_names :: "str_ptr option list"

text \<open>\<open>chains\<close> are the job lists that were handed to threads of their own, and \<open>chain_entry\<close> is the address of
  \<open>run_bg_chain\<close>.\<close>

record 'k shell =
  sh_world :: "'k world"
  sh_env :: env
  sh_strs :: ledger
  tty :: int
  shell_pid :: int
  is_session_leader :: bool
  bg_jobs :: "bg_job list"
  sh_threads :: pthread_table
  sh_sigs :: sig_state
  chains :: "job_list list"
  chain_entry :: int

text \<open>A system call of the shell, and a sequence of calls of which the results are ignored.\<close>

definition kcall :: "('k \<Rightarrow> 'a \<times> 'k) \<Rightarrow> 'k shell \<Rightarrow> 'a \<times> 'k shell" where
  "kcall f S = (let (r, k) = f (kern (sh_world S)) in (r, S\<lparr>sh_world := (sh_world S)\<lparr>kern := k\<rparr>\<rparr>))"

definition kcalls :: "('k \<Rightarrow> 'a \<times> 'k) list \<Rightarrow> 'k shell \<Rightarrow> 'k shell" where
  "kcalls fs S = fold (\<lambda>f S. snd (kcall f S)) fs S"

definition sh_printf :: "'k kernel \<Rightarrow> string \<Rightarrow> va list \<Rightarrow> 'k shell \<Rightarrow> 'k shell option" where
  "sh_printf K fmt args S = do { (_, w) \<leftarrow> printf K fmt args (sh_world S); Some (S\<lparr>sh_world := w\<rparr>) }"

section \<open>Starting a process\<close>

definition is_direct_path :: "string \<Rightarrow> bool" where
  "is_direct_path name \<longleftrightarrow> peek name 0 = CHR ''/'' \<or>
     (peek name 0 = CHR ''.'' \<and> peek name 1 = CHR ''/'') \<or>
     (peek name 0 = CHR ''.'' \<and> peek name 1 = CHR ''.'' \<and> peek name 2 = CHR ''/'')"

text \<open>The loop over the directories of \<open>PATH\<close>. The result is the handle of the first process that starts.\<close>

function path_loop :: "(string \<Rightarrow> 'k shell \<Rightarrow> int \<times> 'k shell) \<Rightarrow> string \<Rightarrow> string \<Rightarrow> 'k shell \<Rightarrow> int option \<times> 'k shell" where
  "path_loop start name [] S = (None, S)"
| "path_loop start name (c # cs) S =
     (let dir = takeWhile (\<lambda>x. x \<noteq> CHR '':'') (c # cs);
          rest = drop 1 (dropWhile (\<lambda>x. x \<noteq> CHR '':'') (c # cs))
      in if length dir > 0 \<and> length dir + 1 + length name < PATH_MAX then
           let (h, S1) = start (dir @ ''/'' @ name) S
           in if h \<ge> 0 then (Some h, S1) else path_loop start name rest S1
         else path_loop start name rest S)"
  by pat_completeness auto
termination
proof (relation "measure (\<lambda>(start, name, p, S). length p)", goal_cases)
  case 1
  then show ?case by simp
next
  case (2 start name c cs S)
  then show ?case using length_dropWhile_le [of "\<lambda>x. x \<noteq> CHR '':''" cs] by (auto simp: less_Suc_eq_le)
next
  case (3 start name c cs S)
  then show ?case using length_dropWhile_le [of "\<lambda>x. x \<noteq> CHR '':''" cs] by (auto simp: less_Suc_eq_le)
qed

definition environ_strs :: "env \<Rightarrow> string list" where
  "environ_strs E = map the (takeWhile (\<lambda>e. e \<noteq> None) (env_slots E))"

definition create_process :: "'k kernel \<Rightarrow> string list \<Rightarrow> int \<Rightarrow> 'k shell \<Rightarrow> int \<times> 'k shell" where
  "create_process K args flags S = kcall (\<lambda>k. sys_create_process K k args (environ_strs (sh_env S)) flags) S"

text \<open>\<open>argv[0]\<close> of an empty array is the null pointer, which \<open>is_direct_path\<close> dereferences.\<close>

definition sh_create_process_path_search :: "'k kernel \<Rightarrow> string list \<Rightarrow> int \<Rightarrow> 'k shell \<Rightarrow> (int \<times> 'k shell) option" where
  "sh_create_process_path_search K args flags S =
     (case args of
        [] \<Rightarrow> None
      | name # operands \<Rightarrow>
          if is_direct_path name then
            let (h, S1) = create_process K args flags S
            in if h < 0 then do { S2 \<leftarrow> sh_printf K (''sh: %s: not found'' @ [newline]) [VStr (Some name)] S1; Some (h, S2) }
               else Some (h, S1)
          else
            let (r, S1) = (case getenv (sh_env S) ''PATH'' of
                             None \<Rightarrow> (None, S)
                           | Some p \<Rightarrow> path_loop (\<lambda>cand. create_process K (cand # operands) flags) name p S)
            in case r of
                 Some h \<Rightarrow> Some (h, S1)
               | None \<Rightarrow> do { S2 \<leftarrow> sh_printf K (''sh: command not found: %s'' @ [newline]) [VStr (Some name)] S1;
                             Some (E_NOT_FOUND, S2) })"

text \<open>The redirections. The three handles of a stage are an array that \<open>cur[rd->fd]\<close> indexes unchecked.\<close>

definition open_redirect :: "'k kernel \<Rightarrow> redir_kind \<Rightarrow> string \<Rightarrow> 'k shell \<Rightarrow> int \<times> 'k shell" where
  "open_redirect K kd p S =
     (if kd = REDIR_APPEND then
        let (h1, S1) = kcall (\<lambda>k. sys_create_file K k p CREATE_FILE_EXIST_FLAG) S;
            (h2, S2) = (if h1 < 0 then kcall (\<lambda>k. sys_create_file K k p 0) S1 else (h1, S1))
        in (h2, if h2 \<ge> 0 then snd (kcall (\<lambda>k. sys_seek K k h2 0 SEEK_END) S2) else S2)
      else if kd = REDIR_READ then kcall (\<lambda>k. sys_open K k ''fs'' p 0) S
      else kcall (\<lambda>k. sys_create_file K k p 0) S)"

definition sh_resolve_redirect :: "'k kernel \<Rightarrow> redirect \<Rightarrow> int list \<Rightarrow> 'k shell \<Rightarrow> (int \<times> 'k shell) option" where
  "sh_resolve_redirect K rd cur S =
     (if kind rd = REDIR_DUP_FD then
        let t = dup_target_fd rd
        in if t < 0 \<or> t > 2 then Some (E_INVALID, S) else Some (cur ! nat t, S)
      else case path rd of
        None \<Rightarrow> None
      | Some (_, p) \<Rightarrow>
          let (h, S1) = open_redirect K (kind rd) p S
          in if h < 0 then do { S2 \<leftarrow> sh_printf K (''sh: %s: cannot open'' @ [newline]) [VStr (Some p)] S1; Some (h, S2) }
             else Some (h, S1))"

section \<open>Jobs\<close>

definition signal_name :: "int \<Rightarrow> string" where
  "signal_name sig =
     (if sig = SIGINT then ''Interrupt''
      else if sig = SIGFPE then ''Floating point exception''
      else if sig = SIGSEGV then ''Segmentation fault''
      else if sig = SIGILL then ''Illegal instruction''
      else if sig = SIGKILL then ''Killed''
      else if sig = SIGTTIN then ''Stopped (tty input)''
      else ''Unknown signal'')"

definition get_process_info :: "'k kernel \<Rightarrow> int \<Rightarrow> 'k shell \<Rightarrow> (int \<times> process_info) \<times> 'k shell" where
  "get_process_info K h S = kcall (\<lambda>k. let (st, info, k') = sys_get_process_info K k h in ((st, info), k')) S"

definition report_stage_status :: "'k kernel \<Rightarrow> string option \<Rightarrow> int \<Rightarrow> 'k shell \<Rightarrow> 'k shell option" where
  "report_stage_status K name h S =
     (let ((st, info), S1) = get_process_info K h S in
      if st < 0 then Some S1
      else if exit_reason (proc_exit info) = EXIT_SIGNAL then
        sh_printf K (''sh: %s: %s'' @ [newline])
          [VStr name, VStr (Some (signal_name (uint8 (exit_code (proc_exit info)))))] S1
      else Some S1)"

text \<open>The pipes between the stages: \<open>None\<close> when one could not be created, after the others were closed.\<close>

definition create_pipe :: "'k kernel \<Rightarrow> 'k shell \<Rightarrow> (int \<times> int \<times> int) \<times> 'k shell" where
  "create_pipe K S = kcall (\<lambda>k. let (st, r, w, k') = sys_create_pipe K k None False in ((st, r, w), k')) S"

definition close_all :: "'k kernel \<Rightarrow> int list \<Rightarrow> 'k shell \<Rightarrow> 'k shell" where
  "close_all K hs S = kcalls (map (\<lambda>h k. sys_close K k h) hs) S"

definition pipe_ends :: "(int \<times> int) list \<Rightarrow> int list" where
  "pipe_ends pipes = concat (map (\<lambda>(r, w). [r, w]) pipes)"

fun pipe_loop :: "'k kernel \<Rightarrow> nat \<Rightarrow> (int \<times> int) list \<Rightarrow> 'k shell \<Rightarrow> ((int \<times> int) list option \<times> 'k shell) option" where
  "pipe_loop K 0 pipes S = Some (Some pipes, S)"
| "pipe_loop K (Suc n) pipes S =
     (let ((st, r, w), S1) = create_pipe K S in
      if st < 0 then do {
        S2 \<leftarrow> sh_printf K (''sh: failed to create pipe'' @ [newline]) [] S1;
        Some (None, close_all K (pipe_ends pipes) S2)
      }
      else pipe_loop K n (pipes @ [(r, w)]) S1)"

text \<open>The redirections of one stage: the three handles, whether one of the redirections failed, and the files
  opened so far.\<close>

fun redirect_loop :: "'k kernel \<Rightarrow> redirect list \<Rightarrow> int list \<Rightarrow> bool \<Rightarrow> int list \<Rightarrow> 'k shell \<Rightarrow>
    (int list \<times> bool \<times> int list \<times> 'k shell) option" where
  "redirect_loop K [] cur failed opened S = Some (cur, failed, opened, S)"
| "redirect_loop K (rd # rds) cur failed opened S = do {
     (resolved, S1) \<leftarrow> sh_resolve_redirect K rd cur S;
     if resolved < 0 then redirect_loop K rds cur True opened S1
     else if redir_fd rd < 0 \<or> redir_fd rd > 2 then None
     else redirect_loop K rds (cur[nat (redir_fd rd) := resolved]) failed
       (if kind rd \<noteq> REDIR_DUP_FD then opened @ [resolved] else opened) S1
   }"

text \<open>What the loop over the stages has filled in: the arrays \<open>stage_handles\<close>, \<open>stage_pids\<close> and
  \<open>stage_names\<close>, of \<open>created\<close> entries, the process group and the opened files.\<close>

record spawned =
  stage_handles :: "int list"
  stage_pids :: "int list"
  stage_names :: "string list"
  stage_pgid :: int
  opened_files :: "int list"

definition spawn_cur :: "int \<Rightarrow> (int \<times> int) list \<Rightarrow> nat \<Rightarrow> nat \<Rightarrow> int list" where
  "spawn_cur t pipes stage_total created =
     [if created = 0 then t else fst (pipes ! (created - 1)),
      if created = stage_total - 1 then t else snd (pipes ! created), t]"

definition duplicate_std :: "'k kernel \<Rightarrow> int \<Rightarrow> int list \<Rightarrow> 'k shell \<Rightarrow> 'k shell" where
  "duplicate_std K h cur S =
     kcalls [\<lambda>k. sys_duplicate_handle K k h (cur ! 0) 0 True, \<lambda>k. sys_duplicate_handle K k h (cur ! 1) 1 True,
             \<lambda>k. sys_duplicate_handle K k h (cur ! 2) 2 True] S"

text \<open>The process group of a new process: its own for the first stage, that of the first stage otherwise.\<close>

definition join_group :: "'k kernel \<Rightarrow> int \<Rightarrow> spawned \<Rightarrow> 'k shell \<Rightarrow> int \<times> 'k shell" where
  "join_group K h sp S =
     (let ((_, info), S1) = get_process_info K h S;
          (_, S2) = kcall (\<lambda>k. sys_set_pgrp K k h (if stage_handles sp = [] then 0 else stage_pgid sp)) S1
      in (proc_id info, S2))"

definition add_stage :: "int \<Rightarrow> int \<Rightarrow> string \<Rightarrow> int list \<Rightarrow> spawned \<Rightarrow> spawned" where
  "add_stage h pid name opened sp =
     \<lparr>stage_handles = stage_handles sp @ [h], stage_pids = stage_pids sp @ [pid], stage_names = stage_names sp @ [name],
      stage_pgid = (if stage_handles sp = [] then pid else stage_pgid sp), opened_files = opened\<rparr>"

definition spawn_stage :: "'k kernel \<Rightarrow> (int \<times> int) list \<Rightarrow> nat \<Rightarrow> stage \<Rightarrow> spawned \<Rightarrow> 'k shell \<Rightarrow>
    (bool \<times> spawned \<times> 'k shell) option" where
  "spawn_stage K pipes stage_total st sp S = do {
     (h, S1) \<leftarrow> sh_create_process_path_search K (map snd (argv st)) PROCESS_SUSPEND_FLAG S;
     if h < 0 then Some (True, sp, S1)
     else do {
       let (pid, S2) = join_group K h sp S1;
       (cur, failed, opened, S3) \<leftarrow>
         redirect_loop K (redirects st) (spawn_cur (tty S2) pipes stage_total (length (stage_handles sp))) False (opened_files sp) S2;
       Some (failed, add_stage h pid (snd (hd (argv st))) opened sp, duplicate_std K h cur S3)
     }
   }"

fun spawn_loop :: "'k kernel \<Rightarrow> (int \<times> int) list \<Rightarrow> nat \<Rightarrow> stage list \<Rightarrow> spawned \<Rightarrow> 'k shell \<Rightarrow>
    (bool \<times> spawned \<times> 'k shell) option" where
  "spawn_loop K pipes stage_total [] sp S = Some (False, sp, S)"
| "spawn_loop K pipes stage_total (st # sts) sp S = do {
     (aborted, sp', S') \<leftarrow> spawn_stage K pipes stage_total st sp S;
     if aborted then Some (True, sp', S') else spawn_loop K pipes stage_total sts sp' S'
   }"

definition kill_and_close :: "'k kernel \<Rightarrow> (int \<times> int) list \<Rightarrow> 'k shell \<Rightarrow> 'k shell" where
  "kill_and_close K ps S =
     kcalls (concat (map (\<lambda>(pid, h). [\<lambda>k. sys_issue_signal K k (int64 pid) SIGKILL, \<lambda>k. sys_close K k h]) ps)) S"

definition none_spawned :: spawned where
  "none_spawned = \<lparr>stage_handles = [], stage_pids = [], stage_names = [], stage_pgid = 0, opened_files = []\<rparr>"

text \<open>The first result is \<open>aborted\<close>.\<close>

definition spawn_stages :: "'k kernel \<Rightarrow> job \<Rightarrow> 'k shell \<Rightarrow> (bool \<times> spawned \<times> 'k shell) option" where
  "spawn_stages K job S = do {
     (r, S1) \<leftarrow> pipe_loop K (length job - 1) [] S;
     case r of
       None \<Rightarrow> Some (True, none_spawned, S1)
     | Some pipes \<Rightarrow> do {
         (aborted, sp, S2) \<leftarrow> spawn_loop K pipes (length job) job none_spawned S1;
         let S3 = close_all K (pipe_ends pipes) S2;
         let S4 = close_all K (opened_files sp) S3;
         Some (aborted, sp, if aborted then kill_and_close K (zip (stage_pids sp) (stage_handles sp)) S4 else S4)
       }
   }"

definition resume_all :: "'k kernel \<Rightarrow> int list \<Rightarrow> 'k shell \<Rightarrow> 'k shell" where
  "resume_all K hs S = kcalls (map (\<lambda>h k. sys_resume_process K k h) hs) S"

text \<open>The loop that reports and closes the stages; the status is that of the last one.\<close>

fun finish_loop :: "'k kernel \<Rightarrow> (string \<times> int) list \<Rightarrow> int \<Rightarrow> 'k shell \<Rightarrow> (int \<times> 'k shell) option" where
  "finish_loop K [] status S = Some (status, S)"
| "finish_loop K ((name, h) # rest) status S = do {
     let ((st, info), S1) = get_process_info K h S;
     S2 \<leftarrow> report_stage_status K (Some name) h S1;
     let status' = (if rest = [] \<and> st \<ge> 0
                    then (if exit_reason (proc_exit info) = EXIT_NORMAL \<and> exit_code (proc_exit info) = 0 then 0 else 1)
                    else status);
     finish_loop K rest status' (snd (kcall (\<lambda>k. sys_close K k h) S2))
   }"

definition exec_job_fg :: "'k kernel \<Rightarrow> job \<Rightarrow> bool \<Rightarrow> 'k shell \<Rightarrow> (int \<times> 'k shell) option" where
  "exec_job_fg K job grab_fg S = do {
     (aborted, sp, S1) \<leftarrow> spawn_stages K job S;
     if aborted then Some (-1, S1)
     else do {
       let S2 = (if grab_fg then snd (kcall (\<lambda>k. sys_device_control K k (tty S1) SET_FOREGROUND_PGRP (stage_pgid sp)) S1)
                 else S1);
       let S3 = resume_all K (stage_handles sp) S2;
       let S4 = kcalls (map (\<lambda>h k. sys_wait K k h (-1)) (stage_handles sp)) S3;
       let S5 = (if grab_fg then
                   kcalls [\<lambda>k. sys_device_control K k (tty S4) SET_FOREGROUND_PGRP (shell_pid S4),
                           \<lambda>k. sys_device_control K k (tty S4) SET_TTY_MODE (or TTY_MODE_ECHO TTY_MODE_CANON)] S4
                 else S4);
       finish_loop K (zip (stage_names sp) (stage_handles sp)) 0 S5
     }
   }"

section \<open>Background jobs\<close>

fun free_slot :: "bg_job list \<Rightarrow> nat option" where
  "free_slot [] = None"
| "free_slot (bg # bgs) = (if \<not> in_use bg then Some 0 else map_option Suc (free_slot bgs))"

fun strdup_all :: "'k kernel \<Rightarrow> string list \<Rightarrow> 'k shell \<Rightarrow> str_ptr option list \<times> 'k shell" where
  "strdup_all K [] S = ([], S)"
| "strdup_all K (s # ss) S =
     (let (p, H, k) = sh_strdup K s (sh_strs S) (kern (sh_world S));
          (ps, S1) = strdup_all K ss (S\<lparr>sh_strs := H, sh_world := (sh_world S)\<lparr>kern := k\<rparr>\<rparr>)
      in (p # ps, S1))"

definition exec_job_bg :: "'k kernel \<Rightarrow> job \<Rightarrow> 'k shell \<Rightarrow> 'k shell option" where
  "exec_job_bg K job S = do {
     (aborted, sp, S1) \<leftarrow> spawn_stages K job S;
     if aborted then Some S1
     else do {
       let S2 = resume_all K (stage_handles sp) S1;
       case free_slot (bg_jobs S2) of
         None \<Rightarrow> do {
           S3 \<leftarrow> sh_printf K (''sh: too many background jobs'' @ [newline]) [] S2;
           Some (kill_and_close K (zip (stage_pids sp) (stage_handles sp)) S3)
         }
       | Some slot \<Rightarrow> do {
           let (names, S3) = strdup_all K (stage_names sp) S2;
           let bg = \<lparr>in_use = True, job_pgid = stage_pgid sp, bg_handles = stage_handles sp, bg_pids = stage_pids sp,
                     bg_names = names\<rparr>;
           sh_printf K (''[%d] %zu'' @ [newline]) [VInt (int slot + 1), VLong (stage_pgid sp)]
             (S3\<lparr>bg_jobs := (bg_jobs S3)[slot := bg]\<rparr>)
         }
     }
   }"

fun all_done :: "'k kernel \<Rightarrow> int list \<Rightarrow> 'k shell \<Rightarrow> bool \<times> 'k shell" where
  "all_done K [] S = (True, S)"
| "all_done K (h # hs) S =
     (let (st, S1) = kcall (\<lambda>k. sys_wait K k h 0) S in if st \<noteq> E_SUCCESS then (False, S1) else all_done K hs S1)"

fun reap_stages :: "'k kernel \<Rightarrow> (str_ptr option \<times> int) list \<Rightarrow> 'k shell \<Rightarrow> 'k shell option" where
  "reap_stages K [] S = Some S"
| "reap_stages K ((name, h) # rest) S = do {
     S1 \<leftarrow> report_stage_status K (map_option snd name) h S;
     let S2 = snd (kcall (\<lambda>k. sys_close K k h) S1);
     reap_stages K rest (S2\<lparr>sh_strs := free_str name (sh_strs S2)\<rparr>)
   }"

definition reap_slot :: "'k kernel \<Rightarrow> nat \<Rightarrow> 'k shell \<Rightarrow> 'k shell option" where
  "reap_slot K i S =
     (let bg = bg_jobs S ! i in
      if \<not> in_use bg then Some S
      else let (fin, S1) = all_done K (bg_handles bg) S in
        if \<not> fin then Some S1
        else do {
          S2 \<leftarrow> sh_printf K (''[%d]+ Done %zu'' @ [newline]) [VInt (int i + 1), VLong (job_pgid bg)] S1;
          S3 \<leftarrow> reap_stages K (zip (bg_names bg) (bg_handles bg)) S2;
          Some (S3\<lparr>bg_jobs := (bg_jobs S3)[i := bg\<lparr>in_use := False\<rparr>]\<rparr>)
        })"

fun reap_loop :: "'k kernel \<Rightarrow> nat list \<Rightarrow> 'k shell \<Rightarrow> 'k shell option" where
  "reap_loop K [] S = Some S"
| "reap_loop K (i # is) S = do { S1 \<leftarrow> reap_slot K i S; reap_loop K is S1 }"

definition sh_reap_background_jobs :: "'k kernel \<Rightarrow> 'k shell \<Rightarrow> 'k shell option" where
  "sh_reap_background_jobs K S = reap_loop K [0..<SH_MAX_BG_JOBS] S"

section \<open>Builtins\<close>

definition builtin_cd :: "'k kernel \<Rightarrow> string list \<Rightarrow> 'k shell \<Rightarrow> (int \<times> 'k shell) option" where
  "builtin_cd K args S =
     (let target = (if length args > 1 then args ! 1 else ''/'');
          (st, S1) = kcall (\<lambda>k. sys_chdir K k target) S
      in if st < 0 then do {
           S2 \<leftarrow> sh_printf K (''sh: cd: %s: No such directory'' @ [newline]) [VStr (Some target)] S1;
           Some (1, S2)
         }
         else Some (0, S1))"

definition builtin_pwd :: "'k kernel \<Rightarrow> 'k shell \<Rightarrow> 'k shell option" where
  "builtin_pwd K S =
     (let ((st, buf), S1) = kcall (\<lambda>k. let (st, buf, k') = sys_getcwd K k PATH_MAX in ((st, buf), k')) S
      in if st < 0 then sh_printf K (''sh: pwd: failed'' @ [newline]) [] S1
         else sh_printf K (''%s'' @ [newline]) [VStr (Some buf)] S1)"

text \<open>The memory that \<open>setenv\<close> asks for, from the outcome of \<open>malloc\<close> and \<open>realloc\<close>.\<close>

definition heap_allocator :: "'k kernel \<Rightarrow> 'k allocator" where
  "heap_allocator K =
     \<lparr>alloc_slots = \<lambda>k n. let (ok, k') = heap_ok K k (8 * n) in (if ok then Some (replicate n None) else None, k'),
      alloc_bytes = heap_ok K\<rparr>"

fun export_loop :: "'k kernel \<Rightarrow> string list \<Rightarrow> 'k shell \<Rightarrow> 'k shell option" where
  "export_loop K [] S = Some S"
| "export_loop K (a # as) S =
     (if CHR ''='' \<notin> set a then export_loop K as S
      else do {
        (_, E, k) \<leftarrow> setenv (heap_allocator K) (kern (sh_world S)) (sh_env S)
          (takeWhile (\<lambda>c. c \<noteq> CHR ''='') a) (drop 1 (dropWhile (\<lambda>c. c \<noteq> CHR ''='') a)) True;
        export_loop K as (S\<lparr>sh_env := E, sh_world := (sh_world S)\<lparr>kern := k\<rparr>\<rparr>)
      })"

definition builtin_export :: "'k kernel \<Rightarrow> string list \<Rightarrow> 'k shell \<Rightarrow> 'k shell option" where
  "builtin_export K args S = export_loop K (drop 1 args) S"

text \<open>\<open>run_script\<close> is \<open>sh_run_script\<close>: the exit code, or \<open>None\<close> for a file that cannot be opened, or the
  status.\<close>

type_synonym 'k script_runner = "string \<Rightarrow> 'k shell \<Rightarrow> ((int + int option) \<times> 'k shell) option"

definition builtin_source :: "'k kernel \<Rightarrow> 'k script_runner \<Rightarrow> string list \<Rightarrow> 'k shell \<Rightarrow> ((int + int) \<times> 'k shell) option" where
  "builtin_source K run_script args S =
     (if length args < 2 then do {
        S1 \<leftarrow> sh_printf K (''sh: source: missing file operand'' @ [newline]) [] S;
        Some (Inr 1, S1)
      }
      else do {
        (r, S1) \<leftarrow> run_script (args ! 1) S;
        case r of
          Inl code \<Rightarrow> Some (Inl code, S1)
        | Inr None \<Rightarrow> do {
            S2 \<leftarrow> sh_printf K (''sh: source: %s: No such file or directory'' @ [newline]) [VStr (Some (args ! 1))] S1;
            Some (Inr 1, S2)
          }
        | Inr (Some status) \<Rightarrow> Some (Inr status, S1)
      })"

definition kill_pids :: "'k kernel \<Rightarrow> bg_job \<Rightarrow> 'k shell \<Rightarrow> 'k shell" where
  "kill_pids K bg S =
     (if in_use bg then kcalls (map (\<lambda>pid k. sys_issue_signal K k (int64 pid) SIGKILL) (bg_pids bg)) S else S)"

definition builtin_exit :: "'k kernel \<Rightarrow> 'k shell \<Rightarrow> (int + int) \<times> 'k shell" where
  "builtin_exit K S = (Inl 0, fold (kill_pids K) (bg_jobs S) S)"

text \<open>\<open>None\<close> inside the result: not a builtin.\<close>

definition sh_run_builtin :: "'k kernel \<Rightarrow> 'k script_runner \<Rightarrow> string list \<Rightarrow> 'k shell \<Rightarrow> ((int + int) option \<times> 'k shell) option" where
  "sh_run_builtin K run_script args S =
     (case args of
        [] \<Rightarrow> Some (Some (Inr 0), S)
      | name # _ \<Rightarrow>
          if name = ''cd'' then do { (status, S1) \<leftarrow> builtin_cd K args S; Some (Some (Inr status), S1) }
          else if name = ''pwd'' then do { S1 \<leftarrow> builtin_pwd K S; Some (Some (Inr 0), S1) }
          else if name = ''export'' then do { S1 \<leftarrow> builtin_export K args S; Some (Some (Inr 0), S1) }
          else if name = ''source'' then do { (r, S1) \<leftarrow> builtin_source K run_script args S; Some (Some r, S1) }
          else if name = ''exit'' then let (r, S1) = builtin_exit K S in Some (Some r, S1)
          else Some (None, S))"

section \<open>Command lines\<close>

definition run_job :: "'k kernel \<Rightarrow> 'k script_runner \<Rightarrow> job \<Rightarrow> bool \<Rightarrow> 'k shell \<Rightarrow> ((int + int) \<times> 'k shell) option" where
  "run_job K run_script job grab_fg S = do {
     (r, S1) \<leftarrow> (if length job = 1 \<and> redirects (job ! 0) = []
                then sh_run_builtin K run_script (map snd (argv (job ! 0))) S else Some (None, S));
     case r of
       Some res \<Rightarrow> Some (res, S1)
     | None \<Rightarrow> do { (status, S2) \<leftarrow> exec_job_fg K job grab_fg S1; Some (Inr status, S2) }
   }"

text \<open>The loop over the jobs of a chain, which ends at the first status that is not 0.\<close>

fun chain_loop :: "'k kernel \<Rightarrow> 'k script_runner \<Rightarrow> job list \<Rightarrow> bool \<Rightarrow> int \<Rightarrow> 'k shell \<Rightarrow> ((int + int) \<times> 'k shell) option" where
  "chain_loop K run_script [] grab_fg status S = Some (Inr status, S)"
| "chain_loop K run_script (job # rest) grab_fg status S = do {
     (r, S1) \<leftarrow> run_job K run_script job grab_fg S;
     case r of
       Inl code \<Rightarrow> Some (Inl code, S1)
     | Inr status' \<Rightarrow> if status' \<noteq> 0 then Some (Inr status', S1) else chain_loop K run_script rest grab_fg status' S1
   }"

definition free_list :: "job_list \<Rightarrow> 'k shell \<Rightarrow> 'k shell" where
  "free_list l S = S\<lparr>sh_strs := job_list_free l (sh_strs S)\<rparr>"

text \<open>The body of the thread of a chain, when no other thread of the shell runs.\<close>

definition run_bg_chain :: "'k kernel \<Rightarrow> 'k script_runner \<Rightarrow> job_list \<Rightarrow> 'k shell \<Rightarrow> ((int + unit) \<times> 'k shell) option" where
  "run_bg_chain K run_script l S = do {
     (r, S1) \<leftarrow> chain_loop K run_script (jobs l) False 0 S;
     case r of
       Inl code \<Rightarrow> Some (Inl code, S1)
     | Inr _ \<Rightarrow> do {
         S2 \<leftarrow> sh_printf K (''[bg]+ Done'' @ [newline]) [] S1;
         Some (Inr (), free_list l S2)
       }
   }"

text \<open>\<open>sizeof(bg_chain_ctx_t)\<close>: a pointer and a \<open>job_list_t\<close>.\<close>

definition BG_CHAIN_SIZE :: nat where
  "BG_CHAIN_SIZE = 8 + (8 * (8 * (17 * 8 + 8 + 4 * 24 + 8) + 8) + 8)"

text \<open>The job list that is returned is the one the caller frees: it is empty once a thread or this function
  owns the jobs.\<close>

definition run_job_list :: "'k kernel \<Rightarrow> 'k script_runner \<Rightarrow> job_list \<Rightarrow> 'k shell \<Rightarrow>
    ((int + int) \<times> job_list \<times> 'k shell) option" where
  "run_job_list K run_script l S =
     (if length (jobs l) = 1 then
        if background l then do { S1 \<leftarrow> exec_job_bg K (jobs l ! 0) S; Some (Inr 0, l, S1) }
        else do { (r, S1) \<leftarrow> run_job K run_script (jobs l ! 0) True S; Some (r, l, S1) }
      else if \<not> background l then do { (r, S1) \<leftarrow> chain_loop K run_script (jobs l) True 0 S; Some (r, l, S1) }
      else let (got, S1) = kcall (\<lambda>k. heap_ok K k BG_CHAIN_SIZE) S in
        if \<not> got then do {
          S2 \<leftarrow> sh_printf K (''sh: out of memory, running chain in foreground'' @ [newline]) [] S1;
          (r, S3) \<leftarrow> chain_loop K run_script (jobs l) True 0 S2;
          Some (r, l, S3)
        }
        else do {
          let moved = l\<lparr>jobs := []\<rparr>;
          (rc, tid, T, k) \<leftarrow> pthread_create K (chain_entry S1) (int (length (chains S1))) (sh_threads S1) (kern (sh_world S1));
          let S2 = S1\<lparr>sh_threads := T, sh_world := (sh_world S1)\<lparr>kern := k\<rparr>\<rparr>;
          if rc \<noteq> 0 then do {
            S3 \<leftarrow> sh_printf K (''sh: failed to background chain, running in foreground'' @ [newline]) [] S2;
            (r, S4) \<leftarrow> chain_loop K run_script (jobs l) True 0 S3;
            case r of
              Inl code \<Rightarrow> Some (Inl code, moved, S4)
            | Inr status \<Rightarrow> Some (Inr status, moved, free_list l S4)
          }
          else do {
            (_, T2, k2) \<leftarrow> pthread_detach K (the tid) T k;
            S3 \<leftarrow> sh_printf K (''[bg] chain started'' @ [newline]) []
              (S2\<lparr>sh_threads := T2, sh_world := (sh_world S2)\<lparr>kern := k2\<rparr>, chains := chains S2 @ [l]\<rparr>);
            Some (Inr 0, moved, S3)
          }
        })"

definition sh_run_line :: "'k kernel \<Rightarrow> 'k script_runner \<Rightarrow> string \<Rightarrow> 'k shell \<Rightarrow> ((int + int) \<times> 'k shell) option" where
  "sh_run_line K run_script line S =
     (let (rc, l, H, k) = parse_line K (sh_env S) line (sh_strs S) (kern (sh_world S));
          S1 = S\<lparr>sh_strs := H, sh_world := (sh_world S)\<lparr>kern := k\<rparr>\<rparr>
      in if rc = 0 then do {
           (r, l', S2) \<leftarrow> run_job_list K run_script l S1;
           case r of
             Inl code \<Rightarrow> Some (Inl code, S2)
           | Inr status \<Rightarrow> do { S3 \<leftarrow> sh_reap_background_jobs K (free_list l' S2); Some (Inr status, S3) }
         }
         else if rc < 0 then do {
           S2 \<leftarrow> sh_printf K (''sh: syntax error'' @ [newline]) [] S1;
           S3 \<leftarrow> sh_reap_background_jobs K S2;
           Some (Inr 1, S3)
         }
         else do { S2 \<leftarrow> sh_reap_background_jobs K S1; Some (Inr 0, S2) })"

section \<open>Scripts\<close>

text \<open>The line reader is the one of \<open>cat.c\<close>, without the flag for the newline. A line ends for the parser at
  a NUL byte.\<close>

definition read_script_line :: "'k kernel \<Rightarrow> fptr \<Rightarrow> 'k shell \<Rightarrow> ((int \<times> string) \<times> 'k shell) option" where
  "read_script_line K f S = do {
     ((rc, buf, _), w) \<leftarrow> read_line K f (sh_world S);
     Some ((rc, takeWhile (\<lambda>c. c \<noteq> NUL) buf), S\<lparr>sh_world := w\<rparr>)
   }"

partial_function (option) script_loop ::
  "('k shell \<Rightarrow> ((int \<times> string) \<times> 'k shell) option) \<Rightarrow> (string \<Rightarrow> 'k shell \<Rightarrow> ((int + int) \<times> 'k shell) option) \<Rightarrow>
   int \<Rightarrow> 'k shell \<Rightarrow> ((int + int) \<times> 'k shell) option" where
  "script_loop rd run_line status S = do {
     ((rc, line), S1) \<leftarrow> rd S;
     if rc \<le> 0 then Some (Inr status, S1)
     else do {
       (r, S2) \<leftarrow> run_line line S1;
       case r of
         Inl code \<Rightarrow> Some (Inl code, S2)
       | Inr status' \<Rightarrow> script_loop rd run_line status' S2
     }
   }"

declare script_loop.simps [code]

text \<open>The first argument bounds how deep scripts source one another, as the stack does in the program:
  \<open>None\<close> when it is exceeded.\<close>

fun sh_run_script :: "nat \<Rightarrow> 'k kernel \<Rightarrow> 'k script_runner" where
  "sh_run_script 0 K pth S = None"
| "sh_run_script (Suc depth) K pth S =
     (let (f, w) = fopen K (Some pth) (Some ''r'') (sh_world S);
          S1 = S\<lparr>sh_world := w\<rparr>
      in if f = None then Some (Inr None, S1)
         else do {
           (r, S2) \<leftarrow> script_loop (read_script_line K f) (sh_run_line K (sh_run_script depth K)) 0 S1;
           case r of
             Inl code \<Rightarrow> Some (Inl code, S2)
           | Inr status \<Rightarrow> Some (Inr (Some status), S2\<lparr>sh_world := snd (fclose K f (sh_world S2))\<rparr>)
         })"

section \<open>The interactive shell\<close>

definition LINE_BUF_SIZE :: nat where "LINE_BUF_SIZE = 256"

text \<open>The lines that the terminal delivers: \<open>None\<close> inside the result after an interruption.\<close>

partial_function (option) sh_read_loop :: "'k kernel \<Rightarrow> nat \<Rightarrow> string \<Rightarrow> 'k shell \<Rightarrow> (string option \<times> 'k shell) option" where
  "sh_read_loop K line_cap line S =
     (let ((ret, bs), S1) = kcall (\<lambda>k. let (st, bs, k') = sys_read K k (tty S) (line_cap - 1 - length line) in ((st, bs), k')) S
      in if ret = E_WAIT_INTERRUPTED then do { S2 \<leftarrow> sh_printf K ([newline] @ ''$ '') [] S1; Some (None, S2) }
         else if ret < 0 \<or> bs = [] then sh_read_loop K line_cap line S1
         else let line' = line @ bs
              in if last line' = newline \<or> length line' \<ge> line_cap - 1 then Some (Some line', S1)
                 else sh_read_loop K line_cap line' S1)"

declare sh_read_loop.simps [code]

definition sh_read_line :: "'k kernel \<Rightarrow> nat \<Rightarrow> 'k shell \<Rightarrow> (string option \<times> 'k shell) option" where
  "sh_read_line K line_cap S = do {
     (r, S1) \<leftarrow> sh_read_loop K line_cap [] S;
     Some (map_option (\<lambda>line. takeWhile (\<lambda>c. c \<noteq> NUL) (if line \<noteq> [] \<and> last line = newline then butlast line else line)) r, S1)
   }"

text \<open>The prompt, which only \<open>exit\<close> leaves.\<close>

partial_function (option) sh_prompt :: "nat \<Rightarrow> 'k kernel \<Rightarrow> 'k shell \<Rightarrow> (int \<times> 'k shell) option" where
  "sh_prompt depth K S = do {
     (line, S1) \<leftarrow> sh_read_line K LINE_BUF_SIZE S;
     case line of
       None \<Rightarrow> sh_prompt depth K S1
     | Some l \<Rightarrow> do {
         (r, S2) \<leftarrow> sh_run_line K (sh_run_script depth K) l S1;
         case r of
           Inl code \<Rightarrow> Some (code, S2)
         | Inr _ \<Rightarrow> do { S3 \<leftarrow> sh_printf K ''$ '' [] S2; sh_prompt depth K S3 }
       }
   }"

declare sh_prompt.simps [code]

text \<open>Taking the terminal: the message of the step that failed, if one did.\<close>

definition lead_session :: "'k kernel \<Rightarrow> 'k shell \<Rightarrow> string option \<times> 'k shell" where
  "lead_session K S =
     (let (st1, S1) = kcall (\<lambda>k. sys_set_session_leader K k (-1)) S in
      if st1 < 0 then (Some ''sh: Unable to create new session!'', S1)
      else let (st2, S2) = kcall (\<lambda>k. sys_device_control K k (tty S1) SET_CTTY (shell_pid S1)) S1 in
      if st2 < 0 then (Some ''sh: Unable to set controlling tty for this session!'', S2)
      else let (st3, S3) = kcall (\<lambda>k. sys_device_control K k (tty S2) SET_FOREGROUND_PGRP (shell_pid S2)) S2 in
      if st3 < 0 then (Some ''sh: Unable to set sh as foreground process!'', S3)
      else (None, S3))"

definition empty_slot :: bg_job where
  "empty_slot = \<lparr>in_use = False, job_pgid = 0, bg_handles = [], bg_pids = [], bg_names = []\<rparr>"

text \<open>The context that \<open>main\<close> sets up: the terminal, the process id and whether this is the first shell.\<close>

definition sh_context :: "'k kernel \<Rightarrow> 'k shell \<Rightarrow> 'k shell" where
  "sh_context K S =
     (let (pid, S1) = kcall (\<lambda>k. sys_get_pid K k) S;
          (ev, S2) = kcall (\<lambda>k. sys_create_sync_object K k SYNC_EVENT 0 0 (Some ''sh.session_leader'')) S1
      in S2\<lparr>shell_pid := pid, is_session_leader := (ev \<ge> 0)\<rparr>)"

text \<open>The address of \<open>sigint_handler\<close>, which does nothing, is a parameter.\<close>

definition sh_main :: "nat \<Rightarrow> 'k kernel \<Rightarrow> int \<Rightarrow> string list \<Rightarrow> 'k shell \<Rightarrow> (int \<times> 'k shell) option" where
  "sh_main depth K sigint_handler args S0 = do {
     S1 \<leftarrow> sh_printf K (''sh: Starting shell process!'' @ [newline]) []
       (S0\<lparr>bg_jobs := replicate SH_MAX_BG_JOBS empty_slot, shell_pid := 0, is_session_leader := False\<rparr>);
     let (t, S2) = kcall (\<lambda>k. sys_open K k ''device'' ''tty'' 0) S1;
     if t < 0 then do { S3 \<leftarrow> sh_printf K (''sh: Unable to open tty device!'' @ [newline]) [] S2; Some (-1, S3) }
     else do {
       let S3 = sh_context K (S2\<lparr>tty := t\<rparr>);
       let (failure, S4) = (if is_session_leader S3 then lead_session K S3 else (None, S3));
       case failure of
         Some msg \<Rightarrow> do { S5 \<leftarrow> sh_printf K (msg @ [newline]) [] S4; Some (-1, S5) }
       | None \<Rightarrow> do {
           (_, sigs, k) \<leftarrow> set_signal_handler K (nat SIGINT) sigint_handler 0 (sh_sigs S4) (kern (sh_world S4));
           let S5 = S4\<lparr>sh_sigs := sigs, sh_world := (sh_world S4)\<lparr>kern := k\<rparr>\<rparr>;
           if length args > 1 then do {
             (r, S6) \<leftarrow> sh_run_script depth K (args ! 1) S5;
             case r of
               Inl code \<Rightarrow> Some (code, S6)
             | Inr None \<Rightarrow> do {
                 S7 \<leftarrow> sh_printf K (''sh: %s: No such file or directory'' @ [newline]) [VStr (Some (args ! 1))] S6;
                 Some (1, S7)
               }
             | Inr (Some status) \<Rightarrow> Some (status, S6)
           }
           else do {
             (r, S6) \<leftarrow> sh_run_script depth K ''/conf/init_sh'' S5;
             case r of
               Inl code \<Rightarrow> Some (code, S6)
             | Inr _ \<Rightarrow> do { S7 \<leftarrow> sh_printf K ''$ '' [] S6; sh_prompt depth K S7 }
           }
         }
     }
   }"

end
