(* ===== verification/Shell_Exec_Props.thy ===== *)
theory Shell_Exec_Props
  imports Shell_Exec Shell_Parse_Props
begin

text \<open>
  Lemmas on the executor that the properties share: the search along \<open>PATH\<close> as a search through a list of
  candidates, and which functions leave the memory of the process alone.
\<close>

section \<open>The search along PATH\<close>

text \<open>The command names that the directories of \<open>PATH\<close> give.\<close>

definition candidates :: "string \<Rightarrow> string \<Rightarrow> string list" where
  "candidates p name =
     map (\<lambda>dir. dir @ ''/'' @ name) (filter (\<lambda>dir. dir \<noteq> [] \<and> length dir + 1 + length name < PATH_MAX) (split_on (CHR '':'') p))"

text \<open>The first candidate that starts.\<close>

fun first_start :: "('a \<Rightarrow> 'k shell \<Rightarrow> int \<times> 'k shell) \<Rightarrow> 'a list \<Rightarrow> 'k shell \<Rightarrow> int option \<times> 'k shell" where
  "first_start start [] S = (None, S)"
| "first_start start (c # cs) S =
     (let (h, S1) = start c S in if h \<ge> 0 then (Some h, S1) else first_start start cs S1)"

lemma candidates_Nil: "candidates [] name = []"
  by (simp add: candidates_def)

lemma candidates_step:
  "candidates p name =
     (let dir = takeWhile (\<lambda>c. c \<noteq> CHR '':'') p in
      if length dir > 0 \<and> length dir + 1 + length name < PATH_MAX then [dir @ ''/'' @ name] else []) @
     candidates (drop 1 (dropWhile (\<lambda>c. c \<noteq> CHR '':'') p)) name"
proof -
  let ?rest = "dropWhile (\<lambda>c. c \<noteq> CHR '':'') p"
  have "split_on (CHR '':'') p = takeWhile (\<lambda>c. c \<noteq> CHR '':'') p # (case ?rest of [] \<Rightarrow> [] | _ # rest \<Rightarrow> split_on (CHR '':'') rest)"
    by (rule split_on_step)
  then show ?thesis by (cases ?rest) (simp_all only: candidates_def Let_def list.case filter.simps split_on.simps, auto)
qed

lemma path_loop_candidates: "path_loop start name p S = first_start start (candidates p name) S"
proof (induction start name p S rule: path_loop.induct)
  case (2 start name c cs S)
  let ?dir = "takeWhile (\<lambda>x. x \<noteq> CHR '':'') (c # cs)" and ?rest = "drop 1 (dropWhile (\<lambda>x. x \<noteq> CHR '':'') (c # cs))"
  show ?case
  proof (cases "length ?dir > 0 \<and> length ?dir + 1 + length name < PATH_MAX")
    case True
    obtain h S1 where s: "start (?dir @ ''/'' @ name) S = (h, S1)" by (cases "start (?dir @ ''/'' @ name) S")
    have "path_loop start name ?rest S1 = first_start start (candidates ?rest name) S1" if "\<not> 0 \<le> h"
      by (rule 2(1) [OF refl refl True s [symmetric] refl that])
    then show ?thesis
      by (subst path_loop.simps, subst candidates_step) (cases "0 \<le> h"; simp only: Let_def True simp_thms if_True if_False s [unfolded append.simps] prod.case append.simps first_start.simps)
  next
    case False
    have "path_loop start name ?rest S = first_start start (candidates ?rest name) S"
      by (rule 2(2) [OF refl refl False])
    then show ?thesis
      by (subst path_loop.simps, subst candidates_step) (simp only: Let_def False if_False append.simps)
  qed
qed (simp add: candidates_Nil)

lemma length_candidates: "c \<in> set (candidates p name) \<Longrightarrow> length c < PATH_MAX"
  by (auto simp: candidates_def)

lemma first_start_map: "first_start start (map f cs) S = first_start (start \<circ> f) cs S"
  by (induction cs arbitrary: S) (simp_all split: prod.split)

text \<open>The argument vectors that a command is tried with.\<close>

definition attempts :: "env \<Rightarrow> string list \<Rightarrow> string list list" where
  "attempts E args =
     (if is_direct_path (hd args) then [args]
      else map (\<lambda>c. c # tl args) (case getenv E ''PATH'' of None \<Rightarrow> [] | Some p \<Rightarrow> candidates p (hd args)))"

lemma path_search_tries:
  assumes "args \<noteq> []"
  obtains msg e where "e < 0" "msg \<in> {''sh: %s: not found'' @ [newline], ''sh: command not found: %s'' @ [newline]}"
    "sh_create_process_path_search K args flags S =
       (case first_start (\<lambda>a. create_process K a flags) (attempts (sh_env S) args) S of
          (Some h, S1) \<Rightarrow> Some (h, S1)
        | (None, S1) \<Rightarrow> do { S2 \<leftarrow> sh_printf K msg [VStr (Some (hd args))] S1; Some (e, S2) })"
proof (cases "is_direct_path (hd args)")
  case True
  obtain h S1 where c: "create_process K args flags S = (h, S1)" by (cases "create_process K args flags S")
  show ?thesis
    by (rule that [of "if h < 0 then h else -1" "''sh: %s: not found'' @ [newline]"])
      (use assms True c in \<open>auto simp: sh_create_process_path_search_def attempts_def split: list.split\<close>)
next
  case False
  have "(\<lambda>a. create_process K a flags) \<circ> (\<lambda>c. c # tl args) = (\<lambda>cand. create_process K (cand # tl args) flags)"
    by (simp add: fun_eq_iff)
  then show ?thesis
    by (intro that [of E_NOT_FOUND "''sh: command not found: %s'' @ [newline]"])
      (use assms False in \<open>auto simp: sh_create_process_path_search_def attempts_def first_start_map path_loop_candidates
        E_NOT_FOUND_def Let_def split: list.split option.split prod.split\<close>)
qed

section \<open>Functions that only use the kernel\<close>

text \<open>Everything in the memory of the shell but its streams.\<close>

definition memory :: "'k shell \<Rightarrow> env \<times> ledger \<times> int \<times> int \<times> bool \<times> bg_job list \<times> pthread_table \<times> sig_state \<times> job_list list \<times> int" where
  "memory S = (sh_env S, sh_strs S, tty S, shell_pid S, is_session_leader S, bg_jobs S, sh_threads S, sh_sigs S, chains S, chain_entry S)"

lemma memory_fields:
  assumes "memory S' = memory S"
  shows "sh_env S' = sh_env S" "sh_strs S' = sh_strs S" "tty S' = tty S" "shell_pid S' = shell_pid S"
    "bg_jobs S' = bg_jobs S" "sh_threads S' = sh_threads S" "chains S' = chains S"
  using assms by (simp_all add: memory_def)

lemma memory_world [simp]: "memory (S\<lparr>sh_world := w\<rparr>) = memory S"
  by (simp add: memory_def)

lemma memory_kcall [simp]: "memory (snd (kcall f S)) = memory S" "kcall f S = (r, S') \<Longrightarrow> memory S' = memory S"
  by (auto simp: kcall_def split_beta)

lemma memory_kcalls [simp]: "memory (kcalls fs S) = memory S"
  unfolding kcalls_def by (induction fs arbitrary: S) simp_all

lemma memory_uses [simp]:
  "memory (close_all K hs S) = memory S" "memory (kill_and_close K ps S) = memory S" "memory (resume_all K hs S) = memory S"
  "memory (duplicate_std K h cur S) = memory S"
  by (simp_all add: close_all_def kill_and_close_def resume_all_def duplicate_std_def)

lemma memory_printf: "sh_printf K fmt args S = Some S' \<Longrightarrow> memory S' = memory S"
  by (auto simp: sh_printf_def split: bind_splits)

lemma memory_calls:
  "get_process_info K h S = (i, S') \<Longrightarrow> memory S' = memory S"
  "create_process K args flags S = (r, S') \<Longrightarrow> memory S' = memory S"
  "create_pipe K S = (p, S') \<Longrightarrow> memory S' = memory S"
  by (auto simp: get_process_info_def create_process_def create_pipe_def)

lemma memory_first_start:
  assumes "first_start (\<lambda>a. create_process K a flags) as S = (r, S')"
  shows "memory S' = memory S"
  using assms
proof (induction as arbitrary: S)
  case (Cons a as)
  obtain h S1 where "create_process K a flags S = (h, S1)" by (cases "create_process K a flags S")
  then show ?case using Cons memory_calls(2) [of K a flags S h S1] by (auto split: if_splits)
qed simp

lemma memory_path_search:
  assumes "sh_create_process_path_search K args flags S = Some (h, S')"
  shows "memory S' = memory S"
proof -
  have "args \<noteq> []" using assms by (auto simp: sh_create_process_path_search_def)
  then obtain msg e where eq: "sh_create_process_path_search K args flags S =
       (case first_start (\<lambda>a. create_process K a flags) (attempts (sh_env S) args) S of
          (Some h, S1) \<Rightarrow> Some (h, S1)
        | (None, S1) \<Rightarrow> do { S2 \<leftarrow> sh_printf K msg [VStr (Some (hd args))] S1; Some (e, S2) })"
    by (rule path_search_tries)
  obtain r S1 where f: "first_start (\<lambda>a. create_process K a flags) (attempts (sh_env S) args) S = (r, S1)"
    by (cases "first_start (\<lambda>a. create_process K a flags) (attempts (sh_env S) args) S")
  have "memory S' = memory S1" using assms eq f by (auto split: option.splits bind_splits dest: memory_printf)
  then show ?thesis using memory_first_start [OF f] by simp
qed

lemma memory_open_redirect: "open_redirect K kd p S = (h, S') \<Longrightarrow> memory S' = memory S"
  by (auto simp: open_redirect_def Let_def split: if_splits prod.splits)

lemma memory_resolve: "sh_resolve_redirect K rd cur S = Some (h, S') \<Longrightarrow> memory S' = memory S"
  by (auto simp: sh_resolve_redirect_def Let_def
      split: if_splits option.splits bind_splits prod.splits dest!: memory_printf memory_open_redirect)

lemma memory_redirect_loop:
  "redirect_loop K rds cur failed opened S = Some (cur', failed', opened', S') \<Longrightarrow> memory S' = memory S"
  by (induction rds arbitrary: cur failed opened S) (auto split: if_splits bind_splits dest!: memory_resolve)

lemma memory_report: "report_stage_status K name h S = Some S' \<Longrightarrow> memory S' = memory S"
  by (auto simp: report_stage_status_def split: if_splits prod.splits dest!: memory_printf memory_calls)

lemma memory_pipe_loop: "pipe_loop K n pipes S = Some (r, S') \<Longrightarrow> memory S' = memory S"
  by (induction n arbitrary: pipes S) (auto split: if_splits bind_splits prod.splits dest!: memory_printf memory_calls)

lemma memory_join_group: "join_group K h sp S = (pid, S') \<Longrightarrow> memory S' = memory S"
  by (auto simp: join_group_def Let_def split: prod.splits dest!: memory_calls)

lemma memory_spawn_stage: "spawn_stage K pipes n st sp S = Some (aborted, sp', S') \<Longrightarrow> memory S' = memory S"
  by (auto simp: spawn_stage_def split: if_splits bind_splits prod.splits
      dest!: memory_path_search memory_join_group memory_redirect_loop)

lemma memory_spawn_loop: "spawn_loop K pipes n sts sp S = Some (aborted, sp', S') \<Longrightarrow> memory S' = memory S"
  by (induction sts arbitrary: sp S) (auto split: if_splits bind_splits dest!: memory_spawn_stage)

lemma memory_spawn_stages: "spawn_stages K job S = Some (aborted, sp, S') \<Longrightarrow> memory S' = memory S"
  by (auto simp: spawn_stages_def Let_def split: if_splits bind_splits option.splits dest!: memory_pipe_loop memory_spawn_loop)

lemma memory_finish_loop: "finish_loop K ps status S = Some (r, S') \<Longrightarrow> memory S' = memory S"
  by (induction K ps status S arbitrary: r S' rule: finish_loop.induct)
    (auto simp: Let_def split: bind_splits prod.splits dest!: memory_report memory_calls)

lemma memory_exec_job_fg: "exec_job_fg K job grab_fg S = Some (status, S') \<Longrightarrow> memory S' = memory S"
  by (auto simp: exec_job_fg_def Let_def split: if_splits bind_splits dest!: memory_spawn_stages memory_finish_loop)

section \<open>A kernel to run jobs on\<close>

text \<open>The state is the list of the open handles of the shell. Processes start whatever their name, end when the
  shell waits for them without a timeout, and report success.\<close>

definition new_handle :: "int list \<Rightarrow> int" where
  "new_handle hs = 1 + fold max hs 2"

definition job_kernel :: "int list kernel" where
  "job_kernel = null_kernel\<lparr>
     sys_write := \<lambda>k _ bs. (E_SUCCESS, length bs, k),
     sys_create_process := \<lambda>k _ _ _. (new_handle k, new_handle k # k),
     sys_create_file := \<lambda>k _ _. (new_handle k, new_handle k # k),
     sys_open := \<lambda>k _ _ _. (new_handle k, new_handle k # k),
     sys_create_pipe := \<lambda>k _ _. (E_SUCCESS, new_handle k, new_handle k + 1, new_handle k # (new_handle k + 1) # k),
     sys_close := \<lambda>k h. (E_SUCCESS, removeAll h k),
     sys_wait := \<lambda>k _ t. (if t = 0 then E_TIMEOUT else E_SUCCESS, k),
     sys_get_process_info := \<lambda>k h. (E_SUCCESS, \<lparr>proc_id = 100 + h, proc_parent = 1, proc_session = 1,
       proc_exit = \<lparr>exit_reason = EXIT_NORMAL, exit_code = 0\<rparr>\<rparr>, k)\<rparr>"

definition sh_start :: "int list shell" where
  "sh_start = \<lparr>
     sh_world = \<lparr>files = \<lambda>_. \<lparr>fd = -1, rbuf = [], rpos = 0, rlen = 0, eof = False, error = False, ungetc_ch = -1\<rparr>,
       next_file = 3, kern = [0, 1, 2, 3]\<rparr>,
     sh_env = stack_env [''PATH=/bin:/usr/bin''], sh_strs = no_strs, tty = 3, shell_pid = 50, is_session_leader = True,
     bg_jobs = replicate SH_MAX_BG_JOBS empty_slot, sh_threads = initial_table, sh_sigs = sig_start, chains = [],
     chain_entry = 0\<rparr>"

end
