(* ===== verification/Shell_Strings.thy ===== *)
theory Shell_Strings
  imports Shell_Exec_Props
begin

text \<open>
  The strings that the shell has on the heap, from the parser to the background table: every command line
  leaves exactly those alive that the shell still needs, and none is released twice.
\<close>

section \<open>The strings of the shell\<close>

text \<open>The strings that the shell holds between two command lines: the names of the jobs in the background
  table and the job lists of the chains that threads run.\<close>

definition bg_ids :: "bg_job \<Rightarrow> nat list" where
  "bg_ids bg = (if in_use bg then ids (bg_names bg) else [])"

definition owned_ids :: "'k shell \<Rightarrow> nat list" where
  "owned_ids S = concat (map bg_ids (bg_jobs S)) @ concat (map (\<lambda>l. list_ids (jobs l)) (chains S))"

definition slots_ok :: "bg_job list \<Rightarrow> bool" where
  "slots_ok bgs \<longleftrightarrow> length bgs = SH_MAX_BG_JOBS \<and>
     (\<forall>bg \<in> set bgs. in_use bg \<longrightarrow> length (bg_names bg) = length (bg_handles bg) \<and> length (bg_pids bg) = length (bg_handles bg))"

text \<open>The live strings are those at the start, those that functions in progress have, and those the shell holds.\<close>

definition holds :: "ledger \<Rightarrow> nat list \<Rightarrow> 'k shell \<Rightarrow> bool" where
  "holds H0 xs S \<longleftrightarrow> gains H0 (sh_strs S) (xs @ owned_ids S) \<and> slots_ok (bg_jobs S)"

lemma holds_memory: "holds H0 xs S \<Longrightarrow> memory S' = memory S \<Longrightarrow> holds H0 xs S'"
  by (simp add: memory_def holds_def owned_ids_def)

lemma holds_mset: "holds H0 xs S \<Longrightarrow> mset xs = mset ys \<Longrightarrow> holds H0 ys S"
  by (auto simp: holds_def intro: gains_mset)

lemma mset_concat_update:
  assumes "i < length xs"
  shows "mset (concat (map f (xs[i := x]))) + mset (f (xs ! i)) = mset (concat (map f xs)) + mset (f x)"
proof -
  have "map f xs = map f (take i xs) @ f (xs ! i) # map f (drop (Suc i) xs)"
    using assms by (subst id_take_nth_drop [OF assms]) simp
  then show ?thesis using assms by (simp add: upd_conv_take_nth_drop)
qed

lemma free_slot_free: "free_slot bgs = Some i \<Longrightarrow> i < length bgs \<and> \<not> in_use (bgs ! i)"
  by (induction bgs arbitrary: i) (auto split: if_splits)

lemma strdup_all_gains:
  assumes "strdup_all K ss S = (ps, S')" "gains H0 (sh_strs S) xs"
  shows "gains H0 (sh_strs S') (xs @ ids ps) \<and> length ps = length ss \<and> bg_jobs S' = bg_jobs S \<and> chains S' = chains S"
  using assms
proof (induction ss arbitrary: S ps xs)
  case (Cons t ss)
  obtain p H k where t: "sh_strdup K t (sh_strs S) (kern (sh_world S)) = (p, H, k)"
    by (cases "sh_strdup K t (sh_strs S) (kern (sh_world S))")
  obtain qs where q: "strdup_all K ss (S\<lparr>sh_strs := H, sh_world := (sh_world S)\<lparr>kern := k\<rparr>\<rparr>) = (qs, S')" "ps = p # qs"
    using Cons.prems(1) t by (auto split: prod.splits)
  have "gains H0 (sh_strs (S\<lparr>sh_strs := H, sh_world := (sh_world S)\<lparr>kern := k\<rparr>\<rparr>)) (xs @ ids [p])"
    using gains_strdup [OF Cons.prems(2) t] by simp
  from Cons.IH [OF q(1) this] show ?case using q(2) by (cases p) simp_all
qed simp

lemma slots_ok_update:
  assumes "slots_ok bgs" "in_use bg \<Longrightarrow> length (bg_names bg) = length (bg_handles bg) \<and> length (bg_pids bg) = length (bg_handles bg)"
  shows "slots_ok (bgs[i := bg])"
  using assms set_update_subset_insert [of bgs i bg] unfolding slots_ok_def by (metis insertE length_list_update subsetD)

definition same_length :: "spawned \<Rightarrow> bool" where
  "same_length sp \<longleftrightarrow> length (stage_pids sp) = length (stage_handles sp) \<and> length (stage_names sp) = length (stage_handles sp)"

lemma spawn_loop_length:
  "spawn_loop K pipes n sts sp S = Some (aborted, sp', S') \<Longrightarrow> same_length sp \<Longrightarrow> same_length sp'"
  by (induction sts arbitrary: sp S)
    (auto simp: spawn_stage_def add_stage_def same_length_def split: if_splits bind_splits prod.splits)

lemma spawn_stages_length: "spawn_stages K job S = Some (aborted, sp, S') \<Longrightarrow> same_length sp"
  by (auto simp: spawn_stages_def Let_def split: if_splits bind_splits option.splits dest!: spawn_loop_length)
    (simp_all add: same_length_def none_spawned_def)

lemma holds_exec_job_bg:
  assumes "exec_job_bg K job S = Some S'" "holds H0 xs S"
  shows "holds H0 xs S'"
proof -
  obtain aborted sp S1 where s: "spawn_stages K job S = Some (aborted, sp, S1)"
    using assms(1) by (auto simp: exec_job_bg_def split: bind_splits)
  define S2 where "S2 = resume_all K (stage_handles sp) S1"
  have h1: "holds H0 xs S1" by (rule holds_memory [OF assms(2) memory_spawn_stages [OF s]])
  have h2: "holds H0 xs S2" by (rule holds_memory [OF h1]) (simp add: S2_def)
  consider "aborted" "S' = S1" | "free_slot (bg_jobs S2) = None" "memory S' = memory S2"
    | slot where "\<not> aborted" "free_slot (bg_jobs S2) = Some slot"
    using assms(1) s
    by (cases "free_slot (bg_jobs S2)") (auto simp: exec_job_bg_def S2_def split: bind_splits if_splits dest!: memory_printf)
  then show ?thesis
  proof cases
    case (3 slot)
    obtain names S3 where n: "strdup_all K (stage_names sp) S2 = (names, S3)" by (cases "strdup_all K (stage_names sp) S2")
    define bg where "bg = \<lparr>in_use = True, job_pgid = stage_pgid sp, bg_handles = stage_handles sp, bg_pids = stage_pids sp, bg_names = names\<rparr>"
    have g: "gains H0 (sh_strs S3) ((xs @ owned_ids S2) @ ids names)" "length names = length (stage_names sp)"
      "bg_jobs S3 = bg_jobs S2" "chains S3 = chains S2"
      using strdup_all_gains [OF n, of H0 "xs @ owned_ids S2"] h2 by (simp_all add: holds_def)
    note free = free_slot_free [OF 3(2)]
    have "mset (owned_ids (S3\<lparr>bg_jobs := (bg_jobs S3)[slot := bg]\<rparr>)) = mset (owned_ids S2) + mset (ids names)"
      using mset_concat_update [of slot "bg_jobs S2" bg_ids bg] free g(3,4)
      by (simp add: owned_ids_def bg_ids_def bg_def)
    then have "gains H0 (sh_strs S3) (xs @ owned_ids (S3\<lparr>bg_jobs := (bg_jobs S3)[slot := bg]\<rparr>))"
      using gains_mset [OF g(1)] by simp
    moreover have "slots_ok ((bg_jobs S3)[slot := bg])"
      using h2 g(2,3) spawn_stages_length [OF s]
      by (intro slots_ok_update) (auto simp: holds_def bg_def same_length_def)
    ultimately have "holds H0 xs (S3\<lparr>bg_jobs := (bg_jobs S3)[slot := bg]\<rparr>)" by (simp add: holds_def)
    moreover have "memory S' = memory (S3\<lparr>bg_jobs := (bg_jobs S3)[slot := bg]\<rparr>)"
      using assms(1) s 3 n by (auto simp: exec_job_bg_def S2_def bg_def Let_def dest!: memory_printf)
    ultimately show ?thesis by (rule holds_memory)
  qed (use h1 holds_memory [OF h2] in auto)
qed

lemma reap_stages_gains:
  assumes "reap_stages K ps S = Some S'" "gains H0 (sh_strs S) (xs @ ids (map fst ps))"
  shows "gains H0 (sh_strs S') xs \<and> bg_jobs S' = bg_jobs S \<and> chains S' = chains S"
  using assms
proof (induction ps arbitrary: S)
  case (Cons q ps)
  obtain name h where q: "q = (name, h)" by (cases q)
  obtain S1 where r: "report_stage_status K (map_option snd name) h S = Some S1"
    using Cons.prems(1) q by (auto split: bind_splits)
  define S2 where "S2 = snd (kcall (\<lambda>k. sys_close K k h) S1)"
  have m: "memory S2 = memory S" using memory_report [OF r] by (simp add: S2_def)
  have "gains H0 (free_str name (sh_strs S2)) (xs @ ids (map fst ps))"
    by (rule gains_free) (use Cons.prems(2) memory_fields(2) [OF m] q in \<open>cases name; simp\<close>)
  then show ?case
    using Cons.IH [of "S2\<lparr>sh_strs := free_str name (sh_strs S2)\<rparr>"] Cons.prems(1) q r memory_fields(5,7) [OF m]
    by (simp add: S2_def [symmetric] Let_def)
qed simp

lemma all_done_memory: "all_done K hs S = (fin, S') \<Longrightarrow> memory S' = memory S"
  by (induction K hs S rule: all_done.induct) (auto simp: Let_def split: prod.splits if_splits)

lemma holds_reap_slot:
  assumes "reap_slot K i S = Some S'" "holds H0 xs S" "i < SH_MAX_BG_JOBS"
  shows "holds H0 xs S'"
proof -
  define bg where "bg = bg_jobs S ! i"
  obtain fin S1 where d: "all_done K (bg_handles bg) S = (fin, S1)" by (cases "all_done K (bg_handles bg) S")
  have m1: "memory S1 = memory S" by (rule all_done_memory [OF d])
  have i: "i < length (bg_jobs S)" using assms(2,3) by (simp add: holds_def slots_ok_def)
  show ?thesis
  proof (cases "in_use bg \<and> fin")
    case True
    obtain S2 S3 where p: "sh_printf K (''[%d]+ Done %zu'' @ [newline]) [VInt (int i + 1), VLong (job_pgid bg)] S1 = Some S2"
      and r: "reap_stages K (zip (bg_names bg) (bg_handles bg)) S2 = Some S3"
      and S': "S' = S3\<lparr>bg_jobs := (bg_jobs S3)[i := bg\<lparr>in_use := False\<rparr>]\<rparr>"
      using assms(1) True d by (auto simp: reap_slot_def bg_def Let_def split: bind_splits)
    have m2: "memory S2 = memory S" using memory_printf [OF p] m1 by simp
    define ys where "ys = concat (map bg_ids ((bg_jobs S)[i := bg\<lparr>in_use := False\<rparr>])) @ concat (map (\<lambda>l. list_ids (jobs l)) (chains S))"
    have len: "length (bg_names bg) = length (bg_handles bg)"
      using assms(2) i True by (simp add: holds_def slots_ok_def bg_def)
    have "mset (owned_ids S) = mset (ys @ ids (bg_names bg))"
      using mset_concat_update [OF i, of bg_ids "bg\<lparr>in_use := False\<rparr>"] True
      by (simp add: owned_ids_def ys_def bg_ids_def bg_def [symmetric])
    then have "gains H0 (sh_strs S2) ((xs @ ys) @ ids (bg_names bg))"
      using assms(2) memory_fields(2) [OF m2] gains_mset [of H0 "sh_strs S" "xs @ owned_ids S"] by (simp add: holds_def)
    then have g: "gains H0 (sh_strs S3) (xs @ ys) \<and> bg_jobs S3 = bg_jobs S2 \<and> chains S3 = chains S2"
      by (intro reap_stages_gains [OF r]) (simp add: len)
    moreover have "slots_ok ((bg_jobs S)[i := bg\<lparr>in_use := False\<rparr>])"
      by (rule slots_ok_update) (use assms(2) in \<open>simp_all add: holds_def\<close>)
    ultimately show ?thesis using memory_fields(5,7) [OF m2] by (simp add: S' holds_def owned_ids_def ys_def)
  next
    case False
    then have "S' = S \<or> S' = S1" using assms(1) d by (auto simp: reap_slot_def bg_def Let_def split: if_splits)
    then show ?thesis using assms(2) holds_memory [OF assms(2) m1] by auto
  qed
qed

lemma holds_reap:
  assumes "sh_reap_background_jobs K S = Some S'" "holds H0 xs S"
  shows "holds H0 xs S'"
proof -
  have "holds H0 xs S'" if "reap_loop K is S = Some S'" "holds H0 xs S" "\<forall>i \<in> set is. i < SH_MAX_BG_JOBS" for "is" S
    using that by (induction "is" arbitrary: S) (auto split: bind_splits intro: holds_reap_slot)
  from this [OF _ assms(2)] assms(1) show ?thesis by (simp add: sh_reap_background_jobs_def)
qed

section \<open>Command lines\<close>

text \<open>The outcome of running something: after a return the functions in progress have the strings they had,
  after an exit they may have more.\<close>

fun clean :: "ledger \<Rightarrow> nat list \<Rightarrow> 'a + 'b \<Rightarrow> 'k shell \<Rightarrow> bool" where
  "clean H0 xs (Inr _) S = holds H0 xs S"
| "clean H0 xs (Inl _) S = (\<exists>ys. holds H0 (xs @ ys) S)"

definition clean_script :: "'k script_runner \<Rightarrow> bool" where
  "clean_script rs \<longleftrightarrow> (\<forall>pth S r S' H0 xs. rs pth S = Some (r, S') \<longrightarrow> holds H0 xs S \<longrightarrow> clean H0 xs r S')"

lemma holds_clean: "holds H0 xs S \<Longrightarrow> clean H0 xs r S"
  by (cases r) (auto intro: exI [of _ "[]"])

lemma holds_env [simp]:
  "holds H0 xs (S\<lparr>sh_env := E\<rparr>) = holds H0 xs S" "holds H0 xs (S\<lparr>sh_world := w\<rparr>) = holds H0 xs S"
  "holds H0 xs (S\<lparr>sh_threads := T\<rparr>) = holds H0 xs S"
  by (simp_all add: holds_def owned_ids_def)

lemma holds_export_loop: "export_loop K as S = Some S' \<Longrightarrow> holds H0 xs S \<Longrightarrow> holds H0 xs S'"
  by (induction as arbitrary: S) (auto split: if_splits bind_splits)

lemma memory_kill_pids: "memory (fold (kill_pids K) bgs S) = memory S"
  by (induction bgs arbitrary: S) (simp_all add: kill_pids_def)

lemma clean_source:
  assumes "builtin_source K rs args S = Some (r, S')" "holds H0 xs S" "clean_script rs"
  shows "clean H0 xs r S'"
proof (cases "length args < 2")
  case True
  then have "memory S' = memory S" using assms(1) by (auto simp: builtin_source_def split: bind_splits dest!: memory_printf)
  then show ?thesis by (intro holds_clean holds_memory [OF assms(2)])
next
  case False
  then obtain q S1 where q: "rs (args ! 1) S = Some (q, S1)" using assms(1) by (auto simp: builtin_source_def split: bind_splits)
  have "clean H0 xs q S1" using assms(2,3) q by (simp add: clean_script_def)
  then show ?thesis
    using assms(1) False q by (auto simp: builtin_source_def split: sum.splits option.splits bind_splits dest!: memory_printf intro: holds_memory)
qed

lemma clean_builtin:
  assumes "sh_run_builtin K rs args S = Some (r, S')" "holds H0 xs S" "clean_script rs"
  shows "case r of None \<Rightarrow> holds H0 xs S' | Some res \<Rightarrow> clean H0 xs res S'"
proof -
  have "memory S' = memory S" if "builtin_cd K args S = Some (q, S')" for q
    using that by (auto simp: builtin_cd_def Let_def split: prod.splits if_splits bind_splits dest!: memory_printf)
  moreover have "memory S' = memory S" if "builtin_pwd K S = Some S'"
    using that by (auto simp: builtin_pwd_def Let_def split: prod.splits if_splits dest!: memory_printf)
  moreover have "holds H0 xs S'" if "builtin_export K args S = Some S'"
    using that assms(2) by (simp add: builtin_export_def holds_export_loop)
  moreover have "clean H0 xs q S'" if "builtin_source K rs args S = Some (q, S')" for q
    by (rule clean_source [OF that assms(2,3)])
  moreover have "memory S' = memory S" if "builtin_exit K S = (q, S')" for q
    using that by (auto simp: builtin_exit_def memory_kill_pids)
  moreover have "clean H0 xs q S'" if "memory S' = memory S" for q :: "int + int"
    by (rule holds_clean [OF holds_memory [OF assms(2) that]])
  ultimately show ?thesis
    using assms(1,2)
    by (simp add: sh_run_builtin_def split: list.splits if_splits prod.splits bind_splits)
      (auto simp: holds_clean intro: holds_memory [OF assms(2)])
qed

lemma clean_run_job:
  assumes "run_job K rs job grab_fg S = Some (r, S')" "holds H0 xs S" "clean_script rs"
  shows "clean H0 xs r S'"
proof -
  obtain q S1 where q: "(if length job = 1 \<and> redirects (job ! 0) = []
      then sh_run_builtin K rs (map snd (argv (job ! 0))) S else Some (None, S)) = Some (q, S1)"
    using assms(1) by (auto simp: run_job_def split: bind_splits)
  then have c: "case q of None \<Rightarrow> holds H0 xs S1 | Some res \<Rightarrow> clean H0 xs res S1"
    using clean_builtin [OF _ assms(2,3), of K "map snd (argv (job ! 0))" q S1] assms(2) by (auto split: if_splits)
  show ?thesis
  proof (cases q)
    case None
    then obtain status where "exec_job_fg K job grab_fg S1 = Some (status, S')"
      using assms(1) q by (auto simp: run_job_def split: bind_splits)
    from memory_exec_job_fg [OF this] show ?thesis
      using holds_memory [of H0 xs S1 S'] c None by (intro holds_clean) simp
  next
    case (Some res)
    then show ?thesis using assms(1) q c by (simp add: run_job_def)
  qed
qed

lemma clean_chain:
  assumes "chain_loop K rs js grab_fg status S = Some (r, S')" "holds H0 xs S" "clean_script rs"
  shows "clean H0 xs r S'"
  using assms(1,2)
proof (induction js arbitrary: status S)
  case (Cons job js)
  obtain q S1 where q: "run_job K rs job grab_fg S = Some (q, S1)" using Cons.prems by (auto split: bind_splits)
  then show ?case
    using Cons clean_run_job [OF q Cons.prems(2) assms(3)] by (cases q) (auto split: if_splits)
qed (simp add: holds_clean)

lemma holds_free_list:
  assumes "holds H0 (xs @ list_ids (jobs l)) S"
  shows "holds H0 xs (free_list l S)"
proof -
  have "gains H0 (sh_strs S) ((xs @ owned_ids S) @ list_ids (jobs l))"
    using assms gains_mset [of H0 "sh_strs S" "(xs @ list_ids (jobs l)) @ owned_ids S"] by (simp add: holds_def)
  from gains_list_free [OF this] assms show ?thesis
    by (simp add: holds_def free_list_def job_list_free_def owned_ids_def)
qed

text \<open>The ways through \<open>run_job_list\<close>, up to what the kernel does in between.\<close>

lemma run_job_list_cases:
  fixes S :: "'k shell"
  assumes "run_job_list K rs l S = Some (r, l', S')"
  obtains (bg) "exec_job_bg K (jobs l ! 0) S = Some S'" "r = Inr 0" "l' = l"
    | (fg) "run_job K rs (jobs l ! 0) True S = Some (r, S')" "l' = l"
    | (chain) T where "memory T = memory S" "chain_loop K rs (jobs l) True 0 T = Some (r, S')" "l' = l"
    | (failed) T S1 V where "memory T = memory (S\<lparr>sh_threads := V\<rparr>)" "chain_loop K rs (jobs l) True 0 T = Some (r, S1)"
        "l' = l\<lparr>jobs := []\<rparr>" "S' = (case r of Inl _ \<Rightarrow> S1 | Inr _ \<Rightarrow> free_list l S1)"
    | (thread) V where "memory S' = memory (S\<lparr>sh_threads := V, chains := chains S @ [l]\<rparr>)" "l' = l\<lparr>jobs := []\<rparr>" "r = Inr 0"
proof (cases "length (jobs l) = 1 \<or> \<not> background l")
  case True
  have "exec_job_bg K (jobs l ! 0) S = Some S' \<and> r = Inr 0 \<and> l' = l" if "length (jobs l) = 1" "background l"
    using assms that by (auto simp: run_job_list_def split: bind_splits)
  moreover have "run_job K rs (jobs l ! 0) True S = Some (r, S') \<and> l' = l" if "length (jobs l) = 1" "\<not> background l"
    using assms that by (auto simp: run_job_list_def split: bind_splits)
  moreover have "chain_loop K rs (jobs l) True 0 S = Some (r, S') \<and> l' = l" if "length (jobs l) \<noteq> 1" "\<not> background l"
    using assms that by (auto simp: run_job_list_def split: bind_splits)
  ultimately show ?thesis using True bg fg chain [OF refl] by blast
next
  case False
  obtain got S1 where g: "kcall (\<lambda>k. heap_ok K k BG_CHAIN_SIZE) S = (got, S1)"
    by (cases "kcall (\<lambda>k. heap_ok K k BG_CHAIN_SIZE) S")
  have m: "memory S1 = memory S" using g by simp
  note eq = assms [unfolded run_job_list_def g]
  show ?thesis
  proof (cases got)
    case True
    obtain rc tid T k where c: "pthread_create K (chain_entry S1) (int (length (chains S1))) (sh_threads S1) (kern (sh_world S1)) = Some (rc, tid, T, k)"
      using eq False True by (auto simp: Let_def split: bind_splits)
    show ?thesis
    proof (cases "rc = 0")
      case rc: True
      obtain x T2 k2 where d: "pthread_detach K (the tid) T k = Some (x, T2, k2)"
        using eq False True c rc by (auto simp: Let_def split: bind_splits)
      show ?thesis
        by (rule thread [of T2])
          (use eq False True c rc d m in \<open>auto simp: Let_def memory_def split: bind_splits dest!: memory_printf\<close>)
    next
      case rc: False
      define S2 where "S2 = S1\<lparr>sh_threads := T, sh_world := (sh_world S1)\<lparr>kern := k\<rparr>\<rparr>"
      obtain S3 S4 where p: "sh_printf K (''sh: failed to background chain, running in foreground'' @ [newline]) [] S2 = Some S3"
        and q: "chain_loop K rs (jobs l) True 0 S3 = Some (r, S4)"
        "l' = l\<lparr>jobs := []\<rparr>" "S' = (case r of Inl _ \<Rightarrow> S4 | Inr _ \<Rightarrow> free_list l S4)"
        using eq False True c rc by (auto simp: S2_def Let_def split: bind_splits sum.splits)
      show ?thesis
        by (rule failed [OF _ q, of T]) (use memory_printf [OF p] m in \<open>simp add: S2_def memory_def\<close>)
    qed
  next
    case nomem: False
    obtain S2 where p: "sh_printf K (''sh: out of memory, running chain in foreground'' @ [newline]) [] S1 = Some S2"
      and q: "chain_loop K rs (jobs l) True 0 S2 = Some (r, S')" "l' = l"
      using eq False nomem by (auto split: bind_splits)
    show ?thesis by (rule chain [OF _ q]) (use memory_printf [OF p] m in simp)
  qed
qed

text \<open>What the caller of \<open>run_job_list\<close> has to free is still held; what was moved to a thread is held by the shell.\<close>

lemma clean_run_job_list:
  assumes "run_job_list K rs l S = Some (r, l', S')" "holds H0 (xs @ list_ids (jobs l)) S" "clean_script rs"
  shows "clean H0 (xs @ list_ids (jobs l')) r S'"
  using assms(1)
proof (cases rule: run_job_list_cases)
  case bg
  then show ?thesis using holds_exec_job_bg assms(2) by auto
next
  case fg
  then show ?thesis using clean_run_job [OF _ assms(2,3)] by simp
next
  case (chain T)
  then show ?thesis using clean_chain [OF chain(2) holds_memory [OF assms(2) chain(1)] assms(3)] by simp
next
  case (failed T S1 V)
  have "holds H0 (xs @ list_ids (jobs l)) T" by (rule holds_memory [OF _ failed(1)]) (use assms(2) in simp)
  from clean_chain [OF failed(2) this assms(3)] show ?thesis
    using failed(3,4) holds_free_list by (cases r) (auto simp: list_ids_def)
next
  case (thread V)
  have "holds H0 xs (S\<lparr>sh_threads := V, chains := chains S @ [l]\<rparr>)"
    using assms(2) gains_mset [of H0 "sh_strs S" "(xs @ list_ids (jobs l)) @ owned_ids S"] by (simp add: holds_def owned_ids_def)
  from holds_memory [OF this thread(1)] show ?thesis using thread(2,3) by (simp add: list_ids_def)
qed

lemma clean_run_line:
  assumes "sh_run_line K rs line S = Some (r, S')" "holds H0 xs S" "clean_script rs"
  shows "clean H0 xs r S'"
proof -
  obtain rc l H k where p: "parse_line K (sh_env S) line (sh_strs S) (kern (sh_world S)) = (rc, l, H, k)"
    by (cases "parse_line K (sh_env S) line (sh_strs S) (kern (sh_world S))")
  define S1 where "S1 = S\<lparr>sh_strs := H, sh_world := (sh_world S)\<lparr>kern := k\<rparr>\<rparr>"
  note eq = assms(1) [unfolded sh_run_line_def p Let_def prod.case, folded S1_def]
  have g: "gains H0 (sh_strs S) (xs @ owned_ids S)" using assms(2) by (simp add: holds_def)
  note pg = parse_line_gains [OF gains_self [OF g] p]
  have h1: "holds H0 (xs @ ys) S1" if "gains (sh_strs S) H ys" for ys
    using gains_trans [OF g that] gains_mset [of H0 H "(xs @ owned_ids S) @ ys"] assms(2)
    by (simp add: holds_def S1_def owned_ids_def)
  show ?thesis
  proof (cases "rc = 0")
    case True
    obtain q l' S2 where q: "run_job_list K rs l S1 = Some (q, l', S2)" using eq True by (auto split: bind_splits)
    have "clean H0 (xs @ list_ids (jobs l')) q S2"
      by (rule clean_run_job_list [OF q h1 assms(3)]) (use pg True in simp)
    then show ?thesis
      using eq True q by (cases q) (auto split: bind_splits intro: holds_reap [OF _ holds_free_list])
  next
    case False
    then have "holds H0 xs S1" using h1 [of "[]"] pg by simp
    then show ?thesis
      using eq False by (auto split: if_splits bind_splits dest!: memory_printf intro: holds_reap holds_reap [OF _ holds_memory])
  qed
qed

definition clean_steps :: "ledger \<Rightarrow> nat list \<Rightarrow> ('k shell \<Rightarrow> ((int \<times> string) \<times> 'k shell) option) \<Rightarrow>
    (string \<Rightarrow> 'k shell \<Rightarrow> ((int + int) \<times> 'k shell) option) \<Rightarrow> bool" where
  "clean_steps H0 xs rd run_line \<longleftrightarrow> (\<forall>S x S1. rd S = Some (x, S1) \<longrightarrow> memory S1 = memory S) \<and>
     (\<forall>line S q S1. run_line line S = Some (q, S1) \<longrightarrow> holds H0 xs S \<longrightarrow> clean H0 xs q S1)"

lemma clean_script_loop:
  assumes "script_loop rd run_line status S = Some y" "holds H0 xs S" "clean_steps H0 xs rd run_line"
  shows "clean H0 xs (fst y) (snd y)"
proof -
  let ?P = "\<lambda>rd run_line status S y. holds H0 xs S \<longrightarrow> clean_steps H0 xs rd run_line \<longrightarrow> clean H0 xs (fst y) (snd y)"
  have "?P rd run_line status S y"
    using assms(1)
  proof (rule script_loop.raw_induct [of ?P, rotated])
    fix loop :: "('a shell \<Rightarrow> ((int \<times> string) \<times> 'a shell) option) \<Rightarrow> (string \<Rightarrow> 'a shell \<Rightarrow> ((int + int) \<times> 'a shell) option) \<Rightarrow>
        int \<Rightarrow> 'a shell \<Rightarrow> ((int + int) \<times> 'a shell) option" and rd run_line status S y
    assume IH: "\<And>rd run_line status S y. loop rd run_line status S = Some y \<Longrightarrow> ?P rd run_line status S y"
      and eq: "do { ((rc, line), S1) \<leftarrow> rd S;
        if rc \<le> 0 then Some (Inr status, S1)
        else do { (r, S2) \<leftarrow> run_line line S1; case r of Inl code \<Rightarrow> Some (Inl code, S2) | Inr status' \<Rightarrow> loop rd run_line status' S2 } } = Some y"
    show "?P rd run_line status S y"
    proof (intro impI)
      assume h: "holds H0 xs S" and c: "clean_steps H0 xs rd run_line"
      obtain rc line S1 where rd: "rd S = Some ((rc, line), S1)" using eq by (auto split: bind_splits)
      then have h1: "holds H0 xs S1" using c by (intro holds_memory [OF h]) (auto simp: clean_steps_def)
      show "clean H0 xs (fst y) (snd y)"
      proof (cases "rc \<le> 0")
        case False
        then obtain q S2 where q: "run_line line S1 = Some (q, S2)" using eq rd by (auto split: bind_splits)
        have "clean H0 xs q S2" using c q h1 unfolding clean_steps_def by blast
        then show ?thesis using eq rd False q IH [of rd run_line _ S2 y] c by (cases q) auto
      qed (use eq rd h1 in auto)
    qed
  qed
  then show ?thesis using assms(2,3) by blast
qed

lemma memory_read_script_line: "read_script_line K f S = Some (x, S') \<Longrightarrow> memory S' = memory S"
  by (auto simp: read_script_line_def split: bind_splits)

lemma clean_sh_run_script: "clean_script (sh_run_script depth K)"
proof (induction depth)
  case (Suc depth)
  have "clean H0 xs r S'" if run: "sh_run_script (Suc depth) K pth S = Some (r, S')" and h: "holds H0 xs S" for pth S r S' H0 xs
  proof -
    obtain f w where f: "fopen K (Some pth) (Some ''r'') (sh_world S) = (f, w)" by (cases "fopen K (Some pth) (Some ''r'') (sh_world S)")
    have h1: "holds H0 xs (S\<lparr>sh_world := w\<rparr>)" using h by simp
    show ?thesis
    proof (cases "f = None")
      case False
      obtain q S2 where q: "script_loop (read_script_line K f) (sh_run_line K (sh_run_script depth K)) 0 (S\<lparr>sh_world := w\<rparr>) = Some (q, S2)"
        using run f False by (auto split: bind_splits)
      have "clean H0 xs q S2"
        using clean_script_loop [OF q h1] clean_run_line [OF _ _ Suc.IH] memory_read_script_line
        by (fastforce simp: clean_steps_def)
      then show ?thesis using run f False q by (cases q) auto
    qed (use run f h1 in auto)
  qed
  then show ?case by (auto simp: clean_script_def)
qed (simp add: clean_script_def)

section \<open>Properties\<close>

text \<open>Between two command lines: exactly the strings that the shell holds are live, each is held once, and none
  was released that was not live.\<close>

definition strings_ok :: "'k shell \<Rightarrow> bool" where
  "strings_ok S \<longleftrightarrow> live_strs (sh_strs S) = set (owned_ids S) \<and> distinct (owned_ids S) \<and> \<not> bad_free (sh_strs S) \<and>
     live_strs (sh_strs S) \<subseteq> {..< next_str (sh_strs S)} \<and> slots_ok (bg_jobs S)"

lemma strings_ok_holds: "strings_ok S \<longleftrightarrow> holds no_strs [] S"
  by (auto simp: strings_ok_def holds_def gains_def no_strs_def)


lemma strings_ok_start: "strings_ok sh_start"
  by (simp add: strings_ok_def sh_start_def owned_ids_def no_strs_def slots_ok_def empty_slot_def bg_ids_def SH_MAX_BG_JOBS_def
    eval_nat_numeral)

lemma background_line:
  "map_option (\<lambda>(r, S'). (r, owned_ids S', live_strs (sh_strs S')))
     (sh_run_line job_kernel (sh_run_script 1 job_kernel) ''/a x | b > f &'' sh_start) = Some (Inr 0, [4, 5], {4, 5})"
  by code_simp


end
