(* ===== verification/Shell_Handles.thy ===== *)
theory Shell_Handles
  imports Shell_Strings
begin

text \<open>
  The handles that the shell has open: what running a job opens is closed again, except for the processes in the
  background table. The handles are a view of the kernel's state, which every system call changes as documented.
\<close>

section \<open>What the kernel promises\<close>

text \<open>A call that creates a handle, or the two of a pipe: a failure changes nothing, a success adds handles that were not open.\<close>

definition opens :: "('k \<Rightarrow> int set) \<Rightarrow> ('k \<Rightarrow> int \<times> 'k) \<Rightarrow> bool" where
  "opens owned f \<longleftrightarrow> (\<forall>k h k'. f k = (h, k') \<longrightarrow>
     (if h < 0 then owned k' = owned k else h \<notin> owned k \<and> owned k' = insert h (owned k)))"

definition opens_two :: "('k \<Rightarrow> int set) \<Rightarrow> ('k \<Rightarrow> int \<times> int \<times> int \<times> 'k) \<Rightarrow> bool" where
  "opens_two owned f \<longleftrightarrow> (\<forall>k st r w k'. f k = (st, r, w, k') \<longrightarrow>
     (if st < 0 then owned k' = owned k
      else r \<noteq> w \<and> r \<notin> owned k \<and> w \<notin> owned k \<and> owned k' = insert r (insert w (owned k))))"

definition keeps_owned :: "('k \<Rightarrow> int set) \<Rightarrow> ('k \<Rightarrow> 'a \<times> 'k) \<Rightarrow> bool" where
  "keeps_owned owned f \<longleftrightarrow> (\<forall>k. owned (snd (f k)) = owned k)"

definition owns_handles :: "'k kernel \<Rightarrow> ('k \<Rightarrow> int set) \<Rightarrow> bool" where
  "owns_handles K owned \<longleftrightarrow>
     (\<forall>args es flags. opens owned (\<lambda>k. sys_create_process K k args es flags)) \<and>
     (\<forall>p flags. opens owned (\<lambda>k. sys_create_file K k p flags)) \<and>
     (\<forall>t p flags. opens owned (\<lambda>k. sys_open K k t p flags)) \<and>
     (\<forall>n b. opens_two owned (\<lambda>k. sys_create_pipe K k n b)) \<and>
     (\<forall>k h. owned (snd (sys_close K k h)) = owned k - {h}) \<and>
     (\<forall>h bs k. owned (snd (snd (sys_write K k h bs))) = owned k) \<and>
     (\<forall>h off wh. keeps_owned owned (\<lambda>k. sys_seek K k h off wh)) \<and>
     (\<forall>h k. owned (snd (snd (sys_get_process_info K k h))) = owned k) \<and>
     (\<forall>h g. keeps_owned owned (\<lambda>k. sys_set_pgrp K k h g)) \<and>
     (\<forall>p a b i. keeps_owned owned (\<lambda>k. sys_duplicate_handle K k p a b i)) \<and>
     (\<forall>p sig. keeps_owned owned (\<lambda>k. sys_issue_signal K k p sig)) \<and>
     (\<forall>h. keeps_owned owned (\<lambda>k. sys_resume_process K k h)) \<and>
     (\<forall>h t. keeps_owned owned (\<lambda>k. sys_wait K k h t)) \<and>
     (\<forall>h c a. keeps_owned owned (\<lambda>k. sys_device_control K k h c a)) \<and>
     (\<forall>n. keeps_owned owned (\<lambda>k. heap_ok K k n))"

section \<open>Accounts\<close>

text \<open>The handles open beyond those of the base are the ones listed, each once.\<close>

definition has_open :: "('k \<Rightarrow> int set) \<Rightarrow> int set \<Rightarrow> int list \<Rightarrow> 'k shell \<Rightarrow> bool" where
  "has_open owned base hs S \<longleftrightarrow>
     owned (kern (sh_world S)) = base \<union> set hs \<and> set hs \<inter> base = {} \<and> distinct hs"

lemma has_open_mset: "has_open owned base hs S \<Longrightarrow> mset hs = mset hs' \<Longrightarrow> has_open owned base hs' S"
  using mset_eq_setD [of hs hs'] mset_eq_imp_distinct_iff [of hs hs'] by (auto simp: has_open_def)

lemma has_open_keep:
  "keeps_owned owned f \<Longrightarrow> has_open owned base hs S \<Longrightarrow> has_open owned base hs (snd (kcall f S))"
  by (auto simp: has_open_def keeps_owned_def kcall_def split_beta)

lemma has_open_keeps:
  "list_all (keeps_owned owned) fs \<Longrightarrow> has_open owned base hs S \<Longrightarrow> has_open owned base hs (kcalls fs S)"
  unfolding kcalls_def by (induction fs arbitrary: S) (auto intro: has_open_keep)

lemma has_open_new:
  assumes "opens owned f" "kcall f S = (h, S')" "has_open owned base hs S"
  shows "has_open owned base (if h < 0 then hs else h # hs) S'"
proof -
  obtain k' where k: "f (kern (sh_world S)) = (h, k')" "S' = S\<lparr>sh_world := (sh_world S)\<lparr>kern := k'\<rparr>\<rparr>"
    using assms(2) by (auto simp: kcall_def split: prod.splits)
  have "if h < 0 then owned k' = owned (kern (sh_world S))
      else h \<notin> owned (kern (sh_world S)) \<and> owned k' = insert h (owned (kern (sh_world S)))"
    using assms(1) k(1) unfolding opens_def by blast
  then show ?thesis using assms(3) by (auto simp: k(2) has_open_def split: if_splits)
qed

lemma has_open_cong: "kern (sh_world S') = kern (sh_world S) \<Longrightarrow> has_open owned base hs S' = has_open owned base hs S"
  by (simp add: has_open_def)

lemma has_open_close:
  assumes "owns_handles K owned" "has_open owned base (h # hs) S"
  shows "has_open owned base hs (snd (kcall (\<lambda>k. sys_close K k h) S))"
proof -
  have "owned (snd (sys_close K (kern (sh_world S)) h)) = owned (kern (sh_world S)) - {h}"
    using assms(1) by (simp add: owns_handles_def)
  then show ?thesis using assms(2) by (auto simp: has_open_def kcall_def split_beta)
qed

lemma has_open_close_all:
  "owns_handles K owned \<Longrightarrow> has_open owned base (hs @ hs') S \<Longrightarrow> has_open owned base hs' (close_all K hs S)"
  unfolding close_all_def kcalls_def
  by (induction hs arbitrary: S) (auto intro: has_open_close)

lemma has_open_kill:
  assumes "owns_handles K owned" "has_open owned base (map snd ps @ hs) S"
  shows "has_open owned base hs (kill_and_close K ps S)"
  using assms(2)
proof (induction ps arbitrary: S)
  case (Cons p ps)
  obtain pid h where p: "p = (pid, h)" by (cases p)
  have "keeps_owned owned (\<lambda>k. sys_issue_signal K k (int64 pid) SIGKILL)" using assms(1) by (simp add: owns_handles_def)
  then have "has_open owned base (map snd ps @ hs)
      (snd (kcall (\<lambda>k. sys_close K k h) (snd (kcall (\<lambda>k. sys_issue_signal K k (int64 pid) SIGKILL) S))))"
    using Cons.prems p by (intro has_open_close [OF assms(1)] has_open_keep) simp_all
  from Cons.IH [OF this] show ?case by (simp add: p kill_and_close_def kcalls_def)
qed (simp add: kill_and_close_def kcalls_def)

section \<open>Printing\<close>

lemma sh_printf_returns:
  assumes "format_text fmt args = Some t"
  obtains S' where "sh_printf K fmt args S = Some S'" "memory S' = memory S"
    "\<And>owned base hs. owns_handles K owned \<Longrightarrow> has_open owned base hs S \<Longrightarrow> has_open owned base hs S'"
proof -
  obtain r w where p: "printf K fmt args (sh_world S) = Some (r, w)" using printf_total [of fmt args K "sh_world S"] assms by blast
  have "owned (kern w) = owned (kern (sh_world S))" if "owns_handles K owned" for owned :: "'a \<Rightarrow> int set"
    using p that unfolding printf_def vprintf_def write_out_def
    by (auto simp: owns_handles_def Let_def split_beta split: bind_splits if_splits)
  then show ?thesis
    by (intro that [of "S\<lparr>sh_world := w\<rparr>"]) (auto simp: sh_printf_def p has_open_def)
qed

lemma messages:
  "\<exists>t. format_text (''sh: %s: not found'' @ [newline]) [VStr x] = Some t"
  "\<exists>t. format_text (''sh: command not found: %s'' @ [newline]) [VStr x] = Some t"
  "\<exists>t. format_text (''sh: %s: cannot open'' @ [newline]) [VStr x] = Some t"
  "\<exists>t. format_text (''sh: %s: %s'' @ [newline]) [VStr x, VStr y] = Some t"
  "\<exists>t. format_text (''sh: failed to create pipe'' @ [newline]) [] = Some t"
  "\<exists>t. format_text (''sh: too many background jobs'' @ [newline]) [] = Some t"
  "\<exists>t. format_text (''[%d] %zu'' @ [newline]) [VInt i, VLong j] = Some t"
  "\<exists>t. format_text (''[%d]+ Done %zu'' @ [newline]) [VInt i, VLong j] = Some t"
  by (cases x; cases y; simp add: format_simps)+

text \<open>A message in the middle of a function: it returns, and changes neither the memory nor the handles.\<close>

lemma message_returns:
  assumes "\<exists>t. format_text fmt args = Some t" "owns_handles K owned" "has_open owned base hs S"
  obtains S' where "sh_printf K fmt args S = Some S'" "has_open owned base hs S'"
  using assms sh_printf_returns by metis

section \<open>Processes\<close>

lemma first_start_open:
  assumes "owns_handles K owned" "has_open owned base xs S" "first_start (\<lambda>a. create_process K a flags) as S = (r, S')"
  shows "case r of None \<Rightarrow> has_open owned base xs S' | Some h \<Rightarrow> 0 \<le> h \<and> has_open owned base (h # xs) S'"
  using assms(2,3)
proof (induction as arbitrary: S)
  case (Cons a as)
  obtain h S1 where c: "create_process K a flags S = (h, S1)" by (cases "create_process K a flags S")
  have "opens owned (\<lambda>k. sys_create_process K k a (environ_strs (sh_env S)) flags)"
    using assms(1) by (simp add: owns_handles_def)
  then have "has_open owned base (if h < 0 then xs else h # xs) S1"
    using c Cons.prems(1) unfolding create_process_def by (rule has_open_new)
  then show ?case using Cons c by (auto split: if_splits)
qed simp

lemma path_search_open:
  assumes "owns_handles K owned" "has_open owned base xs S" "args \<noteq> []"
  obtains h S' where "sh_create_process_path_search K args flags S = Some (h, S')"
    "has_open owned base (if h < 0 then xs else h # xs) S'"
proof -
  obtain msg e where e: "e < 0" and msg: "msg \<in> {''sh: %s: not found'' @ [newline], ''sh: command not found: %s'' @ [newline]}"
    and eq: "sh_create_process_path_search K args flags S =
       (case first_start (\<lambda>a. create_process K a flags) (attempts (sh_env S) args) S of
          (Some h, S1) \<Rightarrow> Some (h, S1)
        | (None, S1) \<Rightarrow> do { S2 \<leftarrow> sh_printf K msg [VStr (Some (hd args))] S1; Some (e, S2) })"
    by (rule path_search_tries [OF assms(3)])
  obtain r S1 where f: "first_start (\<lambda>a. create_process K a flags) (attempts (sh_env S) args) S = (r, S1)"
    by (cases "first_start (\<lambda>a. create_process K a flags) (attempts (sh_env S) args) S")
  note o = first_start_open [OF assms(1,2) f]
  show ?thesis
  proof (cases r)
    case None
    have "\<exists>t. format_text msg [VStr (Some (hd args))] = Some t" using msg messages(1,2) by auto
    then obtain S2 where "sh_printf K msg [VStr (Some (hd args))] S1 = Some S2" "has_open owned base xs S2"
      using message_returns [OF _ assms(1), of msg "[VStr (Some (hd args))]" base xs S1] o None by auto
    then show ?thesis using that [of e S2] eq f None e by simp
  next
    case (Some h)
    then show ?thesis using that [of h S1] eq f o by simp
  qed
qed

text \<open>A redirection as the parser makes it, to one of the three standard handles.\<close>

definition redirect_ok :: "redirect \<Rightarrow> bool" where
  "redirect_ok rd \<longleftrightarrow> redir_fd rd \<in> {0..2} \<and> (kind rd \<noteq> REDIR_DUP_FD \<longrightarrow> path rd \<noteq> None)"

lemma open_redirect_open:
  assumes "owns_handles K owned" "has_open owned base xs S" "open_redirect K kd p S = (h, S')"
  shows "has_open owned base (if h < 0 then xs else h # xs) S'"
proof -
  have create: "opens owned (\<lambda>k. sys_create_file K k p flags)" for flags using assms(1) by (simp add: owns_handles_def)
  have opn: "opens owned (\<lambda>k. sys_open K k ''fs'' p 0)" using assms(1) by (simp add: owns_handles_def)
  have seek: "keeps_owned owned (\<lambda>k. sys_seek K k h 0 SEEK_END)" using assms(1) by (simp add: owns_handles_def)
  show ?thesis
  proof (cases "kd = REDIR_APPEND")
    case True
    obtain h1 S1 where 1: "kcall (\<lambda>k. sys_create_file K k p CREATE_FILE_EXIST_FLAG) S = (h1, S1)"
      by (cases "kcall (\<lambda>k. sys_create_file K k p CREATE_FILE_EXIST_FLAG) S")
    obtain h2 S2 where 2: "(if h1 < 0 then kcall (\<lambda>k. sys_create_file K k p 0) S1 else (h1, S1)) = (h2, S2)"
      by (cases "if h1 < 0 then kcall (\<lambda>k. sys_create_file K k p 0) S1 else (h1, S1)")
    have "has_open owned base (if h1 < 0 then xs else h1 # xs) S1" by (rule has_open_new [OF create 1 assms(2)])
    then have "has_open owned base (if h2 < 0 then xs else h2 # xs) S2"
      using 2 has_open_new [OF create [of 0], of S1 h2 S2 base xs] by (auto split: if_splits)
    then show ?thesis using assms(3) True 1 2 has_open_keep [OF seek] by (auto simp: open_redirect_def split: if_splits)
  next
    case False
    then show ?thesis
      using assms(3) has_open_new [OF create [of 0] _ assms(2), of h S'] has_open_new [OF opn _ assms(2), of h S']
      by (auto simp: open_redirect_def split: if_splits)
  qed
qed

lemma resolve_open:
  assumes "owns_handles K owned" "has_open owned base xs S" "redirect_ok rd"
  obtains h S' where "sh_resolve_redirect K rd cur S = Some (h, S')"
    "has_open owned base (if h < 0 \<or> kind rd = REDIR_DUP_FD then xs else h # xs) S'"
proof (cases "kind rd = REDIR_DUP_FD")
  case True
  show ?thesis
    by (rule that [of "if dup_target_fd rd < 0 \<or> dup_target_fd rd > 2 then E_INVALID else cur ! nat (dup_target_fd rd)" S])
      (use True assms(2) in \<open>auto simp: sh_resolve_redirect_def\<close>)
next
  case False
  then obtain i p where p: "path rd = Some (i, p)" using assms(3) by (auto simp: redirect_ok_def)
  obtain h S1 where c: "open_redirect K (kind rd) p S = (h, S1)" by (cases "open_redirect K (kind rd) p S")
  note o = open_redirect_open [OF assms(1,2) c]
  show ?thesis
  proof (cases "h < 0")
    case True
    then have "has_open owned base xs S1" using o by simp
    then obtain S2 where "sh_printf K (''sh: %s: cannot open'' @ [newline]) [VStr (Some p)] S1 = Some S2" "has_open owned base xs S2"
      by (rule message_returns [OF messages(3) assms(1)])
    then show ?thesis using that [of h S2] False p c True by (simp add: sh_resolve_redirect_def)
  next
    case False': False
    show ?thesis by (rule that [of h S1]) (use False False' p c o in \<open>simp_all add: sh_resolve_redirect_def\<close>)
  qed
qed

lemma redirect_loop_open:
  assumes "owns_handles K owned" "has_open owned base (opened @ xs) S" "list_all redirect_ok rds"
  obtains cur' failed' opened' S' where "redirect_loop K rds cur failed opened S = Some (cur', failed', opened', S')"
    "has_open owned base (opened' @ xs) S'"
  using assms(2,3)
proof (induction rds arbitrary: cur failed opened S thesis)
  case (Cons rd rds)
  have ok: "redirect_ok rd" "list_all redirect_ok rds" using Cons.prems(3) by simp_all
  obtain h S1 where r: "sh_resolve_redirect K rd cur S = Some (h, S1)"
    "has_open owned base (if h < 0 \<or> kind rd = REDIR_DUP_FD then opened @ xs else h # opened @ xs) S1"
    by (rule resolve_open [OF assms(1) Cons.prems(2) ok(1)])
  define opened1 where "opened1 = (if h \<ge> 0 \<and> kind rd \<noteq> REDIR_DUP_FD then opened @ [h] else opened)"
  have o: "has_open owned base (opened1 @ xs) S1"
    by (rule has_open_mset [OF r(2)]) (simp add: opened1_def)
  obtain cur' failed' opened' S' where "redirect_loop K rds (if h < 0 then cur else cur[nat (redir_fd rd) := h]) (failed \<or> h < 0) opened1 S1 =
      Some (cur', failed', opened', S')" "has_open owned base (opened' @ xs) S'"
    by (rule Cons.IH [OF _ o ok(2)])
  moreover have "\<not> (redir_fd rd < 0 \<or> redir_fd rd > 2)" using ok(1) by (auto simp: redirect_ok_def)
  ultimately show ?case
    using Cons.prems(1) [of cur' failed' opened' S'] r(1) by (auto simp: opened1_def split: if_splits)
qed auto

section \<open>Jobs\<close>

text \<open>A job whose stages all name a command, with redirections of the three standard handles only.\<close>

definition job_ready :: "job \<Rightarrow> bool" where
  "job_ready job \<longleftrightarrow> job \<noteq> [] \<and> list_all (\<lambda>st. argv st \<noteq> [] \<and> list_all redirect_ok (redirects st)) job"

lemma pipe_loop_open:
  assumes "owns_handles K owned" "has_open owned base (pipe_ends pipes @ xs) S"
  obtains r S' where "pipe_loop K n pipes S = Some (r, S')"
    "has_open owned base ((case r of None \<Rightarrow> [] | Some ps \<Rightarrow> pipe_ends ps) @ xs) S'"
  using assms(2)
proof (induction n arbitrary: pipes S thesis)
  case (Suc n)
  obtain st r w S1 where p: "create_pipe K S = ((st, r, w), S1)" by (cases "create_pipe K S") auto
  then obtain k where k: "sys_create_pipe K (kern (sh_world S)) None False = (st, r, w, k)" "S1 = S\<lparr>sh_world := (sh_world S)\<lparr>kern := k\<rparr>\<rparr>"
    by (auto simp: create_pipe_def kcall_def split: prod.splits)
  have "opens_two owned (\<lambda>k. sys_create_pipe K k None False)" using assms(1) by (simp add: owns_handles_def)
  note law = this [unfolded opens_two_def, rule_format, OF k(1)]
  show ?case
  proof (cases "st < 0")
    case True
    then have "has_open owned base (pipe_ends pipes @ xs) S1" using Suc.prems(2) law by (simp add: has_open_def k(2))
    then obtain S2 where "sh_printf K (''sh: failed to create pipe'' @ [newline]) [] S1 = Some S2" "has_open owned base (pipe_ends pipes @ xs) S2"
      by (rule message_returns [OF messages(5) assms(1)])
    then show ?thesis
      using Suc.prems(1) [of None "close_all K (pipe_ends pipes) S2"] has_open_close_all [OF assms(1)] p True by simp
  next
    case False
    have "has_open owned base (r # w # pipe_ends pipes @ xs) S1"
      using False Suc.prems(2) law by (auto simp: has_open_def k(2))
    then have "has_open owned base (pipe_ends (pipes @ [(r, w)]) @ xs) S1"
      by (rule has_open_mset) (simp add: pipe_ends_def)
    then obtain q S' where "pipe_loop K n (pipes @ [(r, w)]) S1 = Some (q, S')"
        "has_open owned base ((case q of None \<Rightarrow> [] | Some ps \<Rightarrow> pipe_ends ps) @ xs) S'"
      using Suc.IH by blast
    then show ?thesis using Suc.prems(1) p False by simp
  qed
qed auto

lemma join_group_open:
  assumes "owns_handles K owned" "has_open owned base xs S" "join_group K h sp S = (pid, S')"
  shows "has_open owned base xs S'"
proof -
  have info: "has_open owned base xs (snd (get_process_info K h S))"
    using assms(1,2) by (simp add: get_process_info_def has_open_def kcall_def owns_handles_def split_beta)
  have "keeps_owned owned (\<lambda>k. sys_set_pgrp K k h g)" for g using assms(1) by (simp add: owns_handles_def)
  from has_open_keep [OF this info] assms(3) show ?thesis
    by (simp add: join_group_def Let_def split_beta) metis
qed

lemma duplicate_std_open:
  assumes "owns_handles K owned" "has_open owned base xs S"
  shows "has_open owned base xs (duplicate_std K h cur S)"
  unfolding duplicate_std_def by (rule has_open_keeps) (use assms in \<open>simp_all add: owns_handles_def\<close>)

lemma spawn_stage_open:
  assumes "owns_handles K owned" "has_open owned base (stage_handles sp @ opened_files sp @ xs) S"
    "argv st \<noteq> []" "list_all redirect_ok (redirects st)"
  obtains aborted sp' S' where "spawn_stage K pipes n st sp S = Some (aborted, sp', S')"
    "has_open owned base (stage_handles sp' @ opened_files sp' @ xs) S'"
proof -
  obtain h S1 where s: "sh_create_process_path_search K (map snd (argv st)) PROCESS_SUSPEND_FLAG S = Some (h, S1)"
    "has_open owned base (if h < 0 then stage_handles sp @ opened_files sp @ xs else h # stage_handles sp @ opened_files sp @ xs) S1"
    using path_search_open [OF assms(1,2), of "map snd (argv st)" PROCESS_SUSPEND_FLAG] assms(3) by auto
  show ?thesis
  proof (cases "h < 0")
    case False
    obtain pid S2 where g: "join_group K h sp S1 = (pid, S2)" by (cases "join_group K h sp S1")
    have "has_open owned base (h # stage_handles sp @ opened_files sp @ xs) S2"
      by (rule join_group_open [OF assms(1) _ g]) (use s(2) False in simp)
    then have "has_open owned base (opened_files sp @ (stage_handles sp @ [h]) @ xs) S2" by (rule has_open_mset) simp
    then obtain cur failed opened S3 where r: "redirect_loop K (redirects st)
          (spawn_cur (tty S2) pipes n (length (stage_handles sp))) False (opened_files sp) S2 = Some (cur, failed, opened, S3)"
        "has_open owned base (opened @ (stage_handles sp @ [h]) @ xs) S3"
      by (rule redirect_loop_open [OF assms(1) _ assms(4)])
    show ?thesis
      by (rule that [of failed "add_stage h pid (snd (hd (argv st))) opened sp" "duplicate_std K h cur S3"])
        (use s(1) False g r(1) duplicate_std_open [OF assms(1) has_open_mset [OF r(2)], of "stage_handles sp @ [h] @ opened @ xs"]
          in \<open>simp_all add: spawn_stage_def add_stage_def\<close>)
  qed (use that [of True sp S1] s in \<open>simp add: spawn_stage_def\<close>)
qed

lemma spawn_loop_open:
  assumes "owns_handles K owned" "has_open owned base (stage_handles sp @ opened_files sp @ xs) S"
    "list_all (\<lambda>st. argv st \<noteq> [] \<and> list_all redirect_ok (redirects st)) sts"
  obtains aborted sp' S' where "spawn_loop K pipes n sts sp S = Some (aborted, sp', S')"
    "has_open owned base (stage_handles sp' @ opened_files sp' @ xs) S'"
  using assms(2,3)
proof (induction sts arbitrary: sp S thesis)
  case (Cons st sts)
  obtain aborted sp1 S1 where s: "spawn_stage K pipes n st sp S = Some (aborted, sp1, S1)"
      "has_open owned base (stage_handles sp1 @ opened_files sp1 @ xs) S1"
    by (rule spawn_stage_open [OF assms(1) Cons.prems(2), of st pipes n]) (use Cons.prems(3) in auto)
  show ?case
  proof (cases aborted)
    case False
    obtain aborted' sp' S' where "spawn_loop K pipes n sts sp1 S1 = Some (aborted', sp', S')"
        "has_open owned base (stage_handles sp' @ opened_files sp' @ xs) S'"
      by (rule Cons.IH [OF _ s(2)]) (use Cons.prems(3) in auto)
    then show ?thesis using Cons.prems(1) s(1) False by simp
  qed (use Cons.prems(1) s in simp)
qed auto

lemma spawn_stages_open:
  assumes "owns_handles K owned" "has_open owned base xs S" "job_ready job"
  obtains aborted sp S' where "spawn_stages K job S = Some (aborted, sp, S')"
    "has_open owned base ((if aborted then [] else stage_handles sp) @ xs) S'"
proof -
  obtain r S1 where p: "pipe_loop K (length job - 1) [] S = Some (r, S1)"
    "has_open owned base ((case r of None \<Rightarrow> [] | Some ps \<Rightarrow> pipe_ends ps) @ xs) S1"
    by (rule pipe_loop_open [OF assms(1), of base "[]" xs S]) (use assms(2) in \<open>auto simp: pipe_ends_def\<close>)
  show ?thesis
  proof (cases r)
    case (Some pipes)
    obtain aborted sp S2 where s: "spawn_loop K pipes (length job) job none_spawned S1 = Some (aborted, sp, S2)"
      "has_open owned base (stage_handles sp @ opened_files sp @ pipe_ends pipes @ xs) S2"
      by (rule spawn_loop_open [OF assms(1), of base none_spawned "pipe_ends pipes @ xs" S1 job])
        (use p Some assms(3) in \<open>auto simp: none_spawned_def job_ready_def\<close>)
    define S4 where "S4 = close_all K (opened_files sp) (close_all K (pipe_ends pipes) S2)"
    have "has_open owned base (stage_handles sp @ xs) S4"
      unfolding S4_def
      by (intro has_open_close_all [OF assms(1)] has_open_mset [OF s(2)]) simp
    moreover have "length (stage_pids sp) = length (stage_handles sp)"
      using spawn_loop_length [OF s(1)] by (simp add: same_length_def none_spawned_def)
    ultimately have "has_open owned base ((if aborted then [] else stage_handles sp) @ xs)
        (if aborted then kill_and_close K (zip (stage_pids sp) (stage_handles sp)) S4 else S4)"
      using has_open_kill [OF assms(1), of base "zip (stage_pids sp) (stage_handles sp)" xs S4] by simp
    then show ?thesis using p(1) Some s(1) by (intro that) (auto simp: spawn_stages_def S4_def Let_def)
  qed (use that [of True none_spawned S1] p in \<open>simp add: spawn_stages_def\<close>)
qed

lemma info_open:
  assumes "owns_handles K owned" "has_open owned base xs S" "get_process_info K h S = (i, S')"
  shows "has_open owned base xs S'"
proof -
  have "owned (snd (snd (sys_get_process_info K k h))) = owned k" for k using assms(1) by (simp add: owns_handles_def)
  then have "has_open owned base xs (snd (get_process_info K h S))"
    using assms(2) by (simp add: get_process_info_def has_open_def kcall_def split_beta)
  then show ?thesis using assms(3) by simp
qed

lemma report_open:
  assumes "owns_handles K owned" "has_open owned base xs S"
  obtains S' where "report_stage_status K name h S = Some S'" "has_open owned base xs S'"
proof -
  obtain st info S1 where i: "get_process_info K h S = ((st, info), S1)" by (cases "get_process_info K h S") auto
  note o = info_open [OF assms i]
  obtain S2 where "sh_printf K (''sh: %s: %s'' @ [newline])
      [VStr name, VStr (Some (signal_name (uint8 (exit_code (proc_exit info)))))] S1 = Some S2" "has_open owned base xs S2"
    by (rule message_returns [OF messages(4) assms(1) o])
  then show ?thesis
    using that [of "if st \<ge> 0 \<and> exit_reason (proc_exit info) = EXIT_SIGNAL then S2 else S1"] i o
    by (simp add: report_stage_status_def)
qed

lemma finish_loop_open:
  assumes "owns_handles K owned" "has_open owned base (map snd ps @ xs) S"
  obtains r S' where "finish_loop K ps status S = Some (r, S')" "has_open owned base xs S'"
  using assms(2)
proof (induction ps arbitrary: status S thesis)
  case (Cons p ps)
  obtain name h where p: "p = (name, h)" by (cases p)
  obtain st info S1 where i: "get_process_info K h S = ((st, info), S1)" by (cases "get_process_info K h S") auto
  obtain S2 where r: "report_stage_status K (Some name) h S1 = Some S2" "has_open owned base (map snd (p # ps) @ xs) S2"
    by (rule report_open [OF assms(1) info_open [OF assms(1) Cons.prems(2) i]])
  have "has_open owned base (map snd ps @ xs) (snd (kcall (\<lambda>k. sys_close K k h) S2))"
    by (rule has_open_close [OF assms(1)]) (use r(2) p in simp)
  then obtain q S' where "finish_loop K ps (if ps = [] \<and> st \<ge> 0
                    then (if exit_reason (proc_exit info) = EXIT_NORMAL \<and> exit_code (proc_exit info) = 0 then 0 else 1)
                    else status) (snd (kcall (\<lambda>k. sys_close K k h) S2)) = Some (q, S')" "has_open owned base xs S'"
    using Cons.IH by blast
  then show ?case using Cons.prems(1) p i r(1) by (simp add: Let_def)
qed simp

lemma device_control_open:
  assumes "owns_handles K owned" "has_open owned base xs S"
  shows "has_open owned base xs (snd (kcall (\<lambda>k. sys_device_control K k h c a) S))"
    "has_open owned base xs (kcalls [\<lambda>k. sys_device_control K k h c a, \<lambda>k. sys_device_control K k h' c' a'] S)"
    "has_open owned base xs (resume_all K hs S)"
    "has_open owned base xs (kcalls (map (\<lambda>h k. sys_wait K k h t) hs) S)"
proof -
  have c: "keeps_owned owned (\<lambda>k. sys_device_control K k h c a)" for h c a using assms(1) by (simp add: owns_handles_def)
  have r: "keeps_owned owned (\<lambda>k. sys_resume_process K k h)" for h using assms(1) by (simp add: owns_handles_def)
  have w: "keeps_owned owned (\<lambda>k. sys_wait K k h t)" for h using assms(1) by (simp add: owns_handles_def)
  show "has_open owned base xs (snd (kcall (\<lambda>k. sys_device_control K k h c a) S))" by (rule has_open_keep [OF c assms(2)])
  show "has_open owned base xs (kcalls [\<lambda>k. sys_device_control K k h c a, \<lambda>k. sys_device_control K k h' c' a'] S)"
    by (rule has_open_keeps [OF _ assms(2)]) (simp add: c)
  show "has_open owned base xs (resume_all K hs S)"
    unfolding resume_all_def by (rule has_open_keeps [OF _ assms(2)]) (simp add: r list_all_iff)
  show "has_open owned base xs (kcalls (map (\<lambda>h k. sys_wait K k h t) hs) S)"
    by (rule has_open_keeps [OF _ assms(2)]) (simp add: w list_all_iff)
qed

lemma exec_job_fg_open:
  assumes "owns_handles K owned" "has_open owned base xs S" "job_ready job"
  obtains r S' where "exec_job_fg K job grab_fg S = Some (r, S')" "has_open owned base xs S'"
proof -
  obtain aborted sp S1 where s: "spawn_stages K job S = Some (aborted, sp, S1)"
    "has_open owned base ((if aborted then [] else stage_handles sp) @ xs) S1"
    by (rule spawn_stages_open [OF assms])
  show ?thesis
  proof (cases aborted)
    case False
    note calls = device_control_open [OF assms(1)]
    define S2 where "S2 = (if grab_fg then snd (kcall (\<lambda>k. sys_device_control K k (tty S1) SET_FOREGROUND_PGRP (stage_pgid sp)) S1) else S1)"
    define S4 where "S4 = kcalls (map (\<lambda>h k. sys_wait K k h (-1)) (stage_handles sp)) (resume_all K (stage_handles sp) S2)"
    define S5 where "S5 = (if grab_fg then
                   kcalls [\<lambda>k. sys_device_control K k (tty S4) SET_FOREGROUND_PGRP (shell_pid S4),
                           \<lambda>k. sys_device_control K k (tty S4) SET_TTY_MODE (or TTY_MODE_ECHO TTY_MODE_CANON)] S4 else S4)"
    have "has_open owned base (stage_handles sp @ xs) S2" using s(2) False calls(1) by (simp add: S2_def)
    then have "has_open owned base (stage_handles sp @ xs) S4" unfolding S4_def by (intro calls(3,4))
    then have "has_open owned base (stage_handles sp @ xs) S5" using calls(2) by (simp add: S5_def)
    moreover have "length (stage_names sp) = length (stage_handles sp)"
      using spawn_stages_length [OF s(1)] by (simp add: same_length_def)
    ultimately have "has_open owned base (map snd (zip (stage_names sp) (stage_handles sp)) @ xs) S5" by simp
    then obtain r S' where "finish_loop K (zip (stage_names sp) (stage_handles sp)) 0 S5 = Some (r, S')" "has_open owned base xs S'"
      by (rule finish_loop_open [OF assms(1)])
    moreover have "exec_job_fg K job grab_fg S = finish_loop K (zip (stage_names sp) (stage_handles sp)) 0 S5"
      using s(1) False unfolding S5_def S4_def S2_def by (simp add: exec_job_fg_def Let_def)
    ultimately show ?thesis using that by simp
  qed (use that [of "-1" S1] s in \<open>simp add: exec_job_fg_def\<close>)
qed

section \<open>Background jobs\<close>

definition bg_open :: "bg_job \<Rightarrow> int list" where
  "bg_open bg = (if in_use bg then bg_handles bg else [])"

text \<open>Between two command lines: beyond the base, exactly the processes of the background table are open.\<close>

definition handles_ok :: "('k \<Rightarrow> int set) \<Rightarrow> int set \<Rightarrow> 'k shell \<Rightarrow> bool" where
  "handles_ok owned base S \<longleftrightarrow> has_open owned base (concat (map bg_open (bg_jobs S))) S \<and> slots_ok (bg_jobs S)"

lemma strdup_all_open:
  assumes "owns_handles K owned" "has_open owned base xs S" "strdup_all K ss S = (ps, S')"
  shows "has_open owned base xs S' \<and> length ps = length ss \<and> bg_jobs S' = bg_jobs S"
  using assms(2,3)
proof (induction ss arbitrary: S ps)
  case (Cons t ss)
  obtain p H k where t: "sh_strdup K t (sh_strs S) (kern (sh_world S)) = (p, H, k)"
    by (cases "sh_strdup K t (sh_strs S) (kern (sh_world S))")
  have "keeps_owned owned (\<lambda>k. heap_ok K k (length t + 1))" using assms(1) by (simp add: owns_handles_def)
  then have "owned k = owned (kern (sh_world S))"
    using t by (auto simp: sh_strdup_def keeps_owned_def Let_def split: prod.splits if_splits) (metis snd_conv)+
  then have "has_open owned base xs (S\<lparr>sh_strs := H, sh_world := (sh_world S)\<lparr>kern := k\<rparr>\<rparr>)"
    using Cons.prems(1) by (simp add: has_open_def)
  from Cons.IH [OF this] Cons.prems(2) t show ?case by (auto split: prod.splits)
qed simp

lemma register_job_open:
  assumes "owns_handles K owned" "has_open owned base (stage_handles sp @ concat (map bg_open (bg_jobs S))) S"
    "slots_ok (bg_jobs S)" "same_length sp" "free_slot (bg_jobs S) = Some slot" "strdup_all K (stage_names sp) S = (names, S')"
  shows "handles_ok owned base (S'\<lparr>bg_jobs := (bg_jobs S')[slot := \<lparr>in_use = True, job_pgid = stage_pgid sp,
    bg_handles = stage_handles sp, bg_pids = stage_pids sp, bg_names = names\<rparr>]\<rparr>)"
proof -
  define bg where "bg = \<lparr>in_use = True, job_pgid = stage_pgid sp, bg_handles = stage_handles sp, bg_pids = stage_pids sp, bg_names = names\<rparr>"
  note o = strdup_all_open [OF assms(1,2,6)]
  have "mset (stage_handles sp @ concat (map bg_open (bg_jobs S))) = mset (concat (map bg_open ((bg_jobs S')[slot := bg])))"
    using mset_concat_update [of slot "bg_jobs S" bg_open bg] free_slot_free [OF assms(5)] o by (simp add: bg_open_def bg_def)
  with o have "has_open owned base (concat (map bg_open ((bg_jobs S')[slot := bg]))) S'" by (metis has_open_mset)
  then have "has_open owned base (concat (map bg_open ((bg_jobs S')[slot := bg]))) (S'\<lparr>bg_jobs := (bg_jobs S')[slot := bg]\<rparr>)"
    by (simp add: has_open_def)
  moreover have "slots_ok ((bg_jobs S')[slot := bg])"
    using assms(3,4) o by (intro slots_ok_update) (auto simp: bg_def same_length_def)
  ultimately show ?thesis by (simp add: handles_ok_def bg_def)
qed

lemma exec_job_bg_open:
  assumes "owns_handles K owned" "handles_ok owned base S" "job_ready job"
  obtains S' where "exec_job_bg K job S = Some S'" "handles_ok owned base S'"
proof -
  let ?xs = "concat (map bg_open (bg_jobs S))"
  obtain aborted sp S1 where s: "spawn_stages K job S = Some (aborted, sp, S1)"
    "has_open owned base ((if aborted then [] else stage_handles sp) @ ?xs) S1"
    by (rule spawn_stages_open [OF assms(1) _ assms(3)]) (use assms(2) in \<open>auto simp: handles_ok_def\<close>)
  have b1: "bg_jobs S1 = bg_jobs S" by (rule memory_fields(5) [OF memory_spawn_stages [OF s(1)]])
  define S2 where "S2 = resume_all K (stage_handles sp) S1"
  have b2: "bg_jobs S2 = bg_jobs S" using b1 memory_fields(5) [of S2 S1] by (simp add: S2_def)
  note len = spawn_stages_length [OF s(1)]
  show ?thesis
  proof (cases aborted)
    case True
    show ?thesis by (rule that [of S1]) (use s True b1 assms(2) in \<open>simp_all add: exec_job_bg_def handles_ok_def\<close>)
  next
    case False
    have o2: "has_open owned base (stage_handles sp @ ?xs) S2"
      unfolding S2_def by (rule device_control_open(3) [OF assms(1)]) (use s(2) False in simp)
    show ?thesis
    proof (cases "free_slot (bg_jobs S2)")
      case None
      obtain S3 where p: "sh_printf K (''sh: too many background jobs'' @ [newline]) [] S2 = Some S3"
        "has_open owned base (stage_handles sp @ ?xs) S3"
        by (rule message_returns [OF messages(6) assms(1) o2])
      define S4 where "S4 = kill_and_close K (zip (stage_pids sp) (stage_handles sp)) S3"
      have "has_open owned base ?xs S4" unfolding S4_def by (rule has_open_kill [OF assms(1)]) (use p(2) len in \<open>simp add: same_length_def\<close>)
      moreover have "bg_jobs S4 = bg_jobs S"
        using b2 memory_fields(5) [OF memory_printf [OF p(1)]] memory_fields(5) [of S4 S3] by (simp add: S4_def)
      ultimately show ?thesis
        using that [of S4] s(1) False None p(1) assms(2) by (simp add: exec_job_bg_def S2_def S4_def handles_ok_def)
    next
      case (Some slot)
      obtain names S3 where n: "strdup_all K (stage_names sp) S2 = (names, S3)" by (cases "strdup_all K (stage_names sp) S2")
      define S4 where "S4 = S3\<lparr>bg_jobs := (bg_jobs S3)[slot := \<lparr>in_use = True, job_pgid = stage_pgid sp,
        bg_handles = stage_handles sp, bg_pids = stage_pids sp, bg_names = names\<rparr>]\<rparr>"
      have o4: "handles_ok owned base S4"
        unfolding S4_def by (rule register_job_open [OF assms(1) _ _ len Some n]) (use o2 b2 assms(2) in \<open>simp_all add: handles_ok_def\<close>)
      obtain S5 where p: "sh_printf K (''[%d] %zu'' @ [newline]) [VInt (int slot + 1), VLong (stage_pgid sp)] S4 = Some S5"
        "has_open owned base (concat (map bg_open (bg_jobs S4))) S5"
        by (rule message_returns [OF messages(7) assms(1)]) (use o4 in \<open>auto simp: handles_ok_def\<close>)
      have "exec_job_bg K job S = Some S5"
        using s(1) False Some n p(1) by (simp add: exec_job_bg_def S2_def S4_def Let_def)
      then show ?thesis
        using that [of S5] p(2) o4 memory_fields(5) [OF memory_printf [OF p(1)]] by (simp add: handles_ok_def)
    qed
  qed
qed

lemma all_done_open:
  assumes "owns_handles K owned" "has_open owned base xs S" "all_done K hs S = (fin, S')"
  shows "has_open owned base xs S'"
  using assms(2,3)
proof (induction hs arbitrary: S)
  case (Cons h hs)
  obtain st S1 where w: "kcall (\<lambda>k. sys_wait K k h 0) S = (st, S1)" by (cases "kcall (\<lambda>k. sys_wait K k h 0) S")
  have "keeps_owned owned (\<lambda>k. sys_wait K k h 0)" using assms(1) by (simp add: owns_handles_def)
  from has_open_keep [OF this Cons.prems(1)] w have "has_open owned base xs S1" by simp
  then show ?case using Cons w by (auto split: if_splits)
qed simp

lemma reap_stages_open:
  assumes "owns_handles K owned" "has_open owned base (map snd ps @ xs) S"
  obtains S' where "reap_stages K ps S = Some S'" "has_open owned base xs S'" "bg_jobs S' = bg_jobs S"
  using assms(2)
proof (induction ps arbitrary: S thesis)
  case (Cons p ps)
  obtain name h where p: "p = (name, h)" by (cases p)
  obtain S1 where r: "report_stage_status K (map_option snd name) h S = Some S1" "has_open owned base (map snd (p # ps) @ xs) S1"
    by (rule report_open [OF assms(1) Cons.prems(2)])
  define S2 where "S2 = snd (kcall (\<lambda>k. sys_close K k h) S1)"
  have "has_open owned base (map snd ps @ xs) S2" unfolding S2_def by (rule has_open_close [OF assms(1)]) (use r(2) p in simp)
  then have o: "has_open owned base (map snd ps @ xs) (S2\<lparr>sh_strs := free_str name (sh_strs S2)\<rparr>)" by (simp add: has_open_def)
  obtain S' where "reap_stages K ps (S2\<lparr>sh_strs := free_str name (sh_strs S2)\<rparr>) = Some S'" "has_open owned base xs S'"
      "bg_jobs S' = bg_jobs (S2\<lparr>sh_strs := free_str name (sh_strs S2)\<rparr>)"
    by (rule Cons.IH [OF _ o])
  moreover have "bg_jobs S2 = bg_jobs S"
    using memory_fields(5) [OF memory_report [OF r(1)]] memory_fields(5) [of S2 S1] by (simp add: S2_def)
  ultimately show ?case using Cons.prems(1) p r(1) by (simp add: S2_def Let_def)
qed simp

lemma reap_slot_open:
  assumes "owns_handles K owned" "handles_ok owned base S" "i < SH_MAX_BG_JOBS"
  obtains S' where "reap_slot K i S = Some S'" "handles_ok owned base S'"
proof -
  let ?xs = "concat (map bg_open (bg_jobs S))"
  define bg where "bg = bg_jobs S ! i"
  obtain fin S1 where d: "all_done K (bg_handles bg) S = (fin, S1)" by (cases "all_done K (bg_handles bg) S")
  have o1: "has_open owned base ?xs S1"
    by (rule all_done_open [OF assms(1) _ d]) (use assms(2) in \<open>simp add: handles_ok_def\<close>)
  note b1 = memory_fields(5) [OF all_done_memory [OF d]]
  have i: "i < length (bg_jobs S)" using assms(2,3) by (simp add: handles_ok_def slots_ok_def)
  show ?thesis
  proof (cases "in_use bg \<and> fin")
    case True
    obtain S2 where p: "sh_printf K (''[%d]+ Done %zu'' @ [newline]) [VInt (int i + 1), VLong (job_pgid bg)] S1 = Some S2"
      "has_open owned base ?xs S2"
      by (rule message_returns [OF messages(8) assms(1) o1])
    let ?ys = "concat (map bg_open ((bg_jobs S)[i := bg\<lparr>in_use := False\<rparr>]))"
    have len: "length (bg_names bg) = length (bg_handles bg)"
      using assms(2) i True by (simp add: handles_ok_def slots_ok_def bg_def)
    have "mset ?xs = mset (map snd (zip (bg_names bg) (bg_handles bg)) @ ?ys)"
      using mset_concat_update [OF i, of bg_open "bg\<lparr>in_use := False\<rparr>"] True len by (simp add: bg_open_def bg_def [symmetric] add.commute)
    with p(2) have "has_open owned base (map snd (zip (bg_names bg) (bg_handles bg)) @ ?ys) S2" by (rule has_open_mset)
    then obtain S3 where r: "reap_stages K (zip (bg_names bg) (bg_handles bg)) S2 = Some S3" "has_open owned base ?ys S3" "bg_jobs S3 = bg_jobs S2"
      by (rule reap_stages_open [OF assms(1)])
    have "bg_jobs S3 = bg_jobs S" using r(3) b1 memory_fields(5) [OF memory_printf [OF p(1)]] by simp
    moreover have "slots_ok ((bg_jobs S)[i := bg\<lparr>in_use := False\<rparr>])"
      by (rule slots_ok_update) (use assms(2) in \<open>simp_all add: handles_ok_def\<close>)
    ultimately show ?thesis
      using that [of "S3\<lparr>bg_jobs := (bg_jobs S3)[i := bg\<lparr>in_use := False\<rparr>]\<rparr>"] r(1,2) True d p(1)
      by (simp add: reap_slot_def bg_def [symmetric] handles_ok_def has_open_def Let_def)
  next
    case False
    then show ?thesis
      using that [of "if in_use bg then S1 else S"] d o1 b1 assms(2)
      by (auto simp: reap_slot_def bg_def [symmetric] handles_ok_def Let_def)
  qed
qed

lemma reap_open:
  assumes "owns_handles K owned" "handles_ok owned base S"
  obtains S' where "sh_reap_background_jobs K S = Some S'" "handles_ok owned base S'"
proof -
  have "\<exists>S'. reap_loop K is S = Some S' \<and> handles_ok owned base S'"
    if "handles_ok owned base S" "\<forall>i \<in> set is. i < SH_MAX_BG_JOBS" for "is" S
    using that
  proof (induction "is" arbitrary: S)
    case (Cons i "is")
    obtain S1 where "reap_slot K i S = Some S1" "handles_ok owned base S1"
      by (rule reap_slot_open [OF assms(1) Cons.prems(1), of i]) (use Cons.prems(2) in auto)
    then show ?case using Cons by auto
  qed simp
  from this [OF assms(2), of "[0..<SH_MAX_BG_JOBS]"] that show ?thesis by (auto simp: sh_reap_background_jobs_def)
qed

end
