(* ===== verification/Shell_Props.thy ===== *)
theory Shell_Props
  imports Shell_Handles
begin

text \<open>
  The properties of the executor: handles, the search for commands, and command lines that it does not check.
\<close>

section \<open>Handles\<close>

text \<open>C11. Running a job leaks no handle. Let the kernel keep its account of the handles of the shell as documented,
  and let every stage of the job name a command and redirect the standard handles only. Then a job in the
  foreground, a job in the background and the poll of the background jobs all return, and afterwards the shell
  has exactly the handles open that it had before, with the processes of the background table: every pipe,
  every redirected file and every process handle is closed exactly where it should be, also when a pipe, a
  process or a file cannot be created in the middle of the job, and when the table is full.\<close>

theorem jobs_keep_handles:
  assumes "owns_handles K owned" "handles_ok owned base S" "job_ready job"
  shows "(\<exists>status S'. exec_job_fg K job grab_fg S = Some (status, S') \<and> handles_ok owned base S') \<and>
    (\<exists>S'. exec_job_bg K job S = Some S' \<and> handles_ok owned base S') \<and>
    (\<exists>S'. sh_reap_background_jobs K S = Some S' \<and> handles_ok owned base S')"
proof (intro conjI)
  have "has_open owned base (concat (map bg_open (bg_jobs S))) S" using assms(2) by (simp add: handles_ok_def)
  from this obtain status S' where fg: "exec_job_fg K job grab_fg S = Some (status, S')"
    "has_open owned base (concat (map bg_open (bg_jobs S))) S'"
    by (rule exec_job_fg_open [OF assms(1) _ assms(3)])
  then show "\<exists>status S'. exec_job_fg K job grab_fg S = Some (status, S') \<and> handles_ok owned base S'"
    using assms(2) memory_fields(5) [OF memory_exec_job_fg [OF fg(1)]] by (auto simp: handles_ok_def)
  show "\<exists>S'. exec_job_bg K job S = Some S' \<and> handles_ok owned base S'" using exec_job_bg_open [OF assms] by metis
  show "\<exists>S'. sh_reap_background_jobs K S = Some S' \<and> handles_ok owned base S'" using reap_open [OF assms(1,2)] by metis
qed

lemma fold_max_ge: "m \<le> fold max hs (m :: int)"
proof (induction hs arbitrary: m)
  case (Cons h hs)
  show ?case using Cons.IH [of "max h m"] by simp
qed simp

lemma fold_max_mem: "x \<in> set hs \<Longrightarrow> x \<le> fold max hs (m :: int)"
proof (induction hs arbitrary: m)
  case (Cons h hs)
  then show ?case using fold_max_ge [of "max h m" hs] by auto
qed simp

lemma new_handle_new: "x \<in> set hs \<Longrightarrow> x < new_handle hs" "2 < new_handle hs"
  using fold_max_ge [of 2 hs] fold_max_mem [of x hs 2] by (simp_all add: new_handle_def)

lemma job_kernel_owns: "owns_handles job_kernel set"
proof -
  have n: "new_handle k \<notin> set k" "new_handle k + 1 \<notin> set k" "\<not> new_handle k < 0" for k
    using new_handle_new(1) [of "new_handle k" k] new_handle_new(1) [of "new_handle k + 1" k] new_handle_new(2) [of k] by auto
  have "opens set (\<lambda>k. (new_handle k, new_handle k # k))" using n by (auto simp: opens_def)
  moreover have "opens_two set (\<lambda>k. (E_SUCCESS, new_handle k, new_handle k + 1, new_handle k # (new_handle k + 1) # k))"
    using n by (auto simp: opens_two_def E_SUCCESS_def)
  ultimately show ?thesis
    by (simp add: owns_handles_def job_kernel_def null_kernel_def keeps_owned_def)
qed

definition example_job :: job where
  "example_job = [\<lparr>argv = [(0, ''ls'')], redirects = []\<rparr>,
     \<lparr>argv = [(1, ''wc''), (2, ''-l'')], redirects = [\<lparr>redir_fd = 1, kind = REDIR_TRUNC, path = Some (3, ''f''), dup_target_fd = -1\<rparr>]\<rparr>]"

theorem jobs_keep_handles_witness:
  "(\<exists>status S'. exec_job_fg job_kernel example_job True sh_start = Some (status, S') \<and> handles_ok set {0, 1, 2, 3} S') \<and>
   (\<exists>S'. exec_job_bg job_kernel example_job sh_start = Some S' \<and> handles_ok set {0, 1, 2, 3} S') \<and>
   (\<exists>S'. sh_reap_background_jobs job_kernel sh_start = Some S' \<and> handles_ok set {0, 1, 2, 3} S')"
proof (rule jobs_keep_handles [OF job_kernel_owns])
  show "handles_ok set {0, 1, 2, 3} sh_start"
    by (simp add: handles_ok_def has_open_def sh_start_def bg_open_def empty_slot_def slots_ok_def SH_MAX_BG_JOBS_def eval_nat_numeral)
  show "job_ready example_job" by (simp add: job_ready_def example_job_def redirect_ok_def)
qed

section \<open>The search along PATH\<close>

text \<open>What process creation promises for the search: a process starts exactly when its file is runnable, and a
  failure changes nothing.\<close>

definition starts_exactly :: "'k kernel \<Rightarrow> (string \<Rightarrow> bool) \<Rightarrow> bool" where
  "starts_exactly K runnable \<longleftrightarrow> (\<forall>k args es flags. let (h, k') = sys_create_process K k args es flags in
     (h \<ge> 0 \<longleftrightarrow> runnable (hd args)) \<and> (h < 0 \<longrightarrow> k' = k))"

lemma first_start_find:
  assumes "starts_exactly K runnable"
  shows "first_start (\<lambda>c. create_process K (c # operands) flags) cs S =
    (case find runnable cs of None \<Rightarrow> (None, S)
     | Some c \<Rightarrow> (Some (fst (create_process K (c # operands) flags S)), snd (create_process K (c # operands) flags S)))"
proof (induction cs)
  case (Cons c cs)
  obtain h k where c: "sys_create_process K (kern (sh_world S)) (c # operands) (environ_strs (sh_env S)) flags = (h, k)"
    by (cases "sys_create_process K (kern (sh_world S)) (c # operands) (environ_strs (sh_env S)) flags")
  have "(h \<ge> 0 \<longleftrightarrow> runnable c) \<and> (h < 0 \<longrightarrow> k = kern (sh_world S))"
    using assms [unfolded starts_exactly_def Let_def, rule_format, where k = "kern (sh_world S)" and
      args = "c # operands" and es = "environ_strs (sh_env S)" and flags = flags] c by simp
  then show ?case using Cons.IH c by (cases "h \<ge> 0") (auto simp: create_process_def kcall_def)
qed simp

text \<open>C30. A command without a slash at the front is searched along \<open>PATH\<close> in order. When processes start exactly
  for runnable files, the shell starts the first runnable one among \<open>dir/name\<close> for the directories of \<open>PATH\<close> that
  are not empty and for which the name fits the buffer, and touches nothing else; when there is none it reports
  that the command was not found. Every name built on the way fits the buffer with its terminator.\<close>

theorem path_search_first:
  assumes "starts_exactly K runnable" "\<not> is_direct_path name" "getenv (sh_env S) ''PATH'' = Some p"
  shows "sh_create_process_path_search K (name # operands) flags S =
      (case find runnable (candidates p name) of
         Some c \<Rightarrow> Some (create_process K (c # operands) flags S)
       | None \<Rightarrow> map_option (\<lambda>S'. (E_NOT_FOUND, S')) (sh_printf K (''sh: command not found: %s'' @ [newline]) [VStr (Some name)] S)) \<and>
    (\<exists>S'. sh_printf K (''sh: command not found: %s'' @ [newline]) [VStr (Some name)] S = Some S') \<and>
    list_all (\<lambda>c. length c < PATH_MAX) (candidates p name)"
proof -
  let ?report = "sh_printf K (''sh: command not found: %s'' @ [newline]) [VStr (Some name)] S"
  obtain t where "format_text (''sh: command not found: %s'' @ [newline]) [VStr (Some name)] = Some t" using messages(2) by blast
  then obtain S' where r: "?report = Some S'" by (rule sh_printf_returns)
  have "sh_create_process_path_search K (name # operands) flags S =
      (case find runnable (candidates p name) of
         Some c \<Rightarrow> Some (create_process K (c # operands) flags S)
       | None \<Rightarrow> map_option (\<lambda>S'. (E_NOT_FOUND, S')) ?report)"
    unfolding sh_create_process_path_search_def r
    by (cases "find runnable (candidates p name)")
      (simp_all only: assms(2,3) path_loop_candidates first_start_find [OF assms(1)] list.case option.case if_False Let_def
        prod.case r bind.simps option.map prod.collapse)
  then show ?thesis using r length_candidates by (simp add: list_all_iff)
qed

definition path_kernel :: "int list kernel" where
  "path_kernel = null_kernel\<lparr>sys_create_process := \<lambda>k args _ _. if hd args = ''/usr/bin/ls'' then (7, 7 # k) else (E_NOT_FOUND, k)\<rparr>"

theorem path_search_first_witness:
  "sh_create_process_path_search path_kernel [''ls'', ''-l''] 0 sh_start = Some (create_process path_kernel [''/usr/bin/ls'', ''-l''] 0 sh_start) \<and>
   fst (create_process path_kernel [''/usr/bin/ls'', ''-l''] 0 sh_start) = 7"
proof -
  have "starts_exactly path_kernel (\<lambda>c. c = ''/usr/bin/ls'')"
    by (simp add: starts_exactly_def path_kernel_def E_NOT_FOUND_def)
  moreover have "\<not> is_direct_path ''ls''" "getenv (sh_env sh_start) ''PATH'' = Some ''/bin:/usr/bin''"
    "find (\<lambda>c. c = ''/usr/bin/ls'') (candidates ''/bin:/usr/bin'' ''ls'') = Some ''/usr/bin/ls''"
    by code_simp+
  ultimately show ?thesis
    using path_search_first [of path_kernel "\<lambda>c. c = ''/usr/bin/ls''" "''ls''" sh_start "''/bin:/usr/bin''" "[''-l'']" 0]
    by (simp add: create_process_def kcall_def path_kernel_def)
qed

section \<open>Lines that the executor does not check\<close>


end
