(* ===== verification/Vfs.thy ===== *)
theory Vfs
  imports Kernel "HOL-Library.List_Lexorder" "HOL-Library.Char_ord"
begin

text \<open>
  The file system in memory, \<open>kernel/src/fs/vfs.rs\<close>. A reference \<open>VfsNodeRef\<close> is a number, and the store holds
  the node it refers to; the children of a directory, a \<open>BTreeMap\<close>, are an association list in the order of the
  names. An operation returns its error or its result with the next store. The nodes have locks of their own,
  which matter only where an operation would take a lock that it holds: it has no result then.
\<close>

section \<open>Errors\<close>

datatype kerror =
    KSuccess | KInvalidArgument | KOutOfMemory | KProcessTerminated | KProcessInitFailed
  | KThreadTerminated | KWaitFailed | KWaitTimedOut | KWaitInterrupted | KCircularDependency
  | KModuleNotDriver | KDriverLoadFailed | KUnsupported | KDeviceStopped | KDeviceRemoved
  | KDeviceStarted | KNotFound | KIsADirectory | KNotADirectory | KFileExists
  | KFileBusy | KTooManySymlinks | KNotEmpty | KBufferTooSmall | KNoMoreEntries
  | KIsSymlink | KDeviceMounted | KFsStopped

definition E_INTERNAL_FAILURE :: int where "E_INTERNAL_FAILURE = -3"
definition E_NOT_SUPPORTED :: int where "E_NOT_SUPPORTED = -4"
definition E_DEV_STOPPED :: int where "E_DEV_STOPPED = -5"
definition E_INVALID_MEMORY_RANGE :: int where "E_INVALID_MEMORY_RANGE = -6"
definition E_PROCESS_TERMINATED :: int where "E_PROCESS_TERMINATED = -7"
definition E_DEV_REMOVED :: int where "E_DEV_REMOVED = -9"
definition E_DEV_STARTED :: int where "E_DEV_STARTED = -10"
definition E_FILE_BUSY :: int where "E_FILE_BUSY = -17"
definition E_TOO_MANY_SYMLINKS :: int where "E_TOO_MANY_SYMLINKS = -18"
definition E_BUF_TOO_SMALL :: int where "E_BUF_TOO_SMALL = -20"
definition E_IS_SYMLINK :: int where "E_IS_SYMLINK = -22"
definition E_DEVICE_MOUNTED :: int where "E_DEVICE_MOUNTED = -23"
definition E_FS_STOPPED :: int where "E_FS_STOPPED = -24"
definition E_THREAD_TERMINATED :: int where "E_THREAD_TERMINATED = -25"

fun kerror_code :: "kerror \<Rightarrow> int" where
  "kerror_code KSuccess = E_SUCCESS"
| "kerror_code KInvalidArgument = E_INVALID"
| "kerror_code KOutOfMemory = E_OOM"
| "kerror_code KProcessTerminated = E_PROCESS_TERMINATED"
| "kerror_code KProcessInitFailed = E_INTERNAL_FAILURE"
| "kerror_code KThreadTerminated = E_THREAD_TERMINATED"
| "kerror_code KWaitFailed = E_INTERNAL_FAILURE"
| "kerror_code KWaitTimedOut = E_TIMEOUT"
| "kerror_code KWaitInterrupted = E_WAIT_INTERRUPTED"
| "kerror_code KCircularDependency = E_INTERNAL_FAILURE"
| "kerror_code KModuleNotDriver = E_INTERNAL_FAILURE"
| "kerror_code KDriverLoadFailed = E_INTERNAL_FAILURE"
| "kerror_code KUnsupported = E_NOT_SUPPORTED"
| "kerror_code KDeviceStopped = E_DEV_STOPPED"
| "kerror_code KDeviceRemoved = E_DEV_REMOVED"
| "kerror_code KDeviceStarted = E_DEV_STARTED"
| "kerror_code KNotFound = E_NOT_FOUND"
| "kerror_code KIsADirectory = E_IS_DIR"
| "kerror_code KNotADirectory = E_NOT_DIR"
| "kerror_code KFileExists = E_FILE_EXISTS"
| "kerror_code KFileBusy = E_FILE_BUSY"
| "kerror_code KTooManySymlinks = E_TOO_MANY_SYMLINKS"
| "kerror_code KNotEmpty = E_NOT_EMPTY"
| "kerror_code KBufferTooSmall = E_BUF_TOO_SMALL"
| "kerror_code KNoMoreEntries = E_NO_DIR_ENTRIES"
| "kerror_code KIsSymlink = E_IS_SYMLINK"
| "kerror_code KDeviceMounted = E_DEVICE_MOUNTED"
| "kerror_code KFsStopped = E_FS_STOPPED"

section \<open>Nodes\<close>

datatype node_kind =
    File "byte list" nat
  | Dir "(string \<times> nat) list" nat
  | Symlink string

record vnode =
  node_mode :: int
  vkind :: node_kind

record fs =
  nodes :: "nat \<Rightarrow> vnode option"
  next_node :: nat
  mounts :: "(string \<times> nat) list"

definition kind_of :: "fs \<Rightarrow> nat \<Rightarrow> node_kind option" where
  "kind_of F n = map_option vkind (nodes F n)"

definition set_kind :: "nat \<Rightarrow> node_kind \<Rightarrow> fs \<Rightarrow> fs" where
  "set_kind n kd F = F\<lparr>nodes := (nodes F)(n := map_option (\<lambda>v. v\<lparr>vkind := kd\<rparr>) (nodes F n))\<rparr>"

definition new_node :: "int \<Rightarrow> node_kind \<Rightarrow> fs \<Rightarrow> nat \<times> fs" where
  "new_node mode kd F =
     (next_node F, F\<lparr>nodes := (nodes F)(next_node F \<mapsto> \<lparr>node_mode = mode, vkind = kd\<rparr>), next_node := next_node F + 1\<rparr>)"

definition new_dir :: "int \<Rightarrow> fs \<Rightarrow> nat \<times> fs" where
  "new_dir mode F = new_node (or mode FILE_MODE_DIR) (Dir [] 0) F"

definition new_file_node :: "byte list \<Rightarrow> int \<Rightarrow> fs \<Rightarrow> nat \<times> fs" where
  "new_file_node bs mode F = new_node (or mode FILE_MODE_FILE) (File bs 0) F"

definition new_symlink_node :: "string \<Rightarrow> fs \<Rightarrow> nat \<times> fs" where
  "new_symlink_node target F = new_node FILE_MODE_SYMLINK (Symlink target) F"

text \<open>The map of children: insertion at the place of the name, and removal.\<close>

fun child_insert :: "string \<Rightarrow> nat \<Rightarrow> (string \<times> nat) list \<Rightarrow> (string \<times> nat) list" where
  "child_insert x n [] = [(x, n)]"
| "child_insert x n ((y, m) # ch) =
     (if x < y then (x, n) # (y, m) # ch else if x = y then (x, n) # ch else (y, m) # child_insert x n ch)"

definition child_remove :: "string \<Rightarrow> (string \<times> nat) list \<Rightarrow> (string \<times> nat) list" where
  "child_remove x ch = filter (\<lambda>(y, _). y \<noteq> x) ch"

section \<open>Paths\<close>

definition slash :: char where "slash = CHR ''/''"

definition push_part :: "string \<Rightarrow> string list \<Rightarrow> string list" where
  "push_part seg parts =
     (if seg = [] \<or> seg = ''.'' then parts else if seg = ''..'' then butlast parts else parts @ [seg])"

definition rebuild_path :: "string list \<Rightarrow> string" where
  "rebuild_path comps = (if comps = [] then [slash] else concat (map ((#) slash) comps))"

definition normalize_path :: "string \<Rightarrow> string" where
  "normalize_path p = rebuild_path (fold push_part (split_on slash p) [])"

definition make_absolute :: "string \<Rightarrow> string \<Rightarrow> string" where
  "make_absolute cwd p =
     (if p \<noteq> [] \<and> hd p = slash then normalize_path p else normalize_path (cwd @ [slash] @ p))"

text \<open>The part in front of the last slash and the part behind it.\<close>

definition split_parent :: "string \<Rightarrow> string \<times> string" where
  "split_parent p =
     (if p = [slash] then ([slash], [])
      else if slash \<notin> set p then ([slash], p)
      else let leaf = rev (takeWhile (\<lambda>c. c \<noteq> slash) (rev p));
               parent = rev (drop 1 (dropWhile (\<lambda>c. c \<noteq> slash) (rev p)))
           in (if parent = [] then [slash] else parent, leaf))"

definition path_comps :: "string \<Rightarrow> string list" where
  "path_comps p = filter (\<lambda>seg. seg \<noteq> []) (split_on slash p)"

section \<open>Walking\<close>

fun walk :: "fs \<Rightarrow> nat \<Rightarrow> string list \<Rightarrow> kerror + nat" where
  "walk F cur [] = Inr cur"
| "walk F cur (c # cs) =
     (case kind_of F cur of
        Some (Dir children _) \<Rightarrow>
          (case map_of children c of None \<Rightarrow> Inl KNotFound | Some m \<Rightarrow> walk F m cs)
      | _ \<Rightarrow> Inl KNotADirectory)"

definition raw_get :: "fs \<Rightarrow> nat \<Rightarrow> string \<Rightarrow> kerror + nat" where
  "raw_get F root p = walk F root (path_comps p)"

text \<open>The result of \<open>probe\<close>: the attributes of what was found with the target of a symbolic link, or the first
  link on the way.\<close>

record file_attrs =
  attr_mode :: int
  attr_size :: nat

datatype probe_step = Found file_attrs "string option" | ProbeSymlink string string string

definition node_attrs :: "vnode \<Rightarrow> file_attrs" where
  "node_attrs v = \<lparr>attr_mode = node_mode v,
     attr_size = (case vkind v of File bs _ \<Rightarrow> length bs | Dir children _ \<Rightarrow> length children | Symlink target \<Rightarrow> length target)\<rparr>"

fun join_comps :: "string list \<Rightarrow> string" where
  "join_comps [] = []"
| "join_comps [c] = c"
| "join_comps (c # cs) = c @ [slash] @ join_comps cs"

fun probe_loop :: "fs \<Rightarrow> bool \<Rightarrow> nat \<Rightarrow> string list \<Rightarrow> string list \<Rightarrow> kerror + probe_step" where
  "probe_loop F follow_final cur seen [] = Inl KNotFound"
| "probe_loop F follow_final cur seen (c # cs) =
     (case kind_of F cur of
        Some (Dir children _) \<Rightarrow>
          (case map_of children c of
             None \<Rightarrow> Inl KNotFound
           | Some m \<Rightarrow>
               (case nodes F m of
                  None \<Rightarrow> Inl KNotFound
                | Some v \<Rightarrow>
                    (case vkind v of
                       Symlink target \<Rightarrow>
                         if cs \<noteq> [] \<or> follow_final
                         then Inr (ProbeSymlink (rebuild_path seen) target (join_comps cs))
                         else Inr (Found (node_attrs v) (Some target))
                     | _ \<Rightarrow> if cs = [] then Inr (Found (node_attrs v) None)
                            else probe_loop F follow_final m (seen @ [c]) cs)))
      | _ \<Rightarrow> Inl KNotADirectory)"

definition probe :: "fs \<Rightarrow> nat \<Rightarrow> string \<Rightarrow> bool \<Rightarrow> kerror + probe_step" where
  "probe F root p follow_final =
     (case path_comps p of
        [] \<Rightarrow> (case nodes F root of None \<Rightarrow> Inl KNotFound | Some v \<Rightarrow> Inr (Found (node_attrs v) None))
      | comps \<Rightarrow> probe_loop F follow_final root [] comps)"

definition join_symlink_target :: "string \<Rightarrow> string \<Rightarrow> string \<Rightarrow> string" where
  "join_symlink_target dir target rest =
     (let base = (if target \<noteq> [] \<and> hd target = slash then target else dir @ [slash] @ target);
          full = (if rest = [] then base else base @ [slash] @ rest)
      in normalize_path full)"

section \<open>Open files\<close>

fun open_count :: "node_kind \<Rightarrow> nat" where
  "open_count (File _ n) = n"
| "open_count (Dir _ n) = n"
| "open_count (Symlink _) = 0"

fun change_count :: "(nat \<Rightarrow> nat) \<Rightarrow> node_kind \<Rightarrow> node_kind" where
  "change_count f (File bs n) = File bs (f n)"
| "change_count f (Dir children n) = Dir children (f n)"
| "change_count f (Symlink target) = Symlink target"

definition count_node :: "(nat \<Rightarrow> nat) \<Rightarrow> nat \<Rightarrow> fs \<Rightarrow> fs" where
  "count_node f n F = (case kind_of F n of None \<Rightarrow> F | Some kd \<Rightarrow> set_kind n (change_count f kd) F)"

fun walk_ancestors :: "fs \<Rightarrow> nat \<Rightarrow> nat list \<Rightarrow> string list \<Rightarrow> kerror + (nat \<times> nat list)" where
  "walk_ancestors F cur anc [] = Inr (cur, anc)"
| "walk_ancestors F cur anc (c # cs) =
     (case kind_of F cur of
        Some (Dir children _) \<Rightarrow>
          (case map_of children c of None \<Rightarrow> Inl KNotFound | Some m \<Rightarrow> walk_ancestors F m (anc @ [cur]) cs)
      | _ \<Rightarrow> Inl KNotADirectory)"

text \<open>The node, its ancestors from the root down, and whether it is a directory.\<close>

definition open_at :: "fs \<Rightarrow> nat \<Rightarrow> string \<Rightarrow> kerror + ((nat \<times> nat list \<times> bool) \<times> fs)" where
  "open_at F root p =
     (case walk_ancestors F root [] (path_comps p) of
        Inl e \<Rightarrow> Inl e
      | Inr (cur, anc) \<Rightarrow>
          (case kind_of F cur of
             Some (File _ _) \<Rightarrow> Inr ((cur, anc, False), fold (count_node Suc) (cur # anc) F)
           | Some (Dir _ _) \<Rightarrow> Inr ((cur, anc, True), fold (count_node Suc) (cur # anc) F)
           | _ \<Rightarrow> Inl KTooManySymlinks))"

definition close_node :: "nat \<Rightarrow> nat list \<Rightarrow> fs \<Rightarrow> fs" where
  "close_node n anc F = fold (count_node (\<lambda>i. i - 1)) (n # anc) F"

definition root_busy :: "fs \<Rightarrow> nat \<Rightarrow> bool" where
  "root_busy F root = (case kind_of F root of Some (Dir _ n) \<Rightarrow> n > 0 | _ \<Rightarrow> False)"

section \<open>Entries\<close>

definition insert_child :: "fs \<Rightarrow> nat \<Rightarrow> string \<Rightarrow> string \<Rightarrow> (fs \<Rightarrow> nat \<times> fs) \<Rightarrow> kerror + fs" where
  "insert_child F root parent_rel leaf mk =
     (if leaf = [] then Inl KInvalidArgument
      else case raw_get F root parent_rel of
        Inl e \<Rightarrow> Inl e
      | Inr parent \<Rightarrow>
          (case kind_of F parent of
             Some (Dir children n) \<Rightarrow>
               if map_of children leaf \<noteq> None then Inl KFileExists
               else let (m, F') = mk F in Inr (set_kind parent (Dir (child_insert leaf m children) n) F')
           | _ \<Rightarrow> Inl KNotADirectory))"

definition create_file_in :: "fs \<Rightarrow> nat \<Rightarrow> string \<Rightarrow> string \<Rightarrow> int \<Rightarrow> kerror + fs" where
  "create_file_in F root parent_rel leaf mode = insert_child F root parent_rel leaf (new_file_node [] mode)"

definition mkdir_in :: "fs \<Rightarrow> nat \<Rightarrow> string \<Rightarrow> string \<Rightarrow> int \<Rightarrow> kerror + fs" where
  "mkdir_in F root parent_rel leaf mode = insert_child F root parent_rel leaf (new_dir mode)"

definition create_symlink_in :: "fs \<Rightarrow> nat \<Rightarrow> string \<Rightarrow> string \<Rightarrow> string \<Rightarrow> kerror + fs" where
  "create_symlink_in F root parent_rel leaf target = insert_child F root parent_rel leaf (new_symlink_node target)"

definition delete_in :: "fs \<Rightarrow> nat \<Rightarrow> string \<Rightarrow> string \<Rightarrow> kerror + fs" where
  "delete_in F root parent_rel leaf =
     (if leaf = [] then Inl KInvalidArgument
      else case raw_get F root parent_rel of
        Inl e \<Rightarrow> Inl e
      | Inr parent \<Rightarrow>
          (case kind_of F parent of
             Some (Dir children n) \<Rightarrow>
               (case map_of children leaf of
                  None \<Rightarrow> Inl KNotFound
                | Some m \<Rightarrow>
                    let remove = Inr (set_kind parent (Dir (child_remove leaf children) n) F)
                    in case kind_of F m of
                         Some (File _ oc) \<Rightarrow> if oc > 0 then Inl KFileBusy else remove
                       | Some (Dir sub oc) \<Rightarrow>
                           if sub \<noteq> [] then Inl KNotEmpty else if oc > 0 then Inl KFileBusy else remove
                       | _ \<Rightarrow> remove)
           | _ \<Rightarrow> Inl KNotADirectory))"

definition node_busy :: "fs \<Rightarrow> nat \<Rightarrow> bool" where
  "node_busy F n = (case kind_of F n of Some kd \<Rightarrow> open_count kd > 0 | None \<Rightarrow> False)"

text \<open>The node that is moved is locked while its old and new parents are: when it is one of them, the operation
  waits for itself and has no result.\<close>

definition rename_in :: "fs \<Rightarrow> nat \<Rightarrow> string \<Rightarrow> string \<Rightarrow> string \<Rightarrow> string \<Rightarrow> (kerror + fs) option" where
  "rename_in F root from_parent_rel from_name to_parent_rel to_name =
     (if from_name = [] \<or> to_name = [] then Some (Inl KInvalidArgument)
      else case raw_get F root from_parent_rel of
        Inl e \<Rightarrow> Some (Inl e)
      | Inr fp \<Rightarrow>
          (case raw_get F root to_parent_rel of
             Inl e \<Rightarrow> Some (Inl e)
           | Inr tp \<Rightarrow>
               (case (kind_of F fp, kind_of F tp) of
                  (Some (Dir from_children i), Some (Dir to_children j)) \<Rightarrow>
                    (case map_of from_children from_name of
                       None \<Rightarrow> Some (Inl KNotFound)
                     | Some n \<Rightarrow>
                         if n = fp \<or> n = tp then None
                         else if node_busy F n then Some (Inl KFileBusy)
                         else if fp = tp then
                           if to_name \<noteq> from_name \<and> map_of from_children to_name \<noteq> None then Some (Inl KFileExists)
                           else Some (Inr (set_kind fp (Dir (child_insert to_name n (child_remove from_name from_children)) i) F))
                         else if map_of to_children to_name \<noteq> None then Some (Inl KFileExists)
                         else Some (Inr (set_kind tp (Dir (child_insert to_name n to_children) j)
                                (set_kind fp (Dir (child_remove from_name from_children) i) F))))
                | _ \<Rightarrow> Some (Inl KNotADirectory))))"

text \<open>The name of the entry at an offset; the entries \<open>.\<close> and \<open>..\<close> come first.\<close>

definition readdir :: "fs \<Rightarrow> nat \<Rightarrow> nat \<Rightarrow> kerror + string" where
  "readdir F n offset =
     (if offset = 0 then Inr ''.''
      else if offset = 1 then Inr ''..''
      else case kind_of F n of
             Some (Dir children _) \<Rightarrow>
               if offset - 2 < length children then Inr (fst (children ! (offset - 2))) else Inl KNoMoreEntries
           | _ \<Rightarrow> Inl KNotADirectory)"

section \<open>The initial contents\<close>

definition vfs_new :: "fs \<Rightarrow> nat \<times> fs" where
  "vfs_new F = new_dir 0 F"

text \<open>An entry that is only added when there is none of its name.\<close>

definition entry_or_insert :: "fs \<Rightarrow> nat \<Rightarrow> string \<Rightarrow> string \<Rightarrow> (fs \<Rightarrow> nat \<times> fs) \<Rightarrow> fs" where
  "entry_or_insert F root parent_path name mk =
     (case raw_get F root parent_path of
        Inl _ \<Rightarrow> F
      | Inr parent \<Rightarrow>
          (case kind_of F parent of
             Some (Dir children n) \<Rightarrow>
               if map_of children name \<noteq> None then F
               else let (m, F') = mk F in set_kind parent (Dir (child_insert name m children) n) F'
           | _ \<Rightarrow> F))"

lemma length_split_parent:
  assumes "p \<noteq> [slash]" "p \<noteq> []" "fst (split_parent p) \<noteq> [slash]"
  shows "length (fst (split_parent p)) < length p"
  using assms length_dropWhile_le [of "\<lambda>c. c \<noteq> slash" "rev p"]
  by (auto simp: split_parent_def Let_def simp del: length_dropWhile_le split: if_splits)

function ensure_dirs :: "nat \<Rightarrow> string \<Rightarrow> fs \<Rightarrow> fs" where
  "ensure_dirs root p F =
     (if p = [slash] \<or> p = [] then F
      else let (parent, name) = split_parent p;
               F1 = ensure_dirs root parent F
           in if name = [] then F1 else entry_or_insert F1 root parent name (new_dir 0))"
  by pat_completeness auto
termination
proof (relation "measure (\<lambda>(root, p, F). if p = [slash] then 0 else length p)", goal_cases)
  case (2 root p F x parent name)
  then show ?case using length_split_parent [of p] by (cases "parent = [slash]") (auto simp: prod_eq_iff)
qed simp

declare ensure_dirs.simps [simp del]

definition populate_with :: "nat \<Rightarrow> (string \<Rightarrow> 'a \<Rightarrow> fs \<Rightarrow> nat \<times> fs) \<Rightarrow> string \<times> 'a \<Rightarrow> fs \<Rightarrow> fs" where
  "populate_with root mk entry F =
     (let (parent_path, name) = split_parent (normalize_path (fst entry))
      in if name = [] then F
         else entry_or_insert (ensure_dirs root parent_path F) root parent_path name (mk name (snd entry)))"

definition populate :: "nat \<Rightarrow> (string \<times> byte list) list \<Rightarrow> (string \<times> string) list \<Rightarrow> fs \<Rightarrow> fs" where
  "populate root fls links F =
     fold (populate_with root (\<lambda>_ target. new_symlink_node (normalize_path target))) links
       (fold (populate_with root (\<lambda>_ bs. new_file_node bs 0)) fls F)"

end
