(* ===== verification/Fs.thy ===== *)
theory Fs
  imports Vfs Ram_Kernel
begin

text \<open>
  The file-system calls of the kernel for mounts in memory: the mount table of \<open>fs/mount.rs\<close>, the operations on
  paths of \<open>fs/mod.rs\<close>, open files of \<open>fs/file.rs\<close>, and the handlers of the system calls in \<open>sched/user.rs\<close>, for one
  process with handles of files and devices. Mounts that a driver serves, the switch that stops the file system,
  handles of pipes, processes, threads and semaphores, and handles that processes share are left out; offsets stay
  below the largest 64-bit number. At the end, the calls make a kernel for the programs.
\<close>

section \<open>Mounts\<close>

text \<open>The longest mount point that is a prefix of an absolute path, with its root and the rest of the path.\<close>

definition under_mount :: "string \<Rightarrow> string \<Rightarrow> bool" where
  "under_mount mp p \<longleftrightarrow> mp = [slash] \<or> p = mp \<or> take (length mp + 1) p = mp @ [slash]"

definition better_mount :: "string \<Rightarrow> string \<times> nat \<Rightarrow> (string \<times> nat) option \<Rightarrow> (string \<times> nat) option" where
  "better_mount p entry best =
     (if under_mount (fst entry) p \<and> (case best of None \<Rightarrow> True | Some b \<Rightarrow> length (fst entry) > length (fst b))
      then Some entry else best)"

definition lookup_mp :: "(string \<times> nat) list \<Rightarrow> string \<Rightarrow> (nat \<times> string \<times> string) option" where
  "lookup_mp ms p =
     (case fold (better_mount p) ms None of
        None \<Rightarrow> None
      | Some (mp, root) \<Rightarrow>
          Some (root,
                if mp = [slash] then p else if drop (length mp) p = [] then [slash] else drop (length mp) p,
                mp))"

definition to_absolute :: "string \<Rightarrow> string \<Rightarrow> string" where
  "to_absolute mp rel = (if mp = [slash] then rel else if rel = [slash] then mp else mp @ rel)"

definition is_mount_point :: "(string \<times> nat) list \<Rightarrow> string \<Rightarrow> bool" where
  "is_mount_point ms p \<longleftrightarrow> list_ex (\<lambda>(mp, _). mp = p) ms"

definition has_mount_within :: "(string \<times> nat) list \<Rightarrow> string \<Rightarrow> bool" where
  "has_mount_within ms p \<longleftrightarrow>
     (let pre = (if p = [slash] then [slash] else p @ [slash])
      in list_ex (\<lambda>(mp, _). mp \<noteq> p \<and> take (length pre) mp = pre) ms)"

section \<open>Operations on paths\<close>

definition MAX_SYMLINK_DEPTH :: nat where "MAX_SYMLINK_DEPTH = 8"

definition abs_path :: "string \<Rightarrow> string \<Rightarrow> string" where
  "abs_path cwd p = (if p \<noteq> [] \<and> hd p = slash then normalize_path p else make_absolute cwd p)"

text \<open>What a path stands for: the root of its mount, the mount point, the path below it, and what was found.\<close>

record resolved =
  res_root :: nat
  res_mount :: string
  res_rel :: string
  res_attrs :: file_attrs
  res_target :: "string option"

text \<open>The first argument counts the links that may still be followed.\<close>

fun resolve_loop :: "nat \<Rightarrow> fs \<Rightarrow> bool \<Rightarrow> string \<Rightarrow> kerror + resolved" where
  "resolve_loop 0 F follow_final full = Inl KTooManySymlinks"
| "resolve_loop (Suc hops) F follow_final full =
     (case lookup_mp (mounts F) full of
        None \<Rightarrow> Inl KNotFound
      | Some (root, rel, mp) \<Rightarrow>
          (case probe F root rel follow_final of
             Inl e \<Rightarrow> Inl e
           | Inr (Found attrs target) \<Rightarrow>
               Inr \<lparr>res_root = root, res_mount = mp, res_rel = rel, res_attrs = attrs, res_target = target\<rparr>
           | Inr (ProbeSymlink dir target rest) \<Rightarrow>
               resolve_loop hops F follow_final (join_symlink_target (to_absolute mp dir) target rest)))"

definition resolve :: "fs \<Rightarrow> string \<Rightarrow> string \<Rightarrow> bool \<Rightarrow> kerror + resolved" where
  "resolve F cwd p follow_final = resolve_loop (MAX_SYMLINK_DEPTH + 1) F follow_final (abs_path cwd p)"

record file_inst =
  inst_path :: string
  inst_node :: nat
  inst_anc :: "nat list"
  inst_dir :: bool
  inst_offset :: nat

definition fs_open :: "fs \<Rightarrow> string \<Rightarrow> string \<Rightarrow> kerror + (file_inst \<times> fs)" where
  "fs_open F cwd p =
     (case resolve F cwd p True of
        Inl e \<Rightarrow> Inl e
      | Inr r \<Rightarrow>
          (case open_at F (res_root r) (res_rel r) of
             Inl e \<Rightarrow> Inl e
           | Inr ((n, anc, d), F') \<Rightarrow>
               Inr (\<lparr>inst_path = abs_path cwd p, inst_node = n, inst_anc = anc, inst_dir = d, inst_offset = 0\<rparr>, F')))"

definition fs_stat :: "fs \<Rightarrow> string \<Rightarrow> string \<Rightarrow> bool \<Rightarrow> kerror + (file_attrs \<times> string option)" where
  "fs_stat F cwd p follow = (case resolve F cwd p follow of Inl e \<Rightarrow> Inl e | Inr r \<Rightarrow> Inr (res_attrs r, res_target r))"

text \<open>A new entry: its parent is resolved, and the operation of the mount adds it.\<close>

definition fs_create :: "fs \<Rightarrow> string \<Rightarrow> string \<Rightarrow> (fs \<Rightarrow> nat \<Rightarrow> string \<Rightarrow> string \<Rightarrow> kerror + fs) \<Rightarrow> kerror + fs" where
  "fs_create F cwd p op =
     (let (parent_path, leaf) = split_parent (abs_path cwd p)
      in if leaf = [] then Inl KInvalidArgument
         else case resolve F cwd parent_path True of
                Inl e \<Rightarrow> Inl e
              | Inr r \<Rightarrow> op F (res_root r) (res_rel r) leaf)"

definition fs_create_file :: "fs \<Rightarrow> string \<Rightarrow> string \<Rightarrow> kerror + fs" where
  "fs_create_file F cwd p = fs_create F cwd p (\<lambda>F root parent_rel leaf. create_file_in F root parent_rel leaf 0)"

definition fs_mkdir :: "fs \<Rightarrow> string \<Rightarrow> string \<Rightarrow> kerror + fs" where
  "fs_mkdir F cwd p = fs_create F cwd p (\<lambda>F root parent_rel leaf. mkdir_in F root parent_rel leaf 0)"

definition fs_create_symlink :: "fs \<Rightarrow> string \<Rightarrow> string \<Rightarrow> string \<Rightarrow> kerror + fs" where
  "fs_create_symlink F cwd p target =
     fs_create F cwd p (\<lambda>F root parent_rel leaf. create_symlink_in F root parent_rel leaf target)"

definition fs_delete :: "fs \<Rightarrow> string \<Rightarrow> string \<Rightarrow> kerror + fs" where
  "fs_delete F cwd p =
     (case resolve F cwd p False of
        Inl e \<Rightarrow> Inl e
      | Inr r \<Rightarrow>
          let full = to_absolute (res_mount r) (res_rel r)
          in if is_mount_point (mounts F) full \<or> has_mount_within (mounts F) full then Inl KFileBusy
             else let (parent_rel, leaf) = split_parent (res_rel r) in delete_in F (res_root r) parent_rel leaf)"

definition join_rel :: "string \<Rightarrow> string \<Rightarrow> string" where
  "join_rel parent_rel leaf = (if parent_rel = [slash] then slash # leaf else parent_rel @ [slash] @ leaf)"

definition fs_rename :: "fs \<Rightarrow> string \<Rightarrow> string \<Rightarrow> string \<Rightarrow> (kerror + fs) option" where
  "fs_rename F cwd from to =
     (let (to_parent_path, to_leaf) = split_parent (abs_path cwd to)
      in if to_leaf = [] then Some (Inl KInvalidArgument)
         else case resolve F cwd from False of
           Inl e \<Rightarrow> Some (Inl e)
         | Inr r \<Rightarrow>
             (case resolve F cwd to_parent_path True of
                Inl e \<Rightarrow> Some (Inl e)
              | Inr t \<Rightarrow>
                  if is_mount_point (mounts F) (to_absolute (res_mount r) (res_rel r)) \<or>
                     is_mount_point (mounts F) (to_absolute (res_mount t) (join_rel (res_rel t) to_leaf))
                  then Some (Inl KFileBusy)
                  else if res_root r = res_root t then
                    let (from_parent, from_leaf) = split_parent (res_rel r)
                    in rename_in F (res_root r) from_parent from_leaf (res_rel t) to_leaf
                  else Some (Inl KUnsupported)))"

text \<open>The deletion has taken place also when the creation or the opening then fails.\<close>

definition opened :: "fs \<Rightarrow> kerror + (file_inst \<times> fs) \<Rightarrow> (kerror + file_inst) \<times> fs" where
  "opened F r = (case r of Inl e \<Rightarrow> (Inl e, F) | Inr (f, F') \<Rightarrow> (Inr f, F'))"

definition fs_create_or_open :: "fs \<Rightarrow> string \<Rightarrow> string \<Rightarrow> bool \<Rightarrow> (kerror + file_inst) \<times> fs" where
  "fs_create_or_open F cwd p exist_only =
     (if exist_only then opened F (fs_open F cwd p)
      else let F1 = (case fs_delete F cwd p of Inl _ \<Rightarrow> F | Inr F' \<Rightarrow> F')
           in case fs_create_file F1 cwd p of Inl e \<Rightarrow> (Inl e, F1) | Inr F2 \<Rightarrow> opened F2 (fs_open F2 cwd p))"

definition open_fs_handler :: "fs \<Rightarrow> string \<Rightarrow> string \<Rightarrow> int \<Rightarrow> (kerror + file_inst) \<times> fs" where
  "open_fs_handler F cwd name flags =
     (if and flags OPEN_CREATE_FLAG \<noteq> 0 then fs_create_or_open F cwd name False else opened F (fs_open F cwd name))"

text \<open>Mounting a new file system in memory, and unmounting. \<open>resolve_symlink\<close> gives the canonical path.\<close>

definition resolve_symlink :: "fs \<Rightarrow> string \<Rightarrow> string \<Rightarrow> kerror + string" where
  "resolve_symlink F cwd p =
     (case resolve F cwd p True of Inl e \<Rightarrow> Inl e | Inr r \<Rightarrow> Inr (to_absolute (res_mount r) (res_rel r)))"

definition validate_mount_point :: "fs \<Rightarrow> string \<Rightarrow> string \<Rightarrow> kerror option" where
  "validate_mount_point F cwd p =
     (if mounts F = [] then if p = [slash] then None else Some KInvalidArgument
      else if is_mount_point (mounts F) p then Some KFileExists
      else if has_mount_within (mounts F) p then Some KFileBusy
      else case fs_stat F cwd p True of
             Inl e \<Rightarrow> Some e
           | Inr (a, _) \<Rightarrow> if and (attr_mode a) FILE_MODE_DIR = 0 then Some KNotADirectory else None)"

definition fs_mount :: "fs \<Rightarrow> string \<Rightarrow> string \<Rightarrow> nat \<Rightarrow> kerror + fs" where
  "fs_mount F cwd p root =
     (case (if mounts F = [] then Inr (normalize_path p) else resolve_symlink F cwd p) of
        Inl e \<Rightarrow> Inl e
      | Inr canonical \<Rightarrow>
          (case validate_mount_point F cwd canonical of
             Some e \<Rightarrow> Inl e
           | None \<Rightarrow> Inr (F\<lparr>mounts := mounts F @ [(canonical, root)]\<rparr>)))"

fun remove_mount :: "string \<Rightarrow> (string \<times> nat) list \<Rightarrow> (string \<times> nat) list" where
  "remove_mount p [] = []"
| "remove_mount p ((mp, root) # ms) = (if mp = p then ms else (mp, root) # remove_mount p ms)"

definition fs_unmount :: "fs \<Rightarrow> string \<Rightarrow> string \<Rightarrow> kerror + fs" where
  "fs_unmount F cwd p =
     (if mounts F = [] then Inl KNotFound
      else case resolve_symlink F cwd p of
        Inl e \<Rightarrow> Inl e
      | Inr canonical \<Rightarrow>
          if has_mount_within (mounts F) canonical then Inl KFileBusy
          else case map_of (mounts F) canonical of
                 None \<Rightarrow> Inl KNotFound
               | Some root \<Rightarrow>
                   if root_busy F root then Inl KFileBusy
                   else Inr (F\<lparr>mounts := remove_mount canonical (mounts F)\<rparr>))"

section \<open>Open files\<close>

definition inst_len :: "fs \<Rightarrow> file_inst \<Rightarrow> nat" where
  "inst_len F f = (case kind_of F (inst_node f) of Some (File bs _) \<Rightarrow> length bs | _ \<Rightarrow> 0)"

definition inst_read :: "fs \<Rightarrow> file_inst \<Rightarrow> nat \<Rightarrow> kerror + (byte list \<times> file_inst)" where
  "inst_read F f n =
     (if inst_dir f then Inl KIsADirectory
      else case kind_of F (inst_node f) of
             Some (File bs _) \<Rightarrow>
               let out = take n (drop (inst_offset f) bs) in Inr (out, f\<lparr>inst_offset := inst_offset f + length out\<rparr>)
           | _ \<Rightarrow> Inl KInvalidArgument)"

definition overwrite :: "byte list \<Rightarrow> nat \<Rightarrow> byte list \<Rightarrow> byte list" where
  "overwrite bs cur new =
     (let grown = bs @ replicate (cur + length new - length bs) NUL
      in take cur grown @ new @ drop (cur + length new) grown)"

definition inst_write :: "fs \<Rightarrow> file_inst \<Rightarrow> byte list \<Rightarrow> kerror + (nat \<times> file_inst \<times> fs)" where
  "inst_write F f new =
     (if inst_dir f then Inl KIsADirectory
      else case kind_of F (inst_node f) of
             Some (File bs oc) \<Rightarrow>
               Inr (length new, f\<lparr>inst_offset := inst_offset f + length new\<rparr>,
                    set_kind (inst_node f) (File (overwrite bs (inst_offset f) new) oc) F)
           | _ \<Rightarrow> Inl KInvalidArgument)"

definition inst_readdir :: "fs \<Rightarrow> file_inst \<Rightarrow> nat \<Rightarrow> kerror + string" where
  "inst_readdir F f offset = (if inst_dir f then readdir F (inst_node f) offset else Inl KNotADirectory)"

definition inst_fstat :: "fs \<Rightarrow> file_inst \<Rightarrow> file_attrs" where
  "inst_fstat F f = (case nodes F (inst_node f) of Some v \<Rightarrow> node_attrs v | None \<Rightarrow> \<lparr>attr_mode = 0, attr_size = 0\<rparr>)"

definition inst_seek :: "file_inst \<Rightarrow> nat \<Rightarrow> kerror + file_inst" where
  "inst_seek f new_offset = (if inst_dir f then Inl KIsADirectory else Inr (f\<lparr>inst_offset := new_offset\<rparr>))"

section \<open>One process\<close>

text \<open>A driver is a parameter: whether a device of a name can be opened, what a request to it returns, an error or
  whether its status is success with the bytes that it completed, and its next state.\<close>

record 'd driver =
  drv_open :: "'d \<Rightarrow> string \<Rightarrow> int \<Rightarrow> kerror option \<times> 'd"
  drv_read :: "'d \<Rightarrow> nat \<Rightarrow> (kerror + (bool \<times> byte list)) \<times> 'd"
  drv_write :: "'d \<Rightarrow> byte list \<Rightarrow> (kerror + (bool \<times> nat)) \<times> 'd"

datatype handle = FileHandle file_inst | DeviceHandle

record handle_type =
  handle_info :: handle
  is_inheritable :: bool

record 'd proc_fs =
  pfs :: fs
  handle_table :: "handle_type option list"
  proc_cwd :: file_inst
  device :: 'd

definition get_cwd :: "'d proc_fs \<Rightarrow> string" where
  "get_cwd P = inst_path (proc_cwd P)"

definition get_handle :: "'d proc_fs \<Rightarrow> int \<Rightarrow> handle option" where
  "get_handle P h =
     (if 0 \<le> h \<and> nat h < length (handle_table P) then map_option handle_info (handle_table P ! nat h) else None)"

text \<open>A file is closed when its last reference goes away; here the table holds the only one.\<close>

definition drop_inst :: "file_inst \<Rightarrow> fs \<Rightarrow> fs" where
  "drop_inst f F = close_node (inst_node f) (inst_anc f) F"

definition remove_handle :: "'d proc_fs \<Rightarrow> int \<Rightarrow> bool \<times> 'd proc_fs" where
  "remove_handle P h =
     (case get_handle P h of
        None \<Rightarrow> (False, P)
      | Some x \<Rightarrow>
          (True, P\<lparr>handle_table := (handle_table P)[nat h := None],
                   pfs := (case x of FileHandle f \<Rightarrow> drop_inst f (pfs P) | DeviceHandle \<Rightarrow> pfs P)\<rparr>))"

fun first_free :: "handle_type \<Rightarrow> handle_type option list \<Rightarrow> nat \<times> handle_type option list" where
  "first_free x [] = (0, [Some x])"
| "first_free x (None # hs) = (0, Some x # hs)"
| "first_free x (Some y # hs) = (let (i, hs') = first_free x hs in (i + 1, Some y # hs'))"

definition add_new_handle :: "'d proc_fs \<Rightarrow> handle \<Rightarrow> bool \<Rightarrow> int \<times> 'd proc_fs" where
  "add_new_handle P x inh =
     (let (i, hs) = first_free \<lparr>handle_info = x, is_inheritable = inh\<rparr> (handle_table P)
      in (int i, P\<lparr>handle_table := hs\<rparr>))"

text \<open>The file instance behind a handle is shared, so its offset changes in place.\<close>

definition set_inst :: "'d proc_fs \<Rightarrow> int \<Rightarrow> file_inst \<Rightarrow> 'd proc_fs" where
  "set_inst P h f =
     P\<lparr>handle_table := (handle_table P)[nat h := map_option (\<lambda>x. x\<lparr>handle_info := FileHandle f\<rparr>) (handle_table P ! nat h)]\<rparr>"

section \<open>System calls\<close>

text \<open>A string of the caller must be UTF-8, as \<open>String::from_utf8\<close> demands. Strings are shorter than the two pages
  that are searched for their end, and the pointers of the caller are valid.\<close>

definition cont :: "nat \<Rightarrow> nat \<Rightarrow> byte \<Rightarrow> bool" where
  "cont lo hi c \<longleftrightarrow> lo \<le> (of_char c :: nat) \<and> (of_char c :: nat) \<le> hi"

fun from_utf8_ok :: "byte list \<Rightarrow> bool" where
  "from_utf8_ok [] = True"
| "from_utf8_ok (c # cs) =
     (if cont 0 127 c then from_utf8_ok cs
      else if cont 194 223 c then
        (case cs of d # ds \<Rightarrow> cont 128 191 d \<and> from_utf8_ok ds | _ \<Rightarrow> False)
      else if cont 224 239 c then
        (case cs of d # e # es \<Rightarrow>
           cont (if of_char c = (224 :: nat) then 160 else 128) (if of_char c = (237 :: nat) then 159 else 191) d \<and>
           cont 128 191 e \<and> from_utf8_ok es
         | _ \<Rightarrow> False)
      else if cont 240 244 c then
        (case cs of d # e # g # gs \<Rightarrow>
           cont (if of_char c = (240 :: nat) then 144 else 128) (if of_char c = (244 :: nat) then 143 else 191) d \<and>
           cont 128 191 e \<and> cont 128 191 g \<and> from_utf8_ok gs
         | _ \<Rightarrow> False)
      else False)"

definition user_string :: "string \<Rightarrow> int + string" where
  "user_string s = (if \<not> from_utf8_ok s then Inl E_INVALID_MEMORY_RANGE else if s = [] then Inl E_INVALID else Inr s)"

definition sys_change :: "'d proc_fs \<Rightarrow> kerror + fs \<Rightarrow> int \<times> 'd proc_fs" where
  "sys_change P r = (case r of Inl e \<Rightarrow> (kerror_code e, P) | Inr F \<Rightarrow> (E_SUCCESS, P\<lparr>pfs := F\<rparr>))"

definition path_call :: "'d proc_fs \<Rightarrow> string \<Rightarrow> (string \<Rightarrow> kerror + fs) \<Rightarrow> int \<times> 'd proc_fs" where
  "path_call P p op = (case user_string p of Inl e \<Rightarrow> (e, P) | Inr s \<Rightarrow> sys_change P (op s))"

definition OPEN_INHERITABLE_FLAG :: int where "OPEN_INHERITABLE_FLAG = 1"

definition new_file_handle :: "'d proc_fs \<Rightarrow> (kerror + file_inst) \<times> fs \<Rightarrow> int \<Rightarrow> int \<times> 'd proc_fs" where
  "new_file_handle P r flags =
     (case fst r of
        Inl e \<Rightarrow> (kerror_code e, P\<lparr>pfs := snd r\<rparr>)
      | Inr f \<Rightarrow> add_new_handle (P\<lparr>pfs := snd r\<rparr>) (FileHandle f) (and flags OPEN_INHERITABLE_FLAG \<noteq> 0))"

text \<open>The registered types of objects; pipes and semaphores, which are left out, count as not registered.\<close>

definition h_open :: "'d driver \<Rightarrow> 'd proc_fs \<Rightarrow> string \<Rightarrow> string \<Rightarrow> int \<Rightarrow> int \<times> 'd proc_fs" where
  "h_open D P typ name flags =
     (case user_string typ of
        Inl e \<Rightarrow> (e, P)
      | Inr t \<Rightarrow>
          (case user_string name of
             Inl e \<Rightarrow> (e, P)
           | Inr s \<Rightarrow>
               if t = ''fs'' then new_file_handle P (open_fs_handler (pfs P) (get_cwd P) s flags) flags
               else if t = ''device'' then
                 (case drv_open D (device P) s flags of
                    (Some e, d) \<Rightarrow> (kerror_code e, P\<lparr>device := d\<rparr>)
                  | (None, d) \<Rightarrow> add_new_handle (P\<lparr>device := d\<rparr>) DeviceHandle (and flags OPEN_INHERITABLE_FLAG \<noteq> 0))
               else (kerror_code KInvalidArgument, P)))"

definition h_create_file :: "'d proc_fs \<Rightarrow> string \<Rightarrow> int \<Rightarrow> int \<times> 'd proc_fs" where
  "h_create_file P p flags =
     (case user_string p of
        Inl e \<Rightarrow> (e, P)
      | Inr s \<Rightarrow> new_file_handle P (fs_create_or_open (pfs P) (get_cwd P) s (and flags CREATE_FILE_EXIST_FLAG \<noteq> 0)) flags)"

definition h_close :: "'d proc_fs \<Rightarrow> int \<Rightarrow> int \<times> 'd proc_fs" where
  "h_close P h = (let (ok, P') = remove_handle P h in (if ok then E_SUCCESS else E_INVALID, P'))"

definition h_read :: "'d driver \<Rightarrow> 'd proc_fs \<Rightarrow> int \<Rightarrow> nat \<Rightarrow> int \<times> byte list \<times> 'd proc_fs" where
  "h_read D P h n =
     (if n = 0 then (E_SUCCESS, [], P)
      else case get_handle P h of
             Some (FileHandle f) \<Rightarrow>
               (case inst_read (pfs P) f n of
                  Inl e \<Rightarrow> (kerror_code e, [], P)
                | Inr (bs, f') \<Rightarrow> (E_SUCCESS, bs, set_inst P h f'))
           | Some DeviceHandle \<Rightarrow>
               (case drv_read D (device P) n of
                  (Inl e, d) \<Rightarrow> (kerror_code e, [], P\<lparr>device := d\<rparr>)
                | (Inr (ok, bs), d) \<Rightarrow> if ok then (E_SUCCESS, bs, P\<lparr>device := d\<rparr>) else (E_INVALID, [], P\<lparr>device := d\<rparr>))
           | None \<Rightarrow> (E_INVALID, [], P))"

definition h_write :: "'d driver \<Rightarrow> 'd proc_fs \<Rightarrow> int \<Rightarrow> byte list \<Rightarrow> int \<times> nat \<times> 'd proc_fs" where
  "h_write D P h bs =
     (if bs = [] then (E_SUCCESS, 0, P)
      else case get_handle P h of
             Some (FileHandle f) \<Rightarrow>
               (case inst_write (pfs P) f bs of
                  Inl e \<Rightarrow> (kerror_code e, 0, P)
                | Inr (n, f', F) \<Rightarrow> (E_SUCCESS, n, set_inst (P\<lparr>pfs := F\<rparr>) h f'))
           | Some DeviceHandle \<Rightarrow>
               (case drv_write D (device P) bs of
                  (Inl _, d) \<Rightarrow> (E_INVALID, 0, P\<lparr>device := d\<rparr>)
                | (Inr (ok, n), d) \<Rightarrow> if ok then (E_SUCCESS, n, P\<lparr>device := d\<rparr>) else (E_INVALID, 0, P\<lparr>device := d\<rparr>))
           | None \<Rightarrow> (E_INVALID, 0, P))"

definition h_seek :: "'d proc_fs \<Rightarrow> int \<Rightarrow> int \<Rightarrow> int \<Rightarrow> int \<times> 'd proc_fs" where
  "h_seek P h delta whence =
     (case get_handle P h of
        Some (FileHandle f) \<Rightarrow>
          if whence \<noteq> SEEK_SET \<and> whence \<noteq> SEEK_CUR \<and> whence \<noteq> SEEK_END then (E_INVALID, P)
          else let next = (if whence = SEEK_SET then 0 else if whence = SEEK_CUR then int (inst_offset f)
                           else int (inst_len (pfs P) f)) + delta
               in if next < 0 then (E_INVALID, P)
                  else (case inst_seek f (nat next) of
                          Inl e \<Rightarrow> (kerror_code e, P)
                        | Inr f' \<Rightarrow> (next, set_inst P h f'))
      | _ \<Rightarrow> (E_INVALID, P))"

definition file_stat_of :: "file_attrs \<Rightarrow> file_stat" where
  "file_stat_of a = \<lparr>st_size = int (attr_size a), st_mode = attr_mode a, st_type = 0\<rparr>"

abbreviation "no_stat \<equiv> \<lparr>st_size = 0, st_mode = 0, st_type = 0\<rparr>"

definition h_fstat :: "'d proc_fs \<Rightarrow> int \<Rightarrow> int \<times> file_stat \<times> 'd proc_fs" where
  "h_fstat P h =
     (case get_handle P h of
        None \<Rightarrow> (E_INVALID, no_stat, P)
      | Some (FileHandle f) \<Rightarrow> (E_SUCCESS, file_stat_of (inst_fstat (pfs P) f), P)
      | Some DeviceHandle \<Rightarrow> (E_SUCCESS, \<lparr>st_size = 0, st_mode = 0, st_type = 1\<rparr>, P))"

definition h_stat :: "'d proc_fs \<Rightarrow> string \<Rightarrow> int \<Rightarrow> int \<times> file_stat \<times> 'd proc_fs" where
  "h_stat P p flags =
     (case user_string p of
        Inl e \<Rightarrow> (e, no_stat, P)
      | Inr s \<Rightarrow>
          (case fs_stat (pfs P) (get_cwd P) s (and flags STAT_FOLLOW_FLAG \<noteq> 0) of
             Inl e \<Rightarrow> (kerror_code e, no_stat, P)
           | Inr (a, _) \<Rightarrow> (E_SUCCESS, file_stat_of a, P)))"

definition h_delete :: "'d proc_fs \<Rightarrow> string \<Rightarrow> int \<times> 'd proc_fs" where
  "h_delete P p = path_call P p (fs_delete (pfs P) (get_cwd P))"

definition h_mkdir :: "'d proc_fs \<Rightarrow> string \<Rightarrow> int \<times> 'd proc_fs" where
  "h_mkdir P p = path_call P p (fs_mkdir (pfs P) (get_cwd P))"

definition h_create_symlink :: "'d proc_fs \<Rightarrow> string \<Rightarrow> string \<Rightarrow> int \<times> 'd proc_fs" where
  "h_create_symlink P p target =
     (case user_string p of
        Inl e \<Rightarrow> (e, P)
      | Inr s \<Rightarrow> path_call P target (fs_create_symlink (pfs P) (get_cwd P) s))"

text \<open>None when the kernel waits for a lock that it holds.\<close>

definition h_rename_file :: "'d proc_fs \<Rightarrow> string \<Rightarrow> string \<Rightarrow> (int \<times> 'd proc_fs) option" where
  "h_rename_file P from to =
     (case user_string from of
        Inl e \<Rightarrow> Some (e, P)
      | Inr s \<Rightarrow>
          (case user_string to of
             Inl e \<Rightarrow> Some (e, P)
           | Inr t \<Rightarrow> map_option (sys_change P) (fs_rename (pfs P) (get_cwd P) s t)))"

text \<open>A name with its end must fit in the buffer.\<close>

definition to_buffer :: "'d proc_fs \<Rightarrow> nat \<Rightarrow> string \<Rightarrow> int \<times> byte list \<times> 'd proc_fs" where
  "to_buffer P buf_len name = (if length name + 1 > buf_len then (E_BUF_TOO_SMALL, [], P) else (E_SUCCESS, name, P))"

definition h_readdir :: "'d proc_fs \<Rightarrow> int \<Rightarrow> nat \<Rightarrow> nat \<Rightarrow> int \<times> byte list \<times> 'd proc_fs" where
  "h_readdir P h offset buf_len =
     (case get_handle P h of
        Some (FileHandle f) \<Rightarrow>
          (case inst_readdir (pfs P) f offset of
             Inl e \<Rightarrow> (kerror_code e, [], P)
           | Inr name \<Rightarrow> to_buffer P buf_len name)
      | _ \<Rightarrow> (E_INVALID, [], P))"

definition h_readlink :: "'d proc_fs \<Rightarrow> string \<Rightarrow> nat \<Rightarrow> int \<times> byte list \<times> 'd proc_fs" where
  "h_readlink P p buf_len =
     (case user_string p of
        Inl e \<Rightarrow> (e, [], P)
      | Inr s \<Rightarrow>
          (case fs_stat (pfs P) (get_cwd P) s False of
             Inl e \<Rightarrow> (kerror_code e, [], P)
           | Inr (_, None) \<Rightarrow> (E_INVALID, [], P)
           | Inr (_, Some target) \<Rightarrow> to_buffer P buf_len target))"

text \<open>The old directory is closed when the new one takes its place.\<close>

definition fs_chdir :: "'d proc_fs \<Rightarrow> string \<Rightarrow> (kerror option) \<times> 'd proc_fs" where
  "fs_chdir P p =
     (case fs_open (pfs P) (get_cwd P) p of
        Inl e \<Rightarrow> (Some e, P)
      | Inr (f, F) \<Rightarrow>
          if \<not> inst_dir f then (Some KNotADirectory, P\<lparr>pfs := drop_inst f F\<rparr>)
          else (None, P\<lparr>pfs := drop_inst (proc_cwd P) F, proc_cwd := f\<rparr>))"

definition h_chdir :: "'d proc_fs \<Rightarrow> string \<Rightarrow> int \<times> 'd proc_fs" where
  "h_chdir P p =
     (case user_string p of
        Inl e \<Rightarrow> (e, P)
      | Inr s \<Rightarrow> (case fs_chdir P s of (None, P') \<Rightarrow> (E_SUCCESS, P') | (Some e, P') \<Rightarrow> (kerror_code e, P')))"

definition h_getcwd :: "'d proc_fs \<Rightarrow> nat \<Rightarrow> int \<times> string \<times> 'd proc_fs" where
  "h_getcwd P buf_len =
     to_buffer P buf_len (case resolve_symlink (pfs P) (get_cwd P) (get_cwd P) of Inl _ \<Rightarrow> get_cwd P | Inr c \<Rightarrow> c)"

text \<open>Only a file system in memory can be mounted here; a device counts as not found.\<close>

definition h_mount :: "'d proc_fs \<Rightarrow> string \<Rightarrow> string \<Rightarrow> int \<times> 'd proc_fs" where
  "h_mount P dev p =
     (case user_string dev of
        Inl e \<Rightarrow> (e, P)
      | Inr d \<Rightarrow>
          (case user_string p of
             Inl e \<Rightarrow> (e, P)
           | Inr s \<Rightarrow>
               if d \<noteq> ''tmpfs'' then (E_NOT_FOUND, P)
               else let (root, F) = vfs_new (pfs P) in sys_change P (fs_mount F (get_cwd P) s root)))"

definition h_unmount :: "'d proc_fs \<Rightarrow> string \<Rightarrow> int \<times> 'd proc_fs" where
  "h_unmount P p = path_call P p (fs_unmount (pfs P) (get_cwd P))"

section \<open>The start of the system\<close>

text \<open>The contents come from the boot image, the root is mounted, and the first process has the root as its directory.
  None where the source panics.\<close>

definition empty_fs :: fs where
  "empty_fs = \<lparr>nodes = (\<lambda>_. None), next_node = 0, mounts = []\<rparr>"

definition fs_init :: "(string \<times> byte list) list \<Rightarrow> (string \<times> string) list \<Rightarrow> (file_inst \<times> fs) option" where
  "fs_init fls links =
     (let (root, F1) = vfs_new empty_fs
      in case fs_mount (populate root fls links F1) [] [slash] root of
           Inl _ \<Rightarrow> None
         | Inr F2 \<Rightarrow> (case fs_open F2 [] [slash] of Inl _ \<Rightarrow> None | Inr r \<Rightarrow> Some r))"

text \<open>A process with handles of devices only.\<close>

definition first_process :: "bool list \<Rightarrow> 'd \<Rightarrow> file_inst \<times> fs \<Rightarrow> 'd proc_fs" where
  "first_process devs d r =
     \<lparr>pfs = snd r, handle_table = map (\<lambda>inh. Some \<lparr>handle_info = DeviceHandle, is_inheritable = inh\<rparr>) devs,
      proc_cwd = fst r, device = d\<rparr>"

text \<open>The kernel that programs run on, but for renaming, which may have no result.\<close>

definition fs_kernel :: "'d driver \<Rightarrow> 'd proc_fs kernel" where
  "fs_kernel D = null_kernel\<lparr>sys_open := h_open D, sys_close := h_close, sys_read := h_read D, sys_write := h_write D,
     sys_seek := h_seek, sys_fstat := h_fstat, sys_stat := h_stat, sys_delete := h_delete, sys_mkdir := h_mkdir,
     sys_create_file := h_create_file, sys_create_symlink := h_create_symlink, sys_readlink := h_readlink,
     sys_readdir := h_readdir, sys_chdir := h_chdir, sys_getcwd := h_getcwd, sys_mount := h_mount,
     sys_unmount := h_unmount\<rparr>"

end
