(* ===== verification/Vfs_Props.thy ===== *)
theory Vfs_Props
  imports Fs "HOL-Library.Multiset"
begin

text \<open>
  The file system in memory keeps its shape: every operation leaves a forest of named nodes below the mounted roots.
  First the updates of the store that the operations are made of, then the operations of \<open>Vfs\<close>.
\<close>

section \<open>The shape of the store\<close>

definition dir_children :: "fs \<Rightarrow> nat \<Rightarrow> (string \<times> nat) list" where
  "dir_children F n = (case kind_of F n of Some (Dir ch _) \<Rightarrow> ch | _ \<Rightarrow> [])"

definition name_ok :: "string \<Rightarrow> bool" where
  "name_ok x \<longleftrightarrow> x \<noteq> [] \<and> slash \<notin> set x \<and> x \<noteq> ''.'' \<and> x \<noteq> ''..''"

fun kind_bit :: "node_kind \<Rightarrow> int" where
  "kind_bit (File _ _) = FILE_MODE_FILE"
| "kind_bit (Dir _ _) = FILE_MODE_DIR"
| "kind_bit (Symlink _) = FILE_MODE_SYMLINK"

definition is_directory :: "fs \<Rightarrow> nat \<Rightarrow> bool" where
  "is_directory F n \<longleftrightarrow> (\<exists>ch i. kind_of F n = Some (Dir ch i))"

definition edge :: "fs \<Rightarrow> nat \<Rightarrow> nat \<Rightarrow> bool" where
  "edge F n m \<longleftrightarrow> m \<in> snd ` set (dir_children F n)"

definition children_ok :: "fs \<Rightarrow> (string \<times> nat) list \<Rightarrow> bool" where
  "children_ok F ch \<longleftrightarrow> sorted_wrt (<) (map fst ch) \<and> distinct (map snd ch) \<and>
     (\<forall>(x, m) \<in> set ch. name_ok x \<and> nodes F m \<noteq> None)"

text \<open>Nodes have numbers that were given out, and the mode that says what they are. The children of a directory are in
  the order of their names, with names that can stand in a path. No node has two places, and the roots of the mounts
  are directories with no place in another.\<close>

definition fs_ok :: "fs \<Rightarrow> bool" where
  "fs_ok F \<longleftrightarrow>
     (\<forall>n v. nodes F n = Some v \<longrightarrow> n < next_node F \<and> node_mode v = kind_bit (vkind v)) \<and>
     (\<forall>n. children_ok F (dir_children F n)) \<and>
     (\<forall>p q m. edge F p m \<longrightarrow> edge F q m \<longrightarrow> p = q) \<and>
     (\<forall>r \<in> snd ` set (mounts F). is_directory F r \<and> (\<forall>p. \<not> edge F p r))"

section \<open>Updates\<close>

lemma kind_of_set_kind [simp]:
  "kind_of (set_kind n kd F) m = (if m = n then map_option (\<lambda>_. kd) (kind_of F n) else kind_of F m)"
  by (simp add: kind_of_def set_kind_def option.map_comp comp_def)

lemma set_kind_simps [simp]:
  "next_node (set_kind n kd F) = next_node F" "mounts (set_kind n kd F) = mounts F"
  "nodes (set_kind n kd F) m = None \<longleftrightarrow> nodes F m = None"
  by (simp_all add: set_kind_def)

lemma set_kind_twice [simp]: "set_kind n kd (set_kind n kd' F) = set_kind n kd F"
  by (auto simp: set_kind_def option.map_comp comp_def fun_eq_iff intro!: fs.equality)

lemma nodes_set_kind:
  "nodes (set_kind n kd F) m = (if m = n then map_option (\<lambda>v. v\<lparr>vkind := kd\<rparr>) (nodes F n) else nodes F m)"
  by (simp add: set_kind_def)

lemma children_set_kind:
  "kind_of F n \<noteq> None \<Longrightarrow> dir_children (set_kind n kd F) m =
     (if m = n then (case kd of Dir ch _ \<Rightarrow> ch | _ \<Rightarrow> []) else dir_children F m)"
  by (auto simp: dir_children_def split: node_kind.splits)

lemma kind_of_None: "kind_of F n = None \<longleftrightarrow> nodes F n = None"
  by (simp add: kind_of_def)

lemma edge_dir: "edge F n m \<Longrightarrow> is_directory F n"
  by (cases "kind_of F n") (auto simp: edge_def dir_children_def is_directory_def split: node_kind.splits)

lemma children_ok_cong: "(\<And>m. nodes F m = None \<longleftrightarrow> nodes G m = None) \<Longrightarrow> children_ok F ch = children_ok G ch"
  by (simp add: children_ok_def)

lemma fs_ok_children: "fs_ok F \<Longrightarrow> children_ok F (dir_children F n)"
  by (simp add: fs_ok_def)

lemma fs_ok_parent: "fs_ok F \<Longrightarrow> edge F p m \<Longrightarrow> edge F q m \<Longrightarrow> p = q"
  by (auto simp: fs_ok_def)

lemma fs_ok_root: "fs_ok F \<Longrightarrow> r \<in> snd ` set (mounts F) \<Longrightarrow> is_directory F r \<and> \<not> edge F p r"
  by (auto simp: fs_ok_def)

lemma fs_ok_node: "fs_ok F \<Longrightarrow> nodes F n = Some v \<Longrightarrow> n < next_node F \<and> node_mode v = kind_bit (vkind v)"
  by (auto simp: fs_ok_def)

lemma fs_okI:
  assumes "\<And>n v. nodes F n = Some v \<Longrightarrow> n < next_node F \<and> node_mode v = kind_bit (vkind v)"
    "\<And>n. children_ok F (dir_children F n)" "\<And>p q m. edge F p m \<Longrightarrow> edge F q m \<Longrightarrow> p = q"
    "\<And>r. r \<in> snd ` set (mounts F) \<Longrightarrow> is_directory F r" "\<And>r p. r \<in> snd ` set (mounts F) \<Longrightarrow> \<not> edge F p r"
  shows "fs_ok F"
  unfolding fs_ok_def using assms by blast

text \<open>New children of a directory: each is an old child, or a node with no place and no mount.\<close>

lemma fs_ok_set_dir:
  assumes ok: "fs_ok F" and dir: "kind_of F p = Some (Dir ch i)" and ch': "children_ok F ch'"
    and new: "\<And>m. m \<in> snd ` set ch' \<Longrightarrow> m \<in> snd ` set ch \<or> (\<forall>q. \<not> edge F q m) \<and> m \<notin> snd ` set (mounts F)"
  shows "fs_ok (set_kind p (Dir ch' j) F)"
proof -
  let ?G = "set_kind p (Dir ch' j) F"
  have kids: "dir_children ?G q = (if q = p then ch' else dir_children F q)" for q
    using dir by (subst children_set_kind) auto
  have old: "dir_children F p = ch"
    using dir by (simp add: dir_children_def)
  have edges: "edge ?G q m \<longleftrightarrow> (if q = p then m \<in> snd ` set ch' else edge F q m)" for q m
    by (simp add: edge_def kids)
  have step: "edge F q m \<or> q = p \<and> (\<forall>q. \<not> edge F q m) \<and> m \<notin> snd ` set (mounts F)" if "edge ?G q m" for q m
  proof (cases "q = p")
    case True
    then have "m \<in> snd ` set ch'" using that by (simp add: edges)
    then show ?thesis using new [of m] old True by (simp add: edge_def)
  qed (use that edges in simp)
  show ?thesis
  proof (rule fs_okI)
    show "children_ok ?G (dir_children ?G q)" for q
      using ch' fs_ok_children [OF ok, of q] by (simp add: kids children_ok_cong [of ?G F])
    show "n < next_node ?G \<and> node_mode v = kind_bit (vkind v)" if "nodes ?G n = Some v" for n v
      using that fs_ok_node [OF ok, of n] dir by (auto simp: nodes_set_kind kind_of_def split: if_splits)
    show "q = q'" if "edge ?G q m" "edge ?G q' m" for q q' m
      using step [OF that(1)] step [OF that(2)] fs_ok_parent [OF ok] by blast
    show "is_directory ?G r" if "r \<in> snd ` set (mounts ?G)" for r
      using that fs_ok_root [OF ok, of r] dir by (auto simp: is_directory_def)
    show "\<not> edge ?G q r" if "r \<in> snd ` set (mounts ?G)" for q r
      using step [of q r] fs_ok_root [OF ok, of r q] that by auto
  qed
qed

text \<open>A change that touches neither the children nor what a node is.\<close>

lemma fs_ok_same_shape:
  assumes ok: "fs_ok F" and "next_node G = next_node F" "mounts G = mounts F"
    and kids: "\<And>n. dir_children G n = dir_children F n" and dirs: "\<And>n. is_directory G n = is_directory F n"
    and mode: "\<And>n v. nodes G n = Some v \<Longrightarrow> \<exists>w. nodes F n = Some w \<and> node_mode v = node_mode w \<and> kind_bit (vkind v) = kind_bit (vkind w)"
    and dom: "\<And>n. nodes G n = None \<longleftrightarrow> nodes F n = None"
  shows "fs_ok G"
proof -
  have "edge G = edge F" "children_ok G = children_ok F"
    using kids dom by (auto simp: edge_def children_ok_def fun_eq_iff)
  then show ?thesis
    using ok assms(2,3) kids dirs mode unfolding fs_ok_def by (simp (no_asm_simp)) metis
qed

lemma fs_ok_new_node:
  assumes ok: "fs_ok F" and new: "new_node mode kd F = (m, G)" and mode: "mode = kind_bit kd"
    and leaf: "\<forall>ch i. kd = Dir ch i \<longrightarrow> ch = []"
  shows "fs_ok G" "nodes F m = None" "kind_of G m = Some kd" "\<not> edge G q m" "m \<notin> snd ` set (mounts G)"
    "n \<noteq> m \<Longrightarrow> nodes G n = nodes F n" "mounts G = mounts F"
proof -
  have m: "m = next_node F" "G = F\<lparr>nodes := (nodes F)(m \<mapsto> \<lparr>node_mode = mode, vkind = kd\<rparr>), next_node := m + 1\<rparr>"
    using new by (auto simp: new_node_def)
  show fresh: "nodes F m = None"
    using fs_ok_node [OF ok, of m] m by (cases "nodes F m") auto
  have kids: "dir_children G n = dir_children F n" for n
    using fresh leaf by (auto simp: dir_children_def m kind_of_def split: option.splits node_kind.splits)
  then have edges: "edge G = edge F"
    by (simp add: edge_def fun_eq_iff)
  have noedge: "\<not> edge F q m" for q
    using fs_ok_children [OF ok, of q] fresh by (auto simp: edge_def children_ok_def)
  show "\<not> edge G q m" by (simp add: edges noedge)
  have noroot: "m \<notin> snd ` set (mounts F)"
    using fs_ok_root [OF ok, of m] fresh by (auto simp: is_directory_def kind_of_def)
  then show "m \<notin> snd ` set (mounts G)" by (simp add: m)
  show mts: "mounts G = mounts F" by (simp add: m)
  show "kind_of G m = Some kd" "n \<noteq> m \<Longrightarrow> nodes G n = nodes F n"
    by (simp_all add: m kind_of_def)
  have "children_ok G (dir_children G n)" for n
    using fs_ok_children [OF ok, of n] unfolding kids by (auto simp: children_ok_def m)
  moreover have "is_directory G r" if "is_directory F r" for r
    using that fresh by (auto simp: is_directory_def m kind_of_def)
  moreover have "nodes G n = Some v \<Longrightarrow> n < next_node G \<and> node_mode v = kind_bit (vkind v)" for n v
    using fs_ok_node [OF ok, of n] mode by (auto simp: m split: if_splits)
  ultimately show "fs_ok G"
    using fs_ok_parent [OF ok] fs_ok_root [OF ok] by (intro fs_okI) (simp_all only: edges mts, blast+)
qed

section \<open>Entries\<close>

lemma set_child_insert: "map_of ch x = None \<Longrightarrow> set (child_insert x n ch) = insert (x, n) (set ch)"
  by (induction x n ch rule: child_insert.induct) (auto split: if_splits)

lemma sorted_child_insert:
  "sorted_wrt (<) (map fst ch) \<Longrightarrow> map_of ch x = None \<Longrightarrow> sorted_wrt (<) (map fst (child_insert x n ch))"
proof (induction x n ch rule: child_insert.induct)
  case (2 x n y m ch)
  then show ?case
    by (auto simp: set_child_insert dest: order.strict_trans split: if_splits)
qed simp

lemma distinct_child_insert:
  "distinct (map snd ch) \<Longrightarrow> n \<notin> snd ` set ch \<Longrightarrow> map_of ch x = None \<Longrightarrow> distinct (map snd (child_insert x n ch))"
  by (induction x n ch rule: child_insert.induct) (auto simp: set_child_insert split: if_splits)

lemma set_child_remove: "set (child_remove x ch) = {e \<in> set ch. fst e \<noteq> x}"
  by (auto simp: child_remove_def)

lemma children_ok_remove: "children_ok F ch \<Longrightarrow> children_ok F (child_remove x ch)"
  by (auto simp: children_ok_def child_remove_def sorted_wrt_map sorted_wrt_filter distinct_map inj_on_def)

lemma children_ok_insert:
  "children_ok F ch \<Longrightarrow> map_of ch x = None \<Longrightarrow> name_ok x \<Longrightarrow> nodes F n \<noteq> None \<Longrightarrow> n \<notin> snd ` set ch \<Longrightarrow>
   children_ok F (child_insert x n ch)"
  by (auto simp: children_ok_def set_child_insert sorted_child_insert distinct_child_insert)

lemma children_ok_map_of: "children_ok F ch \<Longrightarrow> map_of ch x = Some m \<longleftrightarrow> (x, m) \<in> set ch"
  by (auto simp: children_ok_def strict_sorted_iff dest: map_of_SomeD intro!: map_of_is_SomeI)

lemma removed_gone: "children_ok F ch \<Longrightarrow> map_of ch x = Some m \<Longrightarrow> m \<notin> snd ` set (child_remove x ch)"
  by (force simp: set_child_remove children_ok_def distinct_map inj_on_def dest!: map_of_SomeD)

lemma map_of_remove: "map_of (child_remove x ch) y = (if y = x then None else map_of ch y)"
  by (induction ch) (auto simp: child_remove_def)

text \<open>A node gets a place, or loses it.\<close>

lemma fs_ok_add:
  assumes "fs_ok F" "kind_of F p = Some (Dir ch i)" "map_of ch x = None" "name_ok x" "nodes F m \<noteq> None"
    "\<And>q. \<not> edge F q m" "m \<notin> snd ` set (mounts F)"
  shows "fs_ok (set_kind p (Dir (child_insert x m ch) j) F)"
proof (rule fs_ok_set_dir [OF assms(1,2)])
  have ch: "dir_children F p = ch" using assms(2) by (simp add: dir_children_def)
  show "children_ok F (child_insert x m ch)"
    using assms fs_ok_children [OF assms(1), of p] assms(6) [of p] by (intro children_ok_insert) (auto simp: ch edge_def)
qed (use assms in \<open>auto simp: set_child_insert\<close>)

lemma fs_ok_remove:
  assumes "fs_ok F" "kind_of F p = Some (Dir ch i)"
  shows "fs_ok (set_kind p (Dir (child_remove x ch) j) F)"
proof (rule fs_ok_set_dir [OF assms])
  show "children_ok F (child_remove x ch)"
    using fs_ok_children [OF assms(1), of p] assms(2) by (simp add: children_ok_remove dir_children_def)
qed (auto simp: set_child_remove)

text \<open>A removed node is in no directory.\<close>

lemma remove_unplaced:
  assumes ok: "fs_ok F" and p: "kind_of F p = Some (Dir ch i)" and x: "map_of ch x = Some m"
  shows "\<not> edge (set_kind p (Dir (child_remove x ch) j) F) q m"
proof -
  have ch: "dir_children F p = ch" using p by (simp add: dir_children_def)
  then have "edge F p m" using x by (force simp: edge_def dest: map_of_SomeD)
  then have "q \<noteq> p \<Longrightarrow> \<not> edge F q m" using fs_ok_parent [OF ok] by blast
  moreover have "m \<notin> snd ` set (child_remove x ch)"
    using fs_ok_children [OF ok, of p] x by (simp add: ch removed_gone)
  ultimately show ?thesis
    using p by (simp add: edge_def children_set_kind)
qed

section \<open>Operations\<close>

text \<open>What the operations do to the store when they succeed.\<close>

lemma insert_childE:
  assumes "insert_child F root rel leaf mk = Inr G"
  obtains p ch i m F' where "kind_of F p = Some (Dir ch i)" "map_of ch leaf = None" "mk F = (m, F')"
    "G = set_kind p (Dir (child_insert leaf m ch) i) F'"
  using assms by (auto simp: insert_child_def split: if_splits sum.splits option.splits node_kind.splits prod.splits)

lemma delete_inE:
  assumes "delete_in F root rel leaf = Inr G"
  obtains p ch i m where "raw_get F root rel = Inr p" "kind_of F p = Some (Dir ch i)" "map_of ch leaf = Some m"
    "\<not> node_busy F m" "dir_children F m = []" "G = set_kind p (Dir (child_remove leaf ch) i) F"
  using assms
  by (auto simp: delete_in_def node_busy_def dir_children_def Let_def
      split: if_splits sum.splits option.splits node_kind.splits)

text \<open>A renaming is a removal and then an insertion.\<close>

lemma rename_inE:
  assumes "rename_in F root frel fname trel tname = Some (Inr G)"
  obtains p ch i m q dh j F1 where "raw_get F root frel = Inr p" "raw_get F root trel = Inr q" "kind_of F p = Some (Dir ch i)" "map_of ch fname = Some m" "\<not> node_busy F m"
    "F1 = set_kind p (Dir (child_remove fname ch) i) F" "kind_of F1 q = Some (Dir dh j)" "map_of dh tname = None"
    "G = set_kind q (Dir (child_insert tname m dh) j) F1"
proof -
  obtain p q ch i dh j m where
    raw: "raw_get F root frel = Inr p" "raw_get F root trel = Inr q" and
    *: "kind_of F p = Some (Dir ch i)" "kind_of F q = Some (Dir dh j)" "map_of ch fname = Some m" "\<not> node_busy F m"
    and G: "if p = q then (tname = fname \<or> map_of ch tname = None) \<and>
              G = set_kind p (Dir (child_insert tname m (child_remove fname ch)) i) F
            else map_of dh tname = None \<and>
              G = set_kind q (Dir (child_insert tname m dh) j) (set_kind p (Dir (child_remove fname ch) i) F)"
    using assms
    by (auto simp: rename_in_def split: if_splits sum.splits option.splits node_kind.splits)
  show thesis
  proof (cases "p = q")
    case True
    then show ?thesis
      using * G by (intro that [OF raw *(1,3,4) refl, of "child_remove fname ch" i]) (auto simp: map_of_remove)
  next
    case False
    then show ?thesis
      using * G by (intro that [OF raw *(1,3,4) refl, of dh j]) auto
  qed
qed

lemmas new_node_defs = new_file_node_def new_dir_def new_symlink_node_def

text \<open>The ways to make a node: a file, an empty directory, a symbolic link.\<close>

definition makes_node :: "(fs \<Rightarrow> nat \<times> fs) \<Rightarrow> bool" where
  "makes_node mk \<longleftrightarrow> (\<exists>mode kd. mk = new_node mode kd \<and> mode = kind_bit kd \<and> open_count kd = 0 \<and>
     (\<forall>ch i. kd = Dir ch i \<longrightarrow> ch = []))"

lemma makes_node_new: "open_count kd = 0 \<Longrightarrow> \<forall>ch i. kd = Dir ch i \<longrightarrow> ch = [] \<Longrightarrow> makes_node (new_node (kind_bit kd) kd)"
  unfolding makes_node_def by blast

lemma makes_node_simps [simp]:
  "makes_node (new_file_node bs 0)" "makes_node (new_dir 0)" "makes_node (new_symlink_node target)"
  using makes_node_new [of "File bs 0"] makes_node_new [of "Dir [] 0"] makes_node_new [of "Symlink target"]
  by (simp_all add: new_node_defs [abs_def])

lemma fs_ok_insert_child:
  assumes "fs_ok F" "insert_child F root rel leaf mk = Inr G" "makes_node mk" "name_ok leaf"
  shows "fs_ok G"
proof -
  obtain mode kd where mk: "mk = new_node mode kd" "mode = kind_bit kd" "\<forall>ch i. kd = Dir ch i \<longrightarrow> ch = []"
    using assms(3) by (auto simp: makes_node_def)
  show ?thesis
    using assms(2)
  proof (rule insert_childE)
    fix p ch i m F'
    assume p: "kind_of F p = Some (Dir ch i)" and new: "map_of ch leaf = None" "mk F = (m, F')"
      and G: "G = set_kind p (Dir (child_insert leaf m ch) i) F'"
    note node = fs_ok_new_node [OF assms(1) new(2) [unfolded mk(1)] mk(2,3)]
    have "p \<noteq> m" using p node(2) by (auto simp: kind_of_def)
    then have "kind_of F' p = Some (Dir ch i)" using p node(6) by (simp add: kind_of_def)
    moreover have "nodes F' m \<noteq> None" using node(3) by (auto simp: kind_of_def)
    ultimately show ?thesis
      unfolding G using fs_ok_add [OF node(1)] new(1) assms(4) node(4,5) by blast
  qed
qed

lemma fs_ok_delete_in: "fs_ok F \<Longrightarrow> delete_in F root rel leaf = Inr G \<Longrightarrow> fs_ok G"
  by (auto elim!: delete_inE intro: fs_ok_remove)

lemma fs_ok_rename_in:
  assumes ok: "fs_ok F" and "rename_in F root frel fname trel tname = Some (Inr G)" "name_ok tname"
  shows "fs_ok G"
  using assms(2)
proof (rule rename_inE)
  fix p ch i m q dh j F1
  assume p: "kind_of F p = Some (Dir ch i)" "map_of ch fname = Some m"
    and F1: "F1 = set_kind p (Dir (child_remove fname ch) i) F"
    and q: "kind_of F1 q = Some (Dir dh j)" "map_of dh tname = None" and G: "G = set_kind q (Dir (child_insert tname m dh) j) F1"
  have m: "edge F p m" using p by (force simp: edge_def dir_children_def dest: map_of_SomeD)
  have "nodes F1 m \<noteq> None"
    using fs_ok_children [OF ok, of p] m by (auto simp: F1 edge_def children_ok_def)
  moreover have "m \<notin> snd ` set (mounts F1)"
    using fs_ok_root [OF ok, of m] m by (auto simp: F1)
  ultimately show ?thesis
    unfolding G using fs_ok_remove [OF ok p(1)] remove_unplaced [OF ok p] q assms(3)
    by (intro fs_ok_add) (auto simp: F1)
qed

end
