(* ===== verification/Vfs_Open.thy ===== *)
theory Vfs_Open
  imports Vfs_Props
begin

text \<open>
  Open files protect their place. The open files are a multiset of chains, each the nodes from a mounted root down to
  an open node; the counts of the store are the occurrences in them. An operation that takes a node away from its
  directory refuses a node that is counted, so every chain stays a path of the store.
\<close>

section \<open>Chains and counts\<close>

definition is_link :: "node_kind \<Rightarrow> bool" where
  "is_link kd \<longleftrightarrow> kind_bit kd = FILE_MODE_SYMLINK"

lemma is_link_simps [simp]: "\<not> is_link (File bs n)" "\<not> is_link (Dir ch n)" "is_link (Symlink t)"
  by (simp_all add: is_link_def FILE_MODE_FILE_def FILE_MODE_DIR_def FILE_MODE_SYMLINK_def)

definition chain_ok :: "fs \<Rightarrow> nat list \<Rightarrow> bool" where
  "chain_ok F c \<longleftrightarrow> c \<noteq> [] \<and> hd c \<in> snd ` set (mounts F) \<and> successively (edge F) c \<and>
     (\<forall>n \<in> set c. \<exists>kd. kind_of F n = Some kd \<and> \<not> is_link kd)"

definition occ :: "nat list multiset \<Rightarrow> nat \<Rightarrow> nat" where
  "occ C n = (\<Sum>c\<in>#C. count_list c n)"

definition opens_ok :: "fs \<Rightarrow> nat list multiset \<Rightarrow> bool" where
  "opens_ok F C \<longleftrightarrow> (\<forall>c \<in># C. chain_ok F c) \<and> (\<forall>n kd. kind_of F n = Some kd \<longrightarrow> open_count kd = occ C n)"

lemma occ_simps [simp]: "occ {#} n = 0" "occ (add_mset c C) n = count_list c n + occ C n"
  by (simp_all add: occ_def)

lemma count_list_pos: "n \<in> set c \<Longrightarrow> 0 < count_list c n"
  by (metis count_list_0_iff gr0I)

lemma occ_pos: "c \<in># C \<Longrightarrow> n \<in> set c \<Longrightarrow> 0 < occ C n"
  by (auto simp: occ_def count_list_pos dest!: multi_member_split)

lemma occ_pos_D: "0 < occ C n \<Longrightarrow> \<exists>c \<in># C. n \<in> set c"
  by (induction C) (auto simp: count_list_0_iff)

lemma opens_ok_count: "opens_ok F C \<Longrightarrow> kind_of F n = Some kd \<Longrightarrow> open_count kd = occ C n"
  by (simp add: opens_ok_def)

lemma not_busy_occ: "opens_ok F C \<Longrightarrow> \<not> node_busy F n \<Longrightarrow> occ C n = 0"
proof (rule ccontr)
  assume ok: "opens_ok F C" and nb: "\<not> node_busy F n" and "occ C n \<noteq> 0"
  then obtain kd where "kind_of F n = Some kd"
    using occ_pos_D [of C n] by (fastforce simp: opens_ok_def chain_ok_def)
  then show False
    using nb \<open>occ C n \<noteq> 0\<close> opens_ok_count [OF ok] by (simp add: node_busy_def)
qed

lemma successively_keep:
  "successively P c \<Longrightarrow> (\<And>n m. P n m \<Longrightarrow> m \<in> set c \<Longrightarrow> Q n m) \<Longrightarrow> successively Q c"
  by (induction c rule: induct_list012) auto

text \<open>A change keeps the open files when it keeps the places of the nodes that are counted, the counts, and the mounts
  in use.\<close>

lemma opens_keep:
  assumes ok: "opens_ok F C"
    and edges: "\<And>n m. edge F n m \<Longrightarrow> 0 < occ C m \<Longrightarrow> edge G n m"
    and roots: "\<And>r. r \<in> snd ` set (mounts F) \<Longrightarrow> 0 < occ C r \<Longrightarrow> r \<in> snd ` set (mounts G)"
    and old: "\<And>n kd. kind_of F n = Some kd \<Longrightarrow>
      \<exists>kd'. kind_of G n = Some kd' \<and> open_count kd' = open_count kd \<and> is_link kd' = is_link kd"
    and fresh: "\<And>n kd. kind_of F n = None \<Longrightarrow> kind_of G n = Some kd \<Longrightarrow> open_count kd = 0"
  shows "opens_ok G C"
  unfolding opens_ok_def
proof (intro conjI ballI allI impI)
  fix c assume c: "c \<in># C"
  then have co: "chain_ok F c" using ok by (simp add: opens_ok_def)
  have pos: "n \<in> set c \<Longrightarrow> 0 < occ C n" for n using c by (rule occ_pos)
  have "successively (edge G) c"
    using co by (auto simp: chain_ok_def intro: successively_keep edges pos)
  moreover have "hd c \<in> snd ` set (mounts G)"
    using co by (auto simp: chain_ok_def intro!: roots pos)
  moreover have "\<exists>kd. kind_of G n = Some kd \<and> \<not> is_link kd" if "n \<in> set c" for n
    using co that old [of n] by (fastforce simp: chain_ok_def)
  ultimately show "chain_ok G c"
    using co by (simp add: chain_ok_def)
next
  fix n kd assume G: "kind_of G n = Some kd"
  show "open_count kd = occ C n"
  proof (cases "kind_of F n")
    case None
    then have "occ C n = 0" using not_busy_occ [OF ok, of n] by (simp add: node_busy_def)
    then show ?thesis using fresh [OF None G] by simp
  next
    case (Some kd0)
    then show ?thesis using old [OF Some] G opens_ok_count [OF ok Some] by auto
  qed
qed

section \<open>Opening and closing\<close>

lemma change_count_twice: "change_count f (change_count g kd) = change_count (f \<circ> g) kd"
  by (cases kd) simp_all

lemma change_count_id [simp]: "change_count id kd = kd" "change_count (\<lambda>i. i) kd = kd"
  by (cases kd; simp)+

lemma kind_of_count_node: "kind_of (count_node f n F) m = (if m = n then map_option (change_count f) (kind_of F n) else kind_of F m)"
  by (cases "kind_of F n") (simp_all add: count_node_def)

lemma kind_fold_count:
  "kind_of (fold (count_node f) ns F) n = map_option (change_count (f ^^ count_list ns n)) (kind_of F n)"
proof (induction ns arbitrary: F)
  case (Cons m ns)
  then show ?case
    by (simp add: kind_of_count_node option.map_comp comp_def change_count_twice funpow_swap1)
qed (simp add: option.map_ident_strong)

lemma fold_count_simps [simp]:
  "mounts (fold (count_node f) ns F) = mounts F" "next_node (fold (count_node f) ns F) = next_node F"
  by (induction ns arbitrary: F) (simp_all add: count_node_def split: option.splits)

lemma change_count_shape [simp]:
  "kind_bit (change_count f kd) = kind_bit kd" "is_link (change_count f kd) = is_link kd"
  by (cases kd; simp)+

lemma children_fold_count [simp]: "dir_children (fold (count_node f) ns F) n = dir_children F n"
  by (cases "kind_of F n"; cases "the (kind_of F n)") (simp_all add: dir_children_def kind_fold_count)

lemma edge_fold_count [simp]: "edge (fold (count_node f) ns F) = edge F"
  by (simp add: edge_def fun_eq_iff)

lemma mode_fold_count:
  "map_option node_mode (nodes (fold (count_node f) ns F) n) = map_option node_mode (nodes F n)"
  by (induction ns arbitrary: F)
    (simp_all add: count_node_def nodes_set_kind option.map_comp comp_def split: option.splits)

lemma fs_ok_fold_count: "fs_ok F \<Longrightarrow> fs_ok (fold (count_node f) ns F)"
proof (erule fs_ok_same_shape)
  let ?G = "fold (count_node f) ns F"
  fix n
  show "is_directory ?G n = is_directory F n"
    by (cases "kind_of F n"; cases "the (kind_of F n)") (simp_all add: is_directory_def kind_fold_count)
  show none: "nodes ?G n = None \<longleftrightarrow> nodes F n = None"
    using mode_fold_count [of f ns F n] by (cases "nodes F n") auto
  fix v assume v: "nodes ?G n = Some v"
  then obtain w where w: "nodes F n = Some w" using none by (cases "nodes F n") auto
  then show "\<exists>w. nodes F n = Some w \<and> node_mode v = node_mode w \<and> kind_bit (vkind v) = kind_bit (vkind w)"
    using v mode_fold_count [of f ns F n] kind_fold_count [of f ns F n] by (simp add: kind_of_def)
qed simp_all

lemma chain_fold_count [simp]: "chain_ok (fold (count_node f) ns F) c = chain_ok F c"
  by (auto simp: chain_ok_def kind_fold_count)

lemma open_count_change: "\<not> is_link kd \<Longrightarrow> open_count (change_count f kd) = f (open_count kd)"
  by (cases kd) simp_all

lemma change_count_link: "is_link kd \<Longrightarrow> change_count f kd = kd"
  by (cases kd) simp_all

lemma funpow_Suc_plus: "(Suc ^^ k) i = k + i"
  by (induction k) simp_all

lemma funpow_pred: "((\<lambda>i. i - Suc 0) ^^ k) i = i - k"
  by (induction k) simp_all

text \<open>Opening adds a chain, closing takes it away.\<close>

lemma opens_ok_open:
  assumes ok: "opens_ok F C" and c: "chain_ok F c" and same: "mset ns = mset c"
  shows "opens_ok (fold (count_node Suc) ns F) (add_mset c C)"
  unfolding opens_ok_def
proof (intro conjI allI impI)
  have cnt: "count_list ns n = count_list c n" for n
    using same by (simp add: count_mset [symmetric])
  fix n kd assume "kind_of (fold (count_node Suc) ns F) n = Some kd"
  then obtain kd0 where kd0: "kind_of F n = Some kd0" "kd = change_count (Suc ^^ count_list c n) kd0"
    by (auto simp: kind_fold_count cnt)
  show "open_count kd = occ (add_mset c C) n"
  proof (cases "is_link kd0")
    case True
    then have "count_list c n = 0"
      using c kd0 by (auto simp: chain_ok_def count_list_0_iff)
    then show ?thesis using True kd0 opens_ok_count [OF ok] by (simp add: change_count_link)
  qed (use kd0 opens_ok_count [OF ok] in \<open>simp add: open_count_change funpow_Suc_plus\<close>)
qed (use ok c in \<open>auto simp: opens_ok_def\<close>)

lemma opens_ok_close:
  assumes ok: "opens_ok F (add_mset c C)" and same: "mset ns = mset c"
  shows "opens_ok (fold (count_node (\<lambda>i. i - 1)) ns F) C"
  unfolding opens_ok_def
proof (intro conjI allI impI)
  have cnt: "count_list ns n = count_list c n" for n
    using same by (simp add: count_mset [symmetric])
  fix n kd assume "kind_of (fold (count_node (\<lambda>i. i - 1)) ns F) n = Some kd"
  then obtain kd0 where kd0: "kind_of F n = Some kd0" "kd = change_count ((\<lambda>i. i - 1) ^^ count_list c n) kd0"
    by (auto simp: kind_fold_count cnt)
  show "open_count kd = occ C n"
  proof (cases "is_link kd0")
    case True
    then have "count_list c n = 0"
      using ok kd0 by (auto simp: opens_ok_def chain_ok_def count_list_0_iff)
    then show ?thesis using True kd0 opens_ok_count [OF ok] by (simp add: change_count_link)
  qed (use kd0 opens_ok_count [OF ok] in \<open>simp add: open_count_change funpow_pred\<close>)
qed (use ok in \<open>auto simp: opens_ok_def\<close>)

lemma walk_ancestors_step:
  assumes "walk_ancestors F cur anc (c # cs) = r" "r = Inr x"
  obtains m where "edge F cur m" "walk_ancestors F m (anc @ [cur]) cs = Inr x"
  using assms
  by (cases "kind_of F cur"; cases "the (kind_of F cur)"; cases "map_of (dir_children F cur) c")
    (auto simp: edge_def dir_children_def image_iff dest!: map_of_SomeD)

lemma walk_ancestors_chain:
  assumes "walk_ancestors F cur anc cs = Inr (n, anc')" "successively (edge F) (anc @ [cur])"
  shows "successively (edge F) (anc' @ [n]) \<and> hd (anc' @ [n]) = hd (anc @ [cur])"
  using assms
proof (induction cs arbitrary: cur anc)
  case (Cons c cs)
  obtain m where m: "edge F cur m" "walk_ancestors F m (anc @ [cur]) cs = Inr (n, anc')"
    using walk_ancestors_step [OF Cons.prems(1) refl] .
  have "successively (edge F) ((anc @ [cur]) @ [m])"
    using Cons.prems(2) m(1) unfolding successively_append_iff by simp
  then show ?case
    using Cons.IH [OF m(2)] by (cases anc) simp_all
qed simp

lemma successively_source:
  "successively P (xs @ [y]) \<Longrightarrow> x \<in> set xs \<Longrightarrow> \<exists>z. P x z"
  by (induction xs rule: induct_list012) auto

lemma open_at_ok:
  assumes fs: "fs_ok F" and op: "opens_ok F C" and root: "root \<in> snd ` set (mounts F)"
    and r: "open_at F root p = Inr ((n, anc, d), G)"
  shows "fs_ok G \<and> opens_ok G (add_mset (anc @ [n]) C)"
proof -
  obtain kd where w: "walk_ancestors F root [] (path_comps p) = Inr (n, anc)" and kd: "kind_of F n = Some kd" "\<not> is_link kd"
    and G: "G = fold (count_node Suc) (n # anc) F"
    using r by (auto simp: open_at_def simp del: fold_simps split: sum.splits option.splits node_kind.splits)
  have s: "successively (edge F) (anc @ [n])" "hd (anc @ [n]) = root"
    using walk_ancestors_chain [OF w] by simp_all
  have "\<exists>kd. kind_of F m = Some kd \<and> \<not> is_link kd" if "m \<in> set anc" for m
    using successively_source [OF s(1) that] by (auto simp: is_directory_def dest!: edge_dir)
  then have "chain_ok F (anc @ [n])"
    using s root kd by (auto simp: chain_ok_def)
  then show ?thesis
    unfolding G using fs_ok_fold_count [OF fs, of Suc "n # anc"] opens_ok_open [OF op, of "anc @ [n]" "n # anc"] by simp
qed

lemma close_node_ok:
  "fs_ok F \<Longrightarrow> opens_ok F (add_mset (anc @ [n]) C) \<Longrightarrow> fs_ok (close_node n anc F) \<and> opens_ok (close_node n anc F) C"
  using fs_ok_fold_count [of F "\<lambda>i. i - 1" "n # anc"] opens_ok_close [of F "anc @ [n]" C "n # anc"]
  by (simp add: close_node_def)

section \<open>Entries\<close>

lemma opens_set_dir:
  assumes ok: "opens_ok F C" and p: "kind_of F p = Some (Dir ch i)"
    and kept: "\<And>m. m \<in> snd ` set ch \<Longrightarrow> 0 < occ C m \<Longrightarrow> m \<in> snd ` set ch'"
  shows "opens_ok (set_kind p (Dir ch' i) F) C"
  using ok
proof (rule opens_keep)
  show "edge (set_kind p (Dir ch' i) F) n m" if "edge F n m" "0 < occ C m" for n m
    using that p kept [of m] by (cases "n = p") (simp_all add: edge_def children_set_kind dir_children_def)
qed (use p in \<open>auto split: if_splits\<close>)

lemma opens_new_node:
  assumes fs: "fs_ok F" and op: "opens_ok F C" and new: "new_node mode kd F = (m, G)"
    and kd: "mode = kind_bit kd" "\<forall>ch i. kd = Dir ch i \<longrightarrow> ch = []" "open_count kd = 0"
  shows "opens_ok G C"
proof -
  note node = fs_ok_new_node [OF fs new kd(1,2)]
  have same: "kind_of F n \<noteq> None \<Longrightarrow> kind_of G n = kind_of F n" for n
    using node(2) node(6) [of n] by (cases "n = m") (auto simp: kind_of_def)
  show ?thesis
    using op
  proof (rule opens_keep)
    show "edge G n q" if "edge F n q" for n q
      using that same [of n] edge_dir [OF that] by (auto simp: edge_def dir_children_def is_directory_def)
    show "open_count kd' = 0" if "kind_of F n = None" "kind_of G n = Some kd'" for n kd'
      using that node(3) node(6) [of n] kd(3) by (cases "n = m") (auto simp: kind_of_def)
  qed (use same node(7) in auto)
qed

lemma opens_insert_child:
  assumes fs: "fs_ok F" and op: "opens_ok F C" and r: "insert_child F root rel leaf mk = Inr G" and mk: "makes_node mk"
  shows "opens_ok G C"
proof -
  obtain mode kd where mk: "mk = new_node mode kd" "mode = kind_bit kd" "\<forall>ch i. kd = Dir ch i \<longrightarrow> ch = []" "open_count kd = 0"
    using mk by (auto simp: makes_node_def)
  show ?thesis
    using r
  proof (rule insert_childE)
    fix p ch i m F'
    assume p: "kind_of F p = Some (Dir ch i)" and new: "map_of ch leaf = None" "mk F = (m, F')"
      and G: "G = set_kind p (Dir (child_insert leaf m ch) i) F'"
    note node = fs_ok_new_node [OF fs new(2) [unfolded mk(1)] mk(2,3)]
    have "kind_of F' p = Some (Dir ch i)"
      using p node(2) node(6) [of p] by (cases "p = m") (auto simp: kind_of_def)
    then show ?thesis
      unfolding G using new(1)
      by (intro opens_set_dir [OF opens_new_node [OF fs op new(2) [unfolded mk(1)] mk(2,3,4)]])
        (auto simp: set_child_insert)
  qed
qed

text \<open>A removed entry is not that of a node in use.\<close>

lemma opens_remove:
  assumes "opens_ok F C" "kind_of F p = Some (Dir ch i)" "map_of ch x = Some m" "\<not> node_busy F m" "fs_ok F"
  shows "opens_ok (set_kind p (Dir (child_remove x ch) i) F) C"
proof (rule opens_set_dir [OF assms(1,2)])
  have ch: "children_ok F ch" using fs_ok_children [OF assms(5), of p] assms(2) by (simp add: dir_children_def)
  fix q assume "q \<in> snd ` set ch" and used: "0 < occ C q"
  then obtain y where y: "(y, q) \<in> set ch" by auto
  have "q \<noteq> m" using used not_busy_occ [OF assms(1,4)] by auto
  then have "y \<noteq> x" using y assms(3) children_ok_map_of [OF ch, of y q] by auto
  then show "q \<in> snd ` set (child_remove x ch)" using y by (force simp: set_child_remove)
qed

lemma opens_delete_in: "fs_ok F \<Longrightarrow> opens_ok F C \<Longrightarrow> delete_in F root rel leaf = Inr G \<Longrightarrow> opens_ok G C"
  by (auto elim!: delete_inE intro: opens_remove)

lemma opens_rename_in:
  assumes fs: "fs_ok F" and op: "opens_ok F C" and r: "rename_in F root frel fname trel tname = Some (Inr G)"
  shows "opens_ok G C"
  using r
proof (rule rename_inE)
  fix p ch i m q dh j F1
  assume p: "kind_of F p = Some (Dir ch i)" "map_of ch fname = Some m" "\<not> node_busy F m"
    and F1: "F1 = set_kind p (Dir (child_remove fname ch) i) F"
    and q: "kind_of F1 q = Some (Dir dh j)" "map_of dh tname = None" and G: "G = set_kind q (Dir (child_insert tname m dh) j) F1"
  show ?thesis
    unfolding G using q opens_remove [OF op p fs] by (intro opens_set_dir) (auto simp: F1 set_child_insert)
qed

end
