(* ===== verification/Fs_Props.thy ===== *)
theory Fs_Props
  imports Vfs_Open
begin

text \<open>
  Every system call keeps the shape of the file system and the places of the open files. The operations on paths
  first, then the handles of a process, and the states that the calls can reach from the start of the system.
\<close>

section \<open>Paths\<close>

lemma push_part_ok: "list_all name_ok parts \<Longrightarrow> slash \<notin> set seg \<Longrightarrow> list_all name_ok (push_part seg parts)"
  by (auto simp: push_part_def name_ok_def list_all_iff dest: in_set_butlastD)

lemma fold_push_ok:
  "list_all name_ok parts \<Longrightarrow> \<forall>s \<in> set segs. slash \<notin> set s \<Longrightarrow> list_all name_ok (fold push_part segs parts)"
  by (induction segs arbitrary: parts) (simp_all add: push_part_ok)

definition norm_comps :: "string \<Rightarrow> string list" where
  "norm_comps p = fold push_part (split_on slash p) []"

lemma normalize_path_comps: "normalize_path p = rebuild_path (norm_comps p)" "list_all name_ok (norm_comps p)"
  by (auto simp: normalize_path_def norm_comps_def intro!: fold_push_ok dest: split_on_parts)

lemma abs_path_comps: "\<exists>cs. abs_path cwd p = rebuild_path cs \<and> list_all name_ok cs"
  unfolding abs_path_def make_absolute_def using normalize_path_comps by (metis (full_types))

lemma rebuild_path_snoc: "rebuild_path (cs @ [c]) = (if cs = [] then [] else rebuild_path cs) @ [slash] @ c"
  by (simp add: rebuild_path_def)

lemma split_parent_rebuild:
  assumes "list_all name_ok (cs @ [c])"
  shows "split_parent (rebuild_path (cs @ [c])) = (rebuild_path cs, c)"
proof -
  have c: "c \<noteq> []" "slash \<notin> set c" using assms by (auto simp: name_ok_def)
  then have w: "takeWhile (\<lambda>d. d \<noteq> slash) (rev c @ slash # r) = rev c"
    "dropWhile (\<lambda>d. d \<noteq> slash) (rev c @ slash # r) = slash # r" for r
    by (auto simp: takeWhile_append dropWhile_append)
  show ?thesis
  proof (cases "cs = []")
    case False
    then have "rebuild_path cs \<noteq> []" by (cases cs) (simp_all add: rebuild_path_def)
    then have "rebuild_path cs @ slash # c \<noteq> [slash]" using c by (cases "rebuild_path cs") auto
    then show ?thesis using \<open>rebuild_path cs \<noteq> []\<close> c w False by (auto simp: split_parent_def rebuild_path_snoc)
  qed (use c w [of "[]"] in \<open>auto simp: split_parent_def rebuild_path_snoc rebuild_path_def\<close>)
qed

text \<open>The last name of an absolute path can stand in a directory.\<close>

lemma split_parent_leaf:
  assumes "split_parent (abs_path cwd p) = (parent, leaf)" "leaf \<noteq> []"
  shows "name_ok leaf"
proof -
  obtain cs where cs: "abs_path cwd p = rebuild_path cs" "list_all name_ok cs" using abs_path_comps by blast
  have "cs \<noteq> []" using assms cs by (auto simp: rebuild_path_def split_parent_def)
  then have "cs = butlast cs @ [last cs]" by simp
  then show ?thesis using split_parent_rebuild [of "butlast cs" "last cs"] cs assms
    by (metis list_all_iff last_in_set snd_conv \<open>cs \<noteq> []\<close>)
qed

section \<open>Operations\<close>

definition sys_ok :: "fs \<Rightarrow> nat list multiset \<Rightarrow> bool" where
  "sys_ok F C \<longleftrightarrow> fs_ok F \<and> opens_ok F C"

lemma better_mount_in: "fold (better_mount p) ms best = Some e \<Longrightarrow> e \<in> set ms \<or> best = Some e"
  by (induction ms arbitrary: best) (auto simp: better_mount_def split: if_splits)

lemma lookup_mp_root: "lookup_mp ms p = Some (root, rel, mp) \<Longrightarrow> root \<in> snd ` set ms"
  using better_mount_in [of p ms None] by (force simp: lookup_mp_def split: option.splits prod.splits)

lemma resolve_loop_root: "resolve_loop hops F follow p = Inr r \<Longrightarrow> res_root r \<in> snd ` set (mounts F)"
proof (induction hops arbitrary: p)
  case (Suc hops)
  obtain root rel mp where l: "lookup_mp (mounts F) p = Some (root, rel, mp)"
    using Suc.prems by (cases "lookup_mp (mounts F) p") auto
  obtain step where s: "probe F root rel follow = Inr step"
    using Suc.prems l by (cases "probe F root rel follow") simp_all
  show ?case
  proof (cases step)
    case (Found attrs target)
    then show ?thesis using Suc.prems l s lookup_mp_root [OF l] by (metis (no_types, lifting) Inr_inject case_prod_conv option.simps(5)
      probe_step.simps(5) resolve_loop.simps(2) resolved.select_convs(1) sum.simps(6))
  next
    case (ProbeSymlink dir target rest)
    then show ?thesis using Suc.prems l s by (intro Suc.IH) simp
  qed
qed simp

lemma resolve_root: "resolve F cwd p follow = Inr r \<Longrightarrow> res_root r \<in> snd ` set (mounts F)"
  unfolding resolve_def by (rule resolve_loop_root)

definition inst_chain :: "file_inst \<Rightarrow> nat list" where
  "inst_chain f = inst_anc f @ [inst_node f]"

lemma fs_open_ok: "sys_ok F C \<Longrightarrow> fs_open F cwd p = Inr (f, G) \<Longrightarrow> sys_ok G (add_mset (inst_chain f) C)"
proof (cases "resolve F cwd p True")
  case (Inr r)
  assume ok: "sys_ok F C" and open': "fs_open F cwd p = Inr (f, G)"
  then obtain n anc d where "open_at F (res_root r) (res_rel r) = Inr ((n, anc, d), G)" "inst_chain f = anc @ [n]"
    using Inr by (auto simp: fs_open_def inst_chain_def split: sum.splits)
  then show ?thesis
    using ok resolve_root [OF Inr] open_at_ok [of F C "res_root r"] by (simp add: sys_ok_def)
qed (simp add: fs_open_def)

lemma drop_inst_ok: "sys_ok F (add_mset (inst_chain f) C) \<Longrightarrow> sys_ok (drop_inst f F) C"
  by (auto simp: sys_ok_def drop_inst_def inst_chain_def dest: close_node_ok)

lemma fs_create_ok:
  assumes "sys_ok F C" "fs_create F cwd p (\<lambda>F root rel leaf. insert_child F root rel leaf mk) = Inr G" "makes_node mk"
  shows "sys_ok G C"
  using assms split_parent_leaf [of cwd p]
  by (auto simp: sys_ok_def fs_create_def split: prod.splits if_splits sum.splits
      intro: fs_ok_insert_child opens_insert_child)

lemma fs_create_file_ok: "sys_ok F C \<Longrightarrow> fs_create_file F cwd p = Inr G \<Longrightarrow> sys_ok G C"
  unfolding fs_create_file_def create_file_in_def by (rule fs_create_ok) (assumption, assumption, rule makes_node_simps)

lemma fs_mkdir_ok: "sys_ok F C \<Longrightarrow> fs_mkdir F cwd p = Inr G \<Longrightarrow> sys_ok G C"
  unfolding fs_mkdir_def mkdir_in_def by (rule fs_create_ok) (assumption, assumption, rule makes_node_simps)

lemma fs_create_symlink_ok: "sys_ok F C \<Longrightarrow> fs_create_symlink F cwd p t = Inr G \<Longrightarrow> sys_ok G C"
  unfolding fs_create_symlink_def create_symlink_in_def by (rule fs_create_ok) (assumption, assumption, rule makes_node_simps)

lemma fs_delete_ok: "sys_ok F C \<Longrightarrow> fs_delete F cwd p = Inr G \<Longrightarrow> sys_ok G C"
  by (auto simp: sys_ok_def fs_delete_def Let_def split: sum.splits if_splits prod.splits
      intro: fs_ok_delete_in opens_delete_in)

lemma fs_rename_ok: "sys_ok F C \<Longrightarrow> fs_rename F cwd p q = Some (Inr G) \<Longrightarrow> sys_ok G C"
  using split_parent_leaf [of cwd q]
  by (auto simp: sys_ok_def fs_rename_def Let_def split: sum.splits if_splits prod.splits
      intro: fs_ok_rename_in opens_rename_in)

lemma opened_ok: "sys_ok F C \<Longrightarrow> opened F (fs_open F cwd p) = (Inl e, G) \<Longrightarrow> sys_ok G C"
  "sys_ok F C \<Longrightarrow> opened F (fs_open F cwd p) = (Inr f, G) \<Longrightarrow> sys_ok G (add_mset (inst_chain f) C)"
  by (auto simp: opened_def dest: fs_open_ok split: sum.splits)

text \<open>The chain of the file that was opened, if one was.\<close>

fun chain_of :: "kerror + file_inst \<Rightarrow> nat list multiset" where
  "chain_of (Inl e) = {#}"
| "chain_of (Inr f) = {#inst_chain f#}"

lemma opened_chain: "sys_ok F C \<Longrightarrow> opened F (fs_open F cwd p) = (r, G) \<Longrightarrow> sys_ok G (chain_of r + C)"
  by (cases r) (auto dest: opened_ok)

lemma create_or_open_ok: "sys_ok F C \<Longrightarrow> fs_create_or_open F cwd p ex = (r, G) \<Longrightarrow> sys_ok G (chain_of r + C)"
proof -
  assume ok: "sys_ok F C" and r: "fs_create_or_open F cwd p ex = (r, G)"
  let ?F1 = "case fs_delete F cwd p of Inl _ \<Rightarrow> F | Inr F' \<Rightarrow> F'"
  have ok1: "sys_ok ?F1 C"
    using ok fs_delete_ok [OF ok] by (simp split: sum.split)
  show ?thesis
  proof (cases ex)
    case False
    show ?thesis
    proof (cases "fs_create_file ?F1 cwd p")
      case (Inl e)
      then show ?thesis using r ok1 False by (auto simp: fs_create_or_open_def)
    next
      case (Inr F2)
      then have "opened F2 (fs_open F2 cwd p) = (r, G)" using r False by (simp add: fs_create_or_open_def)
      then show ?thesis by (rule opened_chain [OF fs_create_file_ok [OF ok1 Inr]])
    qed
  qed (use r opened_chain [OF ok] in \<open>simp add: fs_create_or_open_def\<close>)
qed

lemma open_fs_handler_ok: "sys_ok F C \<Longrightarrow> open_fs_handler F cwd p flags = (r, G) \<Longrightarrow> sys_ok G (chain_of r + C)"
  unfolding open_fs_handler_def by (cases "and flags OPEN_CREATE_FLAG \<noteq> 0") (simp_all add: opened_chain create_or_open_ok)

section \<open>Mounting\<close>

lemma edge_mounts [simp]: "edge (F\<lparr>mounts := ms\<rparr>) = edge F"
  by (simp add: edge_def dir_children_def kind_of_def fun_eq_iff)

lemma kind_of_mounts [simp]: "kind_of (F\<lparr>mounts := ms\<rparr>) = kind_of F"
  by (simp add: kind_of_def fun_eq_iff)

lemma sys_ok_mounts:
  assumes ok: "sys_ok F C"
    and roots: "\<And>r. r \<in> snd ` set ms \<Longrightarrow> r \<in> snd ` set (mounts F) \<or> is_directory F r \<and> (\<forall>p. \<not> edge F p r)"
    and used: "\<And>r. r \<in> snd ` set (mounts F) \<Longrightarrow> 0 < occ C r \<Longrightarrow> r \<in> snd ` set ms"
  shows "sys_ok (F\<lparr>mounts := ms\<rparr>) C"
proof -
  let ?G = "F\<lparr>mounts := ms\<rparr>"
  have fs: "fs_ok F" and op: "opens_ok F C" using ok by (simp_all add: sys_ok_def)
  have "fs_ok ?G"
  proof (rule fs_okI)
    show "children_ok ?G (dir_children ?G n)" for n
      using fs_ok_children [OF fs, of n] by (simp add: children_ok_def dir_children_def)
    show "is_directory ?G r" if "r \<in> snd ` set (mounts ?G)" for r
      using that roots [of r] fs_ok_root [OF fs, of r] by (auto simp: is_directory_def)
    show "\<not> edge ?G p r" if "r \<in> snd ` set (mounts ?G)" for p r
      using that roots [of r] fs_ok_root [OF fs, of r p] by auto
  qed (use fs_ok_node [OF fs] fs_ok_parent [OF fs] in auto)
  moreover have "opens_ok ?G C"
    using op by (rule opens_keep) (use used in auto)
  ultimately show ?thesis by (simp add: sys_ok_def)
qed

lemma fs_mount_ok:
  assumes "sys_ok F C" "fs_mount F cwd p root = Inr G" "is_directory F root" "\<And>q. \<not> edge F q root"
  shows "sys_ok G C"
  using assms(2)
proof -
  obtain canonical where "G = F\<lparr>mounts := mounts F @ [(canonical, root)]\<rparr>"
    using assms(2) by (auto simp: fs_mount_def split: sum.splits option.splits)
  moreover have "sys_ok (F\<lparr>mounts := mounts F @ [(canonical, root)]\<rparr>) C"
    by (rule sys_ok_mounts [OF assms(1)]) (use assms(3,4) in \<open>auto simp: image_Un\<close>)
  ultimately show ?thesis by simp
qed

lemma remove_mount_keeps: "map_of ms p = Some root \<Longrightarrow> e \<in> set ms \<Longrightarrow> snd e \<noteq> root \<Longrightarrow> e \<in> set (remove_mount p ms)"
  by (induction ms) (auto split: if_splits)

lemma remove_mount_subset: "set (remove_mount p ms) \<subseteq> set ms"
  by (induction ms) (auto split: if_splits)

lemma fs_unmountE:
  assumes "fs_unmount F cwd p = Inr G"
  obtains c root where "map_of (mounts F) c = Some root" "\<not> root_busy F root" "G = F\<lparr>mounts := remove_mount c (mounts F)\<rparr>"
  using assms by (auto simp: fs_unmount_def split: if_splits sum.splits option.splits)

lemma fs_unmount_ok:
  assumes ok: "sys_ok F C" and r: "fs_unmount F cwd p = Inr G"
  shows "sys_ok G C"
  using r
proof (rule fs_unmountE)
  fix c root
  assume c: "map_of (mounts F) c = Some root" "\<not> root_busy F root" and G: "G = F\<lparr>mounts := remove_mount c (mounts F)\<rparr>"
  have fs: "fs_ok F" and op: "opens_ok F C" using ok by (simp_all add: sys_ok_def)
  have "root \<in> snd ` set (mounts F)" using c(1) by (force dest: map_of_SomeD)
  then have "is_directory F root" using fs_ok_root [OF fs] by blast
  then have "\<not> node_busy F root" using c(2) by (auto simp: is_directory_def root_busy_def node_busy_def)
  then have free: "occ C root = 0" by (rule not_busy_occ [OF op])
  show ?thesis
    unfolding G
  proof (rule sys_ok_mounts [OF ok])
    show "r \<in> snd ` set (mounts F) \<or> is_directory F r \<and> (\<forall>p. \<not> edge F p r)"
      if "r \<in> snd ` set (remove_mount c (mounts F))" for r
      using that remove_mount_subset [of c "mounts F"] by blast
    show "r \<in> snd ` set (remove_mount c (mounts F))" if "r \<in> snd ` set (mounts F)" "0 < occ C r" for r
    proof -
      have "r \<noteq> root" using free that(2) by auto
      then show ?thesis using that(1) remove_mount_keeps [OF c(1)] by force
    qed
  qed
qed

section \<open>Contents\<close>

lemma sys_ok_contents:
  assumes ok: "sys_ok F C" and n: "kind_of F n = Some (File bs i)"
  shows "sys_ok (set_kind n (File bs' i) F) C"
proof -
  let ?G = "set_kind n (File bs' i) F"
  have kids: "dir_children ?G m = dir_children F m" for m
    using n by (auto simp: dir_children_def)
  have fs: "fs_ok F" and op: "opens_ok F C" using ok by (simp_all add: sys_ok_def)
  have "fs_ok ?G"
  proof (rule fs_ok_same_shape [OF fs])
    show "is_directory ?G m = is_directory F m" for m
      using n by (auto simp: is_directory_def)
    show "\<exists>w. nodes F m = Some w \<and> node_mode v = node_mode w \<and> kind_bit (vkind v) = kind_bit (vkind w)"
      if "nodes ?G m = Some v" for m v
      using that n by (auto simp: nodes_set_kind kind_of_def split: if_splits)
  qed (simp_all add: kids)
  moreover have "opens_ok ?G C"
    using op by (rule opens_keep) (use n kids in \<open>auto simp: edge_def split: if_splits\<close>)
  ultimately show ?thesis by (simp add: sys_ok_def)
qed

lemma inst_write_ok:
  assumes "sys_ok F C" "inst_write F f bs = Inr (n, f', G)"
  shows "sys_ok G C \<and> inst_chain f' = inst_chain f"
  using assms by (auto simp: inst_write_def inst_chain_def split: if_splits option.splits node_kind.splits
      intro: sys_ok_contents)

lemma inst_read_chain: "inst_read F f n = Inr (bs, f') \<Longrightarrow> inst_chain f' = inst_chain f"
  by (auto simp: inst_read_def inst_chain_def Let_def split: if_splits option.splits node_kind.splits)

lemma inst_seek_chain: "inst_seek f n = Inr f' \<Longrightarrow> inst_chain f' = inst_chain f"
  by (auto simp: inst_seek_def inst_chain_def split: if_splits)

section \<open>Handles\<close>

fun entry_chains :: "handle_type option \<Rightarrow> nat list multiset" where
  "entry_chains None = {#}"
| "entry_chains (Some x) = (case handle_info x of FileHandle f \<Rightarrow> {#inst_chain f#} | DeviceHandle \<Rightarrow> {#})"

definition table_chains :: "handle_type option list \<Rightarrow> nat list multiset" where
  "table_chains hs = sum_list (map entry_chains hs)"

definition open_chains :: "'d proc_fs \<Rightarrow> nat list multiset" where
  "open_chains P = add_mset (inst_chain (proc_cwd P)) (table_chains (handle_table P))"

lemma table_chains_simps [simp]:
  "table_chains [] = {#}" "table_chains (x # hs) = entry_chains x + table_chains hs"
  by (simp_all add: table_chains_def)

lemma table_chains_update:
  "i < length hs \<Longrightarrow> table_chains (hs[i := x]) + entry_chains (hs ! i) = table_chains hs + entry_chains x"
proof (induction hs arbitrary: i)
  case (Cons y hs)
  then show ?case by (cases i) (auto simp: ac_simps)
qed simp

lemma first_free_chains: "first_free x hs = (i, hs') \<Longrightarrow> table_chains hs' = entry_chains (Some x) + table_chains hs"
  by (induction x hs arbitrary: i hs' rule: first_free.induct) (auto split: prod.splits simp: ac_simps)

definition proc_ok :: "'d proc_fs \<Rightarrow> bool" where
  "proc_ok P \<longleftrightarrow> sys_ok (pfs P) (open_chains P)"

lemma get_handle_entry:
  "get_handle P h = Some x \<Longrightarrow> nat h < length (handle_table P) \<and> (\<exists>e. handle_table P ! nat h = Some e \<and> handle_info e = x)"
  by (auto simp: get_handle_def split: if_splits)

lemma remove_handle_ok:
  assumes "proc_ok P"
  shows "proc_ok (snd (remove_handle P h))"
proof (cases "get_handle P h")
  case (Some x)
  obtain e where e: "nat h < length (handle_table P)" "handle_table P ! nat h = Some e" "handle_info e = x"
    using get_handle_entry [OF Some] by blast
  have t: "table_chains (handle_table P) = entry_chains (Some e) + table_chains ((handle_table P)[nat h := None])"
    using table_chains_update [OF e(1), of None] e(2) by (simp add: ac_simps)
  show ?thesis
    using assms Some e(3) t drop_inst_ok
    by (cases x) (auto simp: proc_ok_def remove_handle_def open_chains_def add_mset_commute)
qed (use assms in \<open>simp add: remove_handle_def\<close>)

lemma add_new_handle_ok:
  assumes "sys_ok (pfs P) (entry_chains (Some \<lparr>handle_info = x, is_inheritable = inh\<rparr>) + open_chains P)"
  shows "proc_ok (snd (add_new_handle P x inh))"
  using assms first_free_chains [of "\<lparr>handle_info = x, is_inheritable = inh\<rparr>" "handle_table P"]
  by (auto simp: proc_ok_def add_new_handle_def open_chains_def split: prod.splits)

lemma set_inst_chains:
  assumes "get_handle P h = Some (FileHandle f)" "inst_chain f' = inst_chain f" "handle_table Q = handle_table P"
    "proc_cwd Q = proc_cwd P"
  shows "open_chains (set_inst Q h f') = open_chains P"
proof -
  obtain e where e: "nat h < length (handle_table P)" "handle_table P ! nat h = Some e" "handle_info e = FileHandle f"
    using get_handle_entry [OF assms(1)] by blast
  show ?thesis
    using table_chains_update [OF e(1), of "Some (e\<lparr>handle_info := FileHandle f'\<rparr>)"] e assms(2-)
    by (simp add: open_chains_def set_inst_def)
qed

end
