(* ===== verification/Fs_Calls.thy ===== *)
theory Fs_Calls
  imports Fs_Props
begin

text \<open>
  The system calls of a process as steps, the start of the system, and what holds in every state that they reach.
\<close>

section \<open>System calls as steps\<close>

text \<open>One rule for each call; a renaming that does not return is no step.\<close>

inductive syscall :: "'d driver \<Rightarrow> 'd proc_fs \<Rightarrow> 'd proc_fs \<Rightarrow> bool" for D where
  call_open: "h_open D P typ name flags = (s, P') \<Longrightarrow> syscall D P P'"
| call_create_file: "h_create_file P p flags = (s, P') \<Longrightarrow> syscall D P P'"
| call_close: "h_close P h = (s, P') \<Longrightarrow> syscall D P P'"
| call_read: "h_read D P h n = (s, bs, P') \<Longrightarrow> syscall D P P'"
| call_write: "h_write D P h bs = (s, n, P') \<Longrightarrow> syscall D P P'"
| call_seek: "h_seek P h delta whence = (s, P') \<Longrightarrow> syscall D P P'"
| call_delete: "h_delete P p = (s, P') \<Longrightarrow> syscall D P P'"
| call_mkdir: "h_mkdir P p = (s, P') \<Longrightarrow> syscall D P P'"
| call_symlink: "h_create_symlink P p t = (s, P') \<Longrightarrow> syscall D P P'"
| call_rename: "h_rename_file P p q = Some (s, P') \<Longrightarrow> syscall D P P'"
| call_chdir: "h_chdir P p = (s, P') \<Longrightarrow> syscall D P P'"
| call_mount: "h_mount P dev p = (s, P') \<Longrightarrow> syscall D P P'"
| call_unmount: "h_unmount P p = (s, P') \<Longrightarrow> syscall D P P'"

lemma open_chains_pfs [simp]: "open_chains (P\<lparr>pfs := F\<rparr>) = open_chains P" "open_chains (P\<lparr>device := d\<rparr>) = open_chains P"
  by (simp_all add: open_chains_def)

lemma new_file_handle_ok:
  assumes "sys_ok (snd r) (chain_of (fst r) + open_chains P)"
  shows "proc_ok (snd (new_file_handle P r flags))"
  using assms by (cases "fst r") (auto simp: new_file_handle_def proc_ok_def [of "_\<lparr>pfs := _\<rparr>"] intro!: add_new_handle_ok)

lemma sys_change_ok:
  "proc_ok P \<Longrightarrow> (\<And>G. r = Inr G \<Longrightarrow> sys_ok G (open_chains P)) \<Longrightarrow> proc_ok (snd (sys_change P r))"
  by (auto simp: sys_change_def proc_ok_def split: sum.splits)

lemma path_call_ok:
  "proc_ok P \<Longrightarrow> (\<And>s G. op s = Inr G \<Longrightarrow> sys_ok G (open_chains P)) \<Longrightarrow> proc_ok (snd (path_call P p op))"
  by (auto simp: path_call_def intro!: sys_change_ok split: sum.split)

lemma proc_ok_device [simp]: "proc_ok (P\<lparr>device := d\<rparr>) = proc_ok P"
  by (simp add: proc_ok_def)

lemma h_open_ok: "proc_ok P \<Longrightarrow> proc_ok (snd (h_open D P typ name flags))"
proof -
  assume ok: "proc_ok P"
  have "proc_ok (snd (new_file_handle P (open_fs_handler (pfs P) (get_cwd P) s flags) flags))" for s
    using open_fs_handler_ok [of "pfs P" "open_chains P" "get_cwd P" s flags] ok
    by (intro new_file_handle_ok) (simp add: proc_ok_def)
  moreover have "proc_ok (snd (add_new_handle (P\<lparr>device := d\<rparr>) DeviceHandle inh))" for d inh
    using ok by (intro add_new_handle_ok) (simp add: proc_ok_def)
  ultimately show ?thesis using ok by (simp add: h_open_def split: sum.split prod.split option.split)
qed

lemma h_create_file_ok: "proc_ok P \<Longrightarrow> proc_ok (snd (h_create_file P p flags))"
proof -
  assume ok: "proc_ok P"
  have "proc_ok (snd (new_file_handle P (fs_create_or_open (pfs P) (get_cwd P) s ex) flags))" for s ex
    using create_or_open_ok [of "pfs P" "open_chains P" "get_cwd P" s ex] ok
    by (intro new_file_handle_ok) (simp add: proc_ok_def)
  then show ?thesis using ok by (simp add: h_create_file_def split: sum.split)
qed

lemma h_close_ok: "proc_ok P \<Longrightarrow> proc_ok (snd (h_close P h))"
  using remove_handle_ok [of P h] by (simp add: h_close_def case_prod_beta)

lemma set_inst_ok:
  assumes "get_handle P h = Some (FileHandle f)" "inst_chain f' = inst_chain f" "sys_ok F (open_chains P)"
  shows "proc_ok (set_inst (P\<lparr>pfs := F\<rparr>) h f')"
  using assms set_inst_chains [of P h f f' "P\<lparr>pfs := F\<rparr>"] by (simp add: proc_ok_def set_inst_def)

lemma h_read_ok: "proc_ok P \<Longrightarrow> proc_ok (snd (snd (h_read D P h n)))"
  using set_inst_ok [of P h _ _ "pfs P"] inst_read_chain
  by (auto simp: h_read_def proc_ok_def split: option.splits handle.splits sum.splits prod.splits)

lemma write_inst_ok:
  assumes "proc_ok P" "get_handle P h = Some (FileHandle f)" "inst_write (pfs P) f bs = Inr (n, f', G)"
  shows "proc_ok (set_inst (P\<lparr>pfs := G\<rparr>) h f')"
  using assms inst_write_ok [of "pfs P" "open_chains P" f bs n f' G] by (intro set_inst_ok) (auto simp: proc_ok_def)

lemma h_write_ok: "proc_ok P \<Longrightarrow> proc_ok (snd (snd (h_write D P h bs)))"
  by (auto simp: h_write_def write_inst_ok split: option.splits handle.splits sum.splits prod.splits)

lemma h_seek_ok: "proc_ok P \<Longrightarrow> proc_ok (snd (h_seek P h delta whence))"
  using set_inst_ok [of P h _ _ "pfs P"] inst_seek_chain
  by (auto simp: h_seek_def Let_def proc_ok_def split: option.splits handle.splits sum.splits prod.splits)

lemma h_rename_file_ok:
  assumes "proc_ok P" "h_rename_file P p q = Some (s, P')"
  shows "proc_ok P'"
proof -
  have "proc_ok (snd (sys_change P r))" if "fs_rename (pfs P) (get_cwd P) a b = Some r" for a b r
    using assms(1) that by (intro sys_change_ok) (auto simp: proc_ok_def dest: fs_rename_ok)
  then show ?thesis
    using assms by (force simp: h_rename_file_def split: sum.splits)
qed

lemma fs_chdir_ok: "proc_ok P \<Longrightarrow> proc_ok (snd (fs_chdir P p))"
proof (cases "fs_open (pfs P) (get_cwd P) p")
  case (Inr r)
  assume ok: "proc_ok P"
  obtain f F where r: "r = (f, F)" by (cases r)
  have F: "sys_ok F (add_mset (inst_chain f) (open_chains P))"
    using ok fs_open_ok [OF _ Inr [unfolded r]] by (simp add: proc_ok_def)
  then have "sys_ok F (add_mset (inst_chain (proc_cwd P)) (add_mset (inst_chain f) (table_chains (handle_table P))))"
    by (simp add: open_chains_def add_mset_commute)
  then show ?thesis
    using F by (auto simp: fs_chdir_def Inr r proc_ok_def open_chains_def [of "_\<lparr>proc_cwd := _\<rparr>"] intro: drop_inst_ok)
qed (simp add: fs_chdir_def)

lemma h_chdir_ok: "proc_ok P \<Longrightarrow> proc_ok (snd (h_chdir P p))"
  using fs_chdir_ok [of P] by (auto simp: h_chdir_def split: sum.splits prod.splits option.splits) (metis snd_conv)+

lemma vfs_new_ok:
  assumes "sys_ok F C" "vfs_new F = (root, G)"
  shows "sys_ok G C" "is_directory G root" "\<not> edge G q root"
proof -
  have new: "new_node (or 0 FILE_MODE_DIR) (Dir [] 0) F = (root, G)"
    using assms(2) by (simp add: vfs_new_def new_dir_def)
  have ok: "fs_ok F" "opens_ok F C" using assms(1) by (simp_all add: sys_ok_def)
  note node = fs_ok_new_node [OF ok(1) new] opens_new_node [OF ok new]
  show "sys_ok G C" "is_directory G root" "\<not> edge G q root"
    using node by (simp_all add: sys_ok_def is_directory_def)
qed

lemma h_mount_ok: "proc_ok P \<Longrightarrow> proc_ok (snd (h_mount P dev p))"
proof -
  assume ok: "proc_ok P"
  obtain root F where new: "vfs_new (pfs P) = (root, F)" by (cases "vfs_new (pfs P)")
  note F = vfs_new_ok [OF ok [unfolded proc_ok_def] new]
  have "proc_ok (snd (sys_change P (fs_mount F (get_cwd P) s root)))" for s
    using ok F by (intro sys_change_ok) (auto intro: fs_mount_ok)
  then show ?thesis using ok new by (simp add: h_mount_def split: sum.split)
qed

lemma path_calls_ok:
  assumes "proc_ok P"
  shows "proc_ok (snd (h_delete P p))" "proc_ok (snd (h_mkdir P p))" "proc_ok (snd (h_unmount P p))"
    "proc_ok (snd (h_create_symlink P p t))"
proof -
  have ok: "sys_ok (pfs P) (open_chains P)" using assms by (simp add: proc_ok_def)
  show "proc_ok (snd (h_delete P p))" "proc_ok (snd (h_mkdir P p))" "proc_ok (snd (h_unmount P p))"
    unfolding h_delete_def h_mkdir_def h_unmount_def
    using assms fs_delete_ok [OF ok] fs_mkdir_ok [OF ok] fs_unmount_ok [OF ok] by (auto intro!: path_call_ok)
  have "proc_ok (snd (path_call P t (fs_create_symlink (pfs P) (get_cwd P) s)))" for s
    using assms fs_create_symlink_ok [OF ok] by (auto intro!: path_call_ok)
  then show "proc_ok (snd (h_create_symlink P p t))"
    using assms by (simp add: h_create_symlink_def split: sum.split)
qed

lemmas calls_ok = h_open_ok h_create_file_ok h_close_ok h_read_ok h_write_ok h_seek_ok path_calls_ok h_chdir_ok h_mount_ok

lemma syscall_ok: "syscall D P P' \<Longrightarrow> proc_ok P \<Longrightarrow> proc_ok P'"
  by (induction rule: syscall.induct) (metis calls_ok h_rename_file_ok snd_conv)+

section \<open>The start of the system\<close>

text \<open>While the contents are put in place nothing is mounted or open, and the root stays a directory outside of all
  others.\<close>

definition pop_ok :: "nat \<Rightarrow> fs \<Rightarrow> bool" where
  "pop_ok root F \<longleftrightarrow> sys_ok F {#} \<and> mounts F = [] \<and> is_directory F root \<and> (\<forall>q. \<not> edge F q root)"

lemma entry_or_insert_child:
  "name \<noteq> [] \<Longrightarrow> entry_or_insert F root parent name mk = (case insert_child F root parent name mk of Inl _ \<Rightarrow> F | Inr G \<Rightarrow> G)"
  by (auto simp: entry_or_insert_def insert_child_def split: sum.splits option.splits node_kind.splits prod.splits)

lemma insert_child_pop:
  assumes ok: "pop_ok r F" and ins: "insert_child F root rel leaf mk = Inr G" and mk: "makes_node mk" and leaf: "name_ok leaf"
  shows "pop_ok r G"
  using ins
proof (rule insert_childE)
  fix p ch i m F'
  assume p: "kind_of F p = Some (Dir ch i)" and new: "map_of ch leaf = None" "mk F = (m, F')"
    and G: "G = set_kind p (Dir (child_insert leaf m ch) i) F'"
  have fs: "fs_ok F" and op: "opens_ok F {#}" and r: "is_directory F r" "\<And>q. \<not> edge F q r" and ms: "mounts F = []"
    using ok by (simp_all add: pop_ok_def sys_ok_def)
  obtain mode kd where k: "mk = new_node mode kd" "mode = kind_bit kd" "\<forall>ch i. kd = Dir ch i \<longrightarrow> ch = []"
    using mk by (auto simp: makes_node_def)
  note node = fs_ok_new_node [OF fs new(2) [unfolded k(1)] k(2,3)]
  have ne: "p \<noteq> m" "r \<noteq> m" using p r(1) node(2) by (auto simp: kind_of_def is_directory_def)
  have same: "q \<noteq> m \<Longrightarrow> kind_of F' q = kind_of F q" for q using node(6) [of q] by (simp add: kind_of_def)
  have "edge F' q r \<Longrightarrow> edge F q r" for q
    using same [of q] k(3) node(3) by (cases "q = m") (auto simp: edge_def dir_children_def split: node_kind.splits)
  moreover have "edge F p r" if "r \<in> snd ` set ch"
    using that p by (simp add: edge_def dir_children_def)
  ultimately have "\<not> edge G q r" for q
    using r(2) ne p same [of p] new(1) by (cases "q = p") (auto simp: G edge_def children_set_kind set_child_insert)
  moreover have "is_directory G r"
    using r(1) ne p same [of r] same [of p] by (auto simp: G is_directory_def)
  ultimately show ?thesis
    using fs_ok_insert_child [OF fs ins mk leaf] opens_insert_child [OF fs op ins mk] ms node(7)
    by (simp add: pop_ok_def sys_ok_def G)
qed

lemma entry_or_insert_pop: "pop_ok r F \<Longrightarrow> makes_node mk \<Longrightarrow> name_ok name \<Longrightarrow> pop_ok r (entry_or_insert F root parent name mk)"
  using insert_child_pop [of r F root parent name mk]
  by (subst entry_or_insert_child) (auto simp: name_ok_def split: sum.split)

lemma ensure_dirs_pop: "list_all name_ok cs \<Longrightarrow> pop_ok r F \<Longrightarrow> pop_ok r (ensure_dirs root (rebuild_path cs) F)"
proof (induction cs arbitrary: F rule: rev_induct)
  case Nil
  then show ?case by (simp add: rebuild_path_def ensure_dirs.simps)
next
  case (snoc c cs)
  have c: "name_ok c" "c \<noteq> []" using snoc.prems by (simp_all add: name_ok_def)
  have "rebuild_path (cs @ [c]) \<noteq> [slash]" "rebuild_path (cs @ [c]) \<noteq> []"
    using c by (auto simp: rebuild_path_snoc append_eq_Cons_conv)
  then show ?case
    using snoc c split_parent_rebuild [OF snoc.prems(1)]
    by (subst ensure_dirs.simps) (simp add: entry_or_insert_pop)
qed

lemma populate_with_pop: "pop_ok r F \<Longrightarrow> (\<And>n x. makes_node (mk n x)) \<Longrightarrow> pop_ok r (populate_with root mk entry F)"
proof (cases "norm_comps (fst entry) = []")
  case False
  assume ok: "pop_ok r F" and mk: "\<And>n x. makes_node (mk n x)"
  let ?cs = "norm_comps (fst entry)"
  have names: "list_all name_ok (butlast ?cs @ [last ?cs])"
    using normalize_path_comps(2) [of "fst entry"] False by simp
  have "split_parent (normalize_path (fst entry)) = (rebuild_path (butlast ?cs), last ?cs)"
    using split_parent_rebuild [OF names] False by (simp add: normalize_path_comps(1))
  then show ?thesis
    using ok mk names by (simp add: populate_with_def entry_or_insert_pop ensure_dirs_pop)
qed (simp add: populate_with_def normalize_path_comps(1) rebuild_path_def split_parent_def)

lemma fold_pop: "(\<And>x F. pop_ok r F \<Longrightarrow> pop_ok r (g x F)) \<Longrightarrow> pop_ok r F \<Longrightarrow> pop_ok r (fold g xs F)"
  by (induction xs arbitrary: F) simp_all

lemma populate_pop: "pop_ok r F \<Longrightarrow> pop_ok r (populate root fls links F)"
  unfolding populate_def by (intro fold_pop populate_with_pop makes_node_simps)

text \<open>The system starts, with the root open.\<close>

lemma fs_init_ok: "\<exists>f F. fs_init fls links = Some (f, F) \<and> sys_ok F {#inst_chain f#}"
proof -
  have empty: "sys_ok empty_fs {#}"
    by (simp add: sys_ok_def fs_ok_def opens_ok_def empty_fs_def children_ok_def dir_children_def kind_of_def edge_def)
  obtain root F1 where new: "vfs_new empty_fs = (root, F1)" by (cases "vfs_new empty_fs")
  have "mounts F1 = []" using new by (auto simp: vfs_new_def new_dir_def new_node_def empty_fs_def)
  then have "pop_ok root F1" using vfs_new_ok [OF empty new] by (simp add: pop_ok_def)
  then have pop: "pop_ok root (populate root fls links F1)" (is "pop_ok root ?F") by (rule populate_pop)
  have norm: "normalize_path [slash] = [slash]" "path_comps [slash] = []" "abs_path [] [slash] = [slash]"
    by (simp_all add: normalize_path_def push_part_def rebuild_path_def path_comps_def abs_path_def)
  let ?G = "?F\<lparr>mounts := [([slash], root)]\<rparr>"
  have mounted: "fs_mount ?F [] [slash] root = Inr ?G"
    using pop by (simp add: pop_ok_def fs_mount_def validate_mount_point_def norm)
  have G: "sys_ok ?G {#}" using pop by (intro fs_mount_ok [OF _ mounted]) (auto simp: pop_ok_def)
  obtain ch i where dir: "kind_of ?G root = Some (Dir ch i)" using pop by (auto simp: pop_ok_def is_directory_def)
  then obtain v where v: "nodes ?G root = Some v" by (auto simp: kind_of_def)
  have "lookup_mp (mounts ?G) [slash] = Some (root, [slash], [slash])"
    by (simp add: lookup_mp_def better_mount_def under_mount_def)
  then have "resolve ?G [] [slash] True =
      Inr \<lparr>res_root = root, res_mount = [slash], res_rel = [slash], res_attrs = node_attrs v, res_target = None\<rparr>"
    using v by (simp add: resolve_def norm probe_def)
  then obtain f F where "fs_open ?G [] [slash] = Inr (f, F)"
    using dir by (simp add: fs_open_def open_at_def norm)
  then show ?thesis
    using fs_open_ok [OF G] new mounted by (auto simp: fs_init_def)
qed

lemma table_devices: "table_chains (map (\<lambda>inh. Some \<lparr>handle_info = DeviceHandle, is_inheritable = inh\<rparr>) devs) = {#}"
  by (induction devs) simp_all

lemma first_process_ok: "sys_ok F {#inst_chain f#} \<Longrightarrow> proc_ok (first_process devs d (f, F))"
  by (simp add: proc_ok_def first_process_def open_chains_def table_devices)

lemma reachable_ok:
  assumes "fs_init fls links = Some r" "(syscall D)\<^sup>*\<^sup>* (first_process devs d r) P"
  shows "proc_ok P"
  using assms(2)
proof (induction rule: rtranclp_induct)
  case base
  then show ?case using fs_init_ok [of fls links] assms(1) first_process_ok by fastforce
qed (rule syscall_ok)

text \<open>A chain is a path of names.\<close>

lemma chain_walk: "fs_ok F \<Longrightarrow> successively (edge F) (r # ns) \<Longrightarrow> \<exists>names. walk F r names = Inr (last (r # ns))"
proof (induction ns arbitrary: r)
  case Nil
  then show ?case by (intro exI [of _ "[]"]) simp
next
  case (Cons m ns)
  then obtain names where names: "walk F m names = Inr (last (m # ns))" by auto
  obtain x where x: "(x, m) \<in> set (dir_children F r)" using Cons.prems(2) by (auto simp: edge_def)
  then have "map_of (dir_children F r) x = Some m"
    using children_ok_map_of [OF fs_ok_children [OF Cons.prems(1), of r]] by simp
  moreover obtain ch i where "kind_of F r = Some (Dir ch i)"
    using Cons.prems(2) edge_dir [of F r m] by (auto simp: is_directory_def)
  ultimately show ?case using names by (intro exI [of _ "x # names"]) (simp add: dir_children_def)
qed

lemma opens_reachable:
  assumes "sys_ok F C" "inst_chain f \<in># C"
  shows "\<exists>r names. r \<in> snd ` set (mounts F) \<and> walk F r names = Inr (inst_node f)"
proof -
  have ok: "chain_ok F (inst_chain f)" "fs_ok F" using assms by (simp_all add: sys_ok_def opens_ok_def)
  then obtain r ns where c: "inst_chain f = r # ns" by (cases "inst_chain f") (auto simp: inst_chain_def)
  have "last (r # ns) = inst_node f" using c by (metis inst_chain_def last_snoc)
  then show ?thesis using ok chain_walk [of F r ns] by (auto simp: c chain_ok_def)
qed

lemma handle_chain: "get_handle P h = Some (FileHandle f) \<Longrightarrow> inst_chain f \<in># open_chains P"
proof -
  assume "get_handle P h = Some (FileHandle f)"
  then obtain e where "nat h < length (handle_table P)" "handle_table P ! nat h = Some e" "handle_info e = FileHandle f"
    by (blast dest: get_handle_entry)
  then show ?thesis
    using table_chains_update [of "nat h" "handle_table P" None] by (simp add: open_chains_def) (metis union_single_eq_member)
qed

section \<open>Every state that is reached\<close>

text \<open>C10. The system starts, whatever the boot image contains, and after any sequence of system calls the file system
  is well formed: nodes have the mode of their kind, the entries of a directory are ordered, with proper names and
  existing nodes, no node has two places, and the roots of the mounts are directories outside of all others.\<close>

theorem fs_well_formed:
  "\<exists>r. fs_init fls links = Some r \<and> (\<forall>P. (syscall D)\<^sup>*\<^sup>* (first_process devs d r) P \<longrightarrow> fs_ok (pfs P))"
proof -
  obtain r where r: "fs_init fls links = Some r" using fs_init_ok by blast
  then show ?thesis using reachable_ok [OF r, of D devs d] by (auto simp: proc_ok_def sys_ok_def)
qed

text \<open>A driver that takes everything and has nothing to read, and a small boot image.\<close>

definition sink_driver :: "unit driver" where
  "sink_driver = \<lparr>drv_open = (\<lambda>d name flags. (None, d)), drv_read = (\<lambda>d n. (Inr (True, []), d)), drv_write = (\<lambda>d bs. (Inr (True, length bs), d))\<rparr>"

definition demo_image :: "(string \<times> byte list) list" where
  "demo_image = [(''/d/a'', ''1''), (''/d/b'', ''2''), (''/d/c'', ''3'')]"

definition demo :: "unit proc_fs" where
  "demo = first_process [True] () (the (fs_init demo_image []))"

lemma demo_init: "fs_init demo_image [] = Some (the (fs_init demo_image []))"
  using fs_init_ok [of demo_image "[]"] by auto

theorem fs_well_formed_witness:
  "fst (h_mkdir demo ''/d/e'') = E_SUCCESS \<and> fs_ok (pfs (snd (h_mkdir demo ''/d/e'')))"
proof
  have "(syscall sink_driver)\<^sup>*\<^sup>* demo (snd (h_mkdir demo ''/d/e''))"
    by (metis call_mkdir prod.collapse r_into_rtranclp)
  then show "fs_ok (pfs (snd (h_mkdir demo ''/d/e'')))"
    using fs_well_formed [of demo_image "[]" sink_driver "[True]" "()"] demo_init by (auto simp: demo_def)
qed code_simp

text \<open>C9. A file that is open, or the current directory, is never taken away: after any sequence of system calls, among
  them deletions, renamings and unmounts, some path of names leads from the root of a mount to its node.\<close>

theorem open_files_in_place:
  assumes "fs_init fls links = Some r" "(syscall D)\<^sup>*\<^sup>* (first_process devs d r) P"
    and "get_handle P h = Some (FileHandle f) \<or> f = proc_cwd P"
  shows "\<exists>root names. root \<in> snd ` set (mounts (pfs P)) \<and> walk (pfs P) root names = Inr (inst_node f)"
proof -
  have "inst_chain f \<in># open_chains P" using assms(3) handle_chain by (auto simp: open_chains_def)
  then show ?thesis using opens_reachable reachable_ok [OF assms(1,2)] by (auto simp: proc_ok_def)
qed

text \<open>A process that has opened a file and tries to delete it.\<close>

definition demo_open :: "unit proc_fs" where
  "demo_open = snd (h_delete (snd (h_open sink_driver demo ''fs'' ''/d/a'' 0)) ''/d/a'')"

theorem open_files_in_place_witness:
  "\<exists>f root names. get_handle demo_open 1 = Some (FileHandle f) \<and> walk (pfs demo_open) root names = Inr (inst_node f)"
proof -
  let ?P = "snd (h_open sink_driver demo ''fs'' ''/d/a'' 0)"
  have reach: "(syscall sink_driver)\<^sup>*\<^sup>* demo demo_open"
    unfolding demo_open_def
    by (metis call_open call_delete prod.collapse converse_rtranclp_into_rtranclp rtranclp.rtrancl_refl)
  have "case get_handle demo_open 1 of Some (FileHandle f) \<Rightarrow> True | _ \<Rightarrow> False" by code_simp
  then obtain f where f: "get_handle demo_open 1 = Some (FileHandle f)" by (auto split: option.splits handle.splits)
  then show ?thesis
    using open_files_in_place [OF demo_init reach [unfolded demo_def], of 1 f] by auto
qed

end
