(* ===== verification/Fs_Rename.thy ===== *)
theory Fs_Rename
  imports Fs_Calls
begin

text \<open>
  Renaming a directory into itself. \<open>rename_in\<close> does not compare the directory that is moved with the place that it is
  moved to: it waits for its own lock when the place is the directory itself, and cuts the directory off when the place
  is further down.
\<close>

lemma walk_append: "walk F cur (cs @ ds) = (case walk F cur cs of Inl e \<Rightarrow> Inl e | Inr m \<Rightarrow> walk F m ds)"
  by (induction F cur cs rule: walk.induct) (auto split: option.splits node_kind.splits)

lemma walk_snocD:
  assumes "walk F cur (cs @ [c]) = Inr m"
  obtains q where "walk F cur cs = Inr q" "edge F q m"
proof (cases "walk F cur cs")
  case (Inr q)
  then have "walk F q [c] = Inr m" using assms by (simp add: walk_append)
  then have "edge F q m"
    by (auto simp: edge_def dir_children_def image_iff dest: map_of_SomeD split: option.splits node_kind.splits)
  then show thesis using Inr that by blast
qed (use assms in \<open>simp add: walk_append\<close>)

text \<open>A set of nodes each of which has a parent in it is out of reach of the roots.\<close>

lemma closed_unreachable:
  assumes ok: "fs_ok F" and root: "root \<in> snd ` set (mounts F)"
    and closed: "\<And>s. s \<in> S \<Longrightarrow> \<exists>q \<in> S. edge F q s"
  shows "walk F root cs = Inr s \<Longrightarrow> s \<notin> S"
proof (induction cs arbitrary: s rule: rev_induct)
  case Nil
  then show ?case using closed [of root] fs_ok_root [OF ok root] by auto
next
  case (snoc c cs)
  obtain q where q: "walk F root cs = Inr q" "edge F q s" using walk_snocD [OF snoc.prems] .
  then show ?case using snoc.IH [OF q(1)] closed [of s] fs_ok_parent [OF ok q(2)] by blast
qed

lemma no_self_child: "fs_ok F \<Longrightarrow> root \<in> snd ` set (mounts F) \<Longrightarrow> walk F root cs = Inr m \<Longrightarrow> \<not> edge F m m"
  using closed_unreachable [of F root "{m}" cs m] by auto

lemma rename_in_None:
  assumes ok: "fs_ok F" and root: "root \<in> snd ` set (mounts F)"
  shows "rename_in F root frel fname trel tname = None \<longleftrightarrow> fname \<noteq> [] \<and> tname \<noteq> [] \<and>
    (\<exists>n. walk F root (path_comps frel @ [fname]) = Inr n \<and> raw_get F root trel = Inr n \<and> is_directory F n)"
    (is "_ \<longleftrightarrow> ?R")
proof (cases "raw_get F root frel")
  case (Inr fp)
  then have fp: "walk F root (path_comps frel) = Inr fp" by (simp add: raw_get_def)
  have self: "map_of ch fname = Some fp \<Longrightarrow> kind_of F fp = Some (Dir ch i) \<Longrightarrow> False" for ch i
    using no_self_child [OF ok root fp] by (force simp: edge_def dir_children_def dest: map_of_SomeD)
  show ?thesis
    using Inr fp self
    by (auto simp: rename_in_def walk_append is_directory_def
        split: sum.splits option.splits node_kind.splits if_splits)
qed (auto simp: rename_in_def raw_get_def walk_append)

text \<open>The nodes on the way down from a directory.\<close>

fun on_way :: "fs \<Rightarrow> nat \<Rightarrow> string list \<Rightarrow> nat set" where
  "on_way F n [] = {n}"
| "on_way F n (c # cs) = insert n (case map_of (dir_children F n) c of None \<Rightarrow> {} | Some m \<Rightarrow> on_way F m cs)"

lemma on_way_start: "n \<in> on_way F n cs"
  by (cases cs) simp_all

lemma walk_on_way: "walk F n cs = Inr t \<Longrightarrow> t \<in> on_way F n cs"
  by (induction F n cs rule: walk.induct) (auto simp: dir_children_def split: option.splits node_kind.splits)

lemma on_way_parent: "s \<in> on_way F n cs \<Longrightarrow> s = n \<or> (\<exists>q \<in> on_way F n cs. edge F q s)"
proof (induction F n cs rule: on_way.induct)
  case (2 F n c cs)
  show ?case
  proof (cases "map_of (dir_children F n) c")
    case (Some m)
    then have "edge F n m" by (force simp: edge_def dest: map_of_SomeD)
    then show ?thesis using 2 Some by auto
  qed (use 2 in simp)
qed simp

lemma rename_cuts_off:
  assumes ok: "fs_ok F" and root: "root \<in> snd ` set (mounts F)" and name: "name_ok tname"
    and n: "walk F root (path_comps frel @ [fname]) = Inr n" and into: "path_comps trel = path_comps frel @ fname # rest"
    and r: "rename_in F root frel fname trel tname = Some (Inr G)"
  shows "walk G root cs \<noteq> Inr n"
  using r
proof (rule rename_inE)
  fix p ch i m q dh j F1
  assume raw: "raw_get F root frel = Inr p" "raw_get F root trel = Inr q"
    and p: "kind_of F p = Some (Dir ch i)" "map_of ch fname = Some m"
    and F1: "F1 = set_kind p (Dir (child_remove fname ch) i) F"
    and q: "kind_of F1 q = Some (Dir dh j)" "map_of dh tname = None" and G: "G = set_kind q (Dir (child_insert tname m dh) j) F1"
  have m: "m = n" using n raw(1) p by (simp add: walk_append raw_get_def)
  have "walk F n rest = Inr q"
    using raw(2) n walk_append [of F root "path_comps frel @ [fname]" rest] by (simp add: raw_get_def into)
  then have S: "q \<in> on_way F n rest" by (rule walk_on_way)
  have top: "edge G q n" using q by (simp add: G m edge_def children_set_kind set_child_insert)
  have keep1: "edge F1 a s" if "edge F a s" "s \<noteq> n" for a s
  proof (cases "a = p")
    case True
    then have "s \<in> snd ` set ch" using that(1) p(1) by (simp add: edge_def dir_children_def)
    then obtain y where "(y, s) \<in> set ch" by auto
    moreover have "y \<noteq> fname" using that(2) m p fs_ok_children [OF ok, of p] children_ok_map_of [of F ch y s] calculation
      by (auto simp: dir_children_def)
    ultimately show ?thesis using True p(1) by (force simp: F1 edge_def children_set_kind set_child_remove)
  qed (use that p(1) in \<open>simp add: F1 edge_def children_set_kind\<close>)
  have keep: "edge G a s" if "edge F1 a s" for a s
    using that q by (cases "a = q") (auto simp: G edge_def children_set_kind set_child_insert dir_children_def)
  have "\<exists>a \<in> on_way F n rest. edge G a s" if "s \<in> on_way F n rest" for s
    using that S top on_way_parent [OF that] keep keep1 by (cases "s = n") blast+
  then show ?thesis
    using closed_unreachable [OF fs_ok_rename_in [OF ok r name], of root "on_way F n rest" cs n] root on_way_start
    by (auto simp: G F1)
qed

text \<open>C40. Renaming a directory into itself is not refused. The kernel waits forever for a lock that it holds exactly when
  the new parent is the directory that is moved; when the new parent lies below that directory, the renaming
  succeeds and no path from the root leads to the directory any more.\<close>

theorem rename_into_itself:
  assumes "fs_ok F" "root \<in> snd ` set (mounts F)" "name_ok tname"
  shows "(rename_in F root frel fname trel tname = None \<longleftrightarrow> fname \<noteq> [] \<and>
      (\<exists>n. walk F root (path_comps frel @ [fname]) = Inr n \<and> raw_get F root trel = Inr n \<and> is_directory F n)) \<and>
    (walk F root (path_comps frel @ [fname]) = Inr n \<longrightarrow> path_comps trel = path_comps frel @ fname # rest \<longrightarrow>
      rename_in F root frel fname trel tname = Some (Inr G) \<longrightarrow> (\<forall>cs. walk G root cs \<noteq> Inr n))"
  using rename_in_None [OF assms(1,2)] rename_cuts_off [OF assms] assms(3) by (auto simp: name_ok_def)

text \<open>A directory with a directory in it.\<close>

definition demo_nested :: fs where
  "demo_nested = pfs (snd (h_mkdir (snd (h_mkdir demo ''/d/e'')) ''/d/e/f''))"

lemma demo_nested_ok: "fs_ok demo_nested"
proof -
  have "(syscall sink_driver)\<^sup>*\<^sup>* demo (snd (h_mkdir (snd (h_mkdir demo ''/d/e'')) ''/d/e/f''))"
    by (metis call_mkdir prod.collapse converse_rtranclp_into_rtranclp rtranclp.rtrancl_refl)
  then show ?thesis
    using reachable_ok [OF demo_init, of sink_driver "[True]" "()"]
    by (simp add: demo_nested_def demo_def proc_ok_def sys_ok_def)
qed

definition demo_cut :: fs where
  "demo_cut = (case rename_in demo_nested 0 ''/d'' ''e'' ''/d/e/f'' ''g'' of Some (Inr G) \<Rightarrow> G | _ \<Rightarrow> demo_nested)"

definition nested_facts :: "fs \<Rightarrow> bool" where
  "nested_facts F \<longleftrightarrow> list_ex (\<lambda>(_, r). r = 0) (mounts F) \<and>
     (case walk F 0 [''d'', ''e''] of Inr n \<Rightarrow> (case kind_of F n of Some (Dir _ _) \<Rightarrow> True | _ \<Rightarrow> False) | Inl _ \<Rightarrow> False) \<and>
     (case rename_in F 0 ''/d'' ''e'' ''/d/e/f'' ''g'' of Some (Inr G) \<Rightarrow> True | _ \<Rightarrow> False)"

theorem rename_into_itself_witness:
  "rename_in demo_nested 0 ''/d'' ''e'' ''/d/e'' ''g'' = None \<and>
   (case walk demo_nested 0 [''d'', ''e''] of Inr n \<Rightarrow> \<nexists>cs. walk demo_cut 0 cs = Inr n | Inl _ \<Rightarrow> False)"
proof -
  have facts: "nested_facts demo_nested" by code_simp
  then have root: "0 \<in> snd ` set (mounts demo_nested)" by (force simp: nested_facts_def list_ex_iff)
  have g: "name_ok ''g''" by code_simp
  note cut = rename_into_itself [OF demo_nested_ok root g]
  obtain n where n: "walk demo_nested 0 [''d'', ''e''] = Inr n" "is_directory demo_nested n"
    using facts unfolding nested_facts_def is_directory_def
    by (cases "walk demo_nested 0 [''d'', ''e'']") (auto simp del: walk.simps split: option.splits node_kind.splits)
  have comps: "path_comps ''/d'' = [''d'']" "path_comps ''/d/e'' = [''d'', ''e'']"
    "path_comps ''/d/e/f'' = [''d'', ''e'', ''f'']"
    by code_simp+
  have "rename_in demo_nested 0 ''/d'' ''e'' ''/d/e/f'' ''g'' = Some (Inr demo_cut)"
    using facts unfolding nested_facts_def demo_cut_def by (auto simp del: walk.simps split: option.splits sum.splits)
  then have "walk demo_cut 0 cs \<noteq> Inr n" for cs
    using cut [of "''/d''" "''e''" "''/d/e/f''" n "[''f'']" demo_cut] n(1) comps by (simp del: walk.simps)
  moreover have "rename_in demo_nested 0 ''/d'' ''e'' ''/d/e'' ''g'' = None"
    using cut [of "''/d''" "''e''" "''/d/e''"] n comps by (simp add: raw_get_def del: walk.simps)
  ultimately show ?thesis using n(1) by (simp del: walk.simps)
qed

end
