(* ===== verification/Rm.thy ===== *)
theory Rm
  imports Lines Getopt
begin

text \<open>
  \<open>userspace/rm.c\<close> and \<open>userspace/mkdir.c\<close>: removing files and directories, and making directories.
\<close>

section \<open>rm\<close>

definition rm_print_help :: "'k kernel \<Rightarrow> 'k world \<Rightarrow> (unit \<times> 'k world) option" where
  "rm_print_help K w = printf_all K [
     ''Usage: rm [-f] [-r] [-v] [-h] FILE...\<newline>'',
     ''Remove (unlink) each FILE. Directories require -r.\<newline>\<newline>'',
     ''  -f, --force       ignore nonexistent files, never prompt\<newline>'',
     ''  -r, -R, --recursive   remove directories and their contents recursively\<newline>'',
     ''  -v, --verbose     print a message for each file removed\<newline>'',
     ''  -h, --help        display this help and exit\<newline>''] w"

definition join_path :: "nat \<Rightarrow> string \<Rightarrow> string \<Rightarrow> string option" where
  "join_path out_size dir name =
     (let need_slash = (dir \<noteq> [] \<and> last dir \<noteq> CHR ''/'')
      in snprintf_str out_size (if need_slash then ''%s/%s'' else ''%s%s'') [VStr (Some dir), VStr (Some name)])"

record rm_opts =
  rm_force :: bool
  rm_recursive :: bool
  rm_verbose :: bool

text \<open>The functions \<open>remove_path\<close> and \<open>remove_dir_contents\<close> call each other. A call is one of \<open>remove_path\<close>, or the loop
  of \<open>remove_dir_contents\<close> at an offset, with its handle and \<open>fail\<close>.\<close>

datatype rm_call = RemovePath string | RemoveLoop string int nat int

partial_function (option) rm_run :: "'k kernel \<Rightarrow> rm_opts \<Rightarrow> rm_call \<Rightarrow> 'k world \<Rightarrow> (int \<times> 'k world) option" where
  "rm_run K opts c w =
     (case c of
        RemovePath path \<Rightarrow>
          (let (rc, st, k) = sys_stat K (kern w) path 0; w1 = w\<lparr>kern := k\<rparr>
           in if rc \<noteq> E_SUCCESS then
                if rm_force opts then Some (0, w1)
                else do {
                  (_, w2) \<leftarrow> fprintf K stderr ''rm: cannot remove '%s': No such file or directory\<newline>'' [VStr (Some path)] w1;
                  Some (1, w2)
                }
              else if is_dir_mode (st_mode st) \<and> \<not> rm_recursive opts then do {
                (_, w2) \<leftarrow> fprintf K stderr ''rm: cannot remove '%s': Is a directory\<newline>'' [VStr (Some path)] w1;
                Some (1, w2)
              } else do {
                (fail, w2) \<leftarrow>
                  (if is_dir_mode (st_mode st) then
                     let (h, k2) = sys_open K (kern w1) ''fs'' path 0; w2 = w1\<lparr>kern := k2\<rparr>
                     in if h < 0 then Some (if rm_force opts then 0 else 1, w2)
                        else rm_run K opts (RemoveLoop path h 0 0) w2
                   else Some (0, w1));
                let (rc2, k3) = sys_delete K (kern w2) path;
                let w3 = w2\<lparr>kern := k3\<rparr>;
                if rc2 \<noteq> E_SUCCESS then
                  if \<not> rm_force opts then do {
                    (_, w4) \<leftarrow> fprintf K stderr ''rm: cannot remove '%s'\<newline>'' [VStr (Some path)] w3;
                    Some (1, w4)
                  } else Some (fail, w3)
                else if rm_verbose opts then do {
                  (_, w4) \<leftarrow> printf K ''removed '%s'\<newline>'' [VStr (Some path)] w3;
                  Some (fail, w4)
                } else Some (fail, w3)
              })
      | RemoveLoop path h offset fail \<Rightarrow>
          (let (rc, name, k) = sys_readdir K (kern w) h offset PATH_MAX; w1 = w\<lparr>kern := k\<rparr>
           in if rc = E_NO_DIR_ENTRIES then Some (fail, w1\<lparr>kern := snd (sys_close K (kern w1) h)\<rparr>)
              else if rc \<noteq> E_SUCCESS then Some (1, w1\<lparr>kern := snd (sys_close K (kern w1) h)\<rparr>)
              else if name = ''.'' \<or> name = ''..'' then rm_run K opts (RemoveLoop path h (offset + 1) fail) w1
              else do {
                child \<leftarrow> join_path PATH_MAX path name;
                (r, w2) \<leftarrow> rm_run K opts (RemovePath child) w1;
                rm_run K opts (RemoveLoop path h (offset + 1) (or fail r)) w2
              }))"

declare rm_run.simps [code]

definition remove_path :: "'k kernel \<Rightarrow> rm_opts \<Rightarrow> string \<Rightarrow> 'k world \<Rightarrow> (int \<times> 'k world) option" where
  "remove_path K opts path w = rm_run K opts (RemovePath path) w"

definition rm_long_opts :: "long_option list" where
  "rm_long_opts = map (\<lambda>(n, c). \<lparr>opt_name = n, has_arg = no_argument, opt_flag = None, opt_val = uchar c\<rparr>)
     [(''help'', CHR ''h''), (''force'', CHR ''f''), (''recursive'', CHR ''r''), (''verbose'', CHR ''v'')]"

definition rm_option :: "'k kernel \<Rightarrow> int \<Rightarrow> string option \<Rightarrow> rm_opts \<Rightarrow> 'k world \<Rightarrow>
    (int option \<times> rm_opts \<times> 'k world) option" where
  "rm_option K opt arg opts w =
     (if opt = uchar (CHR ''f'') then Some (None, opts\<lparr>rm_force := True\<rparr>, w)
      else if opt = uchar (CHR ''r'') \<or> opt = uchar (CHR ''R'') then Some (None, opts\<lparr>rm_recursive := True\<rparr>, w)
      else if opt = uchar (CHR ''v'') then Some (None, opts\<lparr>rm_verbose := True\<rparr>, w)
      else if opt = uchar (CHR ''h'') then do { (_, w') \<leftarrow> rm_print_help K w; Some (Some 0, opts, w') }
      else Some (Some 1, opts, w))"

fun rm_files :: "'k kernel \<Rightarrow> rm_opts \<Rightarrow> string list \<Rightarrow> int \<Rightarrow> 'k world \<Rightarrow> (int \<times> 'k world) option" where
  "rm_files K opts [] fail w = Some (fail, w)"
| "rm_files K opts (path # paths) fail w = do {
     (r, w1) \<leftarrow> remove_path K opts path w;
     rm_files K opts paths (or fail r) w1
   }"

definition rm_main :: "'k kernel \<Rightarrow> string list \<Rightarrow> 'k world \<Rightarrow> (int \<times> 'k world) option" where
  "rm_main K argv w = do {
     (ret, opts, g, w1) \<leftarrow> getopt_loop (getopt_long K argv ''frRvh'' rm_long_opts) (rm_option K)
       \<lparr>rm_force = False, rm_recursive = False, rm_verbose = False\<rparr> getopt_init w;
     case ret of
       Some r \<Rightarrow> Some (r, w1)
     | None \<Rightarrow>
         if optind g \<ge> length argv then
           if rm_force opts then Some (0, w1)
           else do { (_, w2) \<leftarrow> fprintf K stderr ''rm: missing operand\<newline>'' [] w1; Some (1, w2) }
         else do {
           (fail, w2) \<leftarrow> rm_files K opts (drop (optind g) argv) 0 w1;
           Some (if fail \<noteq> 0 then 1 else 0, w2)
         }
   }"

section \<open>mkdir\<close>

definition mkdir_print_help :: "'k kernel \<Rightarrow> 'k world \<Rightarrow> (unit \<times> 'k world) option" where
  "mkdir_print_help K w = printf_all K [
     ''Usage: mkdir [-p] [-v] [-h] DIRECTORY...\<newline>'',
     ''Create the DIRECTORY(ies), if they do not already exist.\<newline>\<newline>'',
     ''  -p, --parents   make parent directories as needed, no error if existing\<newline>'',
     ''  -v, --verbose   print a message for each created directory\<newline>'',
     ''  -h, --help      display this help and exit\<newline>''] w"

text \<open>One directory of \<open>mkdir -p\<close>: whether it failed.\<close>

definition mkdir_one :: "'k kernel \<Rightarrow> bool \<Rightarrow> string \<Rightarrow> 'k world \<Rightarrow> (bool \<times> 'k world) option" where
  "mkdir_one K verbose buf w =
     (let (rc, k) = sys_mkdir K (kern w) buf; w1 = w\<lparr>kern := k\<rparr>
      in if rc \<noteq> E_SUCCESS \<and> rc \<noteq> E_FILE_EXISTS then do {
           (_, w2) \<leftarrow> fprintf K stderr ''mkdir: cannot create directory '%s'\<newline>'' [VStr (Some buf)] w1;
           Some (True, w2)
         } else if verbose \<and> rc = E_SUCCESS then do {
           (_, w2) \<leftarrow> printf K ''mkdir: created directory '%s'\<newline>'' [VStr (Some buf)] w1;
           Some (False, w2)
         } else Some (False, w1))"

text \<open>The loop over the characters of the buffer: the text in front of each slash, but for the first character.\<close>

fun mkdir_prefixes :: "'k kernel \<Rightarrow> bool \<Rightarrow> string \<Rightarrow> string \<Rightarrow> 'k world \<Rightarrow> (bool \<times> 'k world) option" where
  "mkdir_prefixes K verbose seen [] w = Some (False, w)"
| "mkdir_prefixes K verbose seen (c # cs) w =
     (if c \<noteq> CHR ''/'' then mkdir_prefixes K verbose (seen @ [c]) cs w
      else do {
        (bad, w1) \<leftarrow> mkdir_one K verbose seen w;
        if bad then Some (True, w1) else mkdir_prefixes K verbose (seen @ [c]) cs w1
      })"

text \<open>Trailing slashes are cut off, but not the first character.\<close>

definition cut_slashes :: "string \<Rightarrow> string" where
  "cut_slashes buf = (case buf of [] \<Rightarrow> [] | c # cs \<Rightarrow> c # rev (dropWhile (\<lambda>d. d = CHR ''/'') (rev cs)))"

definition mkdir_p :: "'k kernel \<Rightarrow> string \<Rightarrow> bool \<Rightarrow> 'k world \<Rightarrow> (int \<times> 'k world) option" where
  "mkdir_p K path verbose w = do {
     let buf = cut_slashes (take (PATH_MAX - 1) path);
     (bad, w1) \<leftarrow> mkdir_prefixes K verbose (take 1 buf) (drop 1 buf) w;
     if bad then Some (1, w1)
     else do {
       (bad2, w2) \<leftarrow> mkdir_one K verbose buf w1;
       Some (if bad2 then 1 else 0, w2)
     }
   }"

record mkdir_opts =
  mk_parents :: bool
  mk_verbose :: bool

definition mkdir_long_opts :: "long_option list" where
  "mkdir_long_opts = map (\<lambda>(n, c). \<lparr>opt_name = n, has_arg = no_argument, opt_flag = None, opt_val = uchar c\<rparr>)
     [(''help'', CHR ''h''), (''parents'', CHR ''p''), (''verbose'', CHR ''v'')]"

definition mkdir_option :: "'k kernel \<Rightarrow> int \<Rightarrow> string option \<Rightarrow> mkdir_opts \<Rightarrow> 'k world \<Rightarrow>
    (int option \<times> mkdir_opts \<times> 'k world) option" where
  "mkdir_option K opt arg opts w =
     (if opt = uchar (CHR ''p'') then Some (None, opts\<lparr>mk_parents := True\<rparr>, w)
      else if opt = uchar (CHR ''v'') then Some (None, opts\<lparr>mk_verbose := True\<rparr>, w)
      else if opt = uchar (CHR ''h'') then do { (_, w') \<leftarrow> mkdir_print_help K w; Some (Some 0, opts, w') }
      else Some (Some 1, opts, w))"

fun mkdir_dirs :: "'k kernel \<Rightarrow> mkdir_opts \<Rightarrow> string list \<Rightarrow> int \<Rightarrow> 'k world \<Rightarrow> (int \<times> 'k world) option" where
  "mkdir_dirs K opts [] fail w = Some (fail, w)"
| "mkdir_dirs K opts (path # paths) fail w =
     (if mk_parents opts then do {
        (r, w1) \<leftarrow> mkdir_p K path (mk_verbose opts) w;
        mkdir_dirs K opts paths (or fail r) w1
      } else
        let (rc, k) = sys_mkdir K (kern w) path; w1 = w\<lparr>kern := k\<rparr>
        in if rc \<noteq> E_SUCCESS then do {
             (_, w2) \<leftarrow> fprintf K stderr ''mkdir: cannot create directory '%s'\<newline>'' [VStr (Some path)] w1;
             mkdir_dirs K opts paths 1 w2
           } else do {
             (_, w2) \<leftarrow> (if mk_verbose opts then printf K ''mkdir: created directory '%s'\<newline>'' [VStr (Some path)] w1
                         else Some (0, w1));
             mkdir_dirs K opts paths fail w2
           })"

definition mkdir_main :: "'k kernel \<Rightarrow> string list \<Rightarrow> 'k world \<Rightarrow> (int \<times> 'k world) option" where
  "mkdir_main K argv w = do {
     (ret, opts, g, w1) \<leftarrow> getopt_loop (getopt_long K argv ''pvh'' mkdir_long_opts) (mkdir_option K)
       \<lparr>mk_parents = False, mk_verbose = False\<rparr> getopt_init w;
     case ret of
       Some r \<Rightarrow> Some (r, w1)
     | None \<Rightarrow>
         if optind g \<ge> length argv then do {
           (_, w2) \<leftarrow> fprintf K stderr ''mkdir: missing operand\<newline>'' [] w1; Some (1, w2)
         } else do {
           (fail, w2) \<leftarrow> mkdir_dirs K opts (drop (optind g) argv) 0 w1;
           Some (if fail \<noteq> 0 then 1 else 0, w2)
         }
   }"

end
