(* ===== verification/Rm_Props.thy ===== *)
theory Rm_Props
  imports Rm Fs_Rename
begin

text \<open>
  \<open>rm -rf\<close> on the file system in memory. The loop of \<open>remove_dir_contents\<close> goes to the next offset after it has deleted
  an entry, while \<open>readdir\<close> counts the entries that are there: it skips the entry behind each one that it deletes.
\<close>

section \<open>Paths without links\<close>

lemma split_on_names: "\<forall>c \<in> set cs. slash \<notin> set c \<Longrightarrow> split_on slash (concat (map ((#) slash) cs)) = [] # cs"
proof (induction cs)
  case (Cons c cs)
  show ?case
  proof (cases cs)
    case Nil
    then show ?thesis using Cons.prems by (simp add: split_on_plain)
  next
    case (Cons d ds)
    then have "split_on slash (c @ concat (map ((#) slash) cs)) = c # cs"
      using Cons.IH Cons.prems split_on_append [of slash c "d @ concat (map ((#) slash) ds)"] by simp
    then show ?thesis by simp
  qed
qed simp

lemma names_no_slash: "list_all name_ok cs \<Longrightarrow> \<forall>c \<in> set cs. slash \<notin> set c"
  by (auto simp: list_all_iff name_ok_def)

lemma path_comps_rebuild: "list_all name_ok cs \<Longrightarrow> path_comps (rebuild_path cs) = cs"
  using split_on_names [OF names_no_slash, of cs]
  by (auto simp: path_comps_def rebuild_path_def list_all_iff name_ok_def intro!: filter_True)

lemma fold_push_names: "list_all name_ok cs \<Longrightarrow> fold push_part cs parts = parts @ cs"
  by (induction cs arbitrary: parts) (simp_all add: push_part_def name_ok_def)

lemma normalize_rebuild: "list_all name_ok cs \<Longrightarrow> normalize_path (rebuild_path cs) = rebuild_path cs"
  using split_on_names [OF names_no_slash, of cs]
  by (auto simp: normalize_path_def rebuild_path_def fold_push_names push_part_def)

lemma abs_path_rebuild: "list_all name_ok cs \<Longrightarrow> abs_path cwd (rebuild_path cs) = rebuild_path cs"
  using normalize_rebuild [of cs] by (cases cs) (auto simp: abs_path_def rebuild_path_def)

lemma probe_loop_walk:
  "walk F cur cs = Inr n \<Longrightarrow> cs \<noteq> [] \<Longrightarrow> nodes F n = Some v \<Longrightarrow> \<not> is_link (vkind v) \<Longrightarrow>
   probe_loop F ff cur seen cs = Inr (Found (node_attrs v) None)"
proof (induction cs arbitrary: cur seen)
  case (Cons c cs)
  obtain ch i m where cur: "kind_of F cur = Some (Dir ch i)" "map_of ch c = Some m" and w: "walk F m cs = Inr n"
    using Cons.prems(1) by (auto split: option.splits node_kind.splits)
  show ?case
  proof (cases cs)
    case Nil
    then show ?thesis using cur w Cons.prems(3,4) by (auto split: node_kind.split)
  next
    case (Cons d ds)
    then obtain dh j where "kind_of F m = Some (Dir dh j)"
      using w by (auto split: option.splits node_kind.splits)
    then obtain u where "nodes F m = Some u" "vkind u = Dir dh j" by (auto simp: kind_of_def)
    then show ?thesis using cur Cons Cons.IH [OF w] Cons.prems(3,4) by simp
  qed
qed simp

text \<open>A directory on the only mount, at the end of names without links.\<close>

definition at_path :: "fs \<Rightarrow> nat \<Rightarrow> string list \<Rightarrow> nat \<Rightarrow> bool" where
  "at_path F root cs n \<longleftrightarrow> fs_ok F \<and> mounts F = [([slash], root)] \<and> list_all name_ok cs \<and> walk F root cs = Inr n"

lemma resolve_at_path:
  assumes "at_path F root cs n" "cs \<noteq> []" "nodes F n = Some v" "\<not> is_link (vkind v)"
  shows "resolve F cwd (rebuild_path cs) ff =
    Inr \<lparr>res_root = root, res_mount = [slash], res_rel = rebuild_path cs, res_attrs = node_attrs v, res_target = None\<rparr>"
proof -
  have "probe F root (rebuild_path cs) ff = Inr (Found (node_attrs v) None)"
    using assms probe_loop_walk [of F root cs n v ff "[]"]
    by (cases cs) (simp_all add: probe_def at_path_def path_comps_rebuild del: probe_loop.simps walk.simps)
  then show ?thesis
    using assms(1) by (simp add: resolve_def at_path_def abs_path_rebuild lookup_mp_def better_mount_def under_mount_def)
qed

text \<open>On the way to a node the node itself does not occur.\<close>

lemma walk_no_repeat:
  assumes "fs_ok F" "root \<in> snd ` set (mounts F)" "walk F root cs = Inr n" "walk F n ds = Inr n"
  shows "ds = []"
proof (rule ccontr)
  assume "ds \<noteq> []"
  then obtain es c where ds: "ds = es @ [c]" by (metis rev_exhaust)
  obtain q where q: "walk F n es = Inr q" "edge F q n" using walk_snocD [OF assms(4) [unfolded ds]] .
  have "\<exists>a \<in> on_way F n es. edge F a s" if "s \<in> on_way F n es" for s
    using on_way_parent [OF that] q walk_on_way [OF q(1)] by blast
  then show False
    using closed_unreachable [OF assms(1,2), of "on_way F n es" cs n] assms(3) on_way_start by blast
qed

lemma walk_set_kind:
  assumes "walk F cur cs = Inr n" "\<And>as bs. cs = as @ bs \<Longrightarrow> walk F cur as = Inr n \<Longrightarrow> bs = []"
  shows "walk (set_kind n kd F) cur cs = Inr n"
  using assms
proof (induction cs arbitrary: cur)
  case (Cons c cs)
  obtain ch i m where cur: "kind_of F cur = Some (Dir ch i)" "map_of ch c = Some m" and w: "walk F m cs = Inr n"
    using Cons.prems(1) by (auto split: option.splits node_kind.splits)
  have "cur \<noteq> n" using Cons.prems(2) [of "[]" "c # cs"] by auto
  moreover have "walk (set_kind n kd F) m cs = Inr n"
    using Cons.prems(2) [of "c # _"] cur by (intro Cons.IH [OF w]) auto
  ultimately show ?case using cur by simp
qed simp

lemma at_path_set_kind:
  assumes at: "at_path F root cs n" and ok: "fs_ok (set_kind n kd F)"
  shows "at_path (set_kind n kd F) root cs n"
proof -
  have "walk (set_kind n kd F) root cs = Inr n"
  proof (rule walk_set_kind)
    show w: "walk F root cs = Inr n" using at by (simp add: at_path_def)
    fix as bs assume "cs = as @ bs" "walk F root as = Inr n"
    then show "bs = []" using at w walk_no_repeat [of F root as n bs] by (simp add: at_path_def walk_append)
  qed
  then show ?thesis using at ok by (simp add: at_path_def)
qed

lemma walk_cong:
  assumes "\<And>n. dir_children G n = dir_children F n" "\<And>n. is_directory G n = is_directory F n"
  shows "walk G cur cs = walk F cur cs"
proof (induction cs arbitrary: cur)
  case (Cons c cs)
  show ?case
    using Cons assms [of cur]
    by (auto simp: dir_children_def is_directory_def split: option.splits node_kind.splits)
qed simp

lemma is_directory_fold_count [simp]: "is_directory (fold (count_node f) ns F) m = is_directory F m"
  by (cases "kind_of F m"; cases "the (kind_of F m)") (simp_all add: is_directory_def kind_fold_count)

lemma at_path_fold_count [simp]: "at_path F root cs n \<Longrightarrow> at_path (fold (count_node f) ns F) root cs n"
  using walk_cong [of "fold (count_node f) ns F" F] by (simp add: at_path_def fs_ok_fold_count)

section \<open>A directory of files\<close>

definition file_dir :: "fs \<Rightarrow> nat \<Rightarrow> string list \<Rightarrow> nat \<Rightarrow> (string \<times> nat) list \<Rightarrow> bool" where
  "file_dir F root cs n ch \<longleftrightarrow> at_path F root cs n \<and> cs \<noteq> [] \<and> (\<exists>k. kind_of F n = Some (Dir ch k)) \<and>
     (\<forall>(x, m) \<in> set ch. \<exists>bs. kind_of F m = Some (File bs 0))"

lemma file_dir_fold_count:
  assumes fd: "file_dir F root cs n ch" and dirs: "\<And>m. m \<in> set ns \<Longrightarrow> is_directory F m"
  shows "file_dir (fold (count_node f) ns F) root cs n ch"
proof -
  have "\<exists>bs. kind_of (fold (count_node f) ns F) m = Some (File bs 0)" if x: "(x, m) \<in> set ch" for x m
  proof -
    obtain bs where bs: "kind_of F m = Some (File bs 0)" using fd x by (fastforce simp: file_dir_def)
    then have "m \<notin> set ns" using dirs [of m] by (auto simp: is_directory_def)
    then show ?thesis using bs by (simp add: kind_fold_count count_notin)
  qed
  then show ?thesis using fd by (auto simp: file_dir_def kind_fold_count)
qed

lemma walk_has_ancestors:
  "walk F cur cs = Inr n \<Longrightarrow> \<exists>anc'. walk_ancestors F cur anc cs = Inr (n, anc') \<and> (\<forall>m \<in> set anc'. m \<in> set anc \<or> is_directory F m)"
proof (induction cs arbitrary: cur anc)
  case (Cons c cs)
  obtain ch i m where cur: "kind_of F cur = Some (Dir ch i)" "map_of ch c = Some m" and w: "walk F m cs = Inr n"
    using Cons.prems(1) by (auto split: option.splits node_kind.splits)
  have "is_directory F cur" using cur by (simp add: is_directory_def)
  then show ?case using Cons.IH [OF w, of "anc @ [cur]"] cur by fastforce
qed auto

text \<open>Opening such a directory.\<close>

lemma fs_open_dir:
  assumes fd: "file_dir F root cs n ch"
  obtains f G where "fs_open F cwd (rebuild_path cs) = Inr (f, G)" "inst_node f = n" "inst_dir f"
    "\<forall>m \<in> set (inst_anc f). is_directory F m" "file_dir G root cs n ch" "\<And>m. is_directory G m = is_directory F m"
proof -
  have at: "at_path F root cs n" and cs: "cs \<noteq> []" using fd by (simp_all add: file_dir_def)
  obtain k where k: "kind_of F n = Some (Dir ch k)" using fd by (auto simp: file_dir_def)
  then obtain v where v: "nodes F n = Some v" "vkind v = Dir ch k" by (auto simp: kind_of_def)
  note r = resolve_at_path [OF at cs v(1), of cwd True]
  obtain anc where anc: "walk_ancestors F root [] cs = Inr (n, anc)" "\<forall>m \<in> set anc. is_directory F m"
    using walk_has_ancestors [of F root cs n "[]"] at by (auto simp: at_path_def)
  let ?G = "fold (count_node Suc) (n # anc) F"
  have "open_at F root (rebuild_path cs) = Inr ((n, anc, True), ?G)"
    using anc k at by (simp add: open_at_def at_path_def path_comps_rebuild del: fold_simps)
  moreover have "file_dir ?G root cs n ch"
    using file_dir_fold_count [OF fd, of "n # anc"] anc(2) k by (auto simp: is_directory_def simp del: fold_simps)
  moreover define f where "f = \<lparr>inst_path = abs_path cwd (rebuild_path cs), inst_node = n, inst_anc = anc, inst_dir = True, inst_offset = 0\<rparr>"
  ultimately have "fs_open F cwd (rebuild_path cs) = Inr (f, ?G)" "file_dir ?G root cs n ch"
    using r v by (simp_all add: fs_open_def del: fold_simps)
  then show thesis
    using anc(2) by (intro that [of f ?G]) (simp_all only: f_def file_inst.simps is_directory_fold_count simp_thms)
qed

text \<open>Deleting a file in it.\<close>

lemma fs_delete_child:
  assumes fd: "file_dir F root cs n ch" and x: "(x, m) \<in> set ch"
  obtains G where "fs_delete F cwd (rebuild_path (cs @ [x])) = Inr G" "file_dir G root cs n (child_remove x ch)"
    "\<And>q. is_directory G q = is_directory F q"
proof -
  have at: "at_path F root cs n" and fs: "fs_ok F" and cs: "cs \<noteq> []" and ms: "mounts F = [([slash], root)]"
    using fd by (simp_all add: file_dir_def at_path_def)
  obtain k where k: "kind_of F n = Some (Dir ch k)" using fd by (auto simp: file_dir_def)
  obtain bs where m: "kind_of F m = Some (File bs 0)" using fd x by (auto simp: file_dir_def)
  then obtain v where v: "nodes F m = Some v" "vkind v = File bs 0" by (auto simp: kind_of_def)
  have ch: "children_ok F ch" using fs_ok_children [OF fs, of n] k by (simp add: dir_children_def)
  then have mx: "map_of ch x = Some m" and nx: "name_ok x" using x by (auto simp: children_ok_map_of children_ok_def)
  have names: "list_all name_ok (cs @ [x])" using at nx by (simp add: at_path_def)
  have at': "at_path F root (cs @ [x]) m" using at k mx names by (simp add: at_path_def walk_append)
  have r: "resolve F cwd (rebuild_path (cs @ [x])) False = Inr \<lparr>res_root = root, res_mount = [slash],
      res_rel = rebuild_path (cs @ [x]), res_attrs = node_attrs v, res_target = None\<rparr>"
    using v by (intro resolve_at_path [OF at']) simp_all
  have nonroot: "rebuild_path (cs @ [x]) \<noteq> [slash]" "rebuild_path (cs @ [x]) \<noteq> []"
    using nx by (auto simp: rebuild_path_snoc name_ok_def append_eq_Cons_conv)
  let ?G = "set_kind n (Dir (child_remove x ch) k) F"
  have G: "fs_ok ?G" using fs_ok_remove [OF fs k] .
  have "fs_delete F cwd (rebuild_path (cs @ [x])) = Inr ?G"
    using r nonroot ms k mx m nx at split_parent_rebuild [OF names]
    by (simp add: fs_delete_def to_absolute_def is_mount_point_def has_mount_within_def delete_in_def raw_get_def
        at_path_def path_comps_rebuild name_ok_def)
  moreover have "n \<noteq> q" if "kind_of F q = Some (File cs' 0)" for q cs' using k that by auto
  then have "file_dir ?G root cs n (child_remove x ch)"
    using fd k at_path_set_kind [OF at G] cs by (fastforce simp: file_dir_def set_child_remove)
  moreover have "is_directory ?G q = is_directory F q" for q
    using k by (auto simp: is_directory_def)
  ultimately show thesis by (rule that)
qed

text \<open>The directory itself cannot be deleted while it has entries.\<close>

lemma fs_delete_nonempty:
  assumes fd: "file_dir F root cs n ch" and ne: "ch \<noteq> []"
  shows "\<exists>e. fs_delete F cwd (rebuild_path cs) = Inl e \<and> kerror_code e \<noteq> E_SUCCESS"
proof -
  have at: "at_path F root cs n" and cs: "cs \<noteq> []" and ms: "mounts F = [([slash], root)]"
    using fd by (simp_all add: file_dir_def at_path_def)
  obtain k where k: "kind_of F n = Some (Dir ch k)" using fd by (auto simp: file_dir_def)
  then obtain v where v: "nodes F n = Some v" "vkind v = Dir ch k" by (auto simp: kind_of_def)
  note r = resolve_at_path [OF at cs v(1), of cwd False]
  have split: "cs = butlast cs @ [last cs]" using cs by simp
  have names: "list_all name_ok (butlast cs @ [last cs])" using at split by (simp add: at_path_def)
  have sp: "split_parent (rebuild_path cs) = (rebuild_path (butlast cs), last cs)"
    using split_parent_rebuild [OF names] split by simp
  obtain q where q: "walk F root (butlast cs) = Inr q" and qn: "walk F q [last cs] = Inr n"
    using at split walk_append [of F root "butlast cs" "[last cs]"] by (auto simp: at_path_def split: sum.splits)
  then obtain dh j where "kind_of F q = Some (Dir dh j)" "map_of dh (last cs) = Some n"
    by (auto split: option.splits node_kind.splits)
  then have "delete_in F root (rebuild_path (butlast cs)) (last cs) = Inl KNotEmpty"
    using q k ne names by (simp add: delete_in_def raw_get_def path_comps_rebuild name_ok_def)
  then show ?thesis
    using r v sp by (simp add: fs_delete_def Let_def E_SUCCESS_def E_FILE_BUSY_def E_NOT_EMPTY_def)
qed

section \<open>Texts\<close>

text \<open>ASCII, so that a path is UTF-8 and a C string.\<close>

definition ascii :: "string \<Rightarrow> bool" where
  "ascii s \<longleftrightarrow> list_all (\<lambda>c. 0 < (of_char c :: nat) \<and> (of_char c :: nat) < 128) s"

lemma ascii_simps [simp]:
  "ascii []" "ascii (a @ b) \<longleftrightarrow> ascii a \<and> ascii b"
  "ascii (c # s) \<longleftrightarrow> 0 < (of_char c :: nat) \<and> (of_char c :: nat) < 128 \<and> ascii s"
  by (auto simp: ascii_def)

lemma ascii_slash [simp]: "0 < (of_char slash :: nat)" "(of_char slash :: nat) < 128"
  by (simp_all add: slash_def)

lemma ascii_utf8: "ascii s \<Longrightarrow> from_utf8_ok s"
  by (induction s) (simp_all add: cont_def)

lemma ascii_NUL: "ascii s \<Longrightarrow> NUL \<notin> set s"
  by (induction s) auto

lemma user_string_ascii: "ascii s \<Longrightarrow> s \<noteq> [] \<Longrightarrow> user_string s = Inr s"
  by (simp add: user_string_def ascii_utf8)

lemma takeWhile_cstr: "NUL \<notin> set t \<Longrightarrow> length t < sz \<Longrightarrow>
  takeWhile (\<lambda>c. c \<noteq> NUL) (bytes (mem_write m p (t @ [NUL])) p sz) = t"
proof -
  assume t: "NUL \<notin> set t" "length t < sz"
  let ?m = "mem_write m p (t @ [NUL])"
  have "bytes ?m p sz = map (\<lambda>i. ?m (p + i)) [0..<length t] @ map (\<lambda>i. ?m (p + i)) [length t..<sz]"
    using t(2) upt_add_eq_append [of 0 "length t" "sz - length t"] by (simp add: bytes_def flip: map_append)
  moreover have "map (\<lambda>i. ?m (p + i)) [0..<length t] = t"
    by (rule nth_equalityI) (simp_all add: mem_write_in nth_append del: One_nat_def)
  moreover have "map (\<lambda>i. ?m (p + i)) [length t..<sz] = NUL # map (\<lambda>i. ?m (p + i)) [Suc (length t)..<sz]"
    using t(2) mem_write_in [of "length t" "t @ [NUL]" m p] by (simp add: upt_conv_Cons)
  ultimately show ?thesis using t(1) by (simp add: takeWhile_append)
qed

lemma join_path_text:
  assumes "ascii dir" "ascii name" "dir \<noteq> []" "last dir \<noteq> slash" "length dir + 1 + length name < PATH_MAX"
  shows "join_path PATH_MAX dir name = Some (dir @ [slash] @ name)"
proof -
  have "format_text ''%s/%s'' [VStr (Some dir), VStr (Some name)] = Some (dir @ [slash] @ name)"
    using assms(5) by (simp add: format_simps slash_def PATH_MAX_def)
  then show ?thesis
    using assms ascii_NUL [of "dir @ [slash] @ name"] takeWhile_cstr [of "dir @ [slash] @ name" PATH_MAX "\<lambda>_. NUL" 0]
    by (simp add: join_path_def snprintf_str_def snprintf_def vsnprintf_text slash_def PATH_MAX_def)
qed

section \<open>The loop\<close>

text \<open>What is left of a list when the first, the third, and so on, are taken away.\<close>

fun every_second :: "'a list \<Rightarrow> 'a list" where
  "every_second (x # y # zs) = y # every_second zs"
| "every_second [] = []"
| "every_second [x] = []"

abbreviation rf :: rm_opts where
  "rf \<equiv> \<lparr>rm_force = True, rm_recursive = True, rm_verbose = False\<rparr>"

definition texts_ok :: "string \<Rightarrow> (string \<times> nat) list \<Rightarrow> bool" where
  "texts_ok p ch \<longleftrightarrow> ascii p \<and> p \<noteq> [] \<and> last p \<noteq> slash \<and> (\<forall>(x, m) \<in> set ch. ascii x \<and> length p + 1 + length x < PATH_MAX)"

lemma fs_kernel_simps [simp]:
  "sys_stat (fs_kernel D) = h_stat" "sys_open (fs_kernel D) = h_open D" "sys_delete (fs_kernel D) = h_delete"
  "sys_readdir (fs_kernel D) = h_readdir" "sys_close (fs_kernel D) = h_close"
  by (simp_all add: fs_kernel_def)

text \<open>One file is removed without a word.\<close>

lemma rm_child:
  assumes fd: "file_dir (pfs (kern w)) root cs n ch" and x: "(x, m) \<in> set ch" and t: "texts_ok (rebuild_path cs) ch"
  obtains G where "rm_run (fs_kernel D) rf (RemovePath (rebuild_path (cs @ [x]))) w = Some (0, w\<lparr>kern := (kern w)\<lparr>pfs := G\<rparr>\<rparr>)"
    "file_dir G root cs n (child_remove x ch)" "\<And>q. is_directory G q = is_directory (pfs (kern w)) q"
proof -
  let ?F = "pfs (kern w)" and ?p = "rebuild_path (cs @ [x])"
  have at: "at_path ?F root cs n" and fs: "fs_ok ?F" and cs: "cs \<noteq> []" using fd by (simp_all add: file_dir_def at_path_def)
  obtain k where k: "kind_of ?F n = Some (Dir ch k)" using fd by (auto simp: file_dir_def)
  obtain bs where m: "kind_of ?F m = Some (File bs 0)" using fd x by (fastforce simp: file_dir_def)
  then obtain v where v: "nodes ?F m = Some v" "vkind v = File bs 0" by (auto simp: kind_of_def)
  have ch: "children_ok ?F ch" using fs_ok_children [OF fs, of n] k by (simp add: dir_children_def)
  have mx: "map_of ch x = Some m" and nx: "name_ok x"
    using x ch children_ok_map_of [OF ch, of x m] by (auto simp: children_ok_def)
  have at': "at_path ?F root (cs @ [x]) m" using at k mx nx by (simp add: at_path_def walk_append)
  have "?p = rebuild_path cs @ [slash] @ x" using cs by (simp add: rebuild_path_snoc)
  then have us: "user_string ?p = Inr ?p" using t x by (intro user_string_ascii) (auto simp: texts_ok_def)
  have "node_mode v = FILE_MODE_FILE" using fs_ok_node [OF fs v(1)] v(2) by simp
  then have st: "h_stat (kern w) ?p 0 = (E_SUCCESS, file_stat_of (node_attrs v), kern w)"
      "\<not> is_dir_mode (st_mode (file_stat_of (node_attrs v)))"
    using us v(2) resolve_at_path [OF at' _ v(1), of "get_cwd (kern w)" False]
    by (simp_all add: h_stat_def fs_stat_def file_stat_of_def node_attrs_def is_dir_mode_def FILE_MODE_FILE_def FILE_MODE_DIR_def)
  obtain G where G: "fs_delete ?F (get_cwd (kern w)) ?p = Inr G" "file_dir G root cs n (child_remove x ch)"
      "\<And>q. is_directory G q = is_directory ?F q"
    using fs_delete_child [OF fd x] by metis
  have "h_delete (kern w) ?p = (E_SUCCESS, (kern w)\<lparr>pfs := G\<rparr>)"
    using G(1) us by (simp add: h_delete_def path_call_def sys_change_def)
  then show thesis
    using st G(2,3) by (intro that [of G]) (subst rm_run.simps, simp_all)
qed

text \<open>The state of the loop: the directory is open, and holds files.\<close>

definition in_loop :: "'d proc_fs \<Rightarrow> nat \<Rightarrow> string list \<Rightarrow> nat \<Rightarrow> int \<Rightarrow> (string \<times> nat) list \<Rightarrow> bool" where
  "in_loop P root cs n h ch \<longleftrightarrow> file_dir (pfs P) root cs n ch \<and> texts_ok (rebuild_path cs) ch \<and>
     (\<exists>f. get_handle P h = Some (FileHandle f) \<and> inst_node f = n \<and> inst_dir f \<and>
        (\<forall>m \<in> set (inst_anc f). is_directory (pfs P) m))"

lemma in_loop_readdir:
  assumes "in_loop P root cs n h ch"
  shows "h_readdir P h (2 + i) PATH_MAX =
    (if i < length ch then (E_SUCCESS, fst (ch ! i), P) else (E_NO_DIR_ENTRIES, [], P))"
proof -
  obtain k where k: "kind_of (pfs P) n = Some (Dir ch k)" using assms by (auto simp: in_loop_def file_dir_def)
  have "length (fst (ch ! i)) + 1 \<le> PATH_MAX" if "i < length ch"
  proof -
    have "(fst (ch ! i), snd (ch ! i)) \<in> set ch" using that by simp
    then show ?thesis using assms by (fastforce simp: in_loop_def texts_ok_def)
  qed
  then show ?thesis
    using assms k by (auto simp: in_loop_def h_readdir_def inst_readdir_def readdir_def to_buffer_def)
qed

lemma in_loop_end:
  assumes lp: "in_loop (kern w) root cs n h ch" and off: "length ch \<le> i"
  shows "\<exists>w'. rm_run (fs_kernel D) rf (RemoveLoop (rebuild_path cs) h (2 + i) 0) w = Some (0, w') \<and>
    file_dir (pfs (kern w')) root cs n ch"
proof -
  obtain f where f: "get_handle (kern w) h = Some (FileHandle f)" "inst_node f = n"
      "\<forall>m \<in> set (inst_anc f). is_directory (pfs (kern w)) m"
    using lp by (auto simp: in_loop_def)
  have fd: "file_dir (pfs (kern w)) root cs n ch" using lp by (simp add: in_loop_def)
  then have "is_directory (pfs (kern w)) n" by (auto simp: file_dir_def is_directory_def)
  then have "file_dir (drop_inst f (pfs (kern w))) root cs n ch"
    unfolding drop_inst_def close_node_def using f fd by (intro file_dir_fold_count) auto
  moreover have "pfs (snd (h_close (kern w) h)) = drop_inst f (pfs (kern w))"
    using f by (simp add: h_close_def remove_handle_def)
  moreover have "rm_run (fs_kernel D) rf (RemoveLoop (rebuild_path cs) h (2 + i) 0) w =
      Some (0, w\<lparr>kern := snd (h_close (kern w) h)\<rparr>)"
    using in_loop_readdir [OF lp, of i] off by (subst rm_run.simps) simp
  ultimately show ?thesis by simp
qed

lemma child_remove_mid:
  "children_ok F (kept @ (x, m) # ys) \<Longrightarrow> child_remove x (kept @ (x, m) # ys) = kept @ ys"
  by (fastforce simp: children_ok_def child_remove_def sorted_wrt_append filter_id_conv intro!: arg_cong2 [where f = append])

lemma get_handle_pfs [simp]: "get_handle (P\<lparr>pfs := G\<rparr>) = get_handle P"
  by (simp add: get_handle_def fun_eq_iff)

lemma in_loop_step:
  assumes lp: "in_loop (kern w) root cs n h (kept @ (x, m) # ys)"
  shows "\<exists>w'. rm_run (fs_kernel D) rf (RemoveLoop (rebuild_path cs) h (2 + length kept) 0) w =
      rm_run (fs_kernel D) rf (RemoveLoop (rebuild_path cs) h (2 + (length kept + 1)) 0) w' \<and>
    in_loop (kern w') root cs n h (kept @ ys)"
proof -
  let ?ch = "kept @ (x, m) # ys" and ?F = "pfs (kern w)"
  have fd: "file_dir ?F root cs n ?ch" and t: "texts_ok (rebuild_path cs) ?ch" using lp by (simp_all add: in_loop_def)
  obtain k where k: "kind_of ?F n = Some (Dir ?ch k)" using fd by (auto simp: file_dir_def)
  have ch: "children_ok ?F ?ch"
    using fd k fs_ok_children [of ?F n] by (simp add: file_dir_def at_path_def dir_children_def)
  then have nx: "x \<noteq> ''.''" "x \<noteq> ''..''" by (auto simp: children_ok_def name_ok_def)
  have cs: "cs \<noteq> []" using fd by (simp add: file_dir_def)
  obtain G where G: "rm_run (fs_kernel D) rf (RemovePath (rebuild_path (cs @ [x]))) w = Some (0, w\<lparr>kern := (kern w)\<lparr>pfs := G\<rparr>\<rparr>)"
      "file_dir G root cs n (child_remove x ?ch)" "\<And>q. is_directory G q = is_directory ?F q"
    by (rule rm_child [OF fd _ t]) auto
  have "join_path PATH_MAX (rebuild_path cs) x = Some (rebuild_path (cs @ [x]))"
    using t cs by (subst join_path_text) (auto simp: texts_ok_def rebuild_path_snoc)
  then have "rm_run (fs_kernel D) rf (RemoveLoop (rebuild_path cs) h (2 + length kept) 0) w =
      rm_run (fs_kernel D) rf (RemoveLoop (rebuild_path cs) h (2 + (length kept + 1)) 0) (w\<lparr>kern := (kern w)\<lparr>pfs := G\<rparr>\<rparr>)"
    using in_loop_readdir [OF lp, of "length kept"] nx G(1)
    by (subst rm_run.simps) (simp add: E_SUCCESS_def E_NO_DIR_ENTRIES_def)
  moreover have "in_loop ((kern w)\<lparr>pfs := G\<rparr>) root cs n h (kept @ ys)"
    using lp G(2,3) child_remove_mid [OF ch] t
    by (auto simp: in_loop_def texts_ok_def)
  ultimately show ?thesis by (intro exI [of _ "w\<lparr>kern := (kern w)\<lparr>pfs := G\<rparr>\<rparr>"]) simp
qed

lemma rm_loop:
  "in_loop (kern w) root cs n h (kept @ ys) \<Longrightarrow>
   \<exists>w'. rm_run (fs_kernel D) rf (RemoveLoop (rebuild_path cs) h (2 + length kept) 0) w = Some (0, w') \<and>
     file_dir (pfs (kern w')) root cs n (kept @ every_second ys)"
proof (induction ys arbitrary: kept w rule: every_second.induct)
  case (1 e d zs)
  obtain w1 where w1: "rm_run (fs_kernel D) rf (RemoveLoop (rebuild_path cs) h (2 + length kept) 0) w =
      rm_run (fs_kernel D) rf (RemoveLoop (rebuild_path cs) h (2 + (length kept + 1)) 0) w1"
      "in_loop (kern w1) root cs n h (kept @ d # zs)"
    using in_loop_step [of w root cs n h kept "fst e" "snd e" "d # zs" D] "1.prems" by auto
  then show ?case using "1.IH" [of w1 "kept @ [d]"] by simp
next
  case 2
  then show ?case using in_loop_end [of w root cs n h kept "length kept" D] by simp
next
  case (3 e)
  obtain w1 where w1: "rm_run (fs_kernel D) rf (RemoveLoop (rebuild_path cs) h (2 + length kept) 0) w =
      rm_run (fs_kernel D) rf (RemoveLoop (rebuild_path cs) h (2 + (length kept + 1)) 0) w1"
      "in_loop (kern w1) root cs n h kept"
    using in_loop_step [of w root cs n h kept "fst e" "snd e" "[]" D] 3 by auto
  then show ?case using in_loop_end [of w1 root cs n h kept "length kept + 1" D] by simp
qed

lemma first_free_get: "first_free x hs = (i, hs') \<Longrightarrow> i < length hs' \<and> hs' ! i = Some x"
  by (induction x hs arbitrary: i hs' rule: first_free.induct) (auto split: prod.splits)

text \<open>The directory is opened, and the entries \<open>.\<close> and \<open>..\<close> are passed over.\<close>

lemma rm_open:
  assumes fd: "file_dir (pfs P) root cs n ch" and t: "texts_ok (rebuild_path cs) ch"
  obtains h P' where "h_open D P ''fs'' (rebuild_path cs) 0 = (h, P')" "0 \<le> h" "in_loop P' root cs n h ch"
proof -
  obtain f G where f: "fs_open (pfs P) (get_cwd P) (rebuild_path cs) = Inr (f, G)" "inst_node f = n" "inst_dir f"
      "\<forall>m \<in> set (inst_anc f). is_directory (pfs P) m" "file_dir G root cs n ch" "\<And>m. is_directory G m = is_directory (pfs P) m"
    using fs_open_dir [OF fd] by metis
  let ?x = "\<lparr>handle_info = FileHandle f, is_inheritable = False\<rparr>"
  obtain i hs where hs: "first_free ?x (handle_table P) = (i, hs)" by (cases "first_free ?x (handle_table P)")
  have us: "user_string ''fs'' = Inr ''fs''" "user_string (rebuild_path cs) = Inr (rebuild_path cs)"
    using t by (auto simp: texts_ok_def intro!: user_string_ascii)
  let ?P = "P\<lparr>pfs := G, handle_table := hs\<rparr>"
  have "h_open D P ''fs'' (rebuild_path cs) 0 = (int i, ?P)"
    using us f(1) hs by (simp add: h_open_def open_fs_handler_def opened_def new_file_handle_def add_new_handle_def)
  moreover have "in_loop ?P root cs n (int i) ch"
    using f(2-) t first_free_get [OF hs] by (simp add: in_loop_def get_handle_def)
  ultimately show thesis by (intro that) simp_all
qed

lemma rm_dots:
  assumes lp: "in_loop (kern w) root cs n h ch"
  shows "rm_run (fs_kernel D) rf (RemoveLoop (rebuild_path cs) h 0 0) w = rm_run (fs_kernel D) rf (RemoveLoop (rebuild_path cs) h 2 0) w"
proof -
  have dots: "h_readdir (kern w) h 0 PATH_MAX = (E_SUCCESS, ''.'', kern w)" "h_readdir (kern w) h 1 PATH_MAX = (E_SUCCESS, ''..'', kern w)"
    using lp by (auto simp: in_loop_def h_readdir_def inst_readdir_def readdir_def to_buffer_def PATH_MAX_def)
  have "rm_run (fs_kernel D) rf (RemoveLoop (rebuild_path cs) h 0 0) w = rm_run (fs_kernel D) rf (RemoveLoop (rebuild_path cs) h 1 0) w"
    using dots(1) by (subst rm_run.simps) (simp add: E_SUCCESS_def E_NO_DIR_ENTRIES_def)
  also have "\<dots> = rm_run (fs_kernel D) rf (RemoveLoop (rebuild_path cs) h 2 0) w"
    using dots(2) by (subst rm_run.simps) (simp add: E_SUCCESS_def E_NO_DIR_ENTRIES_def numeral_2_eq_2)
  finally show ?thesis .
qed

lemma rm_dir_run:
  assumes fd: "file_dir (pfs (kern w)) root cs n ch" and t: "texts_ok (rebuild_path cs) ch" and two: "2 \<le> length ch"
  shows "\<exists>w'. rm_run (fs_kernel D) rf (RemovePath (rebuild_path cs)) w = Some (0, w') \<and>
    file_dir (pfs (kern w')) root cs n (every_second ch)"
proof -
  let ?p = "rebuild_path cs" and ?F = "pfs (kern w)"
  have at: "at_path ?F root cs n" and cs: "cs \<noteq> []" and fs: "fs_ok ?F" using fd by (simp_all add: file_dir_def at_path_def)
  obtain k where "kind_of ?F n = Some (Dir ch k)" using fd by (auto simp: file_dir_def)
  then obtain v where v: "nodes ?F n = Some v" "vkind v = Dir ch k" by (auto simp: kind_of_def)
  have us: "user_string ?p = Inr ?p" using t by (auto simp: texts_ok_def intro!: user_string_ascii)
  have "node_mode v = FILE_MODE_DIR" using fs_ok_node [OF fs v(1)] v(2) by simp
  then have st: "h_stat (kern w) ?p 0 = (E_SUCCESS, file_stat_of (node_attrs v), kern w)"
      "is_dir_mode (st_mode (file_stat_of (node_attrs v)))"
    using us v(2) resolve_at_path [OF at cs v(1), of "get_cwd (kern w)" False]
    by (simp_all add: h_stat_def fs_stat_def file_stat_of_def node_attrs_def is_dir_mode_def FILE_MODE_DIR_def)
  obtain h P where h: "h_open D (kern w) ''fs'' ?p 0 = (h, P)" "0 \<le> h" "in_loop P root cs n h ch"
    using rm_open [OF fd t] by metis
  obtain w' where w': "rm_run (fs_kernel D) rf (RemoveLoop ?p h 0 0) (w\<lparr>kern := P\<rparr>) = Some (0, w')"
      "file_dir (pfs (kern w')) root cs n (every_second ch)"
    using rm_loop [of "w\<lparr>kern := P\<rparr>" root cs n h "[]" ch D] h(3) rm_dots [of "w\<lparr>kern := P\<rparr>" root cs n h ch D] by auto
  have "every_second ch \<noteq> []" using two by (cases ch rule: every_second.cases) auto
  then obtain e where "fs_delete (pfs (kern w')) (get_cwd (kern w')) ?p = Inl e" "kerror_code e \<noteq> E_SUCCESS"
    using fs_delete_nonempty [OF w'(2)] by blast
  then have "h_delete (kern w') ?p = (kerror_code e, kern w')" "kerror_code e \<noteq> E_SUCCESS"
    using us by (simp_all add: h_delete_def path_call_def sys_change_def)
  then have "rm_run (fs_kernel D) rf (RemovePath ?p) w = Some (0, w')"
    using st h(1,2) w'(1) by (subst rm_run.simps) simp
  then show ?thesis using w'(2) by blast
qed

section \<open>Property\<close>

text \<open>C39. Finding: \<open>rm -rf\<close> of a directory of at least two files removes the first, the third, and every other one of
  them in the order of their names, leaves the rest and the directory, prints nothing and returns 0.\<close>

theorem rm_rf_skips:
  assumes "file_dir (pfs (kern w)) root cs n ch" "texts_ok (rebuild_path cs) ch" "2 \<le> length ch"
  shows "\<exists>w'. remove_path (fs_kernel D) \<lparr>rm_force = True, rm_recursive = True, rm_verbose = False\<rparr> (rebuild_path cs) w =
      Some (0, w') \<and> file_dir (pfs (kern w')) root cs n (every_second ch)"
  using rm_dir_run [OF assms] by (simp add: remove_path_def)

definition demo_world :: "unit proc_fs world" where
  "demo_world = \<lparr>files = (\<lambda>_. unbound_file), next_file = 3, kern = demo\<rparr>"

lemma demo_ok: "fs_ok (pfs demo)"
  using reachable_ok [OF demo_init, of sink_driver "[True]" "()" demo] by (simp add: demo_def proc_ok_def sys_ok_def)

text \<open>The boot image in the store.\<close>

definition demo_facts :: "fs \<Rightarrow> bool" where
  "demo_facts F \<longleftrightarrow> mounts F = [([slash], 0)] \<and> walk F 0 [''d''] = Inr 1 \<and>
     map (kind_of F) [1, 2, 3, 4] = [Some (Dir [(''a'', 2), (''b'', 3), (''c'', 4)] 0),
       Some (File ''1'' 0), Some (File ''2'' 0), Some (File ''3'' 0)]"

theorem rm_rf_skips_witness:
  "kind_of (pfs (kern demo_world)) 1 = Some (Dir [(''a'', 2), (''b'', 3), (''c'', 4)] 0) \<and>
   (\<exists>w'. remove_path (fs_kernel sink_driver) \<lparr>rm_force = True, rm_recursive = True, rm_verbose = False\<rparr> ''/d'' demo_world =
      Some (0, w') \<and> dir_children (pfs (kern w')) 1 = [(''b'', 3)])"
proof -
  have facts: "demo_facts (pfs demo)" by code_simp
  then have d: "kind_of (pfs demo) 1 = Some (Dir [(''a'', 2), (''b'', 3), (''c'', 4)] 0)" by (simp add: demo_facts_def)
  have "name_ok ''d''" by code_simp
  then have fd: "file_dir (pfs (kern demo_world)) 0 [''d''] 1 [(''a'', 2), (''b'', 3), (''c'', 4)]"
    using facts demo_ok by (simp add: demo_facts_def file_dir_def at_path_def demo_world_def del: walk.simps)
  have p: "rebuild_path [''d''] = ''/d''" by code_simp
  have t: "texts_ok (rebuild_path [''d'']) [(''a'', 2 :: nat), (''b'', 3), (''c'', 4)]"
    by (simp add: p texts_ok_def slash_def PATH_MAX_def)
  obtain w' where "remove_path (fs_kernel sink_driver) rf ''/d'' demo_world = Some (0, w')"
      "file_dir (pfs (kern w')) 0 [''d''] 1 (every_second [(''a'', 2), (''b'', 3), (''c'', 4)])"
    using rm_rf_skips [OF fd t, of sink_driver] p by auto
  then show ?thesis using d by (auto simp: file_dir_def dir_children_def demo_world_def)
qed

end
