(* ===== verification/Spec2Isabelle.thy ===== *)
theory Spec2Isabelle
  imports Ctype CString Malloc_Props Stdlib Environ Printf Stdio_Props Getopt Cat Wc Head Tail Echo Scanf Cond_Var Signal
    Shell_Roundtrip Shell_Props Fs_Rename Rm_Props
begin

text \<open>
  A verification development for Archis: the C library under \<open>userspace/libc\<close>, the shell under \<open>userspace/sh\<close>, the
  utilities \<open>cat\<close>, \<open>wc\<close>, \<open>head\<close>, \<open>tail\<close>, \<open>echo\<close>, \<open>rm\<close> and \<open>mkdir\<close>, and the file system of the kernel under
  \<open>kernel/src/fs\<close>. The programs call the library, the library calls the kernel through the system calls of
  \<open>include/sys/syscall.h\<close>, and those on files are served by the file system.

  \<^bold>\<open>Conventions.\<close> A byte is a \<open>char\<close>; an \<open>int\<close>, \<open>long\<close> or \<open>size_t\<close> is an integer with the wrap-around of its type
  written out (\<open>int32\<close>, \<open>int64\<close>, \<open>uint64\<close> of theory Prelude) or a 64-bit word (the allocator); a C string is a
  list of characters without its NUL, except where addresses matter. A function that stores through a pointer
  returns what it stored. The kernel is a parameter: the record \<open>kernel\<close> of theory Kernel has one function per
  system call on an abstract state \<open>'k\<close>, and every theorem holds for all such kernels, or for those that keep a
  documented promise, which is then a named hypothesis. A result \<open>None\<close> stands for a loop that does not end, an
  access outside of an array, or an argument list that does not fit its format.

  \<^bold>\<open>Strings and numbers.\<close> Ctype models \<open>ctype.c\<close>, CString models \<open>string.c\<close> and \<open>memory.c\<close> on a byte memory with
  addresses, Stdlib models \<open>stdlib.c\<close>: each operation is compared with its specification on texts and numbers, and
  printing and parsing are inverse.

  \<^bold>\<open>Memory.\<close> Malloc models \<open>malloc.c\<close> with the block headers in the byte memory. Malloc_Rep relates the memory to
  chunks and a sorted free list, Malloc_Inv states the invariant, Malloc_Correct and Malloc_Props show that every
  operation refines the abstract one: blocks do not overlap, live bytes survive, free blocks are merged. The scans
  of the free list end because the list is finite.

  \<^bold>\<open>Environment and options.\<close> Environ models \<open>environ.c\<close>: every store stays in the array and the functions refine
  updates of a map. Getopt models \<open>getopt.c\<close>: what is written as options is read as options, and the loop ends.

  \<^bold>\<open>Streams.\<close> Printf and Scanf model the formatted output of \<open>stdio.c\<close> and \<open>scanf.c\<close>, the latter over a locale of
  character sources with strings and files as its instances. Stdio models the streams of \<open>stdio.c\<close>; Streams and
  Stdio_Props relate a stream to the bytes that are left to be read and were written; Ram_Kernel has a kernel in
  memory for examples.

  \<^bold>\<open>Utilities.\<close> Lines has the line reader that \<open>cat.c\<close>, \<open>head.c\<close>, \<open>tail.c\<close> and the shell share, and Fifo the
  queue of \<open>head\<close> and \<open>tail\<close>. Cat, Wc, Head, Tail and Echo model the programs with their \<open>main\<close>, and show that they
  print what a reference on the list of lines prescribes.

  \<^bold>\<open>Threads and signals.\<close> Pthread models \<open>pthread.c\<close> as one thread executes it. Interleave has the interleaving of
  any number of threads over a shared state, with a locale for assertions that the threads keep for one another
  and one for accounts of resources. Pthread_Race and Cond_Var interpret them for the lazy initialisation and for
  condition variables: nothing leaks and no wake-up is lost. Signal models \<open>signal.c\<close>.

  \<^bold>\<open>Shell.\<close> Shell_Parse models \<open>sh/parse.c\<close> and the types of \<open>job.h\<close>, with every string on the heap in a ledger.
  Shell_Parse_Props shows that no string is lost or freed twice and that the result fits its arrays,
  Shell_Roundtrip that what is written as a command line is read back. Shell_Exec models \<open>redir.c\<close>, \<open>exec.c\<close>,
  \<open>builtins.c\<close> and \<open>main.c\<close>; the record \<open>shell\<close> is the context \<open>sh_ctx_t\<close> with the rest of the memory of the process.
  Scripts that source scripts nest up to a depth that is an argument of \<open>sh_run_script\<close>, as the stack bounds it in
  the program; the theorems hold for every depth. Shell_Exec_Props has the shared lemmas, Shell_Strings the
  strings from the parser to the background table, Shell_Handles and Shell_Props the handles, the search along
  \<open>PATH\<close>, and command lines that the executor does not check.

  \<^bold>\<open>File system.\<close> Vfs models \<open>fs/vfs.rs\<close>: the nodes are in a store, the record \<open>fs\<close>, which also has the table of
  mounts; a reference is a number, and the children of a directory are an ordered association list. Fs models the
  mounts of \<open>fs/mount.rs\<close>, the operations on paths of \<open>fs/mod.rs\<close>, the open files of \<open>fs/file.rs\<close> and the handlers of
  \<open>sched/user.rs\<close> on the record \<open>proc_fs\<close> of a process, and makes them an instance of the record \<open>kernel\<close>. A path is
  followed through at most eight links, as in the source. Vfs_Props shows that every operation keeps the store well
  formed, Vfs_Open that the counts of open files are exact and protect the places of the nodes, Fs_Props carries
  both to the operations on paths and to handles, and Fs_Calls to every state that system calls reach from the
  start of the system. Fs_Rename shows what renaming a directory into itself does.

  \<^bold>\<open>Removing.\<close> Rm models \<open>rm.c\<close> and \<open>mkdir.c\<close>. The functions of \<open>rm.c\<close> that call each other are one partial function
  over the calls, without a bound on their depth. Rm_Props runs \<open>rm -rf\<close> on the file system of the kernel, and shows
  that it returns and which entries it leaves.

  \<^bold>\<open>Not modelled.\<close> The rest of the kernel (memory, scheduling, pipes, signals, devices), the drivers and the boot
  loader are Rust on the hardware, the ACPI code is vendored from elsewhere; of their system calls only the
  interface appears, as a parameter. Of the file system, mounts that a driver serves, the stop at shutdown, handles
  that processes share, and the locks of the nodes, but for an operation that would wait for itself, are left out.
  The start-up code and the system-call stubs are assembly or one instruction each. The remaining utilities (\<open>cp\<close>,
  \<open>mv\<close>, \<open>rmdir\<close>, \<open>ln\<close>, \<open>ls\<close>, \<open>ps\<close>, \<open>kill\<close>, \<open>mount\<close> and so on) are not translated. The programs that only exercise the
  kernel (\<open>producer\<close>, \<open>consumer\<close>, the tests) have no contract. The thread of a background chain is modelled as it runs
  alone; its interleaving with the prompt, which share the shell's context without a lock, is not.
\<close>

end
